(* ===== verification/Prelude.thy ===== *)
theory Prelude
  imports Complex_Main "HOL-Library.AList" "HOL-Library.List_Lexorder" "HOL-Library.Char_ord"
    "HOL-Library.Multiset"
begin

text \<open>
  Shared vocabulary of the development.  A Python \<open>dict\<close> is an association list in
  insertion order (\<open>AList.update\<close> overwrites in place and appends a new key, as
  \<open>d[k] = v\<close> does); a JSON-like value (\<open>Any\<close> in the sources) is the datatype
  \<open>json\<close>; a Python \<open>float\<close> is a rational number (rounding is not modelled).
  The lemmas are about these containers only and are shared by every component.
\<close>

named_theorems dict_simps

type_synonym 'v dict = "(string \<times> 'v) list"

datatype json =
    JNull
  | JBool bool
  | JInt int
  | JFloat rat
  | JStr string
  | JList "json list"
  | JDict "(string \<times> json) list"

section \<open>Dictionaries\<close>

definition dict_has :: "('k \<times> 'v) list \<Rightarrow> 'k \<Rightarrow> bool" where
  "dict_has d k = (map_of d k \<noteq> None)"

definition dict_get :: "('k \<times> 'v) list \<Rightarrow> 'k \<Rightarrow> 'v \<Rightarrow> 'v" where
  "dict_get d k dflt = (case map_of d k of None \<Rightarrow> dflt | Some v \<Rightarrow> v)"

text \<open>\<open>d1.update(d2)\<close>: the entries of \<open>d2\<close> are stored one after the other.\<close>

definition dict_merge :: "('k \<times> 'v) list \<Rightarrow> ('k \<times> 'v) list \<Rightarrow> ('k \<times> 'v) list" where
  "dict_merge d1 d2 = foldl (\<lambda>d (k, v). AList.update k v d) d1 d2"

text \<open>\<open>groups.setdefault(key(x), []).append(x)\<close> for every \<open>x\<close> of a list.\<close>

definition group_add :: "('a \<Rightarrow> 'k) \<Rightarrow> ('k \<times> 'a list) list \<Rightarrow> 'a \<Rightarrow> ('k \<times> 'a list) list" where
  "group_add key gs x = AList.update (key x) (dict_get gs (key x) [] @ [x]) gs"

definition group_by :: "('a \<Rightarrow> 'k) \<Rightarrow> 'a list \<Rightarrow> ('k \<times> 'a list) list" where
  "group_by key xs = foldl (group_add key) [] xs"

lemma dict_has_iff [dict_simps]: "dict_has d k \<longleftrightarrow> k \<in> fst ` set d"
  by (metis dict_has_def map_of_eq_None_iff)

lemma dict_get_None [dict_simps]: "map_of d k = None \<Longrightarrow> dict_get d k x = x"
  by (simp add: dict_get_def)

lemma dict_get_Some [dict_simps]: "map_of d k = Some v \<Longrightarrow> dict_get d k x = v"
  by (simp add: dict_get_def)

lemma map_of_update [dict_simps]: "map_of (AList.update k v d) = (map_of d)(k \<mapsto> v)"
  by (rule update_conv')

lemma dict_get_update [dict_simps]:
  "dict_get (AList.update k v d) k' x = (if k' = k then v else dict_get d k' x)"
  by (simp add: dict_get_def update_conv')

lemma keys_update [dict_simps]: "fst ` set (AList.update k v d) = insert k (fst ` set d)"
  by (simp add: dom_update)

lemma distinct_keys_update [dict_simps, intro]:
  "distinct (map fst d) \<Longrightarrow> distinct (map fst (AList.update k v d))"
  by (rule distinct_update)

lemma map_fst_update [dict_simps]:
  "map fst (AList.update k v d) = (if k \<in> fst ` set d then map fst d else map fst d @ [k])"
  by (simp add: update_keys)

lemma map_of_map_snd: "map_of (map (\<lambda>(k, v). (k, f k v)) d) k = map_option (f k) (map_of d k)"
  by (induction d) auto

lemma map_fst_map_snd [simp]: "map fst (map (\<lambda>(k, v). (k, f k v)) d) = map fst d"
  by (induction d) auto

lemma map_of_filter_key:
  "map_of (filter (\<lambda>(k, v). P k) d) k = (if P k then map_of d k else None)"
  by (induction d) auto

lemma distinct_map_fst_filter: "distinct (map fst d) \<Longrightarrow> distinct (map fst (filter P d))"
  by (induction d) auto

section \<open>Grouping\<close>

lemma distinct_group_by: "distinct (map fst (group_by key xs))"
proof -
  have "distinct (map fst gs) \<Longrightarrow> distinct (map fst (foldl (group_add key) gs xs))" for gs
    by (induction xs arbitrary: gs) (auto simp: group_add_def distinct_update)
  then show ?thesis by (simp add: group_by_def)
qed

lemma map_of_group_foldl:
  "dict_get (foldl (group_add key) gs xs) k [] = dict_get gs k [] @ filter (\<lambda>x. key x = k) xs"
  by (induction xs arbitrary: gs) (auto simp: group_add_def dict_get_update)

lemma keys_group_foldl:
  "fst ` set (foldl (group_add key) gs xs) = fst ` set gs \<union> key ` set xs"
  by (induction xs arbitrary: gs) (auto simp: group_add_def keys_update)

lemma group_by_mem:
  assumes "(k, g) \<in> set (group_by key xs)"
  shows "g = filter (\<lambda>x. key x = k) xs \<and> g \<noteq> []"
proof -
  from assms have "map_of (group_by key xs) k = Some g"
    by (simp add: distinct_group_by)
  then have g: "g = filter (\<lambda>x. key x = k) xs"
    using map_of_group_foldl [of key "[]" xs k] by (simp add: group_by_def dict_get_def)
  moreover have "k \<in> key ` set xs"
    using assms keys_group_foldl [of key "[]" xs] by (force simp: group_by_def)
  ultimately show ?thesis by (auto simp: filter_empty_conv)
qed

lemma map_of_group_by:
  "map_of (group_by key xs) k =
     (if k \<in> key ` set xs then Some (filter (\<lambda>x. key x = k) xs) else None)"
proof (cases "map_of (group_by key xs) k")
  case None
  then have "k \<notin> fst ` set (group_by key xs)" by (simp add: map_of_eq_None_iff)
  then have "k \<notin> key ` set xs" by (simp add: group_by_def keys_group_foldl)
  with None show ?thesis by simp
next
  case (Some g)
  then have "(k, g) \<in> set (group_by key xs)" by (rule map_of_SomeD)
  from group_by_mem [OF this] Some show ?thesis
    by (auto simp: filter_empty_conv)
qed

lemma mset_group_add:
  assumes "distinct (map fst gs)"
  shows "mset (concat (map snd (group_add key gs x))) = add_mset x (mset (concat (map snd gs)))"
  using assms
proof (induction gs)
  case Nil
  then show ?case by (simp add: group_add_def dict_get_def)
next
  case (Cons p gs)
  obtain k g where p: "p = (k, g)" by (cases p)
  show ?case
  proof (cases "k = key x")
    case True
    then show ?thesis by (simp add: p group_add_def dict_get_def)
  next
    case False
    then have "group_add key (p # gs) x = (k, g) # group_add key gs x"
      by (auto simp: p group_add_def dict_get_def)
    with Cons show ?thesis by (simp add: p)
  qed
qed

lemma distinct_group_add: "distinct (map fst gs) \<Longrightarrow> distinct (map fst (group_add key gs x))"
  unfolding group_add_def by (rule distinct_update)

text \<open>Flattening the groups loses and duplicates nothing.\<close>

lemma mset_group_by: "mset (concat (map snd (group_by key xs))) = mset xs"
proof -
  have "distinct (map fst gs) \<Longrightarrow>
      mset (concat (map snd (foldl (group_add key) gs xs))) = mset (concat (map snd gs)) + mset xs"
    for gs
  proof (induction xs arbitrary: gs)
    case Nil
    then show ?case by simp
  next
    case (Cons x xs)
    show ?case
      using Cons.IH [OF distinct_group_add [OF Cons.prems]] mset_group_add [OF Cons.prems]
      by simp
  qed
  from this [of "[]"] show ?thesis by (simp add: group_by_def)
qed

section \<open>Python values\<close>

text \<open>Truthiness of a value (\<open>bool(v)\<close>).\<close>

fun truthy :: "json \<Rightarrow> bool" where
  "truthy JNull = False"
| "truthy (JBool b) = b"
| "truthy (JInt i) = (i \<noteq> 0)"
| "truthy (JFloat r) = (r \<noteq> 0)"
| "truthy (JStr s) = (s \<noteq> [])"
| "truthy (JList xs) = (xs \<noteq> [])"
| "truthy (JDict d) = (d \<noteq> [])"

text \<open>The number a bool, int or float stands for in comparisons: \<open>True == 1 == 1.0\<close>.\<close>

fun num_of :: "json \<Rightarrow> rat option" where
  "num_of (JBool b) = Some (if b then 1 else 0)"
| "num_of (JInt i) = Some (of_int i)"
| "num_of (JFloat r) = Some r"
| "num_of _ = None"

text \<open>Python's \<open>==\<close>: numeric across bool, int and float; dictionaries regardless of order.\<close>

lemma size_mem_list: "x \<in> set xs \<Longrightarrow> size x < Suc (size_list size xs)"
  by (induction xs) auto

lemma size_mem_dict: "(k, v) \<in> set d \<Longrightarrow> size v < Suc (size_list (size_prod (\<lambda>_. 0) size) d)"
  by (induction d) auto

function py_eq :: "json \<Rightarrow> json \<Rightarrow> bool" where
  "py_eq x y = (case num_of x of Some a \<Rightarrow> num_of y = Some a | None \<Rightarrow>
     (case x of JNull \<Rightarrow> y = JNull
      | JStr s \<Rightarrow> y = JStr s
      | JList xs \<Rightarrow> (case y of JList ys \<Rightarrow> list_all2 py_eq xs ys | _ \<Rightarrow> False)
      | JDict xs \<Rightarrow> (case y of JDict ys \<Rightarrow> length xs = length ys \<and>
            (\<forall>p \<in> set xs. case map_of ys (fst p) of None \<Rightarrow> False | Some w \<Rightarrow> py_eq (snd p) w)
          | _ \<Rightarrow> False)
      | _ \<Rightarrow> False))"
  by pat_completeness auto
termination
  by (relation "measure (size o fst)") (auto simp: size_mem_list dest: size_mem_dict)

declare py_eq.simps [simp del]

definition dict_eq :: "json dict \<Rightarrow> json dict \<Rightarrow> bool" where
  "dict_eq d1 d2 = py_eq (JDict d1) (JDict d2)"

lemma py_eq_str [simp]: "py_eq (JStr s) v \<longleftrightarrow> v = JStr s"
  by (simp add: py_eq.simps)

lemma dict_eq_lookup:
  "dict_eq d1 d2 \<Longrightarrow> (k, v) \<in> set d1 \<Longrightarrow> \<exists>w. map_of d2 k = Some w \<and> py_eq v w"
  by (force simp: dict_eq_def py_eq.simps [of "JDict d1"] split: option.splits)

text \<open>\<open>s.split(c)\<close> for a one-character separator.\<close>

fun py_split :: "char \<Rightarrow> string \<Rightarrow> string list" where
  "py_split c [] = [[]]"
| "py_split c (x # xs) = (if x = c then [] # py_split c xs else
     (case py_split c xs of [] \<Rightarrow> [[x]] | w # ws \<Rightarrow> (x # w) # ws))"

text \<open>\<open>sep.join(parts)\<close>.\<close>

fun py_join :: "string \<Rightarrow> string list \<Rightarrow> string" where
  "py_join sep [] = []"
| "py_join sep [x] = x"
| "py_join sep (x # xs) = x @ sep @ py_join sep xs"

text \<open>\<open>d.pop(k, None)\<close>: the dictionary without the key.\<close>

lemma map_of_delete [dict_simps]: "map_of (AList.delete k d) = (map_of d)(k := None)"
  by (rule delete_conv')

lemma distinct_keys_delete [dict_simps, intro]:
  "distinct (map fst d) \<Longrightarrow> distinct (map fst (AList.delete k d))"
  by (rule distinct_delete)

lemma map_of_dict_merge [dict_simps]:
  "distinct (map fst d2) \<Longrightarrow> map_of (dict_merge d1 d2) = map_of d1 ++ map_of d2"
proof (induction d2 arbitrary: d1)
  case (Cons p d2)
  obtain k v where p: "p = (k, v)" by (cases p)
  have "map_of (dict_merge d1 (p # d2)) = (map_of d1)(k \<mapsto> v) ++ map_of d2"
    using Cons by (simp add: p dict_merge_def map_of_update)
  moreover have "map_of d2 k = None" using Cons.prems by (simp add: p map_of_eq_None_iff)
  ultimately show ?case
    by (simp add: p fun_eq_iff map_add_def split: option.split)
qed (simp add: dict_merge_def)

lemma distinct_dict_merge: "distinct (map fst d1) \<Longrightarrow> distinct (map fst (dict_merge d1 d2))"
  by (induction d2 arbitrary: d1) (auto simp: dict_merge_def distinct_update)


section \<open>Strings\<close>

text \<open>Python's whitespace among the 8-bit characters (\<open>str.isspace\<close>, \<open>\s\<close>).\<close>

definition is_space :: "char \<Rightarrow> bool" where
  "is_space c = (let n = of_char c :: nat in (9 \<le> n \<and> n \<le> 13) \<or> (28 \<le> n \<and> n \<le> 32) \<or> n = 133 \<or> n = 160)"

definition py_strip :: "string \<Rightarrow> string" where
  "py_strip s = rev (dropWhile is_space (rev (dropWhile is_space s)))"

definition starts_with :: "string \<Rightarrow> string \<Rightarrow> bool" where
  "starts_with p s = (take (length p) s = p)"

definition ends_with :: "string \<Rightarrow> string \<Rightarrow> bool" where
  "ends_with p s = starts_with (rev p) (rev s)"

definition is_digit :: "char \<Rightarrow> bool" where
  "is_digit c = (let n = of_char c :: nat in 48 \<le> n \<and> n \<le> 57)"

definition digit_val :: "char \<Rightarrow> int" where
  "digit_val c = int (of_char c) - 48"

text \<open>\<open>int(s)\<close>: \<open>None\<close> is its \<open>ValueError\<close>; single underscores may separate digits.\<close>

fun int_digits :: "int \<Rightarrow> bool \<Rightarrow> string \<Rightarrow> int option" where
  "int_digits acc after_digit [] = (if after_digit then Some acc else None)"
| "int_digits acc after_digit (c # cs) =
    (if is_digit c then int_digits (acc * 10 + digit_val c) True cs
     else if c = CHR ''_'' \<and> after_digit then int_digits acc False cs else None)"

definition py_int :: "string \<Rightarrow> int option" where
  "py_int s = (case py_strip s of
      [] \<Rightarrow> None
    | c # cs \<Rightarrow> if c = CHR ''-'' then map_option uminus (int_digits 0 False cs)
        else if c = CHR ''+'' then int_digits 0 False cs
        else int_digits 0 False (c # cs))"

text \<open>\<open>str(n)\<close> of a natural number.\<close>

fun nat_str :: "nat \<Rightarrow> string" where
  "nat_str n = (if n < 10 then [char_of (48 + n)] else nat_str (n div 10) @ [char_of (48 + n mod 10)])"

declare nat_str.simps [simp del]

text \<open>\<open>repr(s)\<close> of a string of 8-bit characters, and \<open>str(xs)\<close> of a list of strings.\<close>

definition hex_digit :: "nat \<Rightarrow> char" where
  "hex_digit n = (if n < 10 then char_of (48 + n) else char_of (87 + n))"

definition repr_char :: "char \<Rightarrow> char \<Rightarrow> string" where
  "repr_char q c = (let n = of_char c :: nat in
     if c = q \<or> n = 92 then [CHR 0x5C, c]
     else if n = 10 then [CHR 0x5C, CHR ''n''] else if n = 13 then [CHR 0x5C, CHR ''r'']
     else if n = 9 then [CHR 0x5C, CHR ''t'']
     else if (32 \<le> n \<and> n \<le> 126) \<or> (161 \<le> n \<and> n \<noteq> 173) then [c]
     else [CHR 0x5C, CHR ''x'', hex_digit (n div 16), hex_digit (n mod 16)])"

definition str_repr :: "string \<Rightarrow> string" where
  "str_repr s = (let q = (if CHR 0x27 \<in> set s \<and> CHR 0x22 \<notin> set s then CHR 0x22 else CHR 0x27) in
     [q] @ concat (map (repr_char q) s) @ [q])"

definition list_repr :: "string list \<Rightarrow> string" where
  "list_repr xs = ''['' @ py_join '', '' (map str_repr xs) @ '']''"

text \<open>\<open>round(x, 4)\<close>, ties to even, on rational numbers.\<close>

definition round4 :: "rat \<Rightarrow> rat" where
  "round4 x = (let y = x * 10000; f = \<lfloor>y\<rfloor>; r = y - of_int f in
     of_int (if r < 1 / 2 then f else if 1 / 2 < r then f + 1 else if even f then f else f + 1) / 10000)"

text \<open>\<open>sub in s\<close> for strings.\<close>

fun contains_str :: "string \<Rightarrow> string \<Rightarrow> bool" where
  "contains_str sub [] = (sub = [])"
| "contains_str sub (c # cs) = (starts_with sub (c # cs) \<or> contains_str sub cs)"

text \<open>\<open>s.replace(old, new)\<close> for a non-empty \<open>old\<close>; the counter skips matched characters.\<close>

fun py_replace :: "string \<Rightarrow> string \<Rightarrow> nat \<Rightarrow> string \<Rightarrow> string" where
  "py_replace old new k [] = []"
| "py_replace old new (Suc k) (c # cs) = py_replace old new k cs"
| "py_replace old new 0 (c # cs) = (if starts_with old (c # cs)
     then new @ py_replace old new (length old - 1) cs else c # py_replace old new 0 cs)"

text \<open>\<open>repr(v)\<close> and \<open>str(v)\<close>; \<open>fs\<close> is Python's text of a float.\<close>

definition int_str :: "int \<Rightarrow> string" where
  "int_str i = (if i < 0 then ''-'' @ nat_str (nat (- i)) else nat_str (nat i))"

fun py_repr :: "(rat \<Rightarrow> string) \<Rightarrow> json \<Rightarrow> string" where
  "py_repr fs JNull = ''None''"
| "py_repr fs (JBool b) = (if b then ''True'' else ''False'')"
| "py_repr fs (JInt i) = int_str i"
| "py_repr fs (JFloat r) = fs r"
| "py_repr fs (JStr s) = str_repr s"
| "py_repr fs (JList xs) = ''['' @ py_join '', '' (map (py_repr fs) xs) @ '']''"
| "py_repr fs (JDict d) = ''{'' @ py_join '', '' (map (\<lambda>p. str_repr (fst p) @ '': '' @ py_repr fs (snd p)) d) @ ''}''"

definition py_str :: "(rat \<Rightarrow> string) \<Rightarrow> json \<Rightarrow> string" where
  "py_str fs v = (case v of JStr s \<Rightarrow> s | _ \<Rightarrow> py_repr fs v)"

section \<open>Loops that may raise\<close>

fun fold_err :: "('s \<Rightarrow> 'a \<Rightarrow> 'e + 's) \<Rightarrow> 's \<Rightarrow> 'a list \<Rightarrow> 'e + 's" where
  "fold_err f s [] = Inr s"
| "fold_err f s (x # xs) = (case f s x of Inl e \<Rightarrow> Inl e | Inr s' \<Rightarrow> fold_err f s' xs)"

fun map_err :: "('a \<Rightarrow> 'e + 'b) \<Rightarrow> 'a list \<Rightarrow> 'e + 'b list" where
  "map_err f [] = Inr []"
| "map_err f (x # xs) = (case f x of Inl e \<Rightarrow> Inl e | Inr y \<Rightarrow>
     (case map_err f xs of Inl e \<Rightarrow> Inl e | Inr ys \<Rightarrow> Inr (y # ys)))"

lemma map_err_cong [fundef_cong]:
  "xs = ys \<Longrightarrow> (\<And>y. y \<in> set ys \<Longrightarrow> f y = g y) \<Longrightarrow> map_err f xs = map_err g ys"
proof -
  assume "xs = ys" and "\<And>y. y \<in> set ys \<Longrightarrow> f y = g y"
  then have "(\<And>y. y \<in> set ys \<Longrightarrow> f y = g y)" by simp
  then have "map_err f ys = map_err g ys" by (induction ys) (auto split: sum.split)
  with \<open>xs = ys\<close> show ?thesis by simp
qed

lemma map_err_Inr: "map_err f xs = Inr ys \<longleftrightarrow> list_all2 (\<lambda>x y. f x = Inr y) xs ys"
proof (induction xs arbitrary: ys)
  case (Cons x xs)
  show ?case by (cases ys; cases "f x"; cases "map_err f xs") (auto simp flip: Cons.IH)
qed auto

text \<open>An invariant of the loop body is an invariant of the loop.\<close>

lemma fold_err_invariant:
  assumes "fold_err f s xs = Inr s'" and "P s"
    and "\<And>s x t. x \<in> set xs \<Longrightarrow> P s \<Longrightarrow> f s x = Inr t \<Longrightarrow> P t"
  shows "P s'"
  using assms
proof (induction xs arbitrary: s)
  case (Cons x xs)
  then obtain t where t: "f s x = Inr t" "fold_err f t xs = Inr s'" by (auto split: sum.splits)
  show ?case by (rule Cons.IH [OF t(2)]) (use Cons.prems t(1) in auto)
qed simp

text \<open>What the body establishes for its own element and never destroys holds for all.\<close>

lemma fold_err_each:
  assumes "fold_err f s xs = Inr s'"
    and "\<And>s x t. x \<in> set xs \<Longrightarrow> f s x = Inr t \<Longrightarrow> Q x t"
    and "\<And>s x y t. x \<in> set xs \<Longrightarrow> y \<in> set xs \<Longrightarrow> f s x = Inr t \<Longrightarrow> Q y s \<Longrightarrow> Q y t"
  shows "\<forall>x \<in> set xs. Q x s'"
  using assms
proof (induction xs arbitrary: s)
  case (Cons x xs)
  then obtain t where t: "f s x = Inr t" "fold_err f t xs = Inr s'" by (auto split: sum.splits)
  have "Q x s'"
  proof (rule fold_err_invariant [OF t(2)])
    show "Q x t" using Cons.prems(2) t(1) by simp
    show "Q x u" if "y \<in> set xs" "Q x v" "f v y = Inr u" for v y u
      using Cons.prems(3) [of y x v u] that by simp
  qed
  moreover have "\<forall>y \<in> set xs. Q y s'"
  proof (rule Cons.IH [OF t(2)])
    show "Q y u" if "y \<in> set xs" "f v y = Inr u" for v y u
      using Cons.prems(2) [of y v u] that by simp
    show "Q z u" if "y \<in> set xs" "z \<in> set xs" "f v y = Inr u" "Q z v" for v y z u
      using Cons.prems(3) [of y z v u] that by simp
  qed
  ultimately show ?case by simp
qed simp

end
