(* ===== verification/IR.thy ===== *)
theory IR
  imports Prelude
begin

text \<open>
  The intermediate representation of \<open>compiler/ir_models.py\<close>: the logical workflow the
  planner emits and the physical execution graph the compiler produces.  Pydantic models
  are records, with the inheritance of \<open>BasePhysicalNode\<close> as record extension; the
  discriminated union \<open>PhysicalNode\<close> is a datatype.  Below the data, the vocabulary every
  graph component shares: the dependencies of a node, well-formedness of a graph and
  soundness of its wave schedule.
\<close>

section \<open>Data\<close>

datatype failure_policy_t = STOP | CONTINUE | BEST_EFFORT

datatype aggregate_kind_t = Agg_sort | Agg_group_by | Agg_average | Agg_top_k | Agg_filter | Agg_summary

record logical_node =
  l_op :: string
  l_ref :: string
  l_inputs :: "json dict"
  l_depends_on :: "string list"
  l_condition :: "string option"
  l_branch_true :: "string list"
  l_branch_false :: "string list"
  l_iterate_over :: "string option"
  l_domain :: "string option"
  l_action :: "string option"

record logical_workflow =
  w_version :: string
  w_nodes :: "logical_node list"
  w_collections :: "json list dict"

record base_node =
  n_id :: string
  symbolic_ref :: string
  depends_on :: "string list"
  failure_policy :: failure_policy_t
  minimum_success :: rat

record tool_node = base_node +
  capability :: string
  tool_name :: string
  endpoint_url :: string
  http_method :: string
  inputs :: "json dict"
  cost_estimate :: rat
  latency_estimate_ms :: int
  execution_key :: "string option"
  candidate_endpoints :: "json dict list"

record map_node = base_node +
  iterate_over :: string
  body :: tool_node

record reduce_node = base_node +
  aggregate_kind :: aggregate_kind_t
  r_source_ref :: string
  key_path :: string
  predicate :: string
  limit :: "int option"

record conditional_node = base_node +
  c_source_ref :: string
  condition :: string
  branch_true :: "string list"
  branch_false :: "string list"

datatype physical_node =
    ToolNode tool_node
  | MapNode map_node
  | ReduceNode reduce_node
  | ConditionalNode conditional_node

record exec_graph =
  g_version :: string
  graph_id :: string
  g_nodes :: "(string \<times> physical_node) list"
  g_waves :: "string list list"

section \<open>Reading and rewriting a node\<close>

text \<open>\<open>node.depends_on\<close>, \<open>node.id\<close> and \<open>node.kind\<close>, for every class of the union.\<close>

fun node_deps :: "physical_node \<Rightarrow> string list" where
  "node_deps (ToolNode n) = depends_on n"
| "node_deps (MapNode n) = depends_on n"
| "node_deps (ReduceNode n) = depends_on n"
| "node_deps (ConditionalNode n) = depends_on n"

fun node_id :: "physical_node \<Rightarrow> string" where
  "node_id (ToolNode n) = n_id n"
| "node_id (MapNode n) = n_id n"
| "node_id (ReduceNode n) = n_id n"
| "node_id (ConditionalNode n) = n_id n"

fun node_kind :: "physical_node \<Rightarrow> string" where
  "node_kind (ToolNode _) = ''tool''"
| "node_kind (MapNode _) = ''map''"
| "node_kind (ReduceNode _) = ''reduce''"
| "node_kind (ConditionalNode _) = ''conditional''"

text \<open>\<open>node.model_copy(update={"depends_on": ds})\<close>.\<close>

fun set_deps :: "string list \<Rightarrow> physical_node \<Rightarrow> physical_node" where
  "set_deps ds (ToolNode n) = ToolNode (n\<lparr>depends_on := ds\<rparr>)"
| "set_deps ds (MapNode n) = MapNode (n\<lparr>depends_on := ds\<rparr>)"
| "set_deps ds (ReduceNode n) = ReduceNode (n\<lparr>depends_on := ds\<rparr>)"
| "set_deps ds (ConditionalNode n) = ConditionalNode (n\<lparr>depends_on := ds\<rparr>)"

lemma node_deps_set_deps [simp]: "node_deps (set_deps ds n) = ds"
  by (cases n) auto

lemma node_id_set_deps [simp]: "node_id (set_deps ds n) = node_id n"
  by (cases n) auto

lemma map_node_body_update [simp]:
  "n_id (m\<lparr>body := t\<rparr>) = n_id (m :: map_node)"
  "symbolic_ref (m\<lparr>body := t\<rparr>) = symbolic_ref m"
  "depends_on (m\<lparr>body := t\<rparr>) = depends_on m"
  "iterate_over (m\<lparr>body := t\<rparr>) = iterate_over m"
  "body (m\<lparr>body := t\<rparr>) = t"
  by (cases m, simp)+

section \<open>Deterministic hashing\<close>

text \<open>
  \<open>json.dumps(payload, sort_keys=True)\<close> depends on a payload only up to the order of its
  dictionaries: \<open>canon\<close> is that normal form.  The digest itself (\<open>sha256\<close> of the text)
  is the parameter \<open>sha\<close>.
\<close>

primrec canon :: "json \<Rightarrow> json" where
  "canon JNull = JNull"
| "canon (JBool b) = JBool b"
| "canon (JInt i) = JInt i"
| "canon (JFloat r) = JFloat r"
| "canon (JStr s) = JStr s"
| "canon (JList xs) = JList (map canon xs)"
| "canon (JDict d) = JDict (sort_key fst (map (map_prod id canon) d))"

definition hash_json :: "(json \<Rightarrow> string) \<Rightarrow> json \<Rightarrow> string" where
  "hash_json sha v = sha (canon v)"

definition compute_execution_key ::
  "(json \<Rightarrow> string) \<Rightarrow> 'a base_node_scheme \<Rightarrow> json dict \<Rightarrow> string \<Rightarrow> string" where
  "compute_execution_key sha n ins version = hash_json sha
     (JDict [(''ref'', JStr (symbolic_ref n)), (''inputs'', JDict ins), (''version'', JStr version)])"

section \<open>Well-formed graphs and sound schedules\<close>

text \<open>The dependency table of a node dictionary, and the dependencies it lists for an id.\<close>

definition deps_table :: "(string \<times> physical_node) list \<Rightarrow> (string \<times> string list) list" where
  "deps_table ns = map (\<lambda>(k, n). (k, node_deps n)) ns"

definition deps_in :: "(string \<times> string list) list \<Rightarrow> string \<Rightarrow> string list" where
  "deps_in T n = dict_get T n []"

text \<open>No edge leaves the dictionary.\<close>

definition closed_table :: "(string \<times> string list) list \<Rightarrow> bool" where
  "closed_table T = list_all (\<lambda>(k, ds). list_all (\<lambda>d. dict_has T d) ds) T"

text \<open>
  \<open>waves_ok\<close>: executing the waves one after the other, every node finds all of its
  dependencies in earlier waves.
\<close>

fun waves_ok :: "(string \<Rightarrow> string list) \<Rightarrow> string list \<Rightarrow> string list list \<Rightarrow> bool" where
  "waves_ok deps dn [] = True"
| "waves_ok deps dn (w # ws) =
     (list_all (\<lambda>n. list_all (\<lambda>d. d \<in> set dn) (deps n)) w \<and> waves_ok deps (dn @ w) ws)"

definition wf_graph :: "exec_graph \<Rightarrow> bool" where
  "wf_graph g \<longleftrightarrow> distinct (map fst (g_nodes g)) \<and> list_all (\<lambda>(k, n). node_id n = k) (g_nodes g)
     \<and> distinct (concat (g_waves g)) \<and> set (concat (g_waves g)) \<subseteq> set (map fst (g_nodes g))"

definition closed_graph :: "exec_graph \<Rightarrow> bool" where
  "closed_graph g = closed_table (deps_table (g_nodes g))"

definition sound_waves :: "exec_graph \<Rightarrow> bool" where
  "sound_waves g = waves_ok (deps_in (deps_table (g_nodes g))) [] (g_waves g)"

definition complete_waves :: "exec_graph \<Rightarrow> bool" where
  "complete_waves g \<longleftrightarrow> set (map fst (g_nodes g)) \<subseteq> set (concat (g_waves g))"

lemma map_fst_deps_table [simp]: "map fst (deps_table ns) = map fst ns"
  by (induction ns) (auto simp: deps_table_def)

lemma length_deps_table [simp]: "length (deps_table ns) = length ns"
  by (simp add: deps_table_def)

lemma keys_deps_table [simp]: "fst ` set (deps_table ns) = fst ` set ns"
  by (induction ns) (auto simp: deps_table_def)

lemma map_of_deps_table: "map_of (deps_table ns) k = map_option node_deps (map_of ns k)"
  by (induction ns) (auto simp: deps_table_def)

lemma deps_in_table: "deps_in (deps_table ns) k = (case map_of ns k of None \<Rightarrow> [] | Some n \<Rightarrow> node_deps n)"
  by (simp add: deps_in_def dict_get_def map_of_deps_table split: option.split)

lemma closed_tableD:
  "closed_table T \<Longrightarrow> d \<in> set (deps_in T k) \<Longrightarrow> d \<in> fst ` set T"
  by (cases "map_of T k")
    (auto simp: closed_table_def deps_in_def dict_get_def dict_has_iff list_all_iff
      dest!: map_of_SomeD bspec [of "set T"])

lemma closed_tableI:
  assumes "distinct (map fst T)"
    and "\<And>k d. k \<in> fst ` set T \<Longrightarrow> d \<in> set (deps_in T k) \<Longrightarrow> d \<in> fst ` set T"
  shows "closed_table T"
proof -
  have "d \<in> fst ` set T" if "(k, ds) \<in> set T" "d \<in> set ds" for k ds d
    using that assms(2) [of k d] assms(1) by (force simp: deps_in_def dict_get_def)
  then show ?thesis by (auto simp: closed_table_def list_all_iff dict_has_iff)
qed

section \<open>Schedules: generic facts\<close>

lemma waves_ok_append:
  "waves_ok deps dn (ws @ vs) \<longleftrightarrow> waves_ok deps dn ws \<and> waves_ok deps (dn @ concat ws) vs"
  by (induction ws arbitrary: dn) auto

lemma waves_ok_mono:
  "waves_ok deps dn ws \<Longrightarrow> set dn \<subseteq> set dn' \<Longrightarrow> waves_ok deps dn' ws"
proof (induction ws arbitrary: dn dn')
  case (Cons w ws)
  have "waves_ok deps (dn' @ w) ws"
    by (rule Cons.IH [of "dn @ w"]) (use Cons.prems in auto)
  moreover have "list_all (\<lambda>n. list_all (\<lambda>d. d \<in> set dn') (deps n)) w"
    using Cons.prems by (auto simp: list_all_iff)
  ultimately show ?case by simp
qed simp

lemma waves_ok_dep_scheduled:
  "waves_ok deps dn ws \<Longrightarrow> n \<in> set (concat ws) \<Longrightarrow> d \<in> set (deps n) \<Longrightarrow> d \<in> set dn \<union> set (concat ws)"
proof (induction ws arbitrary: dn)
  case (Cons w ws)
  show ?case
  proof (cases "n \<in> set w")
    case True
    with Cons.prems show ?thesis by (auto simp: list_all_iff)
  next
    case False
    with Cons.prems Cons.IH [of "dn @ w"] show ?thesis by auto
  qed
qed simp

text \<open>A node of wave \<open>i\<close> finds each dependency in some wave \<open>j < i\<close>.\<close>

lemma waves_ok_index:
  assumes "waves_ok deps [] ws" and "i < length ws" and "n \<in> set (ws ! i)" and "d \<in> set (deps n)"
  shows "\<exists>j < i. d \<in> set (ws ! j)"
proof -
  have split: "ws = take i ws @ ws ! i # drop (Suc i) ws"
    using assms(2) by (rule id_take_nth_drop)
  have "waves_ok deps [] (take i ws @ ws ! i # drop (Suc i) ws)"
    using assms(1) split by simp
  then have "d \<in> set (concat (take i ws))"
    using assms(3,4) by (auto simp: waves_ok_append list_all_iff)
  then obtain w where w: "w \<in> set (take i ws)" "d \<in> set w" by auto
  then obtain j where "j < i" "ws ! j = w" by (auto simp: in_set_conv_nth)
  with w(2) show ?thesis by blast
qed

section \<open>Small example nodes\<close>

text \<open>Building blocks of the concrete graphs the witnesses evaluate.\<close>

definition example_tool :: "string \<Rightarrow> string \<Rightarrow> json dict \<Rightarrow> string list \<Rightarrow> tool_node" where
  "example_tool nid name ins deps =
     \<lparr>n_id = nid, symbolic_ref = nid, depends_on = deps, failure_policy = CONTINUE, minimum_success = 1,
      capability = name, tool_name = name, endpoint_url = ''u'', http_method = ''GET'', inputs = ins,
      cost_estimate = 0, latency_estimate_ms = 1000, execution_key = None, candidate_endpoints = []\<rparr>"

definition example_graph :: "(string \<times> physical_node) list \<Rightarrow> string list list \<Rightarrow> exec_graph" where
  "example_graph ns ws = \<lparr>g_version = ''1.0'', graph_id = ''g'', g_nodes = ns, g_waves = ws\<rparr>"

fun flat_json :: "json \<Rightarrow> string" where
  "flat_json JNull = ''n''"
| "flat_json (JBool b) = (if b then ''t'' else ''f'')"
| "flat_json (JInt i) = ''i''"
| "flat_json (JFloat r) = ''r''"
| "flat_json (JStr s) = ''s'' @ s"
| "flat_json (JList xs) = ''['' @ concat (map flat_json xs) @ '']''"
| "flat_json (JDict d) = ''{'' @ concat (map (\<lambda>(k, v). k @ '':'' @ flat_json v) d) @ ''}''"

end
