(* ===== verification/Waves.thy ===== *)
theory Waves
  imports IR
begin

text \<open>
  Wave construction: Kahn's algorithm as \<open>Compiler._build_waves\<close> (codegen.py) and
  \<open>_rebuild_waves\<close> (pass\_dead\_task\_elimination.py) run it, with its \<open>in_degree\<close> and
  \<open>children\<close> dictionaries and its queue.  The two differ only in what happens to nodes the
  queue never reaches: \<open>_build_waves\<close> raises, \<open>_rebuild_waves\<close> leaves them out.  The loop
  invariant relates the in-degrees to the set of scheduled nodes; from it come soundness,
  completeness (in both directions) and minimality of the schedule.
\<close>

section \<open>The algorithm\<close>

definition init_degree :: "(string \<times> string list) list \<Rightarrow> (string \<times> int) list" where
  "init_degree T = map (\<lambda>(nid, deps). (nid, int (length deps))) T"

text \<open>\<open>for dep in deps: children.setdefault(dep, []).append(nid)\<close>\<close>

definition child_add ::
  "(string \<times> string list) list \<Rightarrow> string \<times> string list \<Rightarrow> (string \<times> string list) list" where
  "child_add ch p = foldl (\<lambda>c dep. AList.update dep (dict_get c dep [] @ [fst p]) c) ch (snd p)"

definition children_of :: "(string \<times> string list) list \<Rightarrow> (string \<times> string list) list" where
  "children_of T = foldl child_add [] T"

text \<open>\<open>in_degree[child] -= 1; if in_degree[child] == 0: next_queue.append(child)\<close>\<close>

definition relax :: "(string \<times> int) list \<times> string list \<Rightarrow> string \<Rightarrow> (string \<times> int) list \<times> string list" where
  "relax s child = (let d = dict_get (fst s) child 0 - 1 in
     (AList.update child d (fst s), if d = 0 then snd s @ [child] else snd s))"

text \<open>The body of the \<open>while queue\<close> loop: all children of all nodes of the wave.\<close>

definition wave_step ::
  "(string \<times> string list) list \<Rightarrow> (string \<times> int) list \<Rightarrow> string list \<Rightarrow> (string \<times> int) list \<times> string list" where
  "wave_step ch deg wave = foldl relax (deg, []) (concat (map (\<lambda>nid. dict_get ch nid []) wave))"

definition pending :: "(string \<times> int) list \<Rightarrow> nat" where
  "pending deg = length (filter (\<lambda>(k, d). 0 < d) deg)"

text \<open>A node that enters the next queue has just stopped being pending.\<close>

lemma pending_relax: "pending (fst (relax s c)) + length (snd (relax s c)) \<le> pending (fst s) + length (snd s)"
proof -
  have "pending (AList.update c v deg) + (if v = 0 then 1 else 0) \<le> pending deg"
    if "v = dict_get deg c 0 - 1" for deg v
    using that by (induction deg) (auto simp: pending_def dict_get_def)
  from this [OF refl, of "fst s"] show ?thesis
    by (auto simp: relax_def Let_def split: if_splits)
qed

lemma pending_wave_step: "pending (fst (wave_step ch deg q)) + length (snd (wave_step ch deg q)) \<le> pending deg"
proof -
  have "pending (fst (foldl relax s cs)) + length (snd (foldl relax s cs)) \<le> pending (fst s) + length (snd s)"
    for s cs
  proof (induction cs arbitrary: s)
    case (Cons c cs)
    have "pending (fst (foldl relax (relax s c) cs)) + length (snd (foldl relax (relax s c) cs))
        \<le> pending (fst (relax s c)) + length (snd (relax s c))"
      by (rule Cons.IH)
    with pending_relax [of s c] show ?case by simp
  qed simp
  from this [of "(deg, [])"] show ?thesis by (simp add: wave_step_def)
qed

function kahn_loop ::
  "(string \<times> string list) list \<Rightarrow> (string \<times> int) list \<Rightarrow> string list \<Rightarrow> string list list" where
  "kahn_loop ch deg queue = (if queue = [] then []
     else queue # kahn_loop ch (fst (wave_step ch deg queue)) (snd (wave_step ch deg queue)))"
  by pat_completeness auto
termination
proof (relation "measure (\<lambda>(ch, deg, q). pending deg + (if q = [] then 0 else 1))")
  fix ch :: "(string \<times> string list) list" and deg :: "(string \<times> int) list" and q :: "string list"
  assume "q \<noteq> []"
  with pending_wave_step [of ch deg q]
  show "((ch, fst (wave_step ch deg q), snd (wave_step ch deg q)), ch, deg, q)
      \<in> measure (\<lambda>(ch, deg, q). pending deg + (if q = [] then 0 else 1))"
    by (cases "snd (wave_step ch deg q)") auto
qed simp

declare kahn_loop.simps [simp del]

definition kahn :: "(string \<times> string list) list \<Rightarrow> string list list" where
  "kahn T = kahn_loop (children_of T) (init_degree T)
     (map fst (filter (\<lambda>(nid, deg). deg = 0) (init_degree T)))"

text \<open>\<open>Compiler._build_waves\<close>: raises when fewer nodes were processed than exist.\<close>

datatype compiler_error =
    CycleDetected nat
  | ValidationError string
  | UnsupportedChain string string
  | UnknownCapability string
  | ResolutionFailed string
  | NoEndpoint string
  | NoInputContract string
  | ResolverRaised string

definition build_waves :: "(string \<times> physical_node) list \<Rightarrow> compiler_error + string list list" where
  "build_waves ns = (let waves = kahn (deps_table ns); processed = sum_list (map length waves) in
     if processed < length ns then Inl (CycleDetected (length ns - processed)) else Inr waves)"

text \<open>\<open>_rebuild_waves\<close>: the same loop without the final check.\<close>

definition rebuild_waves :: "(string \<times> physical_node) list \<Rightarrow> string list list" where
  "rebuild_waves ns = kahn (deps_table ns)"

text \<open>\<open>_prune_waves\<close> (and the inlined copy in pass\_deduplication.py).\<close>

definition prune_waves :: "string list list \<Rightarrow> string set \<Rightarrow> string list list" where
  "prune_waves waves kept_ids = filter (\<lambda>w. w \<noteq> []) (map (filter (\<lambda>nid. nid \<in> kept_ids)) waves)"

section \<open>The loop invariant\<close>

text \<open>The dependencies of \<open>n\<close> that are not yet scheduled.\<close>

definition open_deps :: "(string \<times> string list) list \<Rightarrow> string set \<Rightarrow> string \<Rightarrow> string list" where
  "open_deps T P n = filter (\<lambda>d. d \<notin> P) (deps_in T n)"

definition kahn_inv ::
  "(string \<times> string list) list \<Rightarrow> string list \<Rightarrow> (string \<times> int) list \<Rightarrow> string list \<Rightarrow> bool" where
  "kahn_inv T P deg Q \<longleftrightarrow>
     (\<forall>n. map_of deg n = (if n \<in> fst ` set T then Some (int (length (open_deps T (set P) n))) else None))
     \<and> distinct (P @ Q) \<and> set P \<subseteq> fst ` set T
     \<and> set Q = {n \<in> fst ` set T. n \<notin> set P \<and> open_deps T (set P) n = []}
     \<and> (\<forall>n \<in> set P. set (deps_in T n) \<subseteq> set P)"

lemma child_add_count:
  "count_list (dict_get (child_add ch p) d []) n
   = count_list (dict_get ch d []) n + (if n = fst p then count_list (snd p) d else 0)"
proof -
  have "count_list (dict_get (foldl (\<lambda>c dep. AList.update dep (dict_get c dep [] @ [nid]) c) ch deps) d []) n
     = count_list (dict_get ch d []) n + (if n = nid then count_list deps d else 0)" for nid deps
    by (induction deps arbitrary: ch) (auto simp: dict_get_update)
  then show ?thesis by (simp add: child_add_def)
qed

lemma children_of_count:
  assumes "distinct (map fst T)"
  shows "count_list (dict_get (children_of T) d []) n = count_list (deps_in T n) d"
proof -
  have "distinct (map fst T) \<Longrightarrow> count_list (dict_get (foldl child_add ch T) d []) n
      = count_list (dict_get ch d []) n + count_list (deps_in T n) d" for ch
  proof (induction T arbitrary: ch)
    case Nil
    then show ?case by (simp add: deps_in_def dict_get_def)
  next
    case (Cons p T)
    then have "fst p = n \<Longrightarrow> deps_in T n = []"
      by (auto simp: deps_in_def dict_get_def split: option.split dest!: map_of_SomeD intro: rev_image_eqI)
    then show ?case
      using Cons.IH [of "child_add ch p"] Cons.prems child_add_count [of ch p d n]
      by (cases p) (auto simp: deps_in_def dict_get_def [of "_ # _"] dict_get_def [of T])
  qed
  from this [OF assms, of "[]"] show ?thesis by (simp add: children_of_def dict_get_def)
qed

lemma count_occurrences:
  assumes "distinct (map fst T)" "distinct Q"
  shows "count_list (concat (map (\<lambda>nid. dict_get (children_of T) nid []) Q)) n
     = length (filter (\<lambda>d. d \<in> set Q) (deps_in T n))"
proof -
  have "length (filter (\<lambda>d. d \<in> set (q # Q)) ds) = count_list ds q + length (filter (\<lambda>d. d \<in> set Q) ds)"
    if "q \<notin> set Q" for q Q and ds :: "string list"
    using that by (induction ds) auto
  with assms(2) show ?thesis
    by (induction Q) (auto simp: children_of_count [OF assms(1)] count_list_append)
qed

lemma relax_simps:
  "fst (relax s c) = AList.update c (dict_get (fst s) c 0 - 1) (fst s)"
  "snd (relax s c) = (if dict_get (fst s) c 0 = 1 then snd s @ [c] else snd s)"
  by (auto simp: relax_def Let_def)

text \<open>What one pass over a list of child occurrences does to degrees and next queue.\<close>

lemma relax_fold:
  assumes "\<And>c. c \<in> set cs \<Longrightarrow> map_of deg c \<noteq> None"
  shows "(\<forall>n. map_of (fst (foldl relax (deg, []) cs)) n
            = map_option (\<lambda>d. d - int (count_list cs n)) (map_of deg n))
    \<and> distinct (snd (foldl relax (deg, []) cs))
    \<and> set (snd (foldl relax (deg, []) cs))
       = {n. \<exists>d. map_of deg n = Some d \<and> 0 < d \<and> d \<le> int (count_list cs n)}"
  using assms
proof (induction cs rule: rev_induct)
  case Nil
  then show ?case by (auto simp: option.map_ident)
next
  case (snoc c cs)
  obtain deg' nq where s: "foldl relax (deg, []) cs = (deg', nq)" by fastforce
  from snoc have IH: "\<And>n. map_of deg' n = map_option (\<lambda>d. d - int (count_list cs n)) (map_of deg n)"
      "distinct nq" "set nq = {n. \<exists>d. map_of deg n = Some d \<and> 0 < d \<and> d \<le> int (count_list cs n)}"
    by (auto simp: s)
  from snoc.prems obtain d where d: "map_of deg c = Some d" by fastforce
  have dc: "dict_get deg' c 0 = d - int (count_list cs c)"
    by (simp add: dict_get_def IH(1) d)
  show ?case
  proof (intro conjI allI)
    show "map_of (fst (foldl relax (deg, []) (cs @ [c]))) n
        = map_option (\<lambda>d. d - int (count_list (cs @ [c]) n)) (map_of deg n)" for n
      using IH(1) d by (auto simp: s relax_simps dc map_of_update)
    show "distinct (snd (foldl relax (deg, []) (cs @ [c])))"
      using IH(2,3) d dc by (auto simp: s relax_simps)
    show "set (snd (foldl relax (deg, []) (cs @ [c])))
        = {n. \<exists>d. map_of deg n = Some d \<and> 0 < d \<and> d \<le> int (count_list (cs @ [c]) n)}"
      using IH(3) d dc by (auto simp: s relax_simps)
  qed
qed

lemma open_deps_split:
  "length (open_deps T (set P) n)
   = length (filter (\<lambda>d. d \<in> set Q) (open_deps T (set P) n)) + length (open_deps T (set (P @ Q)) n)"
proof -
  have "length (filter (\<lambda>d. d \<notin> set P) ds) = length (filter (\<lambda>d. d \<in> set Q) (filter (\<lambda>d. d \<notin> set P) ds))
     + length (filter (\<lambda>d. d \<notin> set (P @ Q)) ds)" for ds
    by (induction ds) auto
  then show ?thesis by (simp add: open_deps_def)
qed

lemma open_deps_in_queue:
  assumes "set P \<inter> set Q = {}"
  shows "filter (\<lambda>d. d \<in> set Q) (open_deps T (set P) n) = filter (\<lambda>d. d \<in> set Q) (deps_in T n)"
  using assms by (auto simp: open_deps_def intro!: filter_cong)

lemma deps_in_outside: "n \<notin> fst ` set T \<Longrightarrow> deps_in T n = []"
  by (auto simp: deps_in_def dict_get_def split: option.split dest: map_of_SomeD intro: rev_image_eqI)

text \<open>One iteration of the loop keeps the invariant.\<close>

lemma kahn_inv_step:
  assumes T: "distinct (map fst T)" and I: "kahn_inv T P deg Q"
  shows "kahn_inv T (P @ Q) (fst (wave_step (children_of T) deg Q)) (snd (wave_step (children_of T) deg Q))"
proof -
  define cs where "cs = concat (map (\<lambda>nid. dict_get (children_of T) nid []) Q)"
  have dQ: "distinct Q" and PQ: "set P \<inter> set Q = {}" using I by (auto simp: kahn_inv_def)
  have deg: "map_of deg n = (if n \<in> fst ` set T then Some (int (length (open_deps T (set P) n))) else None)" for n
    using I by (simp add: kahn_inv_def)
  have cnt: "count_list cs n = length (filter (\<lambda>d. d \<in> set Q) (open_deps T (set P) n))" for n
    using count_occurrences [OF T dQ] open_deps_in_queue [OF PQ] by (simp add: cs_def)
  have "map_of deg c \<noteq> None" if "c \<in> set cs" for c
  proof -
    from that have "count_list cs c \<noteq> 0" by (simp add: count_list_0_iff)
    then have "deps_in T c \<noteq> []" by (auto simp: cnt open_deps_def)
    then show ?thesis using deg deps_in_outside by auto
  qed
  note RF = relax_fold [of cs deg, OF this]
  have ws: "wave_step (children_of T) deg Q = foldl relax (deg, []) cs"
    by (simp add: wave_step_def cs_def)
  have R:
    "\<And>n. map_of (fst (wave_step (children_of T) deg Q)) n = map_option (\<lambda>d. d - int (count_list cs n)) (map_of deg n)"
    "distinct (snd (wave_step (children_of T) deg Q))"
    "set (snd (wave_step (children_of T) deg Q))
       = {n. \<exists>d. map_of deg n = Some d \<and> 0 < d \<and> d \<le> int (count_list cs n)}"
    using RF unfolding ws by blast+
  have len: "int (length (open_deps T (set P) n)) - int (count_list cs n) = int (length (open_deps T (set (P @ Q)) n))" for n
    using open_deps_split [of T P n Q] by (simp add: cnt)
  have nq: "set (snd (wave_step (children_of T) deg Q))
      = {n \<in> fst ` set T. open_deps T (set P) n \<noteq> [] \<and> open_deps T (set (P @ Q)) n = []}"
  proof -
    have "(\<exists>d. map_of deg n = Some d \<and> 0 < d \<and> d \<le> int (count_list cs n)) \<longleftrightarrow>
        n \<in> fst ` set T \<and> open_deps T (set P) n \<noteq> [] \<and> open_deps T (set (P @ Q)) n = []" for n
    proof -
      have "0 < int (length xs) \<longleftrightarrow> xs \<noteq> []" for xs :: "string list" by simp
      moreover have "int (length (open_deps T (set P) n)) \<le> int (count_list cs n)
          \<longleftrightarrow> open_deps T (set (P @ Q)) n = []"
        using len [of n] by (fold length_0_conv) linarith
      ultimately show ?thesis by (simp add: deg del: set_append)
    qed
    then show ?thesis unfolding R(3) by blast
  qed
  have sQ: "set Q = {n \<in> fst ` set T. n \<notin> set P \<and> open_deps T (set P) n = []}"
    and sP: "\<And>n. n \<in> set P \<Longrightarrow> set (deps_in T n) \<subseteq> set P"
    using I by (auto simp: kahn_inv_def)
  have closed: "set (deps_in T n) \<subseteq> set P" if "n \<in> set Q" for n
    using that by (auto simp: sQ open_deps_def filter_empty_conv)
  have nq': "set (snd (wave_step (children_of T) deg Q))
      = {n \<in> fst ` set T. n \<notin> set (P @ Q) \<and> open_deps T (set (P @ Q)) n = []}"
  proof -
    have "open_deps T (set P) n = [] \<longleftrightarrow> n \<in> set (P @ Q)" if "n \<in> fst ` set T" for n
      using that sP [of n] closed [of n] by (auto simp: sQ open_deps_def filter_empty_conv)
    then show ?thesis unfolding nq by blast
  qed
  show ?thesis
    unfolding kahn_inv_def
  proof (intro conjI)
    show "\<forall>n. map_of (fst (wave_step (children_of T) deg Q)) n
        = (if n \<in> fst ` set T then Some (int (length (open_deps T (set (P @ Q)) n))) else None)"
      using len by (simp add: R(1) deg del: set_append)
    have "distinct (P @ Q)" using I unfolding kahn_inv_def by blast
    then show "distinct ((P @ Q) @ snd (wave_step (children_of T) deg Q))"
      using R(2) nq' by auto
    show "set (P @ Q) \<subseteq> fst ` set T"
      using I sQ by (auto simp: kahn_inv_def)
    show "set (snd (wave_step (children_of T) deg Q))
        = {n \<in> fst ` set T. n \<notin> set (P @ Q) \<and> open_deps T (set (P @ Q)) n = []}"
      by (rule nq')
    show "\<forall>n \<in> set (P @ Q). set (deps_in T n) \<subseteq> set (P @ Q)"
      using sP closed by auto
  qed
qed

lemma kahn_inv_init:
  assumes "distinct (map fst T)"
  shows "kahn_inv T [] (init_degree T) (map fst (filter (\<lambda>(nid, deg). deg = 0) (init_degree T)))"
proof -
  have deg: "map_of (init_degree T) n = map_option (\<lambda>ds. int (length ds)) (map_of T n)" for n
    by (induction T) (auto simp: init_degree_def)
  have "distinct (map fst (init_degree T))"
    using assms by (simp add: init_degree_def comp_def case_prod_unfold)
  then have "distinct (map fst (filter (\<lambda>(nid, deg). deg = 0) (init_degree T)))"
    by (rule distinct_map_fst_filter)
  moreover have "set (map fst (filter (\<lambda>(nid, deg). deg = 0) (init_degree T)))
      = {n \<in> fst ` set T. deps_in T n = []}"
    using assms by (force simp: init_degree_def deps_in_def dict_get_def image_iff)
  moreover have "map_of T n = None \<longleftrightarrow> n \<notin> fst ` set T" for n
    by (simp add: map_of_eq_None_iff)
  ultimately show ?thesis
    by (auto simp: kahn_inv_def deg open_deps_def deps_in_def dict_get_def split: option.split)
qed

section \<open>What the loop returns\<close>

text \<open>
  Every node of a wave has a dependency in the wave before it (and the nodes of the first
  wave have none): no node is scheduled later than it has to be.
\<close>

fun waves_tight :: "(string \<Rightarrow> string list) \<Rightarrow> string list \<Rightarrow> string list list \<Rightarrow> bool" where
  "waves_tight deps prev [] = True"
| "waves_tight deps prev (w # ws) =
     (list_all (\<lambda>n. list_ex (\<lambda>d. d \<in> set prev) (deps n)) w \<and> waves_tight deps w ws)"

lemma kahn_loop_simps:
  "kahn_loop ch deg [] = []"
  "Q \<noteq> [] \<Longrightarrow> kahn_loop ch deg Q
     = Q # kahn_loop ch (fst (wave_step ch deg Q)) (snd (wave_step ch deg Q))"
  by (simp_all add: kahn_loop.simps [of ch deg])

lemma kahn_loop_correct:
  assumes T: "distinct (map fst T)" and "kahn_inv T P deg Q"
  shows "waves_ok (deps_in T) P (kahn_loop (children_of T) deg Q)
    \<and> distinct (P @ concat (kahn_loop (children_of T) deg Q))
    \<and> set (concat (kahn_loop (children_of T) deg Q)) \<subseteq> fst ` set T
    \<and> (\<forall>n \<in> fst ` set T - set (P @ concat (kahn_loop (children_of T) deg Q)).
         \<exists>d \<in> set (deps_in T n). d \<notin> set (P @ concat (kahn_loop (children_of T) deg Q)))"
  using assms(2)
proof (induction "children_of T" deg Q arbitrary: P rule: kahn_loop.induct)
  case (1 deg Q)
  show ?case
  proof (cases "Q = []")
    case True
    with "1.prems" show ?thesis
      unfolding True kahn_loop_simps
      by (auto simp: kahn_inv_def open_deps_def filter_empty_conv)
  next
    case False
    let ?W = "kahn_loop (children_of T) (fst (wave_step (children_of T) deg Q))
                (snd (wave_step (children_of T) deg Q))"
    have step: "kahn_loop (children_of T) deg Q = Q # ?W"
      by (rule kahn_loop_simps(2) [OF False])
    have "set Q \<subseteq> fst ` set T" "list_all (\<lambda>n. list_all (\<lambda>d. d \<in> set P) (deps_in T n)) Q"
      using "1.prems" unfolding kahn_inv_def
      by (auto simp: list_all_iff open_deps_def filter_empty_conv)
    with "1.hyps" [OF False kahn_inv_step [OF T "1.prems"]] show ?thesis
      unfolding step by auto
  qed
qed

lemma kahn_loop_tight:
  assumes T: "distinct (map fst T)" and "kahn_inv T (P @ R) deg Q"
    and "\<forall>n \<in> set Q. \<exists>d \<in> set (deps_in T n). d \<in> set R"
  shows "waves_tight (deps_in T) R (kahn_loop (children_of T) deg Q)"
  using assms(2,3)
proof (induction "children_of T" deg Q arbitrary: P R rule: kahn_loop.induct)
  case (1 deg Q)
  show ?case
  proof (cases "Q = []")
    case False
    let ?s = "wave_step (children_of T) deg Q"
    have I: "kahn_inv T ((P @ R) @ Q) (fst ?s) (snd ?s)"
      by (rule kahn_inv_step [OF T "1.prems"(1)])
    have "\<exists>d \<in> set (deps_in T n). d \<in> set Q" if n: "n \<in> set (snd ?s)" for n
    proof (rule ccontr)
      assume "\<not> ?thesis"
      then have "open_deps T (set (P @ R)) n = open_deps T (set ((P @ R) @ Q)) n"
        by (auto simp: open_deps_def intro!: filter_cong)
      moreover have "n \<in> fst ` set T" "n \<notin> set ((P @ R) @ Q)" "open_deps T (set ((P @ R) @ Q)) n = []"
        using n I unfolding kahn_inv_def by blast+
      ultimately have "n \<in> set Q"
        using "1.prems"(1) unfolding kahn_inv_def by auto
      with \<open>n \<notin> set ((P @ R) @ Q)\<close> show False by simp
    qed
    then have "waves_tight (deps_in T) Q (kahn_loop (children_of T) (fst ?s) (snd ?s))"
      using "1.hyps" [OF False, of "P @ R" Q] I by simp
    with False "1.prems"(2) show ?thesis
      by (auto simp: kahn_loop_simps list_all_iff list_ex_iff)
  qed (simp add: kahn_loop_simps)
qed

section \<open>The layering contract\<close>

text \<open>
  A ranking strictly decreases along every dependency and stays inside the table: it exists
  exactly for closed, acyclic dependency tables.
\<close>

definition ranked :: "(string \<times> string list) list \<Rightarrow> (string \<Rightarrow> nat) \<Rightarrow> bool" where
  "ranked T rank \<longleftrightarrow>
     (\<forall>n \<in> fst ` set T. \<forall>d \<in> set (deps_in T n). d \<in> fst ` set T \<and> rank d < rank n)"

locale wave_layering =
  fixes layer :: "(string \<times> string list) list \<Rightarrow> string list list"
  assumes layer_ok: "distinct (map fst T) \<Longrightarrow> waves_ok (deps_in T) [] (layer T)"
    and layer_distinct: "distinct (map fst T) \<Longrightarrow> distinct (concat (layer T))"
    and layer_keys: "distinct (map fst T) \<Longrightarrow> set (concat (layer T)) \<subseteq> fst ` set T"
    and layer_stuck: "distinct (map fst T) \<Longrightarrow> n \<in> fst ` set T \<Longrightarrow> n \<notin> set (concat (layer T))
          \<Longrightarrow> \<exists>d \<in> set (deps_in T n). d \<notin> set (concat (layer T))"
begin

lemma complete_if_ranked:
  assumes T: "distinct (map fst T)" and r: "ranked T rank"
  shows "fst ` set T \<subseteq> set (concat (layer T))"
proof -
  have "n \<in> fst ` set T \<longrightarrow> n \<in> set (concat (layer T))" for n
  proof (induction "rank n" arbitrary: n rule: less_induct)
    case less
    show ?case
    proof (rule impI, rule ccontr)
      assume n: "n \<in> fst ` set T" and "n \<notin> set (concat (layer T))"
      then obtain d where d: "d \<in> set (deps_in T n)" "d \<notin> set (concat (layer T))"
        using layer_stuck [OF T] by blast
      with r n have "d \<in> fst ` set T" "rank d < rank n" by (auto simp: ranked_def)
      with less d(2) show False by blast
    qed
  qed
  then show ?thesis by blast
qed

lemma ranked_if_complete:
  assumes T: "distinct (map fst T)" and c: "fst ` set T \<subseteq> set (concat (layer T))"
  shows "\<exists>rank. ranked T rank"
proof -
  define rank where "rank n = (LEAST i. i < length (layer T) \<and> n \<in> set (layer T ! i))" for n
  have ex: "\<exists>i. i < length (layer T) \<and> n \<in> set (layer T ! i)" if "n \<in> set (concat (layer T))" for n
  proof -
    from that obtain w where "w \<in> set (layer T)" "n \<in> set w" by auto
    then show ?thesis by (metis in_set_conv_nth)
  qed
  have "d \<in> fst ` set T \<and> rank d < rank n" if n: "n \<in> fst ` set T" and d: "d \<in> set (deps_in T n)" for n d
  proof -
    have "n \<in> set (concat (layer T))" using n c by (rule rev_subsetD)
    from LeastI_ex [OF ex [OF this]]
    have rn: "rank n < length (layer T)" "n \<in> set (layer T ! rank n)"
      unfolding rank_def by simp_all
    from waves_ok_index [OF layer_ok [OF T] rn d]
    obtain j where j: "j < rank n" "d \<in> set (layer T ! j)" by blast
    with rn have "rank d \<le> j" unfolding rank_def by (intro Least_le) auto
    moreover have "d \<in> set (concat (layer T))" using j rn by (auto intro!: bexI [of _ "layer T ! j"])
    ultimately show ?thesis using j(1) layer_keys [OF T] by auto
  qed
  then show ?thesis unfolding ranked_def by blast
qed

lemma complete_iff_ranked:
  "distinct (map fst T) \<Longrightarrow> fst ` set T \<subseteq> set (concat (layer T)) \<longleftrightarrow> (\<exists>rank. ranked T rank)"
  using complete_if_ranked ranked_if_complete by blast

lemma length_layer:
  assumes "distinct (map fst T)"
  shows "length (concat (layer T)) \<le> length T"
proof -
  have "card (set (concat (layer T))) \<le> card (set (map fst T))"
    using layer_keys [OF assms] by (intro card_mono) auto
  then show ?thesis
    unfolding distinct_card [OF layer_distinct [OF assms]] distinct_card [OF assms] by simp
qed

lemma complete_iff_length:
  assumes "distinct (map fst T)"
  shows "fst ` set T \<subseteq> set (concat (layer T)) \<longleftrightarrow> length (concat (layer T)) = length T"
proof -
  have c: "card (set (concat (layer T))) = length (concat (layer T))" "card (fst ` set T) = length T"
    using distinct_card [OF layer_distinct [OF assms]] distinct_card [OF assms] by simp_all
  have sub: "set (concat (layer T)) \<subseteq> fst ` set T" by (rule layer_keys [OF assms])
  show ?thesis
  proof
    assume "fst ` set T \<subseteq> set (concat (layer T))"
    then have "set (concat (layer T)) = fst ` set T" using sub by blast
    then show "length (concat (layer T)) = length T" using c by metis
  next
    assume "length (concat (layer T)) = length T"
    then have "set (concat (layer T)) = fst ` set T"
      using c sub by (intro card_subset_eq) auto
    then show "fst ` set T \<subseteq> set (concat (layer T))" by blast
  qed
qed

end

interpretation kahn_layers: wave_layering kahn
proof unfold_locales
  fix T :: "(string \<times> string list) list"
  assume T: "distinct (map fst T)"
  note C = kahn_loop_correct [OF T kahn_inv_init [OF T], folded kahn_def]
  show "waves_ok (deps_in T) [] (kahn T)" "distinct (concat (kahn T))" "set (concat (kahn T)) \<subseteq> fst ` set T"
    using C by auto
  show "\<exists>d \<in> set (deps_in T n). d \<notin> set (concat (kahn T))"
    if "n \<in> fst ` set T" "n \<notin> set (concat (kahn T))" for n
    using C that by auto
qed

section \<open>Pruning waves\<close>

lemma concat_drop_empty [simp]: "concat (filter (\<lambda>w. w \<noteq> []) ws) = concat ws"
  by (induction ws) auto

lemma waves_ok_drop_empty [simp]:
  "waves_ok deps dn (filter (\<lambda>w. w \<noteq> []) ws) = waves_ok deps dn ws"
  by (induction ws arbitrary: dn) auto

lemma concat_prune_waves [simp]:
  "concat (prune_waves ws K) = filter (\<lambda>n. n \<in> K) (concat ws)"
  by (simp add: prune_waves_def filter_concat)

text \<open>The waves of a schedule, by position.\<close>

lemma waves_ok_iff_index:
  "waves_ok deps [] ws \<longleftrightarrow>
     (\<forall>i < length ws. \<forall>n \<in> set (ws ! i). \<forall>d \<in> set (deps n). \<exists>j < i. d \<in> set (ws ! j))"
  (is "_ \<longleftrightarrow> ?R ws")
proof
  show "waves_ok deps [] ws \<Longrightarrow> ?R ws" using waves_ok_index by blast
  show "?R ws \<Longrightarrow> waves_ok deps [] ws"
  proof (induction ws rule: rev_induct)
    case (snoc w ws)
    have "?R ws"
    proof (intro allI impI ballI)
      fix i n d
      assume "i < length ws" "n \<in> set (ws ! i)" "d \<in> set (deps n)"
      with snoc.prems have "\<exists>j < i. d \<in> set ((ws @ [w]) ! j)"
        by (auto simp: nth_append dest!: spec [of _ i])
      with \<open>i < length ws\<close> show "\<exists>j < i. d \<in> set (ws ! j)"
        by (auto simp: nth_append)
    qed
    moreover have "d \<in> set (concat ws)" if "n \<in> set w" "d \<in> set (deps n)" for n d
    proof -
      have "\<exists>j < length ws. d \<in> set ((ws @ [w]) ! j)"
        using snoc.prems that by (auto dest!: spec [of _ "length ws"])
      then obtain j where "j < length ws" "d \<in> set ((ws @ [w]) ! j)" by blast
      then show ?thesis by (auto simp: nth_append intro!: bexI [of _ "ws ! j"])
    qed
    ultimately show ?case
      using snoc.IH by (auto simp: waves_ok_append list_all_iff)
  qed simp
qed

text \<open>
  Dropping nodes keeps a schedule sound when every dependency a kept node has afterwards is
  kept and scheduled no later than one of its dependencies before.
\<close>

lemma waves_ok_prune:
  assumes "waves_ok deps [] ws"
    and "\<And>i j n d. i < length ws \<Longrightarrow> n \<in> set (ws ! i) \<Longrightarrow> n \<in> K \<Longrightarrow> d \<in> set (deps' n)
           \<Longrightarrow> d \<in> K \<and> (\<exists>j < i. d \<in> set (ws ! j))"
  shows "waves_ok deps' [] (prune_waves ws K)"
proof -
  have "waves_ok deps' [] (map (filter (\<lambda>n. n \<in> K)) ws)"
    unfolding waves_ok_iff_index using assms(2) by fastforce
  then show ?thesis by (simp add: prune_waves_def)
qed

section \<open>Properties of the two builders\<close>

lemma processed_sum: "sum_list (map length ws) = length (concat ws)"
  by (simp add: length_concat)

lemma build_waves_Inr:
  assumes "distinct (map fst ns)"
  shows "build_waves ns = Inr ws \<longleftrightarrow> ws = kahn (deps_table ns) \<and> length (concat ws) = length ns"
proof -
  have "length (concat (kahn (deps_table ns))) \<le> length ns"
    using kahn_layers.length_layer [of "deps_table ns"] assms
    by (simp add: length_deps_table)
  then show ?thesis
    by (auto simp: build_waves_def Let_def processed_sum)
qed

lemma build_waves_cases:
  "build_waves ns = Inr (kahn (deps_table ns)) \<or> (\<exists>n. build_waves ns = Inl (CycleDetected n))"
  by (simp add: build_waves_def Let_def)

lemma ranked_keys:
  "ranked (deps_table ns) rank \<longleftrightarrow>
     (\<forall>n \<in> fst ` set ns. \<forall>d \<in> set (deps_in (deps_table ns) n). d \<in> fst ` set ns \<and> rank d < rank n)"
  by (simp add: ranked_def)

text \<open>
  C2: \<open>Compiler._build_waves\<close> succeeds exactly on closed, acyclic dependency graphs: it
  returns waves (instead of raising \<open>CompilerError\<close>) if and only if some ranking of the
  nodes decreases along every dependency and no dependency leaves the node dictionary.
\<close>

theorem build_waves_succeeds_iff:
  assumes "distinct (map fst ns)"
  shows "(\<exists>ws. build_waves ns = Inr ws) \<longleftrightarrow>
     (\<exists>rank :: string \<Rightarrow> nat. \<forall>n \<in> fst ` set ns. \<forall>d \<in> set (deps_in (deps_table ns) n).
        d \<in> fst ` set ns \<and> rank d < rank n)"
proof -
  have T: "distinct (map fst (deps_table ns))" using assms by simp
  have "(\<exists>ws. build_waves ns = Inr ws) \<longleftrightarrow> length (concat (kahn (deps_table ns))) = length (deps_table ns)"
    by (simp add: build_waves_Inr [OF assms])
  also have "\<dots> \<longleftrightarrow> (\<exists>rank. ranked (deps_table ns) rank)"
    using kahn_layers.complete_iff_length [OF T] kahn_layers.complete_iff_ranked [OF T] by blast
  finally show ?thesis by (simp add: ranked_keys)
qed

theorem build_waves_succeeds_iff_witness:
  "\<exists>ws. build_waves [(''b'', ToolNode (example_tool ''b'' ''t'' [] [''a''])),
                        (''a'', ToolNode (example_tool ''a'' ''t'' [] []))] = Inr ws"
  by (subst build_waves_succeeds_iff, simp,
      rule exI [of _ "\<lambda>n. if n = ''b'' then 1 else 0"])
    (simp add: deps_in_table example_tool_def)

text \<open>
  The waves \<open>Compiler._build_waves\<close> returns are a sound schedule of all nodes: every
  node occurs exactly once and finds all of its dependencies in strictly earlier waves.
\<close>

theorem build_waves_sound:
  assumes "distinct (map fst ns)" and "build_waves ns = Inr ws"
  shows "distinct (concat ws) \<and> set (concat ws) = fst ` set ns
    \<and> (\<forall>i < length ws. \<forall>n \<in> set (ws ! i). \<forall>d \<in> set (deps_in (deps_table ns) n). \<exists>j < i. d \<in> set (ws ! j))"
proof (intro conjI)
  have T: "distinct (map fst (deps_table ns))" using assms(1) by simp
  have ws: "ws = kahn (deps_table ns)" "length (concat ws) = length ns"
    using assms by (auto simp: build_waves_Inr)
  show "distinct (concat ws)" unfolding ws by (rule kahn_layers.layer_distinct [OF T])
  show "set (concat ws) = fst ` set ns"
    using kahn_layers.complete_iff_length [OF T] kahn_layers.layer_keys [OF T] ws by auto
  show "\<forall>i < length ws. \<forall>n \<in> set (ws ! i). \<forall>d \<in> set (deps_in (deps_table ns) n). \<exists>j < i. d \<in> set (ws ! j)"
    using kahn_layers.layer_ok [OF T] unfolding ws waves_ok_iff_index .
qed

theorem build_waves_sound_witness:
  "set (concat [[''a''], [''b'']]) = fst ` set [(''b'', ToolNode (example_tool ''b'' ''t'' [] [''a''])),
        (''a'', ToolNode (example_tool ''a'' ''t'' [] []))]"
proof -
  let ?ns = "[(''b'', ToolNode (example_tool ''b'' ''t'' [] [''a''])),
              (''a'', ToolNode (example_tool ''a'' ''t'' [] []))]"
  have "distinct (map fst ?ns)" by simp
  moreover have "build_waves ?ns = Inr [[''a''], [''b'']]" by code_simp
  ultimately show ?thesis using build_waves_sound [of ?ns "[[''a''], [''b'']]"] by blast
qed

text \<open>
  The schedule is as early as possible: every node of a later wave has a dependency in
  the wave just before its own, so no node could have been scheduled one wave earlier.
\<close>

theorem build_waves_minimal:
  assumes "distinct (map fst ns)" and "build_waves ns = Inr (w # ws)"
  shows "list_all (\<lambda>n. deps_in (deps_table ns) n = []) w \<and> waves_tight (deps_in (deps_table ns)) w ws"
proof -
  let ?T = "deps_table ns"
  let ?Q = "map fst (filter (\<lambda>(nid, deg). deg = 0) (init_degree ?T))"
  let ?s = "wave_step (children_of ?T) (init_degree ?T) ?Q"
  have T: "distinct (map fst ?T)" using assms(1) by simp
  note I = kahn_inv_init [OF T]
  have "w # ws = kahn_loop (children_of ?T) (init_degree ?T) ?Q"
    using assms by (simp add: build_waves_Inr kahn_def)
  then have w: "w = ?Q" "ws = kahn_loop (children_of ?T) (fst ?s) (snd ?s)"
    by (auto simp: kahn_loop.simps [of _ _ ?Q] split: if_splits)
  have "deps_in ?T n = []" if "n \<in> set ?Q" for n
    using that I unfolding kahn_inv_def open_deps_def by auto
  moreover have "waves_tight (deps_in ?T) ?Q (kahn_loop (children_of ?T) (fst ?s) (snd ?s))"
  proof (rule kahn_loop_tight [OF T, of "[]"])
    show I': "kahn_inv ?T ([] @ ?Q) (fst ?s) (snd ?s)"
      using kahn_inv_step [OF T I] by simp
    show "\<forall>n \<in> set (snd ?s). \<exists>d \<in> set (deps_in ?T n). d \<in> set ?Q"
    proof
      fix n
      assume "n \<in> set (snd ?s)"
      then have n: "n \<in> fst ` set ?T" "n \<notin> set ?Q" "open_deps ?T (set ?Q) n = []"
        using I' unfolding kahn_inv_def by auto
      then have "deps_in ?T n \<noteq> []" using I unfolding kahn_inv_def open_deps_def by auto
      with n(3) show "\<exists>d \<in> set (deps_in ?T n). d \<in> set ?Q"
        by (cases "deps_in ?T n") (auto simp: open_deps_def split: if_splits)
    qed
  qed
  ultimately show ?thesis by (simp add: w list_all_iff)
qed

theorem build_waves_minimal_witness:
  "waves_tight (deps_in (deps_table [(''b'', ToolNode (example_tool ''b'' ''t'' [] [''a''])),
      (''a'', ToolNode (example_tool ''a'' ''t'' [] []))])) [''a''] [[''b'']]"
proof -
  let ?ns = "[(''b'', ToolNode (example_tool ''b'' ''t'' [] [''a''])),
              (''a'', ToolNode (example_tool ''a'' ''t'' [] []))]"
  have "distinct (map fst ?ns)" by simp
  moreover have "build_waves ?ns = Inr [[''a''], [''b'']]" by code_simp
  ultimately show ?thesis using build_waves_minimal [of ?ns "[''a'']" "[[''b'']]"] by blast
qed

text \<open>
  \<open>_rebuild_waves\<close> of the dead-task pass runs the same loop without the final check:
  nothing is raised, and a node that depends on an id outside the dictionary (or on such a
  node) is left out of the schedule without a trace.
\<close>

theorem rebuild_waves_drops_dangling:
  assumes "distinct (map fst ns)" and "d \<in> set (deps_in (deps_table ns) n)" and "d \<notin> fst ` set ns"
  shows "n \<notin> set (concat (rebuild_waves ns))"
proof
  assume "n \<in> set (concat (rebuild_waves ns))"
  moreover have T: "distinct (map fst (deps_table ns))" using assms(1) by simp
  ultimately have "d \<in> set (concat (kahn (deps_table ns)))"
    using waves_ok_dep_scheduled [OF kahn_layers.layer_ok [OF T]] assms(2)
    by (fastforce simp: rebuild_waves_def)
  then show False using kahn_layers.layer_keys [OF T] assms(3) by auto
qed

theorem rebuild_waves_drops_dangling_witness:
  "''b'' \<notin> set (concat (rebuild_waves [(''b'', ToolNode (example_tool ''b'' ''t'' [] [''gone'']))]))"
  by (rule rebuild_waves_drops_dangling [of _ "''gone''"]) (simp_all add: deps_in_table example_tool_def)

end
