(* ===== verification/Pass_Enrichment.thy ===== *)
theory Pass_Enrichment
  imports Waves
begin

text \<open>
  \<open>compiler/passes/input\_enrichment.py\<close> and the registry reader it uses
  (\<open>registry/client.py\<close>).  The registry rows themselves come from the database and are a
  parameter; the client's TTL cache is modelled as a state machine over a clock.
\<close>

section \<open>The cached registry reader\<close>

record input_policy =
  p_defaults :: "json dict"
  p_computed :: "string dict"
  p_field_mapping :: "string dict"

record capability_row =
  intent_profiles :: "json dict dict"
  cap_policy :: input_policy

type_synonym registry_cache = "(string \<times> (int \<times> capability_row option)) list"

definition cache_ttl_s :: int where
  "cache_ttl_s = 300"

text \<open>\<open>get_capability\<close>: \<open>query\<close> is the database select at the moment of the call.\<close>

definition get_capability ::
  "(string \<Rightarrow> capability_row option) \<Rightarrow> int \<Rightarrow> registry_cache \<Rightarrow> string
     \<Rightarrow> capability_row option \<times> registry_cache" where
  "get_capability query now cache name =
    (case map_of cache name of
       Some (ts, cap) \<Rightarrow>
         (if now - ts < cache_ttl_s then (cap, cache)
          else (query name, AList.update name (now, query name) cache))
     | None \<Rightarrow> (query name, AList.update name (now, query name) cache))"

definition empty_policy :: input_policy where
  "empty_policy = \<lparr>p_defaults = [], p_computed = [], p_field_mapping = []\<rparr>"

definition get_intent_profiles :: "capability_row option \<Rightarrow> json dict dict" where
  "get_intent_profiles cap = (case cap of None \<Rightarrow> [] | Some c \<Rightarrow> intent_profiles c)"

definition get_input_policy :: "capability_row option \<Rightarrow> input_policy" where
  "get_input_policy cap = (case cap of None \<Rightarrow> empty_policy | Some c \<Rightarrow> cap_policy c)"

section \<open>Enriching one node\<close>

datatype enrich_error = UnhashableProfile

text \<open>\<open>_deep_resolve\<close>: follow a dotted path through nested dictionaries.\<close>

fun resolve_parts :: "string list \<Rightarrow> json \<Rightarrow> json option" where
  "resolve_parts [] v = Some v"
| "resolve_parts (k # ks) (JDict d) = (case map_of d k of None \<Rightarrow> None | Some v \<Rightarrow> resolve_parts ks v)"
| "resolve_parts (k # ks) _ = None"

definition deep_resolve :: "string \<Rightarrow> json dict \<Rightarrow> json option" where
  "deep_resolve path data =
     (if path = [] \<or> data = [] then None else resolve_parts (py_split (CHR ''.'') path) (JDict data))"

text \<open>Step 1: \<open>profile\<close> is popped and, when it names a profile, that profile is merged in.\<close>

definition apply_profile :: "json dict dict \<Rightarrow> json dict \<Rightarrow> enrich_error + json dict" where
  "apply_profile profiles ins =
    (let rest = AList.delete ''profile'' ins in
     case map_of ins ''profile'' of
       None \<Rightarrow> Inr rest
     | Some pn \<Rightarrow> if \<not> truthy pn then Inr rest else
        (case pn of
           JStr name \<Rightarrow> Inr (dict_merge rest (dict_get profiles name []))
         | JList _ \<Rightarrow> Inl UnhashableProfile
         | JDict _ \<Rightarrow> Inl UnhashableProfile
         | _ \<Rightarrow> Inr rest))"

text \<open>Step 2: defaults, only for absent keys.\<close>

definition apply_defaults :: "json dict \<Rightarrow> json dict \<Rightarrow> json dict" where
  "apply_defaults defaults ins =
     foldl (\<lambda>d (k, v). if dict_has d k then d else AList.update k v d) ins defaults"

text \<open>Step 3: computed fields, only for absent keys and resolvable, non-\<open>None\<close> paths.\<close>

fun computed_step :: "json dict \<Rightarrow> json dict \<Rightarrow> string \<times> string \<Rightarrow> json dict" where
  "computed_step prefs d (k, path) = (if dict_has d k then d else
     (case deep_resolve path prefs of
        None \<Rightarrow> d
      | Some v \<Rightarrow> if v = JNull then d else AList.update k v d))"

definition apply_computed :: "string dict \<Rightarrow> json dict \<Rightarrow> json dict \<Rightarrow> json dict" where
  "apply_computed computed prefs ins = foldl (computed_step prefs) ins computed"

text \<open>Step 4: the \<open>item\<close> wrapper.\<close>

definition unwrap_item :: "json dict \<Rightarrow> json dict" where
  "unwrap_item ins =
    (case map_of ins ''item'' of
       Some (JDict item) \<Rightarrow>
         if length ins \<le> 2 then
           (let rest = AList.delete ''item'' ins; title = dict_get item ''title'' (JStr []) in
            if truthy title \<and> \<not> dict_has rest ''title'' then AList.update ''title'' title rest else rest)
         else ins
     | _ \<Rightarrow> ins)"

text \<open>Step 5: \<open>new_inputs[new_key] = new_inputs.pop(old_key)\<close> for every mapped key present.\<close>

fun rename_key :: "json dict \<Rightarrow> string \<times> string \<Rightarrow> json dict" where
  "rename_key d (old_key, new_key) = (case map_of d old_key of
     None \<Rightarrow> d | Some v \<Rightarrow> AList.update new_key v (AList.delete old_key d))"

definition apply_field_mapping :: "string dict \<Rightarrow> json dict \<Rightarrow> json dict" where
  "apply_field_mapping fm ins = foldl rename_key ins fm"

definition enrich_inputs ::
  "json dict dict \<Rightarrow> input_policy \<Rightarrow> json dict \<Rightarrow> json dict \<Rightarrow> enrich_error + json dict" where
  "enrich_inputs profiles policy prefs ins =
    (case apply_profile profiles ins of
       Inl e \<Rightarrow> Inl e
     | Inr d \<Rightarrow> Inr (apply_field_mapping (p_field_mapping policy)
                  (unwrap_item (apply_computed (p_computed policy) prefs
                     (apply_defaults (p_defaults policy) d)))))"

definition enrich_tool_node ::
  "(string \<Rightarrow> capability_row option) \<Rightarrow> json dict \<Rightarrow> tool_node \<Rightarrow> enrich_error + tool_node" where
  "enrich_tool_node row prefs n =
    (case enrich_inputs (get_intent_profiles (row (capability n))) (get_input_policy (row (capability n)))
            prefs (inputs n) of
       Inl e \<Rightarrow> Inl e
     | Inr new \<Rightarrow> Inr (if dict_eq new (inputs n) then n else n\<lparr>inputs := new\<rparr>))"

text \<open>
  \<open>run\<close>: the nodes in order, the first failing node aborting the pass.  When no node
  changed the graph is returned as it is; rebuilding it with equal nodes gives the same graph.
\<close>

fun enrich_nodes ::
  "(string \<Rightarrow> capability_row option) \<Rightarrow> json dict \<Rightarrow> (string \<times> physical_node) list
     \<Rightarrow> enrich_error + (string \<times> physical_node) list" where
  "enrich_nodes row prefs [] = Inr []"
| "enrich_nodes row prefs ((nid, n) # ns) =
    (case (case n of ToolNode t \<Rightarrow> (case enrich_tool_node row prefs t of Inl e \<Rightarrow> Inl e | Inr t' \<Rightarrow> Inr (ToolNode t'))
           | _ \<Rightarrow> Inr n) of
       Inl e \<Rightarrow> Inl e
     | Inr n' \<Rightarrow> (case enrich_nodes row prefs ns of Inl e \<Rightarrow> Inl e | Inr ns' \<Rightarrow> Inr ((nid, n') # ns')))"

definition enrichment_run ::
  "(string \<Rightarrow> capability_row option) \<Rightarrow> json dict \<Rightarrow> exec_graph \<Rightarrow> enrich_error + exec_graph" where
  "enrichment_run row prefs g =
    (case enrich_nodes row prefs (g_nodes g) of Inl e \<Rightarrow> Inl e | Inr ns \<Rightarrow> Inr (g\<lparr>g_nodes := ns\<rparr>))"

section \<open>The cache\<close>

text \<open>Every cached row was read from the database at its time stamp.\<close>

definition cache_faithful :: "(int \<Rightarrow> string \<Rightarrow> capability_row option) \<Rightarrow> int \<Rightarrow> registry_cache \<Rightarrow> bool" where
  "cache_faithful db now cache \<longleftrightarrow>
     (\<forall>name ts cap. map_of cache name = Some (ts, cap) \<longrightarrow> ts \<le> now \<and> cap = db ts name)"

lemma get_capability_faithful:
  assumes "cache_faithful db t0 cache" and "t0 \<le> now"
  shows "cache_faithful db now (snd (get_capability (db now) now cache name))"
  using assms by (force simp: get_capability_def cache_faithful_def dict_simps split: option.splits)

lemma get_capability_fresh:
  assumes "cache_faithful db t0 cache" and "t0 \<le> now"
  shows "\<exists>ts. now - cache_ttl_s < ts \<and> ts \<le> now \<and> fst (get_capability (db now) now cache name) = db ts name"
proof (cases "map_of cache name")
  case None
  then show ?thesis
    by (intro exI [of _ now]) (auto simp: get_capability_def cache_ttl_s_def)
next
  case (Some entry)
  obtain ts cap where e: "entry = (ts, cap)" by (cases entry)
  with assms Some have "ts \<le> now" "cap = db ts name" by (fastforce simp: cache_faithful_def)+
  show ?thesis
  proof (cases "now - ts < cache_ttl_s")
    case True
    with Some e \<open>ts \<le> now\<close> \<open>cap = db ts name\<close> show ?thesis
      by (intro exI [of _ ts]) (auto simp: get_capability_def)
  next
    case False
    with Some e show ?thesis
      by (intro exI [of _ now]) (auto simp: get_capability_def cache_ttl_s_def)
  qed
qed

section \<open>Precedence\<close>

lemma apply_defaults_lookup:
  "map_of (apply_defaults defaults ins) k = (case map_of ins k of Some v \<Rightarrow> Some v | None \<Rightarrow> map_of defaults k)"
proof -
  have "map_of (foldl (\<lambda>d (k, v). if dict_has d k then d else AList.update k v d) ins defaults) k
      = (case map_of ins k of Some v \<Rightarrow> Some v | None \<Rightarrow> map_of defaults k)"
  proof (induction defaults arbitrary: ins)
    case (Cons p ds)
    then show ?case
      by (cases p) (auto simp: dict_has_def map_of_update split: option.split)
  qed (simp split: option.split)
  then show ?thesis by (simp add: apply_defaults_def)
qed

lemma computed_step_keeps:
  "map_of ins k = Some v \<Longrightarrow> map_of (computed_step prefs ins p) k = Some v"
  by (cases p) (auto simp: dict_has_def map_of_update split: option.split)

lemma apply_computed_keeps:
  "map_of ins k = Some v \<Longrightarrow> map_of (apply_computed computed prefs ins) k = Some v"
  unfolding apply_computed_def
  by (induction computed arbitrary: ins) (auto simp: computed_step_keeps)

lemma unwrap_item_keeps:
  "map_of ins k = Some v \<Longrightarrow> k \<noteq> ''item'' \<Longrightarrow> map_of (unwrap_item ins) k = Some v"
  by (auto simp: unwrap_item_def Let_def dict_has_def dict_simps split: option.split json.split)

lemma rename_key_keeps:
  "map_of ins k = Some v \<Longrightarrow> k \<noteq> fst p \<Longrightarrow> k \<noteq> snd p \<Longrightarrow> map_of (rename_key ins p) k = Some v"
  by (cases p) (auto simp: dict_simps split: option.split)

lemma field_mapping_keeps:
  "map_of ins k = Some v \<Longrightarrow> k \<notin> fst ` set fm \<Longrightarrow> k \<notin> snd ` set fm \<Longrightarrow>
     map_of (apply_field_mapping fm ins) k = Some v"
  unfolding apply_field_mapping_def
  by (induction fm arbitrary: ins) (auto simp: rename_key_keeps)

text \<open>
  What the pass promises for the planner's inputs: a key the policy does not rename, that is
  neither \<open>profile\<close> nor \<open>item\<close> and that no profile parameter overrides keeps its value.
\<close>

lemma enrich_inputs_keeps:
  assumes "enrich_inputs profiles policy prefs ins = Inr new"
    and "map_of ins k = Some v" and "k \<noteq> ''profile''" and "k \<noteq> ''item''"
    and "k \<notin> fst ` set (p_field_mapping policy)" and "k \<notin> snd ` set (p_field_mapping policy)"
    and "\<And>name params. map_of profiles name = Some params \<Longrightarrow> k \<notin> fst ` set params"
  shows "map_of new k = Some v"
proof -
  from assms(1) obtain d where d: "apply_profile profiles ins = Inr d"
    and new: "new = apply_field_mapping (p_field_mapping policy) (unwrap_item
        (apply_computed (p_computed policy) prefs (apply_defaults (p_defaults policy) d)))"
    by (auto simp: enrich_inputs_def split: sum.splits)
  have merge: "k \<notin> fst ` set params \<Longrightarrow> map_of (dict_merge d0 params) k = map_of d0 k" for params d0
    by (induction params arbitrary: d0) (auto simp: dict_merge_def map_of_update)
  have over: "k \<notin> fst ` set (dict_get profiles name [])" for name
    using assms(7) [of name] by (cases "map_of profiles name") (auto simp: dict_get_def)
  then have "map_of d k = Some v"
    using d assms(2,3)
    by (auto simp: merge [OF over] apply_profile_def Let_def dict_simps split: option.splits if_splits json.splits)
  then have "map_of (apply_defaults (p_defaults policy) d) k = Some v"
    by (simp add: apply_defaults_lookup)
  then show ?thesis
    unfolding new using assms(4-6)
    by (intro field_mapping_keeps unwrap_item_keeps apply_computed_keeps)
qed

section \<open>Effect on the graph\<close>

lemma enrich_tool_node_deps:
  "enrich_tool_node row prefs t = Inr t' \<Longrightarrow> depends_on t' = depends_on t \<and> n_id t' = n_id t"
  by (auto simp: enrich_tool_node_def split: sum.splits if_splits)

lemma enrich_nodes_deps_table:
  "enrich_nodes row prefs ns = Inr ns' \<Longrightarrow> deps_table ns' = deps_table ns"
proof (induction ns arbitrary: ns')
  case (Cons p ns)
  obtain nid n where p: "p = (nid, n)" by (cases p)
  from Cons.prems obtain n' ms where ms: "ns' = (nid, n') # ms" "enrich_nodes row prefs ns = Inr ms"
    and n': "node_deps n' = node_deps n"
    by (cases n) (auto simp: p dest: enrich_tool_node_deps split: sum.splits)
  with Cons.IH [OF ms(2)] show ?case by (simp add: p deps_table_def)
qed simp


section \<open>Properties\<close>

text \<open>
  The planner's inputs win: after enrichment a key keeps the value the planner gave it,
  whatever the defaults and computed fields say, unless it is \<open>profile\<close> or \<open>item\<close>, is
  renamed to or from by the field mapping, or is a parameter of some intent profile.
\<close>

theorem enrichment_planner_inputs_win:
  assumes "enrich_inputs profiles policy prefs ins = Inr new"
    and "map_of ins k = Some v" and "k \<notin> {''profile'', ''item''}"
    and "k \<notin> fst ` set (p_field_mapping policy) \<union> snd ` set (p_field_mapping policy)"
    and "\<forall>p \<in> set profiles. k \<notin> fst ` set (snd p)"
  shows "map_of new k = Some v"
proof (rule enrich_inputs_keeps [OF assms(1,2)])
  fix name params
  assume "map_of profiles name = Some params"
  then have "(name, params) \<in> set profiles" by (rule map_of_SomeD)
  then show "k \<notin> fst ` set params" using bspec [OF assms(5)] by (metis snd_conv)
qed (use assms(3,4) in simp_all)

theorem enrichment_planner_inputs_win_witness:
  "\<exists>new. enrich_inputs [(''now'', [(''mode'', JStr ''m'')])]
      \<lparr>p_defaults = [(''q'', JInt 1)], p_computed = [], p_field_mapping = [(''city'', ''loc'')]\<rparr> []
      [(''q'', JInt 2), (''city'', JStr ''x''), (''profile'', JStr ''now'')] = Inr new
    \<and> map_of new ''q'' = Some (JInt 2)"
proof -
  let ?pol = "\<lparr>p_defaults = [(''q'', JInt 1)], p_computed = [], p_field_mapping = [(''city'', ''loc'')]\<rparr>"
  let ?ins = "[(''q'', JInt 2), (''city'', JStr ''x''), (''profile'', JStr ''now'')]"
  let ?prof = "[(''now'', [(''mode'', JStr ''m'')])]"
  have e: "enrich_inputs ?prof ?pol [] ?ins
      = Inr [(''q'', JInt 2), (''mode'', JStr ''m''), (''loc'', JStr ''x'')]"
    by code_simp
  show ?thesis
    using enrichment_planner_inputs_win [OF e, of "''q''" "JInt 2"] e by simp
qed

text \<open>
  Enrichment is not idempotent, although the pass manager repeats it until nothing
  changes: when a default is keyed by a name the field mapping renames, the second round
  injects the default again and renames it over the planner's value.
\<close>

theorem enrichment_repeats_lose_input:
  "\<exists>policy ins once twice. enrich_inputs [] policy [] ins = Inr once \<and> enrich_inputs [] policy [] once = Inr twice
     \<and> map_of ins ''city'' = Some (JStr ''Oslo'') \<and> map_of once ''q'' = Some (JStr ''Oslo'')
     \<and> map_of twice ''q'' = Some (JStr ''London'')"
proof (intro exI conjI)
  let ?pol = "\<lparr>p_defaults = [(''city'', JStr ''London'')], p_computed = [], p_field_mapping = [(''city'', ''q'')]\<rparr>"
  show "enrich_inputs [] ?pol [] [(''city'', JStr ''Oslo'')] = Inr [(''q'', JStr ''Oslo'')]" by code_simp
  show "enrich_inputs [] ?pol [] [(''q'', JStr ''Oslo'')] = Inr [(''q'', JStr ''London'')]" by code_simp
qed simp_all

text \<open>A sequence of registry reads: pairs of the clock and the name asked for.\<close>

fun registry_reads ::
  "(int \<Rightarrow> string \<Rightarrow> capability_row option) \<Rightarrow> registry_cache \<Rightarrow> (int \<times> string) list \<Rightarrow> capability_row option list" where
  "registry_reads db cache [] = []"
| "registry_reads db cache ((now, name) # rs) =
     (let (cap, cache') = get_capability (db now) now cache name in cap # registry_reads db cache' rs)"

lemma registry_reads_fresh:
  "cache_faithful db t0 cache \<Longrightarrow> sorted (t0 # map fst rs) \<Longrightarrow>
     list_all2 (\<lambda>cap (now, name). \<exists>ts. now - cache_ttl_s < ts \<and> ts \<le> now \<and> cap = db ts name)
       (registry_reads db cache rs) rs"
proof (induction rs arbitrary: t0 cache)
  case (Cons r rs)
  obtain now name where r: "r = (now, name)" by (cases r)
  obtain cap c' where g: "get_capability (db now) now cache name = (cap, c')" by fastforce
  have "t0 \<le> now" "sorted (now # map fst rs)" using Cons.prems(2) by (auto simp: r)
  with Cons.IH [of now c'] get_capability_faithful [OF Cons.prems(1), of now name]
    get_capability_fresh [OF Cons.prems(1), of now name] g
  show ?case by (auto simp: r)
qed simp

text \<open>
  The registry cache bounds staleness: in any sequence of reads with a clock that never
  runs backwards, starting from an empty cache, each answer is what the database held for
  that name less than 300 seconds before the read.
\<close>

theorem registry_cache_bounded_staleness:
  assumes "sorted (map fst rs)"
  shows "list_all2 (\<lambda>cap (now, name). \<exists>ts. now - 300 < ts \<and> ts \<le> now \<and> cap = db ts name)
           (registry_reads db [] rs) rs"
proof (cases rs)
  case (Cons r rs')
  have "cache_faithful db (fst r) []" by (simp add: cache_faithful_def)
  moreover have "sorted (fst r # map fst rs)" using assms Cons by simp
  ultimately show ?thesis using registry_reads_fresh by (fastforce simp: cache_ttl_s_def)
qed simp

theorem registry_cache_bounded_staleness_witness:
  "list_all2 (\<lambda>cap (now, name). \<exists>ts. now - 300 < ts \<and> ts \<le> now \<and> cap = (\<lambda>_ _. None) ts name)
     (registry_reads (\<lambda>_ _. None) [] [(0, ''a''), (299, ''a''), (300, ''a'')]) [(0 :: int, ''a''), (299, ''a''), (300, ''a'')]"
  by (rule registry_cache_bounded_staleness [of _ "\<lambda>_ _. None"]) simp

end
