(* ===== verification/Pass_Ordering.thy ===== *)
theory Pass_Ordering
  imports Waves
begin

text \<open>
  The two passes that leave the node set alone: \<open>pass\_candidate\_ranking.py\<close> (every tool
  call carries its own endpoint as first candidate) and \<open>pass\_constraint\_optimizer.py\<close>
  (inside a wave, calls of the same tool become neighbours).
\<close>

section \<open>Candidate ranking\<close>

definition primary_candidate :: "tool_node \<Rightarrow> json dict" where
  "primary_candidate tool =
    [(''endpoint_id'', JStr []),
     (''capability'', JStr (capability tool)),
     (''provider_name'', JStr (tool_name tool)),
     (''url'', JStr (endpoint_url tool)),
     (''http_method'', JStr (http_method tool)),
     (''score'', JFloat 1),
     (''cost_per_call'', JFloat (cost_estimate tool)),
     (''latency_p99_ms'', JInt (latency_estimate_ms tool)),
     (''reliability_score'', JFloat 1)]"

text \<open>\<open>c.get("url") == url\<close>\<close>

definition same_url :: "json \<Rightarrow> json dict \<Rightarrow> bool" where
  "same_url url c = py_eq (dict_get c ''url'' JNull) url"

definition add_candidate :: "tool_node \<Rightarrow> json dict list \<Rightarrow> json dict \<Rightarrow> json dict list" where
  "add_candidate tool merged cand =
    (let url = dict_get cand ''url'' (JStr []) in
     if truthy url \<and> \<not> py_eq url (JStr (endpoint_url tool)) \<and> \<not> list_ex (same_url url) merged
     then merged @ [cand] else merged)"

definition ensure_candidates :: "tool_node \<Rightarrow> json dict list" where
  "ensure_candidates tool = foldl (add_candidate tool) [primary_candidate tool] (candidate_endpoints tool)"

text \<open>\<open>if candidates != node.candidate_endpoints: node.candidate_endpoints = candidates\<close>\<close>

definition rank_tool :: "tool_node \<Rightarrow> tool_node" where
  "rank_tool tool = (let cands = ensure_candidates tool in
     if list_all2 dict_eq cands (candidate_endpoints tool) then tool
     else tool\<lparr>candidate_endpoints := cands\<rparr>)"

fun rank_node :: "physical_node \<Rightarrow> physical_node" where
  "rank_node (ToolNode t) = ToolNode (rank_tool t)"
| "rank_node (MapNode m) = MapNode (m\<lparr>body := rank_tool (body m)\<rparr>)"
| "rank_node n = n"

definition ranking_run :: "exec_graph \<Rightarrow> exec_graph" where
  "ranking_run g = g\<lparr>g_nodes := map (\<lambda>(nid, n). (nid, rank_node n)) (g_nodes g)\<rparr>"

section \<open>Constraint optimizer\<close>

definition tool_group_key :: "physical_node \<Rightarrow> string" where
  "tool_group_key n = (case n of ToolNode t \<Rightarrow> tool_name t
     | _ \<Rightarrow> ''__non_tool_'' @ node_kind n @ ''__'')"

text \<open>Ids that are not in the node dictionary are skipped (\<open>continue\<close>).\<close>

definition known_ids :: "(string \<times> physical_node) list \<Rightarrow> string list \<Rightarrow> string list" where
  "known_ids nodes wave = filter (\<lambda>nid. dict_has nodes nid) wave"

definition id_group_key :: "(string \<times> physical_node) list \<Rightarrow> string \<Rightarrow> string" where
  "id_group_key nodes nid = (case map_of nodes nid of None \<Rightarrow> [] | Some n \<Rightarrow> tool_group_key n)"

definition reorder_wave :: "(string \<times> physical_node) list \<Rightarrow> string list \<Rightarrow> string list" where
  "reorder_wave nodes wave = concat (map snd (group_by (id_group_key nodes) (known_ids nodes wave)))"

definition constraint_run :: "exec_graph \<Rightarrow> exec_graph" where
  "constraint_run g =
    (if g_nodes g = [] \<or> g_waves g = [] then g
     else let optimized = map (reorder_wave (g_nodes g)) (g_waves g) in
       if optimized = g_waves g then g else g\<lparr>g_waves := optimized\<rparr>)"

section \<open>Ranking: what every tool call ends up with\<close>

lemma rank_tool_frame [simp]:
  "depends_on (rank_tool t) = depends_on t" "n_id (rank_tool t) = n_id t"
  "endpoint_url (rank_tool t) = endpoint_url t"
  unfolding rank_tool_def Let_def by simp_all

lemma node_deps_rank_node [simp]: "node_deps (rank_node n) = node_deps n"
  by (cases n) simp_all

lemma node_id_rank_node [simp]: "node_id (rank_node n) = node_id n"
  by (cases n) simp_all

lemma deps_table_ranking [simp]: "deps_table (g_nodes (ranking_run g)) = deps_table (g_nodes g)"
  by (simp add: ranking_run_def deps_table_def comp_def case_prod_unfold)

text \<open>The candidate list invariant: own endpoint first, no empty or repeated URL after it.\<close>

definition url_of :: "json dict \<Rightarrow> json" where
  "url_of c = dict_get c ''url'' (JStr [])"

definition candidates_ok :: "string \<Rightarrow> json dict list \<Rightarrow> bool" where
  "candidates_ok own cs \<longleftrightarrow> cs \<noteq> [] \<and> url_of (hd cs) = JStr own
     \<and> (\<forall>c \<in> set (tl cs). truthy (url_of c) \<and> \<not> py_eq (url_of c) (JStr own))"

lemma url_of_primary: "url_of (primary_candidate t) = JStr (endpoint_url t)"
  by (simp add: url_of_def primary_candidate_def dict_get_def)

lemma add_candidate_ok:
  "candidates_ok (endpoint_url t) cs \<Longrightarrow> candidates_ok (endpoint_url t) (add_candidate t cs c)"
  by (cases cs) (auto simp: add_candidate_def candidates_ok_def url_of_def Let_def)

lemma ensure_candidates_ok: "candidates_ok (endpoint_url t) (ensure_candidates t)"
proof -
  have "candidates_ok (endpoint_url t) cs \<Longrightarrow> candidates_ok (endpoint_url t) (foldl (add_candidate t) cs xs)"
    for cs xs
    by (induction xs arbitrary: cs) (simp_all add: add_candidate_ok)
  moreover have "candidates_ok (endpoint_url t) [primary_candidate t]"
    by (simp add: candidates_ok_def url_of_primary)
  ultimately show ?thesis by (simp add: ensure_candidates_def)
qed

lemma head_url_dict_eq:
  assumes "dict_eq d1 d2" and "map_of d1 ''url'' = Some (JStr u)"
  shows "url_of d2 = JStr u"
  using dict_eq_lookup [OF assms(1) map_of_SomeD [OF assms(2)]] by (auto simp: url_of_def dict_get_def)

lemma rank_tool_head:
  "candidate_endpoints (rank_tool t) \<noteq> [] \<and> url_of (hd (candidate_endpoints (rank_tool t))) = JStr (endpoint_url t)"
proof (cases "list_all2 dict_eq (ensure_candidates t) (candidate_endpoints t)")
  case False
  with ensure_candidates_ok [of t] show ?thesis by (simp add: rank_tool_def candidates_ok_def)
next
  case True
  have "hd (ensure_candidates t) = primary_candidate t \<and> ensure_candidates t \<noteq> []"
  proof -
    have "cs \<noteq> [] \<Longrightarrow> hd (foldl (add_candidate t) cs xs) = hd cs \<and> foldl (add_candidate t) cs xs \<noteq> []" for cs xs
      by (induction xs arbitrary: cs) (auto simp: add_candidate_def Let_def)
    then show ?thesis by (simp add: ensure_candidates_def)
  qed
  with True obtain y ys where c: "candidate_endpoints t = y # ys" and e: "dict_eq (primary_candidate t) y"
    by (cases "ensure_candidates t"; cases "candidate_endpoints t") auto
  have "url_of y = JStr (endpoint_url t)"
    using e by (rule head_url_dict_eq) (simp add: primary_candidate_def)
  with True c show ?thesis by (simp add: rank_tool_def)
qed

section \<open>Reordering: a permutation wave by wave\<close>

lemma mset_reorder_wave: "mset (reorder_wave nodes wave) = mset (known_ids nodes wave)"
  by (simp add: reorder_wave_def mset_group_by)

lemma set_reorder_wave: "set (reorder_wave nodes wave) = set (known_ids nodes wave)"
  using mset_reorder_wave by (metis set_mset_mset)

lemma known_ids_all: "set wave \<subseteq> fst ` set nodes \<Longrightarrow> known_ids nodes wave = wave"
  by (auto simp: known_ids_def dict_has_iff intro!: filter_True)

lemma mset_concat_reorder:
  assumes "set (concat ws) \<subseteq> fst ` set nodes"
  shows "mset (concat (map (reorder_wave nodes) ws)) = mset (concat ws)"
  using assms
proof (induction ws)
  case (Cons w ws)
  have "known_ids nodes w = w" by (rule known_ids_all) (use Cons.prems in simp)
  with Cons mset_reorder_wave [of nodes w] show ?case by simp
qed simp

lemma waves_ok_reorder:
  assumes "set (concat ws) \<subseteq> fst ` set nodes"
  shows "waves_ok deps dn (map (reorder_wave nodes) ws) = waves_ok deps dn ws"
  using assms
proof (induction ws arbitrary: dn)
  case (Cons w ws)
  have k: "set (reorder_wave nodes w) = set w"
    using Cons.prems by (simp add: set_reorder_wave known_ids_all)
  have "waves_ok deps (dn @ reorder_wave nodes w) (map (reorder_wave nodes) ws)
      = waves_ok deps (dn @ reorder_wave nodes w) ws"
    using Cons by simp
  also have "\<dots> = waves_ok deps (dn @ w) ws"
    using k by (auto elim: waves_ok_mono)
  finally show ?case using k by (simp add: list_all_iff)
qed simp

text \<open>Same-key ids are neighbours: each group is a contiguous block.\<close>

lemma group_contiguous:
  assumes "wave = reorder_wave nodes w"
  shows "\<exists>gs. wave = concat gs \<and> distinct (map (\<lambda>g. id_group_key nodes (hd g)) gs)
     \<and> (\<forall>g \<in> set gs. g \<noteq> [] \<and> (\<forall>x \<in> set g. id_group_key nodes x = id_group_key nodes (hd g)))"
proof (intro exI conjI ballI)
  let ?G = "group_by (id_group_key nodes) (known_ids nodes w)"
  show "wave = concat (map snd ?G)" using assms by (simp add: reorder_wave_def)
  have key: "g \<noteq> [] \<and> (\<forall>x \<in> set g. id_group_key nodes x = k)" if "(k, g) \<in> set ?G" for k g
    using group_by_mem [OF that] by auto
  then have "map (\<lambda>g. id_group_key nodes (hd g)) (map snd ?G) = map fst ?G"
    by (auto simp: hd_in_set)
  then show "distinct (map (\<lambda>g. id_group_key nodes (hd g)) (map snd ?G))"
    using distinct_group_by by metis
  fix g
  assume "g \<in> set (map snd ?G)"
  with key show "g \<noteq> []" by auto
  fix x
  assume "x \<in> set g"
  with \<open>g \<in> set (map snd ?G)\<close> key show "id_group_key nodes x = id_group_key nodes (hd g)"
    by (fastforce simp: hd_in_set)
qed


section \<open>Properties\<close>

text \<open>
  Ranking and reordering change no dependency and no wave as a set: a sound schedule
  stays sound, a complete one complete, and after reordering the calls of one tool are
  neighbours in their wave (each group a contiguous block).
\<close>

theorem ordering_passes_keep_schedule:
  assumes "wf_graph g" and "sound_waves g"
  shows "sound_waves (constraint_run (ranking_run g))
     \<and> mset (concat (g_waves (constraint_run (ranking_run g)))) = mset (concat (g_waves g))
     \<and> (g_nodes g \<noteq> [] \<longrightarrow> (\<forall>w \<in> set (g_waves (constraint_run (ranking_run g))). \<exists>gs. w = concat gs
          \<and> distinct (map (\<lambda>x. id_group_key (g_nodes (ranking_run g)) (hd x)) gs)
          \<and> (\<forall>x \<in> set gs. x \<noteq> [] \<and> (\<forall>y \<in> set x. id_group_key (g_nodes (ranking_run g)) y
               = id_group_key (g_nodes (ranking_run g)) (hd x)))))"
proof -
  let ?h = "ranking_run g"
  have k: "fst ` set (g_nodes ?h) = fst ` set (g_nodes g)" by (force simp: ranking_run_def)
  have w: "g_waves ?h = g_waves g" by (simp add: ranking_run_def)
  have sub: "set (concat (g_waves g)) \<subseteq> fst ` set (g_nodes ?h)"
    using assms(1) by (simp add: wf_graph_def k)
  have c: "g_nodes (constraint_run ?h) = g_nodes ?h" by (simp add: constraint_run_def Let_def)
  have ws: "g_waves (constraint_run ?h) = (if g_nodes g = [] then g_waves g
      else map (reorder_wave (g_nodes ?h)) (g_waves g))"
    by (auto simp: constraint_run_def Let_def w) (simp_all add: ranking_run_def)
  have "sound_waves (constraint_run ?h)"
    using assms(2) waves_ok_reorder [OF sub] by (cases "g_nodes g = []") (simp_all add: sound_waves_def c ws)
  moreover have "mset (concat (g_waves (constraint_run ?h))) = mset (concat (g_waves g))"
    using mset_concat_reorder [OF sub] unfolding ws by (cases "g_nodes g = []") (simp_all del: mset_concat)
  ultimately show ?thesis using group_contiguous [OF refl, of "g_nodes ?h"] by (auto simp: ws)
qed

theorem ordering_passes_keep_schedule_witness:
  "sound_waves (constraint_run (ranking_run (example_graph
     [(''a'', ToolNode (example_tool ''a'' ''t'' [] [])), (''b'', ToolNode (example_tool ''b'' ''u'' [] [])),
      (''c'', ToolNode (example_tool ''c'' ''t'' [] []))] [[''a'', ''b'', ''c'']])))"
  by (rule ordering_passes_keep_schedule [THEN conjunct1]) (code_simp, code_simp)

text \<open>
  After ranking, every tool call, at the top level or as the body of a map, has a
  non-empty candidate list whose first entry is its own endpoint, so the executor's fallback
  starts from the endpoint the compiler chose.
\<close>

theorem ranking_own_endpoint_first:
  assumes "(k, n) \<in> set (g_nodes (ranking_run g))"
    and "n = ToolNode t \<or> (\<exists>m. n = MapNode m \<and> t = body m)"
  shows "candidate_endpoints t \<noteq> [] \<and> dict_get (hd (candidate_endpoints t)) ''url'' (JStr []) = JStr (endpoint_url t)"
proof -
  from assms(1) obtain n0 where "n = rank_node n0" by (auto simp: ranking_run_def)
  with assms(2) obtain t0 where "t = rank_tool t0" by (cases n0) auto
  then show ?thesis using rank_tool_head [of t0] by (simp add: url_of_def)
qed

theorem ranking_own_endpoint_first_witness:
  "candidate_endpoints (rank_tool (example_tool ''a'' ''t'' [] [])) \<noteq> []"
  using ranking_own_endpoint_first [of "''a''" "ToolNode (rank_tool (example_tool ''a'' ''t'' [] []))"
      "example_graph [(''a'', ToolNode (example_tool ''a'' ''t'' [] []))] []"]
  by (simp add: ranking_run_def example_graph_def)

end
