(* ===== verification/Global_Context.thy ===== *)
theory Global_Context
  imports IR
begin

text \<open>
  The part of \<open>context/global_context.py\<close> the compiler passes and the executor read: the
  capability index (whose \<open>contract\<close> entry may be a plain dictionary or an object with
  attributes) and the provider table.  \<open>build_tool_contract\<close> is
  \<open>tools/registry.py:_build_tool_contract\<close>, which produces the contract entry of every
  registered tool.
\<close>

datatype contract =
    ContractDict "json dict"
  | ContractObj bool "bool option"   \<comment> \<open>attributes \<open>idempotent\<close> and \<open>dedup_safe\<close>\<close>

record cap_meta =
  meta_contract :: "contract option"
  meta_produces :: "string list"
  meta_input_props :: "string list"
  meta_input_required :: "string list"

record global_context =
  capability_index :: "(string \<times> cap_meta) list"
  capability_providers :: "(string \<times> json list) list"

record tool_def =
  t_idempotent :: bool
  t_risk_level :: string
  t_requires_approval :: bool
  t_cacheable :: bool
  t_capabilities :: "string list"
  t_related :: "string list"
  t_validation_rules :: "json dict"
  t_compensating_operation :: "string option"

definition build_tool_contract :: "rat \<Rightarrow> int \<Rightarrow> tool_def \<Rightarrow> json dict" where
  "build_tool_contract default_timeout_s default_retries t =
    (let risk = (if t_risk_level t = [] then ''low'' else t_risk_level t) in
    [(''idempotent'', JBool (t_idempotent t)),
     (''risk_level'', JStr risk),
     (''requires_approval'', JBool (t_requires_approval t)),
     (''cacheable'', JBool (t_cacheable t)),
     (''capabilities'', JList (map JStr (t_capabilities t))),
     (''related'', JList (map JStr (t_related t))),
     (''business_rules'', JDict (t_validation_rules t)),
     (''execution_policy'', JDict
       [(''timeout_s'', JFloat default_timeout_s),
        (''retries'', JInt default_retries),
        (''parallel'', JBool True),
        (''risk_level'', JStr risk),
        (''requires_approval'', JBool (t_requires_approval t)),
        (''idempotent'', JBool (t_idempotent t)),
        (''cacheable'', JBool (t_cacheable t)),
        (''budget_usd'', JNull),
        (''permissions'', JList []),
        (''rollback'', (case t_compensating_operation t of None \<Rightarrow> JNull | Some r \<Rightarrow> JStr r)),
        (''maintenance_windows'', JList [])])])"

text \<open>\<open>getattr(contract, name, default)\<close>: a dictionary has no such attribute.\<close>

fun attr_idempotent :: "contract \<Rightarrow> bool" where
  "attr_idempotent (ContractDict _) = False"
| "attr_idempotent (ContractObj idem _) = idem"

fun attr_dedup_safe :: "contract \<Rightarrow> bool option" where
  "attr_dedup_safe (ContractDict _) = None"
| "attr_dedup_safe (ContractObj _ ds) = ds"

definition get_meta :: "global_context \<Rightarrow> string \<Rightarrow> cap_meta option" where
  "get_meta gc name = map_of (capability_index gc) name"

definition get_capability_providers :: "global_context \<Rightarrow> string \<Rightarrow> json list" where
  "get_capability_providers gc name = dict_get (capability_providers gc) name []"

end
