(* ===== verification/Pass_Dedup.thy ===== *)
theory Pass_Dedup
  imports Waves Global_Context
begin

text \<open>
  \<open>compiler/passes/pass\_deduplication.py\<close>: tool calls with equal signature are merged into
  the first of them, and every reference to a merged node is redirected.  The digest is the
  parameter \<open>sha\<close>; the registry metadata is a \<open>global_context\<close>.
\<close>

section \<open>The pass\<close>

text \<open>\<open>_dedup_safe\<close>; every failure inside its \<open>try\<close> block also means \<open>False\<close>.\<close>

definition dedup_safe :: "global_context \<Rightarrow> string \<Rightarrow> bool" where
  "dedup_safe gc name =
    (case get_meta gc name of
       None \<Rightarrow> False
     | Some meta \<Rightarrow>
        (case meta_contract meta of
           None \<Rightarrow> False
         | Some ct \<Rightarrow> if \<not> attr_idempotent ct then False
             else (case attr_dedup_safe ct of None \<Rightarrow> True | Some b \<Rightarrow> b)))"

fun extract_tool_node :: "physical_node \<Rightarrow> tool_node option" where
  "extract_tool_node (ToolNode t) = Some t"
| "extract_tool_node (MapNode m) = Some (body m)"
| "extract_tool_node _ = None"

fun signature_payload :: "physical_node \<Rightarrow> json dict" where
  "signature_payload (ToolNode t) = [(''tool_name'', JStr (tool_name t)), (''inputs'', JDict (inputs t))]"
| "signature_payload (MapNode m) = [(''tool_name'', JStr (tool_name (body m))),
     (''inputs'', JDict (inputs (body m))), (''iterate_over'', JStr (iterate_over m))]"
| "signature_payload _ = []"

definition node_signature :: "(json \<Rightarrow> string) \<Rightarrow> physical_node \<Rightarrow> string" where
  "node_signature sha n = hash_json sha (JDict (signature_payload n))"

definition mergeable :: "global_context \<Rightarrow> physical_node \<Rightarrow> bool" where
  "mergeable gc n = (case extract_tool_node n of None \<Rightarrow> False | Some t \<Rightarrow> dedup_safe gc (tool_name t))"

definition sig_groups ::
  "(json \<Rightarrow> string) \<Rightarrow> global_context \<Rightarrow> (string \<times> physical_node) list
     \<Rightarrow> (string \<times> (string \<times> physical_node) list) list" where
  "sig_groups sha gc nodes =
     group_by (\<lambda>p. node_signature sha (snd p)) (filter (\<lambda>p. mergeable gc (snd p)) nodes)"

text \<open>\<open>remap\<close>: every later member of a group of two or more, to the first member.\<close>

definition group_remap :: "string \<times> (string \<times> physical_node) list \<Rightarrow> (string \<times> string) list" where
  "group_remap sg = (if length (snd sg) < 2 then []
     else map (\<lambda>p. (fst p, fst (hd (snd sg)))) (tl (snd sg)))"

definition dedup_remap ::
  "(json \<Rightarrow> string) \<Rightarrow> global_context \<Rightarrow> (string \<times> physical_node) list \<Rightarrow> (string \<times> string) list" where
  "dedup_remap sha gc nodes = concat (map group_remap (sig_groups sha gc nodes))"

definition remapped :: "(string \<times> string) list \<Rightarrow> string \<Rightarrow> string" where
  "remapped remap d = dict_get remap d d"

fun remap_deps :: "(string \<times> string) list \<Rightarrow> physical_node \<Rightarrow> physical_node" where
  "remap_deps remap (ConditionalNode c) = ConditionalNode
     (c\<lparr>depends_on := map (remapped remap) (depends_on c),
        branch_true := map (remapped remap) (branch_true c),
        branch_false := map (remapped remap) (branch_false c)\<rparr>)"
| "remap_deps remap (ReduceNode r) = ReduceNode
     (r\<lparr>depends_on := map (remapped remap) (depends_on r),
        r_source_ref := remapped remap (r_source_ref r)\<rparr>)"
| "remap_deps remap n = set_deps (map (remapped remap) (node_deps n)) n"

fun remap_body :: "(string \<times> string) list \<Rightarrow> physical_node \<Rightarrow> physical_node" where
  "remap_body remap (MapNode m) = MapNode (if dict_has remap (n_id (body m))
     then m\<lparr>body := (body m)\<lparr>n_id := remapped remap (n_id (body m))\<rparr>\<rparr> else m)"
| "remap_body remap n = n"

definition dedup_kept :: "(string \<times> string) list \<Rightarrow> (string \<times> physical_node) list \<Rightarrow> (string \<times> physical_node) list" where
  "dedup_kept remap nodes = map (\<lambda>(nid, n). (nid, remap_body remap (remap_deps remap n)))
     (filter (\<lambda>(nid, n). \<not> dict_has remap nid) nodes)"

definition dedup_run :: "(json \<Rightarrow> string) \<Rightarrow> global_context \<Rightarrow> exec_graph \<Rightarrow> exec_graph" where
  "dedup_run sha gc g =
    (let nodes = g_nodes g in
     if length nodes < 2 then g
     else let remap = dedup_remap sha gc nodes in
       if remap = [] then g
       else let kept = dedup_kept remap nodes in
         if length kept = length nodes then g
         else g\<lparr>g_nodes := kept, g_waves := prune_waves (g_waves g) (fst ` set kept)\<rparr>)"

section \<open>What is merged with what\<close>

lemma dedup_remap_mem:
  assumes "(dup, can) \<in> set (dedup_remap sha gc nodes)"
  shows "\<exists>nd nc ps. (dup, nd) \<in> set nodes \<and> (can, nc) \<in> set nodes
     \<and> mergeable gc nd \<and> mergeable gc nc \<and> node_signature sha nd = node_signature sha nc
     \<and> filter (\<lambda>p. node_signature sha (snd p) = node_signature sha nd)
          (filter (\<lambda>p. mergeable gc (snd p)) nodes) = (can, nc) # ps \<and> (dup, nd) \<in> set ps"
proof -
  from assms obtain sg where sg: "sg \<in> set (sig_groups sha gc nodes)" "(dup, can) \<in> set (group_remap sg)"
    by (auto simp: dedup_remap_def)
  obtain s g where p: "sg = (s, g)" by (cases sg)
  have g: "g = filter (\<lambda>p. node_signature sha (snd p) = s) (filter (\<lambda>p. mergeable gc (snd p)) nodes)"
    using group_by_mem [OF sg(1) [unfolded sig_groups_def p]] by simp
  from sg(2) obtain nc nd ps where e: "g = (can, nc) # ps" "(dup, nd) \<in> set ps"
    by (cases g) (auto simp: p group_remap_def split: if_splits)
  have mem: "x \<in> set nodes \<and> mergeable gc (snd x) \<and> node_signature sha (snd x) = s" if "x \<in> set g" for x
    using that unfolding g by auto
  from mem [of "(can, nc)"] mem [of "(dup, nd)"] e
  have "(can, nc) \<in> set nodes" "mergeable gc nc" "node_signature sha nc = s"
    "(dup, nd) \<in> set nodes" "mergeable gc nd" "node_signature sha nd = s" by auto
  moreover have "filter (\<lambda>p. node_signature sha (snd p) = s) (filter (\<lambda>p. mergeable gc (snd p)) nodes) = (can, nc) # ps"
    using e(1) g by simp
  ultimately show ?thesis using e(2) by metis
qed

lemma canonical_not_merged:
  assumes d: "distinct (map fst nodes)" and c: "(dup, can) \<in> set (dedup_remap sha gc nodes)"
  shows "\<not> dict_has (dedup_remap sha gc nodes) can"
proof
  assume "dict_has (dedup_remap sha gc nodes) can"
  then obtain can' where "(can, can') \<in> set (dedup_remap sha gc nodes)"
    by (auto simp: dict_has_iff)
  from dedup_remap_mem [OF this] obtain n1 nc' ps' where 1:
    "(can, n1) \<in> set nodes" "filter (\<lambda>p. node_signature sha (snd p) = node_signature sha n1)
        (filter (\<lambda>p. mergeable gc (snd p)) nodes) = (can', nc') # ps'" "(can, n1) \<in> set ps'" by blast
  from dedup_remap_mem [OF c] obtain nd nc ps where 2:
    "(can, nc) \<in> set nodes" "node_signature sha nd = node_signature sha nc"
    "filter (\<lambda>p. node_signature sha (snd p) = node_signature sha nd)
        (filter (\<lambda>p. mergeable gc (snd p)) nodes) = (can, nc) # ps" by blast
  have "n1 = nc" using d 1(1) 2(1) by (metis map_of_eq_Some_iff option.inject)
  with 1 2 have "can' = can" "nc' = nc" "ps' = ps" by auto
  with 1(3) \<open>n1 = nc\<close> have in_tl: "(can, nc) \<in> set ps" by simp
  have "distinct (map fst ((can, nc) # ps))"
    unfolding 2(3) [symmetric] by (intro distinct_map_fst_filter d)
  with in_tl show False by force
qed

lemma remapped_cases:
  assumes "distinct (map fst nodes)"
  shows "\<not> dict_has (dedup_remap sha gc nodes) (remapped (dedup_remap sha gc nodes) d)"
  using canonical_not_merged [OF assms]
  by (cases "map_of (dedup_remap sha gc nodes) d")
    (auto simp: remapped_def dict_get_def dict_has_def dest: map_of_SomeD)

lemma remapped_in_nodes:
  assumes "d \<in> fst ` set nodes"
  shows "remapped (dedup_remap sha gc nodes) d \<in> fst ` set nodes"
proof (cases "map_of (dedup_remap sha gc nodes) d")
  case None
  with assms show ?thesis by (simp add: remapped_def dict_get_def)
next
  case (Some can)
  from dedup_remap_mem [OF map_of_SomeD [OF this]] obtain nc where "(can, nc) \<in> set nodes" by blast
  with Some show ?thesis by (force simp: remapped_def dict_get_def)
qed

lemma node_deps_remap [simp]: "node_deps (remap_deps r n) = map (remapped r) (node_deps n)"
  by (cases n) auto

lemma node_id_remap [simp]: "node_id (remap_deps r n) = node_id n"
  by (cases n) auto

lemma node_deps_remap_body [simp]: "node_deps (remap_body r n) = node_deps n"
  by (cases n) auto

lemma node_id_remap_body [simp]: "node_id (remap_body r n) = node_id n"
  by (cases n) auto

lemma keys_dedup_kept: "map fst (dedup_kept r nodes) = filter (\<lambda>k. \<not> dict_has r k) (map fst nodes)"
  by (induction nodes) (auto simp: dedup_kept_def)

lemma deps_dedup_kept:
  "deps_in (deps_table (dedup_kept r nodes)) k =
     (if dict_has r k then [] else map (remapped r) (deps_in (deps_table nodes) k))"
  by (induction nodes) (auto simp: deps_in_table dedup_kept_def)

section \<open>Closedness, well-formedness, schedule\<close>

lemma dedup_run_cases:
  assumes "dedup_run sha gc g \<noteq> g"
  shows "dedup_run sha gc g = g\<lparr>g_nodes := dedup_kept (dedup_remap sha gc (g_nodes g)) (g_nodes g),
    g_waves := prune_waves (g_waves g) (fst ` set (dedup_kept (dedup_remap sha gc (g_nodes g)) (g_nodes g)))\<rparr>"
  using assms by (auto simp: dedup_run_def Let_def split: if_splits)

lemma wf_graph_prune:
  assumes "wf_graph g" and "distinct (map fst ns)" and "list_all (\<lambda>(k, n). node_id n = k) ns"
  shows "wf_graph (g\<lparr>g_nodes := ns, g_waves := prune_waves (g_waves g) (fst ` set ns)\<rparr>)"
  using assms by (auto simp: wf_graph_def)

lemma wf_dedup_run: assumes "wf_graph g" shows "wf_graph (dedup_run sha gc g)"
proof (cases "dedup_run sha gc g = g")
  case True
  with assms show ?thesis by simp
next
  case False
  have "list_all (\<lambda>(k, n). node_id n = k) (dedup_kept r (g_nodes g))" for r
    using assms by (auto simp: wf_graph_def dedup_kept_def list_all_iff)
  moreover have "distinct (map fst (dedup_kept r (g_nodes g)))" for r
    using assms by (simp add: wf_graph_def keys_dedup_kept)
  ultimately show ?thesis
    unfolding dedup_run_cases [OF False] by (intro wf_graph_prune assms)
qed

lemma closed_dedup_run:
  assumes "wf_graph g" and "closed_graph g"
  shows "closed_graph (dedup_run sha gc g)"
proof (cases "dedup_run sha gc g = g")
  case True
  with assms show ?thesis by simp
next
  case False
  let ?r = "dedup_remap sha gc (g_nodes g)"
  have d: "distinct (map fst (g_nodes g))" using assms by (simp add: wf_graph_def)
  have "closed_table (deps_table (dedup_kept ?r (g_nodes g)))"
  proof (rule closed_tableI)
    show "distinct (map fst (deps_table (dedup_kept ?r (g_nodes g))))"
      using d by (simp add: keys_dedup_kept)
    fix k e
    assume "e \<in> set (deps_in (deps_table (dedup_kept ?r (g_nodes g))) k)"
    then obtain e0 where e0: "e0 \<in> set (deps_in (deps_table (g_nodes g)) k)" "e = remapped ?r e0"
      by (auto simp: deps_dedup_kept split: if_splits)
    then have "e0 \<in> fst ` set (g_nodes g)"
      using closed_tableD [OF assms(2) [unfolded closed_graph_def]] by simp
    then have "e \<in> fst ` set (g_nodes g)" using e0(2) remapped_in_nodes by blast
    then have "e \<in> set (map fst (dedup_kept ?r (g_nodes g)))"
      unfolding keys_dedup_kept using remapped_cases [OF d] e0(2) by auto
    then show "e \<in> fst ` set (deps_table (dedup_kept ?r (g_nodes g)))" by simp
  qed
  then show ?thesis unfolding dedup_run_cases [OF False] by (simp add: closed_graph_def)
qed

text \<open>
  The waves are pruned, not rebuilt: the schedule stays sound when no merged node was
  scheduled before the node it is merged into.
\<close>

definition merges_forward :: "(json \<Rightarrow> string) \<Rightarrow> global_context \<Rightarrow> exec_graph \<Rightarrow> bool" where
  "merges_forward sha gc g = list_all (\<lambda>(dup, can).
     list_all (\<lambda>i. dup \<in> set (g_waves g ! i) \<longrightarrow> list_ex (\<lambda>j. can \<in> set (g_waves g ! j)) [0..<Suc i])
       [0..<length (g_waves g)]) (dedup_remap sha gc (g_nodes g))"

lemma merges_forwardD:
  assumes "merges_forward sha gc g" and "(dup, can) \<in> set (dedup_remap sha gc (g_nodes g))"
    and "i < length (g_waves g)" and "dup \<in> set (g_waves g ! i)"
  shows "\<exists>j \<le> i. can \<in> set (g_waves g ! j)"
proof -
  from assms have "list_ex (\<lambda>j. can \<in> set (g_waves g ! j)) [0..<Suc i]"
    unfolding merges_forward_def list_all_iff by fastforce
  then show ?thesis unfolding list_ex_iff by (auto simp del: upt_Suc simp: less_Suc_eq_le)
qed

lemma sound_dedup_run:
  assumes wf: "wf_graph g" and s: "sound_waves g" and m: "merges_forward sha gc g"
  shows "sound_waves (dedup_run sha gc g)"
proof (cases "dedup_run sha gc g = g")
  case True
  with s show ?thesis by simp
next
  case False
  let ?r = "dedup_remap sha gc (g_nodes g)" and ?ws = "g_waves g"
  let ?K = "fst ` set (dedup_kept ?r (g_nodes g))"
  have d: "distinct (map fst (g_nodes g))" using wf by (simp add: wf_graph_def)
  have K: "?K = {k \<in> fst ` set (g_nodes g). \<not> dict_has ?r k}"
    by (simp only: list.set_map [symmetric] keys_dedup_kept) auto
  have "waves_ok (deps_in (deps_table (dedup_kept ?r (g_nodes g)))) [] (prune_waves ?ws ?K)"
  proof (rule waves_ok_prune [OF s [unfolded sound_waves_def]])
    fix i n e
    assume i: "i < length ?ws" "n \<in> set (?ws ! i)"
      and "e \<in> set (deps_in (deps_table (dedup_kept ?r (g_nodes g))) n)"
    then obtain e0 where e0: "e0 \<in> set (deps_in (deps_table (g_nodes g)) n)" "e = remapped ?r e0"
      by (auto simp: deps_dedup_kept split: if_splits)
    from waves_ok_index [OF s [unfolded sound_waves_def] i e0(1)]
    obtain j where j: "j < i" "e0 \<in> set (?ws ! j)" by blast
    have "\<exists>j' \<le> j. e \<in> set (?ws ! j')"
    proof (cases "map_of ?r e0")
      case None
      with e0 j show ?thesis by (auto simp: remapped_def dict_get_def)
    next
      case (Some can)
      then have "e = can" "(e0, can) \<in> set ?r"
        by (auto simp: e0(2) remapped_def dict_get_def dest: map_of_SomeD)
      moreover have "j < length ?ws" using j(1) i(1) by simp
      ultimately show ?thesis using merges_forwardD [OF m] j(2) by blast
    qed
    then have ex: "\<exists>j < i. e \<in> set (?ws ! j)" using j(1) by (meson le_less_trans)
    then have "e \<in> set (concat ?ws)" using i(1) by (auto intro!: bexI [of _ "?ws ! _"])
    then have "e \<in> ?K"
      using wf remapped_cases [OF d] unfolding K by (auto simp: wf_graph_def e0(2))
    with ex show "e \<in> ?K \<and> (\<exists>j < i. e \<in> set (?ws ! j))" by blast
  qed
  then show ?thesis unfolding dedup_run_cases [OF False] by (simp add: sound_waves_def)
qed

section \<open>Equal signatures\<close>

lemma map_of_sort_key:
  assumes "distinct (map fst (d :: ('k :: linorder \<times> 'v) list))"
  shows "map_of (sort_key fst d) = map_of d"
proof -
  have "distinct (map fst (sort_key fst d))"
    using assms by (metis distinct_sort mset_map mset_sort set_sort distinct_map inj_on_cong)
  then show ?thesis using assms by (simp add: map_of_inject_set)
qed

lemma canon_dict_lookup:
  assumes "distinct (map fst d1)" "distinct (map fst d2)" and "canon (JDict d1) = canon (JDict d2)"
  shows "map_option canon (map_of d1 k) = map_option canon (map_of d2 k)"
proof -
  have m: "map_of (map (map_prod id canon) d) k = map_option canon (map_of d k)" for d :: "json dict"
    by (induction d) auto
  have k: "map fst (map (map_prod id canon) d) = map fst d" for d :: "json dict"
    by simp
  have "map_of (sort_key fst (map (map_prod id canon) d1)) = map_of (sort_key fst (map (map_prod id canon) d2))"
    using assms(3) by simp
  then show ?thesis using m k assms(1,2) map_of_sort_key by metis
qed

lemma distinct_payload: "distinct (map fst (signature_payload n))"
  by (cases n) auto

section \<open>Properties\<close>

text \<open>
  Deduplication only merges repeatable calls: a node is removed in favour of another
  only when both call the same tool with the same inputs (up to key order) over the same
  collection, and that tool's contract is idempotent and not marked unsafe to merge, provided
  the digests of the graph's signatures do not collide.
\<close>

theorem dedup_merges_equal_calls:
  assumes "inj_on sha ((\<lambda>p. canon (JDict (signature_payload (snd p)))) ` set (g_nodes g))"
    and "(dup, can) \<in> set (dedup_remap sha gc (g_nodes g))"
  shows "\<exists>nd nc td tc. (dup, nd) \<in> set (g_nodes g) \<and> (can, nc) \<in> set (g_nodes g)
     \<and> extract_tool_node nd = Some td \<and> extract_tool_node nc = Some tc
     \<and> tool_name td = tool_name tc \<and> canon (JDict (inputs td)) = canon (JDict (inputs tc))
     \<and> map_of (signature_payload nd) ''iterate_over'' = map_of (signature_payload nc) ''iterate_over''
     \<and> dedup_safe gc (tool_name td)"
proof -
  from dedup_remap_mem [OF assms(2)] obtain nd nc where n:
    "(dup, nd) \<in> set (g_nodes g)" "(can, nc) \<in> set (g_nodes g)" "mergeable gc nd" "mergeable gc nc"
    "node_signature sha nd = node_signature sha nc" by blast
  then have "canon (JDict (signature_payload nd)) = canon (JDict (signature_payload nc))"
    using assms(1) by (force simp: node_signature_def hash_json_def dest: inj_onD)
  from canon_dict_lookup [OF distinct_payload distinct_payload this]
  have eq: "map_option canon (map_of (signature_payload nd) k) = map_option canon (map_of (signature_payload nc) k)" for k .
  from n(3,4) obtain td tc where t: "extract_tool_node nd = Some td" "extract_tool_node nc = Some tc"
    "dedup_safe gc (tool_name td)"
    by (auto simp: mergeable_def split: option.splits)
  then have "tool_name td = tool_name tc \<and> canon (JDict (inputs td)) = canon (JDict (inputs tc))
      \<and> map_of (signature_payload nd) ''iterate_over'' = map_of (signature_payload nc) ''iterate_over''"
    using eq [of "''tool_name''"] eq [of "''inputs''"] eq [of "''iterate_over''"]
    by (cases nd; cases nc) auto
  with n(1,2) t show ?thesis by blast
qed

definition example_gc :: global_context where
  "example_gc = \<lparr>capability_index = [(''t'', \<lparr>meta_contract = Some (ContractObj True None),
     meta_produces = [], meta_input_props = [], meta_input_required = []\<rparr>)], capability_providers = []\<rparr>"

theorem dedup_merges_equal_calls_witness:
  "\<exists>td. extract_tool_node (ToolNode (example_tool ''b'' ''t'' [] [])) = Some td \<and> dedup_safe example_gc (tool_name td)"
proof -
  let ?g = "example_graph [(''a'', ToolNode (example_tool ''a'' ''t'' [] [])),
                           (''b'', ToolNode (example_tool ''b'' ''t'' [] []))] [[''a'', ''b'']]"
  have "inj_on flat_json ((\<lambda>p. canon (JDict (signature_payload (snd p)))) ` set (g_nodes ?g))"
    by (simp add: example_graph_def example_tool_def)
  moreover have "(''b'', ''a'') \<in> set (dedup_remap flat_json example_gc (g_nodes ?g))"
    by code_simp
  ultimately show ?thesis
    using dedup_merges_equal_calls [of flat_json ?g "''b''" "''a''" example_gc]
    by (auto simp: example_graph_def)
qed

text \<open>
  Deduplication keeps a closed, well-formed graph closed and well-formed: every
  dependency on a removed duplicate is redirected to a node that is kept.
\<close>

theorem dedup_preserves_closed:
  assumes "wf_graph g" and "closed_graph g"
  shows "wf_graph (dedup_run sha gc g) \<and> closed_graph (dedup_run sha gc g)"
  using assms wf_dedup_run closed_dedup_run by blast

theorem dedup_preserves_closed_witness:
  "closed_graph (dedup_run flat_json example_gc (example_graph
     [(''a'', ToolNode (example_tool ''a'' ''t'' [] [])), (''b'', ToolNode (example_tool ''b'' ''t'' [] [])),
      (''c'', ToolNode (example_tool ''c'' ''u'' [] [''b'']))] [[''a'', ''b''], [''c'']]))"
  by (rule dedup_preserves_closed [THEN conjunct2]) (code_simp, code_simp)

text \<open>
  The pruned schedule stays sound as long as no duplicate runs in an earlier wave than
  the node it is merged into.
\<close>

theorem dedup_schedule_sound:
  assumes "wf_graph g" and "sound_waves g" and "merges_forward sha gc g"
  shows "sound_waves (dedup_run sha gc g)"
  using assms by (rule sound_dedup_run)

theorem dedup_schedule_sound_witness:
  "sound_waves (dedup_run flat_json example_gc (example_graph
     [(''a'', ToolNode (example_tool ''a'' ''t'' [] [])), (''b'', ToolNode (example_tool ''b'' ''t'' [] [])),
      (''c'', ToolNode (example_tool ''c'' ''u'' [] [''b'']))] [[''a'', ''b''], [''c'']]))"
  by (rule dedup_schedule_sound) (code_simp, code_simp, code_simp)

text \<open>
  Without that condition the pass breaks the schedule: merging an early call into a
  later one leaves a consumer in the same wave as the node it now depends on, in a graph
  whose schedule was sound and complete.
\<close>

theorem dedup_can_break_schedule:
  "\<exists>g. wf_graph g \<and> closed_graph g \<and> sound_waves g \<and> complete_waves g
     \<and> closed_graph (dedup_run flat_json example_gc g) \<and> \<not> sound_waves (dedup_run flat_json example_gc g)"
proof (intro exI conjI)
  let ?g = "example_graph
     [(''late'', ToolNode (example_tool ''late'' ''t'' [] [''root''])),
      (''root'', ToolNode (example_tool ''root'' ''u'' [] [])),
      (''early'', ToolNode (example_tool ''early'' ''t'' [] [])),
      (''user'', ToolNode (example_tool ''user'' ''v'' [] [''early'']))]
     [[''root'', ''early''], [''late'', ''user'']]"
  show "wf_graph ?g" by code_simp
  show "closed_graph ?g" by code_simp
  show "sound_waves ?g" by code_simp
  show "complete_waves ?g" by code_simp
  show "closed_graph (dedup_run flat_json example_gc ?g)" by code_simp
  show "\<not> sound_waves (dedup_run flat_json example_gc ?g)" by code_simp
qed

text \<open>
  With the contract entries \<open>_build_tool_contract\<close> produces (plain dictionaries, on
  which \<open>getattr\<close> finds no attribute) nothing is ever merged, whatever the tool declares.
\<close>

theorem dedup_inert_on_registry_contracts:
  assumes "\<And>name meta. get_meta gc name = Some meta \<Longrightarrow>
     meta_contract meta = None \<or> (\<exists>tmo rts t. meta_contract meta = Some (ContractDict (build_tool_contract tmo rts t)))"
  shows "dedup_run sha gc g = g"
proof -
  have "\<not> dedup_safe gc name" for name
    using assms [of name] by (auto simp: dedup_safe_def split: option.split)
  then have "\<not> mergeable gc n" for n
    by (simp add: mergeable_def split: option.split)
  then have "dedup_remap sha gc ns = []" for ns
    by (simp add: dedup_remap_def sig_groups_def group_by_def)
  then show ?thesis by (simp add: dedup_run_def Let_def)
qed

definition example_tool_def_row :: tool_def where
  "example_tool_def_row = \<lparr>t_idempotent = True, t_risk_level = ''low'', t_requires_approval = False,
     t_cacheable = True, t_capabilities = [], t_related = [], t_validation_rules = [],
     t_compensating_operation = None\<rparr>"

theorem dedup_inert_on_registry_contracts_witness:
  "let gc = \<lparr>capability_index = [(''t'', \<lparr>meta_contract =
        Some (ContractDict (build_tool_contract 20 0 example_tool_def_row)),
        meta_produces = [], meta_input_props = [], meta_input_required = []\<rparr>)], capability_providers = []\<rparr>;
      g = example_graph [(''a'', ToolNode (example_tool ''a'' ''t'' [] [])),
        (''b'', ToolNode (example_tool ''b'' ''t'' [] []))] [[''a'', ''b'']]
    in dedup_run flat_json gc g = g"
  unfolding Let_def
proof (rule dedup_inert_on_registry_contracts)
  fix name meta
  assume "get_meta \<lparr>capability_index = [(''t'', \<lparr>meta_contract =
        Some (ContractDict (build_tool_contract 20 0 example_tool_def_row)),
        meta_produces = [], meta_input_props = [], meta_input_required = []\<rparr>)], capability_providers = []\<rparr> name
      = Some meta"
  then have "meta_contract meta = Some (ContractDict (build_tool_contract 20 0 example_tool_def_row))"
    by (auto simp: get_meta_def split: if_splits)
  then show "meta_contract meta = None \<or>
      (\<exists>tmo rts t. meta_contract meta = Some (ContractDict (build_tool_contract tmo rts t)))" by blast
qed

end
