(* ===== verification/Pass_Elimination.thy ===== *)
theory Pass_Elimination
  imports Waves
begin

text \<open>
  \<open>compiler/passes/pass\_dead\_task\_elimination.py\<close> (unreferenced reduce nodes go) and
  \<open>compiler/passes/pass\_dependency\_simplification.py\<close> (pass-through tool nodes are bypassed).
\<close>

section \<open>Dead-task elimination\<close>

fun branch_refs :: "physical_node \<Rightarrow> string list" where
  "branch_refs (ConditionalNode c) = branch_true c @ branch_false c"
| "branch_refs _ = []"

definition referenced_ids :: "(string \<times> physical_node) list \<Rightarrow> string list" where
  "referenced_ids nodes = concat (map (\<lambda>(nid, n). node_deps n @ branch_refs n) nodes)"

fun always_kept :: "physical_node \<Rightarrow> bool" where
  "always_kept (ReduceNode _) = False"
| "always_kept _ = True"

definition elim_kept :: "(string \<times> physical_node) list \<Rightarrow> (string \<times> physical_node) list" where
  "elim_kept nodes = filter (\<lambda>(nid, n). always_kept n \<or> nid \<in> set (referenced_ids nodes)) nodes"

definition elimination_run :: "exec_graph \<Rightarrow> exec_graph" where
  "elimination_run g = (let kept = elim_kept (g_nodes g) in
     if length kept = length (g_nodes g) then g
     else g\<lparr>g_nodes := kept, g_waves := rebuild_waves kept\<rparr>)"

section \<open>Dependency simplification\<close>

definition is_pass_through :: "tool_node \<Rightarrow> bool" where
  "is_pass_through t = dict_has (inputs t) (symbolic_ref t)"

fun pass_through_node :: "physical_node \<Rightarrow> bool" where
  "pass_through_node (ToolNode t) = is_pass_through t"
| "pass_through_node _ = False"

definition pass_through_ids :: "(string \<times> physical_node) list \<Rightarrow> string list" where
  "pass_through_ids nodes = map fst (filter (\<lambda>(nid, n). pass_through_node n) nodes)"

text \<open>A dependency on a pass-through node becomes that node's own dependencies, one level deep.\<close>

definition bypass :: "(string \<times> physical_node) list \<Rightarrow> string \<Rightarrow> string list" where
  "bypass nodes dep = (if dep \<in> set (pass_through_ids nodes)
     then (case map_of nodes dep of None \<Rightarrow> [] | Some pt \<Rightarrow> node_deps pt)
     else [dep])"

definition simplify_kept :: "(string \<times> physical_node) list \<Rightarrow> (string \<times> physical_node) list" where
  "simplify_kept nodes = map (\<lambda>(nid, n). (nid, set_deps (concat (map (bypass nodes) (node_deps n))) n))
     (filter (\<lambda>(nid, n). nid \<notin> set (pass_through_ids nodes)) nodes)"

definition simplify_run :: "exec_graph \<Rightarrow> exec_graph" where
  "simplify_run g = (let nodes = g_nodes g in
     if length nodes < 2 then g
     else if pass_through_ids nodes = [] then g
     else let kept = simplify_kept nodes in
       if length kept = length nodes then g
       else g\<lparr>g_nodes := kept, g_waves := prune_waves (g_waves g) (fst ` set kept)\<rparr>)"

section \<open>Elimination: lemmas\<close>

lemma map_of_filter_distinct:
  "distinct (map fst d) \<Longrightarrow> map_of (filter P d) k = (case map_of d k of None \<Rightarrow> None
     | Some v \<Rightarrow> if P (k, v) then Some v else None)"
  by (induction d) (auto simp: map_of_eq_None_iff split: option.split dest: map_of_SomeD intro: rev_image_eqI)

lemma distinct_elim_kept: "distinct (map fst ns) \<Longrightarrow> distinct (map fst (elim_kept ns))"
  unfolding elim_kept_def by (rule distinct_map_fst_filter)

lemma elim_run_cases:
  "elimination_run g = g \<or> elimination_run g
     = g\<lparr>g_nodes := elim_kept (g_nodes g), g_waves := rebuild_waves (elim_kept (g_nodes g))\<rparr>"
  by (simp add: elimination_run_def Let_def)

text \<open>A dependency of any node is itself kept, so elimination cannot create a dangling edge.\<close>

lemma dep_kept:
  assumes "(k, n) \<in> set ns" and "d \<in> set (node_deps n)" and "d \<in> fst ` set ns"
  shows "d \<in> fst ` set (elim_kept ns)"
proof -
  have "d \<in> set (referenced_ids ns)"
    using assms(1,2) by (force simp: referenced_ids_def)
  then show ?thesis using assms(3) by (force simp: elim_kept_def)
qed

lemma deps_in_elim:
  assumes "distinct (map fst ns)" and "k \<in> fst ` set (elim_kept ns)"
  shows "deps_in (deps_table (elim_kept ns)) k = deps_in (deps_table ns) k"
proof -
  from assms(2) obtain n where n: "(k, n) \<in> set (elim_kept ns)" by auto
  then have "(k, n) \<in> set ns" by (auto simp: elim_kept_def)
  with n show ?thesis
    using assms(1) distinct_elim_kept [OF assms(1)] by (simp add: deps_in_table)
qed

lemma closed_elim_kept:
  assumes d: "distinct (map fst ns)" and c: "closed_table (deps_table ns)"
  shows "closed_table (deps_table (elim_kept ns))"
proof (rule closed_tableI)
  show "distinct (map fst (deps_table (elim_kept ns)))" using d by (simp add: distinct_elim_kept)
  fix k e
  assume k: "k \<in> fst ` set (deps_table (elim_kept ns))"
    and e: "e \<in> set (deps_in (deps_table (elim_kept ns)) k)"
  then have e': "e \<in> set (deps_in (deps_table ns) k)" using deps_in_elim [OF d] by simp
  then obtain n where "map_of ns k = Some n" "e \<in> set (node_deps n)"
    by (cases "map_of ns k") (auto simp: deps_in_table)
  then have "(k, n) \<in> set ns" "e \<in> set (node_deps n)" by (auto dest: map_of_SomeD)
  moreover have "e \<in> fst ` set ns" using closed_tableD [OF c e'] by simp
  ultimately show "e \<in> fst ` set (deps_table (elim_kept ns))" using dep_kept by simp
qed

lemma wf_elimination_run: "wf_graph g \<Longrightarrow> wf_graph (elimination_run g)"
proof -
  assume wf: "wf_graph g"
  let ?k = "elim_kept (g_nodes g)"
  have d: "distinct (map fst ?k)" using wf by (simp add: wf_graph_def distinct_elim_kept)
  then have T: "distinct (map fst (deps_table ?k))" by simp
  have "list_all (\<lambda>(k, n). node_id n = k) ?k"
    using wf by (auto simp: wf_graph_def elim_kept_def list_all_iff)
  then have "wf_graph (g\<lparr>g_nodes := ?k, g_waves := rebuild_waves ?k\<rparr>)"
    using d kahn_layers.layer_distinct [OF T] kahn_layers.layer_keys [OF T]
    by (simp add: wf_graph_def rebuild_waves_def)
  with wf elim_run_cases [of g] show ?thesis by metis
qed

lemma ranked_if_sound_complete:
  assumes wf: "wf_graph g" and c: "closed_graph g" and s: "sound_waves g" and k: "complete_waves g"
  shows "\<exists>rank. ranked (deps_table (g_nodes g)) rank"
proof -
  let ?T = "deps_table (g_nodes g)"
  define rank where "rank n = (LEAST i. i < length (g_waves g) \<and> n \<in> set (g_waves g ! i))" for n
  have "d \<in> fst ` set ?T \<and> rank d < rank n" if n: "n \<in> fst ` set ?T" and d: "d \<in> set (deps_in ?T n)" for n d
  proof -
    have "n \<in> set (concat (g_waves g))" using k n by (auto simp: complete_waves_def)
    then obtain w where "w \<in> set (g_waves g)" "n \<in> set w" by auto
    then have "\<exists>i. i < length (g_waves g) \<and> n \<in> set (g_waves g ! i)" by (metis in_set_conv_nth)
    from LeastI_ex [OF this] have rn: "rank n < length (g_waves g)" "n \<in> set (g_waves g ! rank n)"
      unfolding rank_def by simp_all
    from waves_ok_index [OF s [unfolded sound_waves_def] rn d]
    obtain j where j: "j < rank n" "d \<in> set (g_waves g ! j)" by blast
    with rn have "rank d \<le> j" unfolding rank_def by (intro Least_le) auto
    with j(1) closed_tableD [OF c [unfolded closed_graph_def] d] show ?thesis by simp
  qed
  then show ?thesis unfolding ranked_def by blast
qed

section \<open>Simplification: lemmas\<close>

lemma keys_simplify_kept: "map fst (simplify_kept ns) = filter (\<lambda>k. k \<notin> set (pass_through_ids ns)) (map fst ns)"
proof -
  have "map fst (filter (\<lambda>(nid, n). P nid) xs) = filter P (map fst xs)"
    for P and xs :: "(string \<times> physical_node) list"
    by (induction xs) auto
  then show ?thesis by (simp add: simplify_kept_def comp_def case_prod_unfold)
qed

lemma deps_simplify_kept:
  "deps_in (deps_table (simplify_kept ns)) k = (if k \<in> set (pass_through_ids ns) then []
     else concat (map (bypass ns) (deps_in (deps_table ns) k)))"
proof -
  have "map_of (map (\<lambda>(nid, n). (nid, set_deps (f n) n)) (filter (\<lambda>(nid, n). P nid) xs)) k
      = (if P k then map_option (\<lambda>n. set_deps (f n) n) (map_of xs k) else None)"
    for f P and xs :: "(string \<times> physical_node) list"
    by (induction xs) auto
  then show ?thesis
    by (simp add: deps_in_table simplify_kept_def split: option.split)
qed

lemma simplify_run_cases:
  "pass_through_ids (g_nodes g) = [] \<or> length (g_nodes g) < 2 \<Longrightarrow> simplify_run g = g"
  "simplify_run g = g \<or> simplify_run g = g\<lparr>g_nodes := simplify_kept (g_nodes g),
     g_waves := prune_waves (g_waves g) (fst ` set (simplify_kept (g_nodes g)))\<rparr>"
  by (auto simp: simplify_run_def Let_def)

lemma pass_through_in_nodes: "k \<in> set (pass_through_ids ns) \<Longrightarrow> k \<in> fst ` set ns"
  by (auto simp: pass_through_ids_def)

lemma simplify_shrinks:
  "pass_through_ids ns \<noteq> [] \<Longrightarrow> length (simplify_kept ns) < length ns"
proof -
  assume "pass_through_ids ns \<noteq> []"
  then obtain k where "k \<in> set (pass_through_ids ns)" by (cases "pass_through_ids ns") auto
  then have "\<exists>x \<in> set (map fst ns). \<not> x \<notin> set (pass_through_ids ns)"
    using pass_through_in_nodes by fastforce
  then have "length (filter (\<lambda>k. k \<notin> set (pass_through_ids ns)) (map fst ns)) < length (map fst ns)"
    by (auto intro: length_filter_less)
  then show ?thesis unfolding keys_simplify_kept [symmetric] by simp
qed

text \<open>The dangling edges simplification leaves: two pass-through nodes in a row.\<close>

definition pass_through_chain :: "(string \<times> physical_node) list \<Rightarrow> bool" where
  "pass_through_chain ns = list_ex (\<lambda>(k, n). k \<notin> set (pass_through_ids ns) \<and>
     list_ex (\<lambda>d. d \<in> set (pass_through_ids ns) \<and>
        list_ex (\<lambda>e. e \<in> set (pass_through_ids ns)) (deps_in (deps_table ns) d)) (node_deps n)) ns"

lemma mem_bypass:
  "e \<in> set (bypass ns d) \<longleftrightarrow>
     (if d \<in> set (pass_through_ids ns) then e \<in> set (deps_in (deps_table ns) d) else e = d)"
  by (auto simp: bypass_def deps_in_table split: option.split)

lemma simplify_closed_iff:
  assumes d: "distinct (map fst ns)" and c: "closed_table (deps_table ns)"
  shows "closed_table (deps_table (simplify_kept ns)) \<longleftrightarrow> \<not> pass_through_chain ns"
proof
  have dk: "distinct (map fst (simplify_kept ns))" using d by (simp add: keys_simplify_kept)
  have keys: "fst ` set (simplify_kept ns) = {k \<in> fst ` set ns. k \<notin> set (pass_through_ids ns)}"
    by (simp only: list.set_map [symmetric] keys_simplify_kept) auto
  {
    assume n: "\<not> pass_through_chain ns"
    show "closed_table (deps_table (simplify_kept ns))"
    proof (rule closed_tableI)
      show "distinct (map fst (deps_table (simplify_kept ns)))" using dk by simp
      fix k e
      assume "k \<in> fst ` set (deps_table (simplify_kept ns))"
        and "e \<in> set (deps_in (deps_table (simplify_kept ns)) k)"
      then obtain m d where k: "(k, m) \<in> set ns" "k \<notin> set (pass_through_ids ns)"
        and e: "d \<in> set (deps_in (deps_table ns) k)" "e \<in> set (bypass ns d)"
        by (auto simp: keys deps_simplify_kept)
      with \<open>distinct (map fst ns)\<close> have dm: "d \<in> set (node_deps m)" by (simp add: deps_in_table)
      have "e \<notin> set (pass_through_ids ns)"
      proof
        assume "e \<in> set (pass_through_ids ns)"
        with e(2) have "d \<in> set (pass_through_ids ns)" "e \<in> set (deps_in (deps_table ns) d)"
          by (auto simp: mem_bypass split: if_splits)
        with n k dm \<open>e \<in> set (pass_through_ids ns)\<close> show False
          by (auto simp: pass_through_chain_def list_ex_iff)
      qed
      moreover have "e \<in> fst ` set ns"
        using e closed_tableD [OF c] by (auto simp: mem_bypass split: if_splits)
      ultimately show "e \<in> fst ` set (deps_table (simplify_kept ns))" by (simp add: keys)
    qed
  }
  assume cl: "closed_table (deps_table (simplify_kept ns))"
  show "\<not> pass_through_chain ns"
  proof
    assume "pass_through_chain ns"
    then obtain k m d e where k: "(k, m) \<in> set ns" "k \<notin> set (pass_through_ids ns)" "d \<in> set (node_deps m)"
      and e: "d \<in> set (pass_through_ids ns)" "e \<in> set (deps_in (deps_table ns) d)" "e \<in> set (pass_through_ids ns)"
      by (auto simp: pass_through_chain_def list_ex_iff)
    then have "e \<in> set (deps_in (deps_table (simplify_kept ns)) k)"
      using d by (auto simp: deps_simplify_kept deps_in_table [of ns k] mem_bypass intro!: bexI [of _ d])
    from closed_tableD [OF cl this] e(3) show False by (auto simp: keys)
  qed
qed


lemma sound_simplify:
  assumes wf: "wf_graph g" and c: "closed_graph g" and s: "sound_waves g"
    and n: "\<not> pass_through_chain (g_nodes g)"
  shows "sound_waves (simplify_run g)"
proof (cases "simplify_run g = g")
  case True
  with s show ?thesis by simp
next
  case False
  let ?ns = "g_nodes g" and ?ws = "g_waves g"
  let ?K = "fst ` set (simplify_kept ?ns)"
  have e: "simplify_run g = g\<lparr>g_nodes := simplify_kept ?ns, g_waves := prune_waves ?ws ?K\<rparr>"
    using False simplify_run_cases(2) by blast
  have d: "distinct (map fst ?ns)" using wf by (simp add: wf_graph_def)
  have cl: "closed_table (deps_table (simplify_kept ?ns))"
    using simplify_closed_iff [OF d c [unfolded closed_graph_def]] n by blast
  have "waves_ok (deps_in (deps_table (simplify_kept ?ns))) [] (prune_waves ?ws ?K)"
  proof (rule waves_ok_prune [OF s [unfolded sound_waves_def]])
    fix i m x
    assume i: "i < length ?ws" "m \<in> set (?ws ! i)"
      and x: "x \<in> set (deps_in (deps_table (simplify_kept ?ns)) m)"
    then obtain d where dd: "d \<in> set (deps_in (deps_table ?ns) m)" "x \<in> set (bypass ?ns d)"
      by (auto simp: deps_simplify_kept split: if_splits)
    from waves_ok_index [OF s [unfolded sound_waves_def] i dd(1)]
    obtain j where j: "j < i" "d \<in> set (?ws ! j)" by blast
    have "\<exists>l \<le> j. x \<in> set (?ws ! l)"
    proof (cases "d \<in> set (pass_through_ids ?ns)")
      case False
      with dd(2) j show ?thesis by (auto simp: mem_bypass)
    next
      case True
      then have "x \<in> set (deps_in (deps_table ?ns) d)" using dd(2) by (simp add: mem_bypass)
      from waves_ok_index [OF s [unfolded sound_waves_def] _ j(2) this] j(1) i(1)
      obtain l where "l < j" "x \<in> set (?ws ! l)" by auto
      then show ?thesis by (meson less_imp_le)
    qed
    then have "\<exists>l < i. x \<in> set (?ws ! l)" using j(1) by (meson le_less_trans)
    moreover have "x \<in> ?K" using closed_tableD [OF cl x] by simp
    ultimately show "x \<in> ?K \<and> (\<exists>l < i. x \<in> set (?ws ! l))" by blast
  qed
  then show ?thesis by (simp add: e sound_waves_def)
qed

lemma node_ids_simplify_kept:
  "list_all (\<lambda>(k, n). node_id n = k) ns \<Longrightarrow> list_all (\<lambda>(k, n). node_id n = k) (simplify_kept ns)"
  by (auto simp: simplify_kept_def list_all_iff)

lemma wf_simplify_run: "wf_graph g \<Longrightarrow> wf_graph (simplify_run g)"
proof -
  assume wf: "wf_graph g"
  let ?K = "simplify_kept (g_nodes g)"
  have "distinct (map fst ?K)" using wf by (simp add: wf_graph_def keys_simplify_kept)
  moreover have "list_all (\<lambda>(k, n). node_id n = k) ?K"
    using wf by (intro node_ids_simplify_kept) (simp add: wf_graph_def)
  ultimately have "wf_graph (g\<lparr>g_nodes := ?K, g_waves := prune_waves (g_waves g) (fst ` set ?K)\<rparr>)"
    using wf by (auto simp: wf_graph_def)
  with wf simplify_run_cases(2) [of g] show ?thesis by metis
qed

lemma chain_large:
  assumes "wf_graph g" and "closed_graph g" and "pass_through_chain (g_nodes g)"
  shows "pass_through_ids (g_nodes g) \<noteq> [] \<and> 2 \<le> length (g_nodes g)"
proof -
  from assms(3) obtain k m d where k: "(k, m) \<in> set (g_nodes g)" "k \<notin> set (pass_through_ids (g_nodes g))"
    and d: "d \<in> set (pass_through_ids (g_nodes g))"
    by (auto simp: pass_through_chain_def list_ex_iff)
  have "d \<in> fst ` set (g_nodes g)" "k \<in> fst ` set (g_nodes g)" "k \<noteq> d"
    using k d pass_through_in_nodes by force+
  then have "card {k, d} \<le> card (set (map fst (g_nodes g)))"
    by (intro card_mono) auto
  also have "\<dots> \<le> length (map fst (g_nodes g))" by (rule card_length)
  finally show ?thesis using d \<open>k \<noteq> d\<close> by auto
qed

lemma closed_simplify_run:
  assumes wf: "wf_graph g" and c: "closed_graph g"
  shows "closed_graph (simplify_run g) \<longleftrightarrow> \<not> pass_through_chain (g_nodes g)"
proof (cases "length (g_nodes g) < 2 \<or> pass_through_ids (g_nodes g) = []")
  case True
  then have "simplify_run g = g" by (auto simp: simplify_run_def Let_def)
  moreover have "\<not> pass_through_chain (g_nodes g)" using chain_large [OF wf c] True by linarith
  ultimately show ?thesis using c by simp
next
  case False
  then have "length (simplify_kept (g_nodes g)) \<noteq> length (g_nodes g)"
    using simplify_shrinks [of "g_nodes g"] by auto
  with False have e: "closed_graph (simplify_run g) = closed_table (deps_table (simplify_kept (g_nodes g)))"
    by (auto simp: simplify_run_def Let_def closed_graph_def)
  show ?thesis
    unfolding e using wf c by (intro simplify_closed_iff) (auto simp: wf_graph_def closed_graph_def)
qed

section \<open>Properties\<close>

text \<open>
  Dead-task elimination removes only dead aggregations: a node that disappears is a
  reduce node that no dependency list and no branch of any node of the graph names, and a
  node that stays is unchanged; tool, map and conditional nodes, which may have side effects,
  always stay.
\<close>

theorem elimination_removes_only_dead_reduces:
  "set (g_nodes (elimination_run g)) \<subseteq> set (g_nodes g) \<and>
   (\<forall>p \<in> set (g_nodes g) - set (g_nodes (elimination_run g)). \<exists>r. snd p = ReduceNode r \<and>
      (\<forall>q \<in> set (g_nodes g). fst p \<notin> set (node_deps (snd q)) \<and> fst p \<notin> set (branch_refs (snd q))))"
proof (cases "elimination_run g = g")
  case True
  then show ?thesis by simp
next
  case False
  then have e: "g_nodes (elimination_run g) = elim_kept (g_nodes g)"
    using elim_run_cases [of g] by auto
  have "\<exists>r. snd p = ReduceNode r \<and>
      (\<forall>q \<in> set (g_nodes g). fst p \<notin> set (node_deps (snd q)) \<and> fst p \<notin> set (branch_refs (snd q)))"
    if "p \<in> set (g_nodes g)" "p \<notin> set (elim_kept (g_nodes g))" for p
  proof -
    have n: "\<not> always_kept (snd p)" "fst p \<notin> set (referenced_ids (g_nodes g))"
      using that by (auto simp: elim_kept_def case_prod_unfold)
    then have "\<forall>q \<in> set (g_nodes g). fst p \<notin> set (node_deps (snd q)) \<and> fst p \<notin> set (branch_refs (snd q))"
      by (auto simp: referenced_ids_def)
    moreover have "\<exists>r. snd p = ReduceNode r" using n(1) by (cases "snd p") auto
    ultimately show ?thesis by blast
  qed
  then show ?thesis unfolding e by (auto simp: elim_kept_def)
qed

theorem elimination_removes_only_dead_reduces_witness:
  "let g = example_graph [(''a'', ToolNode (example_tool ''a'' ''t'' [] []))] [[''a'']]
   in elimination_run g = g"
proof -
  let ?g = "example_graph [(''a'', ToolNode (example_tool ''a'' ''t'' [] []))] [[''a'']]"
  have "\<forall>p \<in> set (g_nodes ?g) - set (g_nodes (elimination_run ?g)). \<exists>r. snd p = ReduceNode r"
    using elimination_removes_only_dead_reduces [of ?g] by blast
  then show ?thesis by (simp add: elimination_run_def elim_kept_def example_graph_def)
qed

text \<open>
  On a graph with a sound, complete schedule and no dangling dependency, dead-task
  elimination returns such a graph again, with its waves rebuilt: the rebuilding, which can
  lose nodes silently, loses none here.
\<close>

theorem elimination_keeps_schedule:
  assumes "wf_graph g" and "closed_graph g" and "sound_waves g" and "complete_waves g"
  shows "wf_graph (elimination_run g) \<and> closed_graph (elimination_run g)
     \<and> sound_waves (elimination_run g) \<and> complete_waves (elimination_run g)"
proof (cases "elimination_run g = g")
  case True
  with assms show ?thesis by simp
next
  case False
  let ?k = "elim_kept (g_nodes g)"
  have e: "elimination_run g = g\<lparr>g_nodes := ?k, g_waves := kahn (deps_table ?k)\<rparr>"
    using False elim_run_cases [of g] by (auto simp: rebuild_waves_def)
  have d: "distinct (map fst (g_nodes g))" using assms(1) by (simp add: wf_graph_def)
  have T: "distinct (map fst (deps_table ?k))" using d by (simp add: distinct_elim_kept)
  have c: "closed_table (deps_table ?k)"
    using closed_elim_kept [OF d] assms(2) by (simp add: closed_graph_def)
  obtain rank where r: "ranked (deps_table (g_nodes g)) rank"
    using ranked_if_sound_complete [OF assms] by blast
  have "ranked (deps_table ?k) rank"
    unfolding ranked_keys
  proof (intro ballI conjI)
    fix k e assume k: "k \<in> fst ` set ?k" "e \<in> set (deps_in (deps_table ?k) k)"
    show "e \<in> fst ` set ?k" using closed_tableD [OF c k(2)] by simp
    have "k \<in> fst ` set (g_nodes g)" using k(1) by (auto simp: elim_kept_def)
    with r k show "rank e < rank k" by (auto simp: ranked_keys deps_in_elim [OF d])
  qed
  then have "fst ` set ?k \<subseteq> set (concat (kahn (deps_table ?k)))"
    using kahn_layers.complete_if_ranked [OF T] by simp
  then show ?thesis
    using wf_elimination_run [OF assms(1)] c kahn_layers.layer_ok [OF T]
    unfolding e by (simp add: closed_graph_def sound_waves_def complete_waves_def)
qed

definition example_reduce :: "string \<Rightarrow> string list \<Rightarrow> reduce_node" where
  "example_reduce nid deps = \<lparr>n_id = nid, symbolic_ref = nid, depends_on = deps, failure_policy = CONTINUE,
     minimum_success = 1, aggregate_kind = Agg_sort, r_source_ref = ''a'', key_path = [], predicate = [], limit = None\<rparr>"

theorem elimination_keeps_schedule_witness:
  "sound_waves (elimination_run (example_graph [(''a'', ToolNode (example_tool ''a'' ''t'' [] [])),
      (''r'', ReduceNode (example_reduce ''r'' [''a''])), (''b'', ToolNode (example_tool ''b'' ''t'' [] [''a'']))]
      [[''a''], [''r'', ''b'']]))"
  by (rule elimination_keeps_schedule [THEN conjunct2, THEN conjunct2, THEN conjunct1])
    (code_simp, code_simp, code_simp, code_simp)

text \<open>
  Dependency simplification bypasses pass-through nodes one level deep only: the
  simplified graph is closed if and only if no node that stays depends on a pass-through node
  that itself depends on a pass-through node.  (Two forwarding nodes in a row leave an edge
  to a removed node.)
\<close>

theorem simplify_closed_iff_no_chain:
  assumes "wf_graph g" and "closed_graph g"
  shows "closed_graph (simplify_run g) \<longleftrightarrow> \<not> pass_through_chain (g_nodes g)"
  using assms by (rule closed_simplify_run)

theorem simplify_closed_iff_no_chain_witness:
  "\<not> closed_graph (simplify_run (example_graph
     [(''p'', ToolNode (example_tool ''p'' ''t'' [(''p'', JNull)] [])),
      (''q'', ToolNode (example_tool ''q'' ''t'' [(''q'', JNull)] [''p''])),
      (''b'', ToolNode (example_tool ''b'' ''t'' [] [''q'']))] [[''p''], [''q''], [''b'']]))"
  by (subst simplify_closed_iff_no_chain) (code_simp, code_simp, code_simp)

text \<open>
  Without such chains, simplification keeps the graph well-formed and closed and its
  pruned schedule sound and complete: what a consumer inherits from a bypassed node was
  scheduled before that node.
\<close>

theorem simplify_keeps_schedule:
  assumes "wf_graph g" and "closed_graph g" and "sound_waves g" and "complete_waves g"
    and "\<not> pass_through_chain (g_nodes g)"
  shows "wf_graph (simplify_run g) \<and> closed_graph (simplify_run g)
     \<and> sound_waves (simplify_run g) \<and> complete_waves (simplify_run g)"
proof -
  let ?ns = "simplify_kept (g_nodes g)"
  have "fst ` set ?ns \<subseteq> fst ` set (g_nodes g)"
    by (simp only: list.set_map [symmetric] keys_simplify_kept) auto
  then have "complete_waves (g\<lparr>g_nodes := ?ns, g_waves := prune_waves (g_waves g) (fst ` set ?ns)\<rparr>)"
    using assms(4) by (auto simp: complete_waves_def)
  then have "complete_waves (simplify_run g)"
    using assms(4) simplify_run_cases(2) [of g] by metis
  with assms show ?thesis by (simp add: wf_simplify_run closed_simplify_run sound_simplify)
qed

theorem simplify_keeps_schedule_witness:
  "sound_waves (simplify_run (example_graph
     [(''a'', ToolNode (example_tool ''a'' ''t'' [] [])),
      (''q'', ToolNode (example_tool ''q'' ''t'' [(''q'', JNull)] [''a''])),
      (''b'', ToolNode (example_tool ''b'' ''t'' [] [''q'']))] [[''a''], [''q''], [''b'']]))"
  by (rule simplify_keeps_schedule [THEN conjunct2, THEN conjunct2, THEN conjunct1])
    (code_simp, code_simp, code_simp, code_simp, code_simp)

end
