(* ===== verification/Pass_Fusion.thy ===== *)
theory Pass_Fusion
  imports Waves Global_Context
begin

text \<open>
  \<open>compiler/passes/pass\_parallel\_fusion.py\<close>: five or more map nodes over the same
  collection and tool become one batch call, if some provider endpoint of the tool declares
  \<open>supports_batch\<close>.
\<close>

section \<open>The pass\<close>

definition fusion_threshold :: nat where
  "fusion_threshold = 5"

text \<open>Iterating over a value; \<open>None\<close> is the \<open>TypeError\<close> of a value that is not iterable.\<close>

fun py_iter :: "json \<Rightarrow> json list option" where
  "py_iter (JList xs) = Some xs"
| "py_iter (JStr s) = Some (map (\<lambda>c. JStr [c]) s)"
| "py_iter (JDict d) = Some (map (\<lambda>p. JStr (fst p)) d)"
| "py_iter _ = None"

fun batch_endpoint :: "json \<Rightarrow> bool" where
  "batch_endpoint (JDict d) = truthy (dict_get d ''supports_batch'' JNull)"
| "batch_endpoint _ = False"

text \<open>The two nested loops of \<open>_endpoint_supports_batch\<close>; an exception ends them with \<open>False\<close>.\<close>

fun scan_providers :: "json list \<Rightarrow> bool" where
  "scan_providers [] = False"
| "scan_providers (JDict prov # ps) =
    (let eps = dict_get prov ''endpoints'' JNull in
     if \<not> truthy eps then scan_providers ps
     else (case py_iter eps of
         None \<Rightarrow> False
       | Some xs \<Rightarrow> if list_ex batch_endpoint xs then True else scan_providers ps))"
| "scan_providers (_ # ps) = scan_providers ps"

definition endpoint_supports_batch :: "global_context \<Rightarrow> string \<Rightarrow> bool" where
  "endpoint_supports_batch gc name = scan_providers (get_capability_providers gc name)"

fun map_entry :: "string \<times> physical_node \<Rightarrow> (string \<times> map_node) list" where
  "map_entry (nid, MapNode m) = [(nid, m)]"
| "map_entry _ = []"

definition map_entries :: "(string \<times> physical_node) list \<Rightarrow> (string \<times> map_node) list" where
  "map_entries nodes = concat (map map_entry nodes)"

definition batch_key :: "string \<times> map_node \<Rightarrow> string \<times> string" where
  "batch_key p = (tool_name (body (snd p)), iterate_over (snd p))"

definition collect_deps :: "(string \<times> map_node) list \<Rightarrow> string list" where
  "collect_deps grp = sort (remdups (concat (map (\<lambda>p. depends_on (snd p)) grp)))"

text \<open>\<open>all_inputs.setdefault(k, []).append(v)\<close> over all bodies of the grp.\<close>

definition add_input :: "(string \<times> json list) list \<Rightarrow> string \<times> json \<Rightarrow> (string \<times> json list) list" where
  "add_input acc kv = AList.update (fst kv) (dict_get acc (fst kv) [] @ [snd kv]) acc"

definition collect_inputs :: "(string \<times> map_node) list \<Rightarrow> (string \<times> json list) list" where
  "collect_inputs grp = foldl add_input [] (concat (map (\<lambda>p. inputs (body (snd p))) grp))"

definition fused_node :: "string \<times> string \<Rightarrow> (string \<times> map_node) list \<Rightarrow> tool_node" where
  "fused_node key grp =
     \<lparr>n_id = fst (hd grp), symbolic_ref = symbolic_ref (snd (hd grp)),
      depends_on = collect_deps grp, failure_policy = CONTINUE, minimum_success = 1,
      capability = capability (body (snd (hd grp))), tool_name = fst key,
      endpoint_url = [], http_method = ''GET'',
      inputs = [(''items'', JDict (map (\<lambda>(k, vs). (k, JList vs)) (collect_inputs grp))),
                (''iterate_over'', JStr (snd key))],
      cost_estimate = 0, latency_estimate_ms = 1000, execution_key = None, candidate_endpoints = []\<rparr>"

fun fuse_group ::
  "global_context \<Rightarrow> (string \<times> physical_node) list
     \<Rightarrow> (string \<times> string) \<times> (string \<times> map_node) list \<Rightarrow> (string \<times> physical_node) list" where
  "fuse_group gc fused (key, grp) =
    (if length grp < fusion_threshold then fused
     else if \<not> endpoint_supports_batch gc (fst key) then fused
     else foldl (\<lambda>d p. AList.delete (fst p) d)
            (AList.update (fst (hd grp)) (ToolNode (fused_node key grp)) fused) (tl grp))"

definition fusion_batches :: "(string \<times> physical_node) list
     \<Rightarrow> ((string \<times> string) \<times> (string \<times> map_node) list) list" where
  "fusion_batches nodes = group_by batch_key (map_entries nodes)"

definition fusion_run :: "global_context \<Rightarrow> exec_graph \<Rightarrow> exec_graph" where
  "fusion_run gc g =
    (let nodes = g_nodes g in
     if length nodes < fusion_threshold then g
     else let batches = fusion_batches nodes in
       if batches = [] then g
       else let fused = foldl (fuse_group gc) nodes batches in
         if length fused = length nodes then g
         else g\<lparr>g_nodes := fused, g_waves := prune_waves (g_waves g) (fst ` set fused)\<rparr>)"

section \<open>One group\<close>

lemma map_of_foldl_delete:
  "map_of (foldl (\<lambda>d p. AList.delete (fst p) d) d ps) k = (if k \<in> fst ` set ps then None else map_of d k)"
  by (induction ps arbitrary: d) (auto simp: map_of_delete)

lemma distinct_foldl_delete:
  "distinct (map fst d) \<Longrightarrow> distinct (map fst (foldl (\<lambda>d p. AList.delete (fst p) d) d ps))"
  by (induction ps arbitrary: d) (auto simp: distinct_delete)

lemma distinct_fuse_group: "distinct (map fst d) \<Longrightarrow> distinct (map fst (fuse_group gc d kg))"
  by (cases kg) (simp add: distinct_foldl_delete distinct_update)

lemma collect_inputs_lookup:
  "dict_get (collect_inputs grp) k [] = map snd (filter (\<lambda>kv. fst kv = k) (concat (map (\<lambda>p. inputs (body (snd p))) grp)))"
proof -
  have "dict_get (foldl add_input acc kvs) k [] = dict_get acc k [] @ map snd (filter (\<lambda>kv. fst kv = k) kvs)"
    for acc kvs
    by (induction kvs arbitrary: acc) (auto simp: add_input_def dict_get_update)
  then show ?thesis by (simp add: collect_inputs_def dict_get_def)
qed

lemma map_entries_mem: "(k, m) \<in> set (map_entries nodes) \<longleftrightarrow> (k, MapNode m) \<in> set nodes"
proof -
  have "(k, m) \<in> set (map_entry p) \<longleftrightarrow> p = (k, MapNode m)" for p
    by (cases p rule: map_entry.cases) auto
  then show ?thesis by (auto simp: map_entries_def)
qed

lemma distinct_map_entries: "distinct (map fst nodes) \<Longrightarrow> distinct (map fst (map_entries nodes))"
proof (induction nodes)
  case (Cons p nodes)
  have sub: "fst ` set (map_entries ns) \<subseteq> fst ` set ns" for ns
    using map_entries_mem by force
  show ?case
    using Cons sub [of nodes] by (cases p rule: map_entry.cases) (auto simp: map_entries_def)
qed (simp add: map_entries_def)

lemma batch_group:
  assumes "(key, grp) \<in> set (fusion_batches nodes)"
  shows "grp = filter (\<lambda>p. batch_key p = key) (map_entries nodes) \<and> grp \<noteq> []"
  using group_by_mem assms by (simp add: fusion_batches_def)

section \<open>All groups\<close>

text \<open>The keys of the other groups are disjoint, so a group is fused on its original nodes.\<close>

definition fused_keys :: "global_context \<Rightarrow> (string \<times> string) \<times> (string \<times> map_node) list \<Rightarrow> bool" where
  "fused_keys gc kg \<longleftrightarrow> \<not> length (snd kg) < fusion_threshold \<and> endpoint_supports_batch gc (fst (fst kg))"

lemma fuse_group_lookup:
  assumes "snd kg \<noteq> []" and "distinct (map fst (snd kg))"
  shows "map_of (fuse_group gc d kg) k =
    (if fused_keys gc kg \<and> k \<in> fst ` set (snd kg)
     then (if k = fst (hd (snd kg)) then Some (ToolNode (fused_node (fst kg) (snd kg))) else None)
     else map_of d k)"
proof -
  obtain key x xs where kg: "kg = (key, x # xs)" using assms(1) by (cases kg; cases "snd kg") auto
  show ?thesis
    using assms(2) by (auto simp: kg fused_keys_def map_of_foldl_delete map_of_update)
qed

lemma foldl_fuse_lookup:
  assumes "list_all (\<lambda>kg. snd kg \<noteq> [] \<and> distinct (map fst (snd kg))) kgs"
    and "distinct (map fst (concat (map snd kgs)))"
  shows "map_of (foldl (fuse_group gc) d kgs) k =
    (case find (\<lambda>kg. fused_keys gc kg \<and> k \<in> fst ` set (snd kg)) kgs of
       None \<Rightarrow> map_of d k
     | Some kg \<Rightarrow> if k = fst (hd (snd kg)) then Some (ToolNode (fused_node (fst kg) (snd kg))) else None)"
  using assms
proof (induction kgs arbitrary: d)
  case (Cons kg kgs)
  have IH: "map_of (foldl (fuse_group gc) (fuse_group gc d kg) kgs) k =
    (case find (\<lambda>kg. fused_keys gc kg \<and> k \<in> fst ` set (snd kg)) kgs of
       None \<Rightarrow> map_of (fuse_group gc d kg) k
     | Some kg \<Rightarrow> if k = fst (hd (snd kg)) then Some (ToolNode (fused_node (fst kg) (snd kg))) else None)"
    using Cons by simp
  have L: "map_of (fuse_group gc d kg) k =
    (if fused_keys gc kg \<and> k \<in> fst ` set (snd kg)
     then (if k = fst (hd (snd kg)) then Some (ToolNode (fused_node (fst kg) (snd kg))) else None)
     else map_of d k)"
    using Cons.prems(1) by (intro fuse_group_lookup) simp_all
  show ?case
  proof (cases "fused_keys gc kg \<and> k \<in> fst ` set (snd kg)")
    case True
    have "find (\<lambda>kg. fused_keys gc kg \<and> k \<in> fst ` set (snd kg)) kgs = None"
      using True Cons.prems(2) by (force simp: find_None_iff)
    with True show ?thesis
      by (simp only: foldl.simps IH L find.simps if_True option.case simp_thms)
  next
    case False
    then show ?thesis by (simp only: foldl.simps IH L find.simps if_False)
  qed
qed simp

lemma batches_shape:
  assumes "distinct (map fst nodes)"
  shows "list_all (\<lambda>kg. snd kg \<noteq> [] \<and> distinct (map fst (snd kg))) (fusion_batches nodes)"
    and "distinct (map fst (concat (map snd (fusion_batches nodes))))"
proof -
  have "distinct (map fst g) \<and> g \<noteq> []" if "(k, g) \<in> set (fusion_batches nodes)" for k g
    using batch_group [OF that] distinct_map_fst_filter [OF distinct_map_entries [OF assms]] by metis
  then show "list_all (\<lambda>kg. snd kg \<noteq> [] \<and> distinct (map fst (snd kg))) (fusion_batches nodes)"
    by (auto simp: list_all_iff)
  have "mset (map fst (concat (map snd (fusion_batches nodes)))) = mset (map fst (map_entries nodes))"
    unfolding fusion_batches_def using mset_group_by [of batch_key "map_entries nodes"] by (simp only: mset_map)
  then show "distinct (map fst (concat (map snd (fusion_batches nodes))))"
    using distinct_map_entries [OF assms] mset_eq_imp_distinct_iff by blast
qed

lemmas fused_lookup = foldl_fuse_lookup [OF batches_shape]

lemma distinct_foldl_fuse: "distinct (map fst d) \<Longrightarrow> distinct (map fst (foldl (fuse_group gc) d kgs))"
  by (induction kgs arbitrary: d) (simp_all add: distinct_fuse_group del: fuse_group.simps)


lemma fusion_run_cases:
  "fusion_run gc g = g \<or> fusion_run gc g =
     g\<lparr>g_nodes := foldl (fuse_group gc) (g_nodes g) (fusion_batches (g_nodes g)),
       g_waves := prune_waves (g_waves g) (fst ` set (foldl (fuse_group gc) (g_nodes g) (fusion_batches (g_nodes g))))\<rparr>"
  by (simp add: fusion_run_def Let_def)

lemma fused_node_lookup:
  assumes d: "distinct (map fst nodes)"
    and n: "map_of (foldl (fuse_group gc) nodes (fusion_batches nodes)) k = Some n"
  shows "map_of nodes k = Some n \<or> (\<exists>key grp. (key, grp) \<in> set (fusion_batches nodes)
     \<and> fused_keys gc (key, grp) \<and> k = fst (hd grp) \<and> n = ToolNode (fused_node key grp))"
proof (cases "find (\<lambda>kg. fused_keys gc kg \<and> k \<in> fst ` set (snd kg)) (fusion_batches nodes)")
  case None
  with n show ?thesis by (simp add: fused_lookup [OF d d])
next
  case (Some kg)
  then have "kg \<in> set (fusion_batches nodes)" "fused_keys gc kg"
    by (auto simp: find_Some_iff in_set_conv_nth)
  moreover have "k = fst (hd (snd kg)) \<and> n = ToolNode (fused_node (fst kg) (snd kg))"
    using n Some by (simp add: fused_lookup [OF d d] split: if_splits)
  ultimately show ?thesis by (metis prod.collapse)
qed

lemma wf_fusion_run: "wf_graph g \<Longrightarrow> wf_graph (fusion_run gc g)"
proof -
  assume wf: "wf_graph g"
  let ?f = "foldl (fuse_group gc) (g_nodes g) (fusion_batches (g_nodes g))"
  have d: "distinct (map fst (g_nodes g))" using wf by (simp add: wf_graph_def)
  then have df: "distinct (map fst ?f)" by (rule distinct_foldl_fuse)
  have "node_id n = k" if "(k, n) \<in> set ?f" for k n
    using fused_node_lookup [OF d, of gc k n] df that wf
    by (auto simp: wf_graph_def list_all_iff fused_node_def dest: map_of_SomeD)
  then have "list_all (\<lambda>(k, n). node_id n = k) ?f" by (auto simp: list_all_iff)
  with wf df have "wf_graph (g\<lparr>g_nodes := ?f, g_waves := prune_waves (g_waves g) (fst ` set ?f)\<rparr>)"
    by (auto simp: wf_graph_def)
  with wf fusion_run_cases [of gc g] show ?thesis by metis
qed

section \<open>Properties\<close>

text \<open>
  Fusion is a batch of equal calls: a node of the fused graph is either a node of the
  original graph, unchanged, or a batch call standing for at least five map nodes of one tool
  and one collection, whose endpoint declares batch support; the batch receives, for every
  input key, all the values of the fused bodies in node order, and depends on everything
  they depended on.
\<close>

theorem fusion_batches_equal_maps:
  assumes "wf_graph g" and "(k, n) \<in> set (g_nodes (fusion_run gc g))"
  shows "(k, n) \<in> set (g_nodes g) \<or>
    (\<exists>tool coll t. n = ToolNode t \<and> tool_name t = tool \<and> endpoint_supports_batch gc tool
      \<and> (let grp = filter (\<lambda>p. tool_name (body (snd p)) = tool \<and> iterate_over (snd p) = coll)
                     (map_entries (g_nodes g)) in
          5 \<le> length grp \<and> k = fst (hd grp)
          \<and> set (depends_on t) = (\<Union>p \<in> set grp. set (depends_on (snd p)))
          \<and> (\<exists>items. inputs t = [(''items'', JDict (map (\<lambda>(i, vs). (i, JList vs)) items)), (''iterate_over'', JStr coll)]
              \<and> (\<forall>i. dict_get items i [] =
                   map snd (filter (\<lambda>kv. fst kv = i) (concat (map (\<lambda>p. inputs (body (snd p))) grp)))))))"
proof (cases "fusion_run gc g = g")
  case True
  with assms(2) show ?thesis by simp
next
  case False
  let ?f = "foldl (fuse_group gc) (g_nodes g) (fusion_batches (g_nodes g))"
  have d: "distinct (map fst (g_nodes g))" using assms(1) by (simp add: wf_graph_def)
  have "map_of ?f k = Some n"
    using False fusion_run_cases [of gc g] assms(2) distinct_foldl_fuse [OF d, of gc "fusion_batches (g_nodes g)"]
    by (auto simp: map_of_eq_Some_iff)
  from fused_node_lookup [OF d this] consider "map_of (g_nodes g) k = Some n"
    | key grp where "(key, grp) \<in> set (fusion_batches (g_nodes g))" "fused_keys gc (key, grp)"
        "k = fst (hd grp)" "n = ToolNode (fused_node key grp)" by blast
  then show ?thesis
  proof cases
    case 1
    then show ?thesis by (auto dest: map_of_SomeD)
  next
    case 2
    have g: "grp = filter (\<lambda>p. tool_name (body (snd p)) = fst key \<and> iterate_over (snd p) = snd key) (map_entries (g_nodes g))"
      using batch_group [OF 2(1)] by (auto simp: batch_key_def prod_eq_iff)
    show ?thesis
      using 2(2-4) unfolding g [symmetric]
      by (intro disjI2 exI [of _ "fst key"] exI [of _ "snd key"] exI [of _ "fused_node key grp"])
        (auto simp: Let_def g [symmetric] fused_keys_def fusion_threshold_def fused_node_def collect_deps_def
          collect_inputs_lookup intro!: exI [of _ "collect_inputs grp"])
  qed
qed

definition example_map :: "string \<Rightarrow> string \<Rightarrow> json dict \<Rightarrow> string list \<Rightarrow> physical_node" where
  "example_map nid coll ins deps = MapNode \<lparr>n_id = nid, symbolic_ref = nid, depends_on = deps,
     failure_policy = CONTINUE, minimum_success = 1, iterate_over = coll,
     body = example_tool (nid @ ''_body'') ''t'' ins []\<rparr>"

definition example_batch_gc :: global_context where
  "example_batch_gc = \<lparr>capability_index = [], capability_providers =
     [(''t'', [JDict [(''endpoints'', JList [JDict [(''supports_batch'', JBool True)]])]])]\<rparr>"

definition example_batch_graph :: exec_graph where
  "example_batch_graph = example_graph
     [(''m1'', example_map ''m1'' ''c'' [(''x'', JInt 1)] []), (''m2'', example_map ''m2'' ''c'' [(''x'', JInt 2)] []),
      (''m3'', example_map ''m3'' ''c'' [(''x'', JInt 3)] []), (''m4'', example_map ''m4'' ''c'' [(''x'', JInt 4)] []),
      (''m5'', example_map ''m5'' ''c'' [(''x'', JInt 5)] []), (''use'', ToolNode (example_tool ''use'' ''u'' [] [''m2'']))]
     [[''m1'', ''m2'', ''m3'', ''m4'', ''m5''], [''use'']]"

theorem fusion_batches_equal_maps_witness:
  "\<exists>n. map_of (g_nodes (fusion_run example_batch_gc example_batch_graph)) ''m1'' = Some n
     \<and> (\<exists>t. n = ToolNode t \<and> endpoint_supports_batch example_batch_gc (tool_name t))"
proof -
  let ?G = "g_nodes (fusion_run example_batch_gc example_batch_graph)"
  have wf: "wf_graph example_batch_graph" by code_simp
  have "map_option node_kind (map_of ?G ''m1'') = Some ''tool''" by code_simp
  then obtain n where n: "map_of ?G ''m1'' = Some n" "node_kind n = ''tool''" by auto
  have "(''m1'', n) \<notin> set (g_nodes example_batch_graph)"
    using n(2) by (auto simp: example_batch_graph_def example_graph_def example_map_def)
  with fusion_batches_equal_maps [OF wf map_of_SomeD [OF n(1)]] n(1) show ?thesis by auto
qed

text \<open>
  Fusion deletes the members of a group without redirecting their consumers: a closed
  graph with a sound and complete schedule can become one with a dangling dependency.
\<close>

theorem fusion_can_dangle:
  "\<exists>gc g. wf_graph g \<and> closed_graph g \<and> sound_waves g \<and> complete_waves g
     \<and> \<not> closed_graph (fusion_run gc g) \<and> \<not> sound_waves (fusion_run gc g)"
proof (intro exI conjI)
  let ?g = example_batch_graph and ?gc = example_batch_gc
  show "wf_graph ?g" by code_simp
  show "closed_graph ?g" by code_simp
  show "sound_waves ?g" by code_simp
  show "complete_waves ?g" by code_simp
  show "\<not> closed_graph (fusion_run ?gc ?g)" by code_simp
  show "\<not> sound_waves (fusion_run ?gc ?g)" by code_simp
qed

end
