(* ===== verification/Pass_Manager.thy ===== *)
theory Pass_Manager
  imports Pass_Enrichment Pass_Ordering Pass_Dedup Pass_Elimination Pass_Fusion
    "HOL-Library.Product_Lexorder"
begin

text \<open>
  \<open>compiler/pass\_manager.py\<close>: discovery order, the fixpoint loop and its snapshots.  A pass
  works on a deep copy of the graph, so one that raises leaves nothing behind.  The locale
  \<open>pass_invariant\<close> is the contract between the manager and its passes: what every pass
  keeps, the manager keeps.  It is interpreted on the seven passes of the package.
\<close>

section \<open>Passes and their order\<close>

datatype pass_result = Raised | NoGraph | Returned exec_graph

text \<open>\<open>pm_run\<close> is \<open>_load_pass\<close>: \<open>None\<close> for a module without a usable \<open>run\<close>.\<close>

record pass_module =
  pm_name :: string
  pm_priority :: int
  pm_async :: bool
  pm_run :: "(exec_graph \<Rightarrow> pass_result) option"

definition discover_passes :: "pass_module list \<Rightarrow> pass_module list" where
  "discover_passes mods = sort_key (\<lambda>m. (pm_priority m, pm_name m)) mods"

section \<open>The fixpoint loop\<close>

datatype snapshot_label = Initial | Iteration nat

record optimization_report =
  rep_name :: snapshot_label
  transformations :: "(string \<times> nat \<times> nat) list"
  nodes_before :: nat
  nodes_after :: nat

record graph_snapshot =
  snap_version :: nat
  snap_graph :: exec_graph
  snap_pass_name :: snapshot_label
  snap_report :: "optimization_report option"

text \<open>One pass: \<open>allow_async\<close> tells \<open>_run_optimize_async\<close> from \<open>_run_optimize\<close>.\<close>

definition pass_step ::
  "bool \<Rightarrow> nat \<Rightarrow> exec_graph \<times> (string \<times> nat \<times> nat) list \<Rightarrow> pass_module
     \<Rightarrow> exec_graph \<times> (string \<times> nat \<times> nat) list" where
  "pass_step allow_async before s m =
    (case pm_run m of
       None \<Rightarrow> s
     | Some fn \<Rightarrow> if pm_async m \<and> \<not> allow_async then s
         else (case fn (fst s) of
             Raised \<Rightarrow> s
           | NoGraph \<Rightarrow> s
           | Returned g \<Rightarrow> (g, if length (g_nodes g) \<noteq> before
                then snd s @ [(pm_name m, before, length (g_nodes g))] else snd s)))"

definition run_iteration ::
  "bool \<Rightarrow> pass_module list \<Rightarrow> exec_graph \<Rightarrow> exec_graph \<times> (string \<times> nat \<times> nat) list" where
  "run_iteration allow_async passes g = foldl (pass_step allow_async (length (g_nodes g))) (g, []) passes"

definition iteration_snapshot ::
  "nat \<Rightarrow> nat \<Rightarrow> exec_graph \<Rightarrow> exec_graph \<times> (string \<times> nat \<times> nat) list \<Rightarrow> graph_snapshot" where
  "iteration_snapshot version i before res =
    \<lparr>snap_version = version, snap_graph = fst res, snap_pass_name = Iteration i,
     snap_report = Some \<lparr>rep_name = Iteration i, transformations = snd res,
        nodes_before = length (g_nodes before), nodes_after = length (g_nodes (fst res))\<rparr>\<rparr>"

text \<open>\<open>hash\<close> is \<open>_hash_graph\<close>, into some type of digests; \<open>n\<close> counts the iterations left.\<close>

fun fixpoint_loop ::
  "(exec_graph \<Rightarrow> 'h) \<Rightarrow> bool \<Rightarrow> pass_module list \<Rightarrow> nat \<Rightarrow> nat \<Rightarrow> exec_graph
     \<Rightarrow> graph_snapshot list \<Rightarrow> exec_graph \<times> graph_snapshot list" where
  "fixpoint_loop hash allow_async passes 0 i g snaps = (g, snaps)"
| "fixpoint_loop hash allow_async passes (Suc n) i g snaps =
    (let res = run_iteration allow_async passes g;
         snaps' = snaps @ [iteration_snapshot (length snaps + 1) (Suc i) g res] in
     if hash (fst res) = hash g then (fst res, snaps')
     else fixpoint_loop hash allow_async passes n (Suc i) (fst res) snaps')"

text \<open>\<open>None\<close>: with no iteration at all the final log line reads the unbound \<open>iteration\<close>.\<close>

definition run_optimize ::
  "(exec_graph \<Rightarrow> 'h) \<Rightarrow> bool \<Rightarrow> pass_module list \<Rightarrow> nat \<Rightarrow> exec_graph
     \<Rightarrow> (exec_graph \<times> graph_snapshot list) option" where
  "run_optimize hash allow_async mods max_iter g =
    (let passes = discover_passes mods in
     if passes = [] then Some (g, [])
     else if max_iter = 0 then None
     else Some (fixpoint_loop hash allow_async passes max_iter 0 g
       [\<lparr>snap_version = 1, snap_graph = g, snap_pass_name = Initial, snap_report = None\<rparr>]))"

section \<open>The passes of the package\<close>

definition enrichment_pass :: "(string \<Rightarrow> capability_row option) \<Rightarrow> json dict \<Rightarrow> exec_graph \<Rightarrow> pass_result" where
  "enrichment_pass row prefs g = (case enrichment_run row prefs g of Inl _ \<Rightarrow> Raised | Inr g' \<Rightarrow> Returned g')"

definition nexus_passes ::
  "(json \<Rightarrow> string) \<Rightarrow> global_context \<Rightarrow> (string \<Rightarrow> capability_row option) \<Rightarrow> json dict \<Rightarrow> pass_module list" where
  "nexus_passes sha gc row prefs =
    [\<lparr>pm_name = ''input_enrichment'', pm_priority = 10, pm_async = True,
      pm_run = Some (enrichment_pass row prefs)\<rparr>,
     \<lparr>pm_name = ''pass_candidate_ranking'', pm_priority = 20, pm_async = False,
      pm_run = Some (\<lambda>g. Returned (ranking_run g))\<rparr>,
     \<lparr>pm_name = ''pass_constraint_optimizer'', pm_priority = 30, pm_async = False,
      pm_run = Some (\<lambda>g. Returned (constraint_run g))\<rparr>,
     \<lparr>pm_name = ''pass_dead_task_elimination'', pm_priority = 50, pm_async = False,
      pm_run = Some (\<lambda>g. Returned (elimination_run g))\<rparr>,
     \<lparr>pm_name = ''pass_deduplication'', pm_priority = 40, pm_async = False,
      pm_run = Some (\<lambda>g. Returned (dedup_run sha gc g))\<rparr>,
     \<lparr>pm_name = ''pass_dependency_simplification'', pm_priority = 60, pm_async = False,
      pm_run = Some (\<lambda>g. Returned (simplify_run g))\<rparr>,
     \<lparr>pm_name = ''pass_parallel_fusion'', pm_priority = 70, pm_async = False,
      pm_run = Some (\<lambda>g. Returned (fusion_run gc g))\<rparr>]"

section \<open>The contract of a pass\<close>

locale pass_invariant =
  fixes mods :: "pass_module list" and I :: "exec_graph \<Rightarrow> bool"
  assumes keeps: "m \<in> set mods \<Longrightarrow> pm_run m = Some fn \<Longrightarrow> I g \<Longrightarrow> fn g = Returned g' \<Longrightarrow> I g'"
begin

lemma pass_step_keeps: "m \<in> set mods \<Longrightarrow> I (fst s) \<Longrightarrow> I (fst (pass_step a b s m))"
  using keeps [of m _ "fst s"] by (auto simp: pass_step_def split: option.split pass_result.split)

lemma run_iteration_keeps: "set passes \<subseteq> set mods \<Longrightarrow> I g \<Longrightarrow> I (fst (run_iteration a passes g))"
proof -
  have "set ps \<subseteq> set mods \<Longrightarrow> I (fst s) \<Longrightarrow> I (fst (foldl (pass_step a b) s ps))" for ps s b
    by (induction ps arbitrary: s) (auto simp: pass_step_keeps)
  then show "set passes \<subseteq> set mods \<Longrightarrow> I g \<Longrightarrow> ?thesis" by (simp add: run_iteration_def)
qed

lemma fixpoint_loop_keeps:
  assumes "set passes \<subseteq> set mods" and "I g" and "\<forall>s \<in> set snaps. I (snap_graph s)"
    and "fixpoint_loop hash a passes n i g snaps = (g', snaps')"
  shows "I g' \<and> (\<forall>s \<in> set snaps'. I (snap_graph s))"
  using assms
proof (induction n arbitrary: i g snaps)
  case (Suc n)
  let ?res = "run_iteration a passes g"
  have I: "I (fst ?res)" using Suc.prems by (simp add: run_iteration_keeps)
  then have S: "\<forall>s \<in> set (snaps @ [iteration_snapshot v j g ?res]). I (snap_graph s)" for v j
    using Suc.prems(3) by (auto simp: iteration_snapshot_def)
  show ?case
  proof (cases "hash (fst ?res) = hash g")
    case True
    with Suc.prems(4) I S show ?thesis by (auto simp: Let_def)
  next
    case False
    show ?thesis
      by (rule Suc.IH [OF Suc.prems(1) I S]) (use Suc.prems(4) False in \<open>simp add: Let_def\<close>)
  qed
qed auto

lemma optimize_keeps:
  assumes "I g" and "run_optimize hash a mods n g = Some (g', snaps)"
  shows "I g' \<and> (\<forall>s \<in> set snaps. I (snap_graph s))"
proof (cases "mods = []")
  case True
  with assms show ?thesis by (simp add: run_optimize_def discover_passes_def)
next
  case False
  then have "discover_passes mods \<noteq> []"
    by (metis discover_passes_def length_0_conv length_sort)
  then have "fixpoint_loop hash a (discover_passes mods) n 0 g
      [\<lparr>snap_version = 1, snap_graph = g, snap_pass_name = Initial, snap_report = None\<rparr>] = (g', snaps)"
    using assms(2) by (simp add: run_optimize_def Let_def split: if_splits)
  then show ?thesis
    by (rule fixpoint_loop_keeps [rotated 3]) (use assms(1) in \<open>simp_all add: discover_passes_def\<close>)
qed

end

section \<open>Every pass keeps a graph well-formed\<close>

lemma enrich_nodes_ids:
  "enrich_nodes row prefs ns = Inr ns' \<Longrightarrow> map (\<lambda>(k, n). (k, node_id n)) ns' = map (\<lambda>(k, n). (k, node_id n)) ns"
proof (induction ns arbitrary: ns')
  case (Cons p ns)
  obtain nid n where p: "p = (nid, n)" by (cases p)
  from Cons.prems obtain n' ms where ms: "ns' = (nid, n') # ms" "enrich_nodes row prefs ns = Inr ms"
    and n': "node_id n' = node_id n"
    by (cases n) (auto simp: p dest: enrich_tool_node_deps split: sum.splits)
  with Cons.IH [OF ms(2)] show ?case by (simp add: p)
qed simp

lemma wf_graph_ids:
  assumes "wf_graph g" and "map (\<lambda>(k, n). (k, node_id n)) ns = map (\<lambda>(k, n). (k, node_id n)) (g_nodes g)"
  shows "wf_graph (g\<lparr>g_nodes := ns\<rparr>)"
proof -
  have k: "map fst ms = map fst (map (\<lambda>(k, n). (k, node_id n)) ms)" for ms :: "(string \<times> physical_node) list"
    by (induction ms) auto
  have i: "list_all (\<lambda>(k, n). node_id n = k) ms
     \<longleftrightarrow> list_all (\<lambda>(k, i). i = k) (map (\<lambda>(k, n). (k, node_id n)) ms)" for ms
    by (induction ms) auto
  show ?thesis using assms k [of ns] k [of "g_nodes g"] i [of ns] i [of "g_nodes g"] by (simp add: wf_graph_def)
qed

lemma wf_enrichment: "wf_graph g \<Longrightarrow> enrichment_run row prefs g = Inr g' \<Longrightarrow> wf_graph g'"
  by (auto simp: enrichment_run_def intro: wf_graph_ids dest: enrich_nodes_ids split: sum.splits)

lemma wf_ranking: "wf_graph g \<Longrightarrow> wf_graph (ranking_run g)"
  unfolding ranking_run_def by (rule wf_graph_ids) auto

lemma wf_constraint: assumes "wf_graph g" shows "wf_graph (constraint_run g)"
proof -
  let ?ws = "map (reorder_wave (g_nodes g)) (g_waves g)"
  have "mset (concat ?ws) = mset (concat (g_waves g))"
    using assms by (intro mset_concat_reorder) (simp add: wf_graph_def)
  then have "distinct (concat ?ws) = distinct (concat (g_waves g))" "set (concat ?ws) = set (concat (g_waves g))"
    by (metis mset_eq_imp_distinct_iff, metis set_mset_mset)
  then have "wf_graph (g\<lparr>g_waves := ?ws\<rparr>)"
    using assms unfolding wf_graph_def by (simp del: set_concat)
  with assms show ?thesis by (simp add: constraint_run_def Let_def)
qed

interpretation nexus_pipeline: pass_invariant "nexus_passes sha gc row prefs" wf_graph
  for sha gc row prefs
proof unfold_locales
  fix m fn g g'
  assume "m \<in> set (nexus_passes sha gc row prefs)" "pm_run m = Some fn" "wf_graph g" "fn g = Returned g'"
  then show "wf_graph g'"
    unfolding nexus_passes_def
    by (auto simp: enrichment_pass_def wf_ranking wf_constraint wf_elimination_run wf_dedup_run
        wf_simplify_run wf_fusion_run wf_enrichment split: sum.splits)
qed

section \<open>The loop: lengths, versions, fixpoint\<close>

lemma fixpoint_loop_shape:
  assumes "map snap_version snaps = [1..<Suc (length snaps)]"
    and "fixpoint_loop hash a passes n i g snaps = (g', snaps')"
  shows "map snap_version snaps' = [1..<Suc (length snaps')] \<and> length snaps' \<le> length snaps + n
     \<and> (0 < n \<longrightarrow> length snaps < length snaps' \<and> snap_graph (last snaps') = g')
     \<and> (length snaps' < length snaps + n \<longrightarrow> (\<exists>h. g' = fst (run_iteration a passes h) \<and> hash h = hash g'))"
  using assms
proof (induction n arbitrary: i g snaps)
  case (Suc n)
  let ?res = "run_iteration a passes g"
  let ?s = "snaps @ [iteration_snapshot (length snaps + 1) (Suc i) g ?res]"
  have v: "map snap_version ?s = [1..<Suc (length ?s)]"
    using Suc.prems(1) by (simp add: iteration_snapshot_def)
  have l: "snap_graph (last ?s) = fst ?res" by (simp add: iteration_snapshot_def)
  show ?case
  proof (cases "hash (fst ?res) = hash g")
    case True
    with Suc.prems(2) have "g' = fst ?res" "snaps' = ?s" by (auto simp: Let_def)
    with v l True show ?thesis by (auto intro!: exI [of _ g])
  next
    case False
    with Suc.prems(2) have e: "fixpoint_loop hash a passes n (Suc i) (fst ?res) ?s = (g', snaps')"
      by (simp add: Let_def)
    from Suc.IH [OF v e] have "length ?s \<le> length snaps'" using e by (cases n) auto
    with Suc.IH [OF v e] e l show ?thesis by (cases n) auto
  qed
qed simp

lemma run_optimize_Some:
  assumes "mods \<noteq> []" and "1 \<le> max_iter"
  shows "run_optimize hash a mods max_iter g = Some (fixpoint_loop hash a (discover_passes mods) max_iter 0 g
       [\<lparr>snap_version = 1, snap_graph = g, snap_pass_name = Initial, snap_report = None\<rparr>])"
proof -
  have "length (discover_passes mods) = length mods" by (simp add: discover_passes_def)
  then have "discover_passes mods \<noteq> []" using assms(1) by auto
  then show ?thesis using assms(2) by (simp add: run_optimize_def Let_def)
qed

section \<open>Properties\<close>

text \<open>
  C3: Whatever the registry, the metadata and the number of iterations, the optimiser turns
  a well-formed graph into a well-formed graph, and so is every graph it records: ids stay
  unique and equal to their keys, and no wave lists an id twice or an id without a node.
\<close>

theorem optimize_keeps_wf:
  assumes "wf_graph g" and "run_optimize hash a (nexus_passes sha gc row prefs) max_iter g = Some (g', snaps)"
  shows "wf_graph g' \<and> (\<forall>s \<in> set snaps. wf_graph (snap_graph s))"
  using assms by (rule nexus_pipeline.optimize_keeps)

definition example_hash :: "exec_graph \<Rightarrow> string" where
  "example_hash g = concat (map fst (g_nodes g)) @ concat (map (\<lambda>w. ''|'' @ concat w) (g_waves g))"

theorem optimize_keeps_wf_witness:
  "wf_graph (fst (the (run_optimize example_hash False
     (nexus_passes flat_json example_batch_gc (\<lambda>_. None) []) 5 example_batch_graph)))"
proof -
  let ?r = "run_optimize example_hash False (nexus_passes flat_json example_batch_gc (\<lambda>_. None) []) 5 example_batch_graph"
  have "wf_graph example_batch_graph" by code_simp
  moreover have "?r = Some (fst (the ?r), snd (the ?r))"
    by (simp add: run_optimize_Some nexus_passes_def)
  ultimately show ?thesis by (rule optimize_keeps_wf [THEN conjunct1])
qed

text \<open>
  C4: The fixpoint loop always returns, with a contiguous history: at most \<open>max_iter\<close>
  snapshots after the initial one, numbered from 1, the last of them the result.  When it
  stops before the limit and the graph hash does not collide, the result is a fixpoint: one
  more round of all passes returns it unchanged.
\<close>

theorem optimize_reaches_fixpoint_or_limit:
  assumes "mods \<noteq> []" and "1 \<le> max_iter" and "inj hash"
  shows "\<exists>g' snaps. run_optimize hash a mods max_iter g = Some (g', snaps)
     \<and> 2 \<le> length snaps \<and> length snaps \<le> max_iter + 1
     \<and> map snap_version snaps = [1..<Suc (length snaps)] \<and> snap_graph (last snaps) = g'
     \<and> (length snaps < max_iter + 1 \<longrightarrow> fst (run_iteration a (discover_passes mods) g') = g')"
proof -
  obtain g' snaps where r: "fixpoint_loop hash a (discover_passes mods) max_iter 0 g
       [\<lparr>snap_version = 1, snap_graph = g, snap_pass_name = Initial, snap_report = None\<rparr>] = (g', snaps)"
    by fastforce
  have v: "map snap_version [\<lparr>snap_version = 1, snap_graph = g, snap_pass_name = Initial, snap_report = None\<rparr>]
      = [1..<Suc (length [\<lparr>snap_version = 1, snap_graph = g, snap_pass_name = Initial, snap_report = None\<rparr>])]"
    by simp
  note shape = fixpoint_loop_shape [OF v r]
  have "fst (run_iteration a (discover_passes mods) g') = g'" if l: "length snaps < max_iter + 1"
  proof -
    obtain h where h: "g' = fst (run_iteration a (discover_passes mods) h)" "hash h = hash g'"
      using shape l by auto
    then have "h = g'" using assms(3) by (simp add: inj_eq)
    with h(1) show ?thesis by simp
  qed
  with shape run_optimize_Some [OF assms(1,2), of hash a g] r assms(2)
  show ?thesis by (auto simp del: upt_Suc)
qed

theorem optimize_reaches_fixpoint_or_limit_witness:
  "\<exists>g' snaps. run_optimize id False (nexus_passes flat_json example_gc (\<lambda>_. None) []) 5 example_batch_graph
      = Some (g', snaps) \<and> 2 \<le> length snaps \<and> length snaps \<le> 6 \<and> snap_graph (last snaps) = g'"
proof -
  have "nexus_passes flat_json example_gc (\<lambda>_. None) [] \<noteq> []" by (simp add: nexus_passes_def)
  from optimize_reaches_fixpoint_or_limit [OF this, of 5 id False example_batch_graph] show ?thesis
    by (simp del: upt_Suc) blast
qed

text \<open>
  The discovered passes run by priority, whatever order the package lists them in:
  enrichment, ranking, ordering, deduplication, elimination, simplification, fusion.
\<close>

theorem discovery_order:
  "map pm_name (discover_passes (nexus_passes sha gc row prefs)) =
     [''input_enrichment'', ''pass_candidate_ranking'', ''pass_constraint_optimizer'', ''pass_deduplication'',
      ''pass_dead_task_elimination'', ''pass_dependency_simplification'', ''pass_parallel_fusion'']"
  by (simp add: discover_passes_def nexus_passes_def sort_key_def)

end
