(* ===== verification/Resolver.thy ===== *)
theory Resolver
  imports Prelude
begin

text \<open>
  \<open>capabilities/resolver.py\<close> (\<open>DynamicCapabilityResolver\<close>) and
  \<open>capabilities/schema\_matcher.py\<close>: scoring of endpoint rows and the ranked candidate
  list.  The rows of the database are parameters; scores are rational numbers.
\<close>

section \<open>Rows, settings, candidates\<close>

record endpoint_row =
  ep_id :: string
  ep_url :: string
  ep_method :: string
  ep_enabled :: bool
  ep_cost :: "rat option"
  ep_latency :: "int option"
  ep_permissions :: "string list"
  ep_version :: "string option"
  ep_deprecated :: bool
  ep_min_tier :: "string option"

record provider_row =
  pr_name :: string
  pr_enabled :: bool
  pr_reliability :: "rat option"
  pr_endpoints :: "endpoint_row list"

record capability_rows =
  cr_consumes :: "string list"
  cr_providers :: "provider_row list"

record resolver_settings =
  capability_match_weight :: rat
  schema_match_weight :: rat
  reliability_weight :: rat
  latency_weight :: rat
  cost_weight :: rat
  permissions_weight :: rat
  user_preference_weight :: rat
  version_weight :: rat
  deprecated_penalty :: rat
  default_reliability :: rat
  rs_max_latency_ms :: int
  rs_max_cost_usd :: rat
  top_k_candidates :: nat
  default_latency_ms :: int   \<comment> \<open>\<open>settings.compiler.default_latency_ms\<close>\<close>

record resolver_context =
  user_permissions :: "string list"
  inputs_shape :: "json dict option"
  preferred_provider :: "string option"
  preferred_version :: "string option"

text \<open>
  One entry of an environment's \<open>endpoint_overrides\<close>: whether the entry is an empty
  dictionary, its truthy \<open>url\<close> as a string, and whether \<open>enabled\<close> is \<open>False\<close>.
\<close>

record env_override =
  ov_empty :: bool
  ov_url :: "string option"
  ov_disabled :: bool

record candidate_endpoint =
  ce_endpoint_id :: string
  ce_capability :: string
  ce_provider_name :: string
  ce_url :: string
  ce_http_method :: string
  ce_score :: rat
  ce_cost_per_call :: rat
  ce_latency_p99_ms :: "int option"
  ce_reliability_score :: rat
  ce_api_version :: "string option"
  ce_deprecated :: bool
  ce_min_tier :: "string option"

datatype resolve_result =
    Resolved "candidate_endpoint list"
  | CapabilityError string
  | ResolveFails string

section \<open>Scoring\<close>

text \<open>\<open>SchemaMatcher.compute\<close>, on the keys the capability consumes.\<close>

definition schema_match :: "string list \<Rightarrow> json dict \<Rightarrow> rat" where
  "schema_match consumes shape =
    (if consumes = [] then 1
     else if shape = [] then 1 / 2
     else if list_all (\<lambda>k. dict_has shape k) consumes then 1
     else if list_ex (\<lambda>k. dict_has shape k) consumes then 1 / 2 else 0)"

definition version_number :: "string \<Rightarrow> int option" where
  "version_number v = (let parts = map py_int (py_split (CHR ''.'') v) in
     if None \<in> set parts then None
     else Some (foldl (\<lambda>acc p. acc * 100 + the p) 0 parts))"

definition version_bonus :: "resolver_settings \<Rightarrow> string option \<Rightarrow> rat" where
  "version_bonus s v = (case v of None \<Rightarrow> 0 | Some ver \<Rightarrow> if ver = [] then 0 else
     (case version_number ver of None \<Rightarrow> 0
      | Some n \<Rightarrow> version_weight s * min 1 (of_int n / 1000)))"

definition or_int :: "int option \<Rightarrow> int \<Rightarrow> int" where
  "or_int v d = (case v of None \<Rightarrow> d | Some n \<Rightarrow> if n = 0 then d else n)"

definition or_rat :: "rat option \<Rightarrow> rat \<Rightarrow> rat" where
  "or_rat v d = (case v of None \<Rightarrow> d | Some n \<Rightarrow> if n = 0 then d else n)"

definition permission_bonus :: "resolver_settings \<Rightarrow> string list \<Rightarrow> string list \<Rightarrow> rat" where
  "permission_bonus s user required =
    (if user \<noteq> [] \<and> required \<noteq> [] then
       permissions_weight s * (if list_all (\<lambda>p. p \<in> set user) required then 1 else 0)
     else if required \<noteq> [] then permissions_weight s else 0)"

definition compute_score ::
  "resolver_settings \<Rightarrow> string list \<Rightarrow> endpoint_row \<Rightarrow> provider_row \<Rightarrow> resolver_context \<Rightarrow> rat" where
  "compute_score s consumes e p ctx =
    (let schema = (case inputs_shape ctx of None \<Rightarrow> 1 | Some shape \<Rightarrow> schema_match consumes shape);
         rel = (case pr_reliability p of None \<Rightarrow> default_reliability s | Some r \<Rightarrow> r);
         lat_norm = max 0 (1 - of_int (or_int (ep_latency e) (default_latency_ms s)) / of_int (rs_max_latency_ms s));
         cost_norm = max 0 (1 - or_rat (ep_cost e) 0 / rs_max_cost_usd s);
         total = capability_match_weight s + schema_match_weight s * schema + reliability_weight s * rel
           + latency_weight s * lat_norm + cost_weight s * cost_norm
           + permission_bonus s (user_permissions ctx) (ep_permissions e)
           + (case preferred_provider ctx of None \<Rightarrow> 0
              | Some n \<Rightarrow> if n \<noteq> [] \<and> n = pr_name p then user_preference_weight s else 0)
           + version_bonus s (ep_version e)
           + (case preferred_version ctx of None \<Rightarrow> 0
              | Some v \<Rightarrow> if v \<noteq> [] \<and> ep_version e = Some v then version_weight s else 0)
     in round4 (if ep_deprecated e then total * deprecated_penalty s else total))"

section \<open>Resolution\<close>

definition active_override :: "(string \<times> env_override) list \<Rightarrow> string \<Rightarrow> string \<Rightarrow> env_override option" where
  "active_override ovs op name =
    (let pick = (\<lambda>k. case map_of ovs k of None \<Rightarrow> None | Some ov \<Rightarrow> if ov_empty ov then None else Some ov) in
     case pick op of Some ov \<Rightarrow> Some ov | None \<Rightarrow> pick name)"

text \<open>
  One endpoint: \<open>Inr []\<close> when it is skipped; \<open>Inl\<close> when the candidate's own validation
  (\<open>score \<ge> 0\<close>) raises.
\<close>

definition endpoint_candidate ::
  "resolver_settings \<Rightarrow> (string \<times> env_override) list \<Rightarrow> string list \<Rightarrow> string \<Rightarrow> resolver_context
     \<Rightarrow> provider_row \<Rightarrow> endpoint_row \<Rightarrow> string + candidate_endpoint list" where
  "endpoint_candidate s ovs consumes op ctx p e =
    (if \<not> ep_enabled e then Inr []
     else let ov = active_override ovs op (pr_name p);
              url = (case ov of None \<Rightarrow> ep_url e
                     | Some o' \<Rightarrow> (case ov_url o' of None \<Rightarrow> ep_url e | Some u \<Rightarrow> u)) in
       if (case ov of None \<Rightarrow> False | Some o' \<Rightarrow> ov_disabled o') then Inr []
       else let score = compute_score s consumes e p ctx in
         if score < 0 then Inl ''score''
         else Inr [\<lparr>ce_endpoint_id = ep_id e, ce_capability = op, ce_provider_name = pr_name p, ce_url = url,
            ce_http_method = ep_method e, ce_score = score, ce_cost_per_call = or_rat (ep_cost e) 0,
            ce_latency_p99_ms = Some (or_int (ep_latency e) (default_latency_ms s)),
            ce_reliability_score = or_rat (pr_reliability p) 1, ce_api_version = ep_version e,
            ce_deprecated = ep_deprecated e, ce_min_tier = ep_min_tier e\<rparr>])"

definition all_candidates ::
  "resolver_settings \<Rightarrow> (string \<times> env_override) list \<Rightarrow> capability_rows \<Rightarrow> string \<Rightarrow> resolver_context
     \<Rightarrow> string + candidate_endpoint list" where
  "all_candidates s ovs rows op ctx =
    (case map_err (\<lambda>(p, e). endpoint_candidate s ovs (cr_consumes rows) op ctx p e)
        (concat (map (\<lambda>p. map (Pair p) (pr_endpoints p)) (filter pr_enabled (cr_providers rows)))) of
       Inl e \<Rightarrow> Inl e | Inr css \<Rightarrow> Inr (concat css))"

text \<open>\<open>db op\<close> is the enabled capability of that name, if there is one.\<close>

definition resolve ::
  "resolver_settings \<Rightarrow> (string \<times> env_override) list \<Rightarrow> (string \<Rightarrow> capability_rows option) \<Rightarrow> resolver_context
     \<Rightarrow> string \<Rightarrow> resolve_result" where
  "resolve s ovs db ctx op =
    (case db op of
       None \<Rightarrow> Resolved []
     | Some rows \<Rightarrow> (case all_candidates s ovs rows op ctx of
         Inl e \<Rightarrow> ResolveFails e
       | Inr cs \<Rightarrow> Resolved (take (top_k_candidates s) (sort_key (\<lambda>c. - ce_score c) cs))))"

section \<open>Lemmas\<close>

lemma all_candidates_mem:
  assumes "all_candidates s ovs rows op ctx = Inr cs" and "c \<in> set cs"
  shows "\<exists>p \<in> set (cr_providers rows). pr_enabled p \<and> (\<exists>e \<in> set (pr_endpoints p). ep_enabled e
     \<and> ce_endpoint_id c = ep_id e \<and> ce_score c = compute_score s (cr_consumes rows) e p ctx \<and> 0 \<le> ce_score c)"
proof -
  let ?ps = "concat (map (\<lambda>p. map (Pair p) (pr_endpoints p)) (filter pr_enabled (cr_providers rows)))"
  let ?f = "\<lambda>(p, e). endpoint_candidate s ovs (cr_consumes rows) op ctx p e"
  from assms(1) obtain css where css: "map_err ?f ?ps = Inr css" "cs = concat css"
    by (auto simp: all_candidates_def split: sum.splits)
  then have l: "list_all2 (\<lambda>x y. ?f x = Inr y) ?ps css" by (simp only: map_err_Inr)
  from assms(2) css(2) obtain w where w: "w \<in> set css" "c \<in> set w" by auto
  then obtain i where i: "i < length css" "c \<in> set (css ! i)" by (metis in_set_conv_nth)
  obtain p e where pe: "?ps ! i = (p, e)" by (cases "?ps ! i")
  have f: "endpoint_candidate s ovs (cr_consumes rows) op ctx p e = Inr (css ! i)" and "i < length ?ps"
    using list_all2_nthD [OF l, of i] list_all2_lengthD [OF l] i(1) pe by auto
  then have "(p, e) \<in> set ?ps" using pe by (metis nth_mem)
  then have m: "p \<in> set (cr_providers rows)" "pr_enabled p" "e \<in> set (pr_endpoints p)" by auto
  have "ep_enabled e \<and> ce_endpoint_id c = ep_id e \<and> ce_score c = compute_score s (cr_consumes rows) e p ctx
      \<and> 0 \<le> ce_score c"
  proof -
    have "\<forall>x \<in> set w. ep_enabled e \<and> ce_endpoint_id x = ep_id e
        \<and> ce_score x = compute_score s (cr_consumes rows) e p ctx \<and> 0 \<le> ce_score x"
      if "endpoint_candidate s ovs (cr_consumes rows) op ctx p e = Inr w" for w
      using that by (auto simp: endpoint_candidate_def Let_def split: if_splits)
    then show ?thesis using f i(2) by blast
  qed
  with m show ?thesis by blast
qed

lemma sorted_take_dominates:
  assumes "sorted (map f xs)" and "x \<in> set (take k xs)" and "y \<in> set (drop k xs)"
  shows "f x \<le> f y"
proof -
  have "sorted (map f (take k xs) @ map f (drop k xs))"
    using assms(1) by (simp only: map_append [symmetric] append_take_drop_id)
  with assms(2,3) show ?thesis by (auto simp: sorted_append)
qed

section \<open>Properties\<close>

text \<open>
  Resolution returns the best candidates: every returned candidate is an enabled endpoint
  of an enabled provider of the capability, the list is ordered by descending score, it is no
  longer than the configured limit, and no candidate that was left out scores higher than one
  that was kept.
\<close>

theorem resolve_returns_top_candidates:
  assumes "db op = Some rows" and "all_candidates s ovs rows op ctx = Inr cs"
    and "resolve s ovs db ctx op = Resolved kept"
  shows "sorted (map (\<lambda>c. - ce_score c) kept) \<and> length kept = min (top_k_candidates s) (length cs)
     \<and> mset kept \<subseteq># mset cs
     \<and> (\<forall>c \<in># mset cs - mset kept. \<forall>k \<in> set kept. ce_score c \<le> ce_score k)
     \<and> (\<forall>k \<in> set kept. \<exists>p \<in> set (cr_providers rows). pr_enabled p \<and> (\<exists>e \<in> set (pr_endpoints p).
          ep_enabled e \<and> ce_endpoint_id k = ep_id e \<and> ce_score k = compute_score s (cr_consumes rows) e p ctx))"
proof -
  let ?so = "sort_key (\<lambda>c. - ce_score c) cs" and ?n = "top_k_candidates s"
  have k: "kept = take ?n ?so" using assms by (simp add: resolve_def)
  have m: "mset cs = mset kept + mset (drop ?n ?so)"
    unfolding k by (metis append_take_drop_id mset_append mset_sort)
  have srt: "sorted (map (\<lambda>c. - ce_score c) ?so)" by simp
  have "ce_score c \<le> ce_score x" if "c \<in> set (drop ?n ?so)" "x \<in> set kept" for c x
    using sorted_take_dominates [OF srt that(2) [unfolded k] that(1)] by simp
  then have "\<forall>c \<in># mset cs - mset kept. \<forall>x \<in> set kept. ce_score c \<le> ce_score x"
    by (simp add: m)
  moreover have "set kept \<subseteq> set cs" unfolding k using set_take_subset [of ?n ?so] by simp
  then have "\<forall>x \<in> set kept. \<exists>p \<in> set (cr_providers rows). pr_enabled p \<and> (\<exists>e \<in> set (pr_endpoints p).
          ep_enabled e \<and> ce_endpoint_id x = ep_id e \<and> ce_score x = compute_score s (cr_consumes rows) e p ctx)"
    using all_candidates_mem [OF assms(2)] by blast
  moreover have "sorted (map (\<lambda>c. - ce_score c) kept)"
    unfolding k using srt by (metis sorted_wrt_take take_map)
  ultimately show ?thesis using m by (simp add: k min.commute)
qed

definition example_settings :: resolver_settings where
  "example_settings = \<lparr>capability_match_weight = 1, schema_match_weight = 1, reliability_weight = 1,
     latency_weight = 1, cost_weight = 1, permissions_weight = 1, user_preference_weight = 1, version_weight = 1 / 2,
     deprecated_penalty = 1 / 2, default_reliability = 4 / 5, rs_max_latency_ms = 5000, rs_max_cost_usd = 1,
     top_k_candidates = 1, default_latency_ms = 1000\<rparr>"

definition example_endpoint :: "string \<Rightarrow> bool \<Rightarrow> endpoint_row" where
  "example_endpoint i dep = \<lparr>ep_id = i, ep_url = ''u'' @ i, ep_method = ''GET'', ep_enabled = True, ep_cost = None,
     ep_latency = None, ep_permissions = [], ep_version = None, ep_deprecated = dep, ep_min_tier = None\<rparr>"

definition example_rows :: capability_rows where
  "example_rows = \<lparr>cr_consumes = [], cr_providers = [\<lparr>pr_name = ''p'', pr_enabled = True, pr_reliability = None,
     pr_endpoints = [example_endpoint ''old'' True, example_endpoint ''new'' False]\<rparr>]\<rparr>"

definition example_ctx :: resolver_context where
  "example_ctx = \<lparr>user_permissions = [], inputs_shape = None, preferred_provider = None, preferred_version = None\<rparr>"

theorem resolve_returns_top_candidates_witness:
  "\<exists>cs kept. all_candidates example_settings [] example_rows ''op'' example_ctx = Inr cs
     \<and> resolve example_settings [] (\<lambda>_. Some example_rows) example_ctx ''op'' = Resolved kept
     \<and> length kept = 1 \<and> length cs = 2 \<and> mset kept \<subseteq># mset cs"
proof -
  let ?r = "all_candidates example_settings [] example_rows ''op'' example_ctx"
  have "(case ?r of Inl e \<Rightarrow> False | Inr cs \<Rightarrow> length cs = 2)" by code_simp
  then obtain cs where cs: "?r = Inr cs" "length cs = 2" by (auto split: sum.splits)
  then obtain kept where kept:
    "resolve example_settings [] (\<lambda>_. Some example_rows) example_ctx ''op'' = Resolved kept"
    by (simp add: resolve_def)
  from resolve_returns_top_candidates [OF _ cs(1) kept] cs kept show ?thesis
    by (simp add: example_settings_def)
qed

end
