(* ===== verification/Codegen.thy ===== *)
theory Codegen
  imports Waves Global_Context Resolver
begin

text \<open>
  \<open>compiler/codegen.py\<close>: from the planner's logical workflow to the execution graph.
  Producer synthesis for \<open>RESOLVE(...)\<close> expressions, tool resolution, implicit
  dependencies from \<open>${ref.result}\<close> placeholders, and the wave schedule.  Parameters:
  \<open>digest\<close> (the SHA256 hex digest), \<open>resolver\<close> (the outcome of
  \<open>DynamicCapabilityResolver.resolve\<close> for an operation; \<open>Resolver\<close> models it),
  \<open>ord\<close> (the unspecified iteration order of a Python \<open>set\<close> of strings) and
  \<open>def_lat\<close> (\<open>settings.compiler.default_latency_ms\<close>).
\<close>

section \<open>Chain expressions\<close>

definition is_chain_expression :: "string \<Rightarrow> bool" where
  "is_chain_expression value = (let s = py_strip value in
     (starts_with ''RESOLVE('' s \<and> ends_with '')'' s) \<or> (starts_with ''{{'' s \<and> ends_with ''}}'' s))"

text \<open>\<open>\s*"([^"]+)"\<close> and \<open>\s*c\<close>, at the start of a string.\<close>

definition quoted :: "string \<Rightarrow> (string \<times> string) option" where
  "quoted s = (case dropWhile is_space s of
      [] \<Rightarrow> None
    | q # r \<Rightarrow> if q \<noteq> CHR 0x22 then None
        else let w = takeWhile (\<lambda>c. c \<noteq> CHR 0x22) r; rest = dropWhile (\<lambda>c. c \<noteq> CHR 0x22) r in
          if w = [] \<or> rest = [] then None else Some (w, tl rest))"

definition expect :: "char \<Rightarrow> string \<Rightarrow> string option" where
  "expect c s = (case dropWhile is_space s of [] \<Rightarrow> None | x # r \<Rightarrow> if x = c then Some r else None)"

definition match_resolve :: "string \<Rightarrow> (string \<times> string \<times> string) option" where
  "match_resolve s = (if \<not> starts_with ''RESOLVE('' s then None else
     (case quoted (drop 8 s) of None \<Rightarrow> None | Some (op, s1) \<Rightarrow>
     (case expect (CHR '','') s1 of None \<Rightarrow> None | Some s2 \<Rightarrow>
     (case quoted s2 of None \<Rightarrow> None | Some (key, s3) \<Rightarrow>
     (case expect (CHR '','') s3 of None \<Rightarrow> None | Some s4 \<Rightarrow>
     (case quoted s4 of None \<Rightarrow> None | Some (v, s5) \<Rightarrow>
     (case expect (CHR '')'') s5 of None \<Rightarrow> None | Some _ \<Rightarrow> Some (op, key, v))))))))"

text \<open>\<open>resolve_re.search\<close>: the leftmost match.\<close>

fun search_resolve :: "string \<Rightarrow> (string \<times> string \<times> string) option" where
  "search_resolve [] = None"
| "search_resolve (c # cs) =
    (case match_resolve (c # cs) of Some m \<Rightarrow> Some m | None \<Rightarrow> search_resolve cs)"

section \<open>Producer synthesis\<close>

record synth_state =
  synthesized :: "logical_node list"
  rewritten :: "(string \<times> json dict) list"
  extra_deps :: "(string \<times> string list) list"

definition producer_input :: "cap_meta \<Rightarrow> string \<Rightarrow> string \<Rightarrow> json dict option" where
  "producer_input meta pkey pvalue =
    (if pkey \<in> set (meta_input_props meta) then Some [(pkey, JStr pvalue)]
     else (case meta_input_required meta of [] \<Rightarrow> None | r # _ \<Rightarrow> Some [(r, JStr pvalue)]))"

definition consumed_field :: "cap_meta \<Rightarrow> string \<Rightarrow> string" where
  "consumed_field meta key = (if key \<in> set (meta_produces meta) then key
     else (case meta_produces meta of [] \<Rightarrow> key | p # _ \<Rightarrow> p))"

definition placeholder_text :: "string \<Rightarrow> string \<Rightarrow> string" where
  "placeholder_text r field = ''${'' @ r @ ''.result.'' @ field @ ''}''"

definition producer_ref_for :: "string list \<Rightarrow> nat \<Rightarrow> string \<Rightarrow> string \<Rightarrow> string" where
  "producer_ref_for existing n node_ref key =
    (let r = node_ref @ ''_producer_'' @ key in
     if r \<in> set existing then r @ ''_'' @ nat_str n else r)"

definition producer_node :: "string \<Rightarrow> string \<Rightarrow> json dict \<Rightarrow> logical_node" where
  "producer_node op r ins = \<lparr>l_op = op, l_ref = r, l_inputs = ins, l_depends_on = [], l_condition = None,
     l_branch_true = [], l_branch_false = [], l_iterate_over = None, l_domain = None, l_action = None\<rparr>"

text \<open>One input of one node; the state also carries \<open>new_inputs\<close> and \<open>changed\<close>.\<close>

definition synth_input ::
  "(string \<Rightarrow> resolve_result) \<Rightarrow> global_context \<Rightarrow> string list \<Rightarrow> logical_node
     \<Rightarrow> synth_state \<times> json dict \<times> bool \<Rightarrow> string \<times> json
     \<Rightarrow> compiler_error + synth_state \<times> json dict \<times> bool" where
  "synth_input resolver gc existing node acc kv =
    (case acc of (st, new_inputs, changed) \<Rightarrow> case kv of (key, value) \<Rightarrow> case value of
       JStr v \<Rightarrow>
        (if \<not> is_chain_expression v then Inr acc
         else case search_resolve v of
           None \<Rightarrow> Inl (UnsupportedChain (l_ref node) key)
         | Some (op, pkey, pvalue) \<Rightarrow>
          (case get_meta gc op of
             None \<Rightarrow> Inl (UnknownCapability op)
           | Some meta \<Rightarrow>
            (case resolver op of
               CapabilityError _ \<Rightarrow> Inl (ResolutionFailed op)
             | ResolveFails _ \<Rightarrow> Inl (ResolutionFailed op)
             | Resolved [] \<Rightarrow> Inl (NoEndpoint op)
             | Resolved (_ # _) \<Rightarrow>
              (case producer_input meta pkey pvalue of
                 None \<Rightarrow> Inl (NoInputContract op)
               | Some pin \<Rightarrow>
                  let r = producer_ref_for existing (length (synthesized st)) (l_ref node) key in
                  Inr (st\<lparr>synthesized := synthesized st @ [producer_node op r pin],
                          extra_deps := AList.update (l_ref node)
                            (dict_get (extra_deps st) (l_ref node) [] @ [r]) (extra_deps st)\<rparr>,
                       AList.update key (JStr (placeholder_text r (consumed_field meta key))) new_inputs,
                       True)))))
     | _ \<Rightarrow> Inr acc)"

definition synth_node ::
  "(string \<Rightarrow> resolve_result) \<Rightarrow> global_context \<Rightarrow> string list \<Rightarrow> synth_state \<Rightarrow> logical_node
     \<Rightarrow> compiler_error + synth_state" where
  "synth_node resolver gc existing st node =
    (if l_inputs node = [] then Inr st
     else (case fold_err (synth_input resolver gc existing node) (st, l_inputs node, False) (l_inputs node) of
         Inl e \<Rightarrow> Inl e
       | Inr (st', new_inputs, changed) \<Rightarrow>
           Inr (if changed then st'\<lparr>rewritten := AList.update (l_ref node) new_inputs (rewritten st')\<rparr> else st')))"

definition rebuild_node :: "synth_state \<Rightarrow> logical_node \<Rightarrow> logical_node" where
  "rebuild_node st node =
    (case map_of (rewritten st) (l_ref node) of
       None \<Rightarrow> node
     | Some ins \<Rightarrow> node\<lparr>l_inputs := ins,
         l_depends_on := l_depends_on node @ dict_get (extra_deps st) (l_ref node) []\<rparr>)"

definition synthesize_resolve_producers ::
  "(string \<Rightarrow> resolve_result) \<Rightarrow> global_context \<Rightarrow> logical_workflow \<Rightarrow> compiler_error + logical_workflow" where
  "synthesize_resolve_producers resolver gc flow =
    (case fold_err (synth_node resolver gc (map l_ref (w_nodes flow)))
        \<lparr>synthesized = [], rewritten = [], extra_deps = []\<rparr> (w_nodes flow) of
       Inl e \<Rightarrow> Inl e
     | Inr st \<Rightarrow> if synthesized st = [] then Inr flow
         else Inr (flow\<lparr>w_nodes := map (rebuild_node st) (w_nodes flow) @ synthesized st\<rparr>))"

section \<open>Placeholders\<close>

definition is_word :: "char \<Rightarrow> bool" where
  "is_word c = (let n = of_char c :: nat in (48 \<le> n \<and> n \<le> 57) \<or> (65 \<le> n \<and> n \<le> 90) \<or> (97 \<le> n \<and> n \<le> 122) \<or> n = 95)"

text \<open>\<open>regex.findall\<close> for \<open>\$\{([a-zA-Z0-9_]+)\.result\<close>.\<close>

lemma find_refs_rest: "length (dropWhile P (tl xs)) - k \<le> length xs"
proof -
  have "length (dropWhile P (tl xs)) \<le> length (tl xs)" by (rule length_dropWhile_le)
  then show ?thesis by simp
qed

function find_refs :: "string \<Rightarrow> string list" where
  "find_refs [] = []"
| "find_refs (c # cs) =
    (if starts_with ''${'' (c # cs) then
       (let w = takeWhile is_word (tl cs); rest = dropWhile is_word (tl cs) in
        if w \<noteq> [] \<and> starts_with ''.result'' rest then w # find_refs (drop 7 rest) else find_refs cs)
     else find_refs cs)"
  by pat_completeness auto
termination
  by (relation "measure length")
    (simp_all add: less_Suc_eq_le find_refs_rest)

text \<open>\<open>_scan_for_placeholders\<close>: every string anywhere inside the value.\<close>

fun scan_placeholders :: "json \<Rightarrow> string list" where
  "scan_placeholders (JDict d) = concat (map (\<lambda>p. scan_placeholders (snd p)) d)"
| "scan_placeholders (JList xs) = concat (map scan_placeholders xs)"
| "scan_placeholders (JStr s) = find_refs s"
| "scan_placeholders _ = []"

definition add_dep :: "(string \<times> string) list \<Rightarrow> string list \<Rightarrow> string \<Rightarrow> string list" where
  "add_dep r2i deps r = (case map_of r2i r of None \<Rightarrow> deps
     | Some i \<Rightarrow> if i \<in> set deps then deps else deps @ [i])"

definition wire_deps ::
  "(string list \<Rightarrow> string list) \<Rightarrow> (string \<times> string) list \<Rightarrow> json dict \<Rightarrow> string list \<Rightarrow> string list" where
  "wire_deps ord r2i ins deps = foldl (add_dep r2i) deps (ord (remdups (scan_placeholders (JDict ins))))"

text \<open>For a map node the placeholders of the body are wired into the body, not the node.\<close>

fun wire_node ::
  "(string list \<Rightarrow> string list) \<Rightarrow> (string \<times> string) list \<Rightarrow> physical_node \<Rightarrow> physical_node" where
  "wire_node ord r2i (MapNode m) = MapNode (m\<lparr>
      depends_on := (if iterate_over m = [] then depends_on m else add_dep r2i (depends_on m) (iterate_over m)),
      body := (body m)\<lparr>depends_on := wire_deps ord r2i (inputs (body m)) (depends_on (body m))\<rparr>\<rparr>)"
| "wire_node ord r2i (ToolNode t) = ToolNode (t\<lparr>depends_on := wire_deps ord r2i (inputs t) (depends_on t)\<rparr>)"
| "wire_node ord r2i n = n"

definition wire_implicit_dependencies ::
  "(string list \<Rightarrow> string list) \<Rightarrow> (string \<times> string) list \<Rightarrow> (string \<times> physical_node) list
     \<Rightarrow> (string \<times> physical_node) list" where
  "wire_implicit_dependencies ord r2i nodes = map (\<lambda>(nid, n). (nid, wire_node ord r2i n)) nodes"

section \<open>Compilation\<close>

definition deterministic_id :: "(string \<Rightarrow> string) \<Rightarrow> string list \<Rightarrow> string" where
  "deterministic_id digest parts = take 12 (digest (py_join ''::'' parts))"

definition is_map_node :: "logical_node \<Rightarrow> bool" where
  "is_map_node n = (case l_iterate_over n of None \<Rightarrow> False | Some c \<Rightarrow> c \<noteq> [])"

definition is_gate :: "logical_node \<Rightarrow> bool" where
  "is_gate n = ((case l_condition n of None \<Rightarrow> False | Some c \<Rightarrow> c \<noteq> []) \<and>
     (l_branch_true n \<noteq> [] \<or> l_branch_false n \<noteq> []))"

definition ref_step :: "(string \<Rightarrow> string) \<Rightarrow> (string \<times> string) list \<Rightarrow> logical_node \<Rightarrow> (string \<times> string) list" where
  "ref_step digest r2i n = AList.update (l_ref n)
     (deterministic_id digest [if is_map_node n then ''map'' else ''node'', l_op n, l_ref n]) r2i"

definition ref_to_id :: "(string \<Rightarrow> string) \<Rightarrow> logical_node list \<Rightarrow> (string \<times> string) list" where
  "ref_to_id digest nodes = foldl (ref_step digest) [] nodes"

definition unwrap_input_wrapper :: "json dict \<Rightarrow> json dict" where
  "unwrap_input_wrapper ins =
    (case ins of
       [(k, JDict d)] \<Rightarrow>
         if k \<in> {''args'', ''arguments'', ''parameters'', ''params'', ''input''} then d else ins
     | _ \<Rightarrow> ins)"

definition opt_str :: "string option \<Rightarrow> json" where
  "opt_str v = (case v of None \<Rightarrow> JNull | Some s \<Rightarrow> JStr s)"

text \<open>\<open>CandidateEndpoint.model_dump()\<close>\<close>

definition dump_candidate :: "candidate_endpoint \<Rightarrow> json dict" where
  "dump_candidate c =
    [(''endpoint_id'', JStr (ce_endpoint_id c)), (''capability'', JStr (ce_capability c)),
     (''provider_name'', JStr (ce_provider_name c)), (''url'', JStr (ce_url c)),
     (''http_method'', JStr (ce_http_method c)), (''score'', JFloat (ce_score c)),
     (''cost_per_call'', JFloat (ce_cost_per_call c)),
     (''latency_p99_ms'', (case ce_latency_p99_ms c of None \<Rightarrow> JNull | Some l \<Rightarrow> JInt l)),
     (''reliability_score'', JFloat (ce_reliability_score c)), (''api_version'', opt_str (ce_api_version c)),
     (''deprecated'', JBool (ce_deprecated c)), (''min_tier'', opt_str (ce_min_tier c))]"

definition make_tool ::
  "int \<Rightarrow> candidate_endpoint list \<Rightarrow> string \<Rightarrow> logical_node \<Rightarrow> string list \<Rightarrow> tool_node" where
  "make_tool def_lat cands nid n deps =
    \<lparr>n_id = nid, symbolic_ref = l_ref n, depends_on = deps, failure_policy = CONTINUE, minimum_success = 1,
     capability = l_op n, tool_name = l_op n,
     endpoint_url = (case cands of [] \<Rightarrow> [] | c # _ \<Rightarrow> ce_url c),
     http_method = (case cands of [] \<Rightarrow> ''GET'' | c # _ \<Rightarrow> ce_http_method c),
     inputs = unwrap_input_wrapper (l_inputs n),
     cost_estimate = (case cands of [] \<Rightarrow> 0 | c # _ \<Rightarrow> ce_cost_per_call c),
     latency_estimate_ms = (case cands of [] \<Rightarrow> def_lat
        | c # _ \<Rightarrow> (case ce_latency_p99_ms c of None \<Rightarrow> def_lat | Some l \<Rightarrow> l)),
     execution_key = None, candidate_endpoints = map dump_candidate cands\<rparr>"

text \<open>The physical node of a logical node that is not a gate.\<close>

definition physical_of ::
  "(string \<Rightarrow> string) \<Rightarrow> int \<Rightarrow> (string \<times> string) list \<Rightarrow> candidate_endpoint list \<Rightarrow> logical_node \<Rightarrow> physical_node" where
  "physical_of digest def_lat r2i cands n =
    (let dep_ids = map (\<lambda>d. the (map_of r2i d)) (filter (\<lambda>d. dict_has r2i d) (l_depends_on n));
         pid = dict_get r2i (l_ref n) [] in
     if is_map_node n
     then MapNode \<lparr>n_id = pid, symbolic_ref = l_ref n @ ''_map'', depends_on = dep_ids,
       failure_policy = CONTINUE, minimum_success = 1, iterate_over = the (l_iterate_over n),
       body = make_tool def_lat cands (deterministic_id digest [''body'', l_op n, l_ref n]) n dep_ids\<rparr>
     else ToolNode (make_tool def_lat cands pid n dep_ids))"

text \<open>
  One logical node.  A gate becomes a \<open>ConditionalNode\<close> built without its required
  field \<open>source_ref\<close>, which the model's validation rejects.
\<close>

definition compile_node ::
  "(string \<Rightarrow> string) \<Rightarrow> (string \<Rightarrow> resolve_result) \<Rightarrow> int \<Rightarrow> (string \<times> string) list
     \<Rightarrow> (string \<times> physical_node) list \<Rightarrow> logical_node \<Rightarrow> compiler_error + (string \<times> physical_node) list" where
  "compile_node digest resolver def_lat r2i nodes n =
    (if is_gate n then Inl (ValidationError ''source_ref'')
     else (case resolver (l_op n) of
         ResolveFails e \<Rightarrow> Inl (ResolverRaised e)
       | CapabilityError _ \<Rightarrow> Inr (AList.update (dict_get r2i (l_ref n) []) (physical_of digest def_lat r2i [] n) nodes)
       | Resolved cs \<Rightarrow> Inr (AList.update (dict_get r2i (l_ref n) []) (physical_of digest def_lat r2i cs n) nodes)))"

text \<open>Step 4b: branch targets depend on their gate.\<close>

fun gate_edges :: "string \<times> physical_node \<Rightarrow> (string \<times> string) list" where
  "gate_edges (nid, ConditionalNode c) = map (Pair (n_id c)) (branch_true c @ branch_false c)"
| "gate_edges _ = []"

definition gate_step :: "(string \<times> physical_node) list \<Rightarrow> string \<times> string \<Rightarrow> (string \<times> physical_node) list" where
  "gate_step nodes e = (case map_of nodes (snd e) of None \<Rightarrow> nodes
     | Some n \<Rightarrow> if fst e \<in> set (node_deps n) then nodes
         else AList.update (snd e) (set_deps (node_deps n @ [fst e]) n) nodes)"

definition wire_gates :: "(string \<times> physical_node) list \<Rightarrow> (string \<times> physical_node) list" where
  "wire_gates nodes = foldl gate_step nodes (concat (map gate_edges nodes))"

definition compile ::
  "(string \<Rightarrow> string) \<Rightarrow> (string list \<Rightarrow> string list) \<Rightarrow> (string \<Rightarrow> resolve_result)
     \<Rightarrow> int \<Rightarrow> global_context \<Rightarrow> logical_workflow \<Rightarrow> compiler_error + exec_graph" where
  "compile digest ord resolver def_lat gc flow0 =
    (if w_nodes flow0 = [] then Inr \<lparr>g_version = ''1.0'', graph_id = deterministic_id digest [''empty_graph''],
        g_nodes = [], g_waves = []\<rparr>
     else case synthesize_resolve_producers resolver gc flow0 of Inl e \<Rightarrow> Inl e | Inr flow \<Rightarrow>
      (let r2i = ref_to_id digest (w_nodes flow) in
       case fold_err (compile_node digest resolver def_lat r2i) [] (w_nodes flow) of Inl e \<Rightarrow> Inl e | Inr nodes0 \<Rightarrow>
        (let nodes = wire_gates (wire_implicit_dependencies ord r2i nodes0) in
         case build_waves nodes of Inl e \<Rightarrow> Inl e | Inr waves \<Rightarrow>
          Inr \<lparr>g_version = ''1.0'',
            graph_id = deterministic_id digest [''graph'', if w_version flow = [] then ''1.0'' else w_version flow,
              list_repr (sort (map fst r2i))],
            g_nodes = nodes, g_waves = waves\<rparr>)))"


section \<open>Synthesis: no chain expression of a planned node survives\<close>

lemma strip_no_space: "s \<noteq> [] \<Longrightarrow> \<not> is_space (hd s) \<Longrightarrow> \<not> is_space (last s) \<Longrightarrow> py_strip s = s"
proof -
  assume "s \<noteq> []" "\<not> is_space (hd s)" "\<not> is_space (last s)"
  then have "dropWhile is_space s = s" "dropWhile is_space (rev s) = rev s"
    by (cases s, simp_all) (cases s rule: rev_cases, simp_all)
  then show ?thesis by (simp add: py_strip_def)
qed

lemma placeholder_not_chain: "\<not> is_chain_expression (placeholder_text r f)"
proof -
  have e: "placeholder_text r f = CHR ''$'' # CHR ''{'' # r @ ''.result.'' @ f @ ''}''"
    by (simp add: placeholder_text_def)
  have "last (placeholder_text r f) = CHR ''}''" "hd (placeholder_text r f) = CHR ''$''"
    "placeholder_text r f \<noteq> []"
    unfolding e by simp_all
  then have "py_strip (placeholder_text r f) = placeholder_text r f"
    by (intro strip_no_space) (auto simp: is_space_def)
  then show ?thesis by (simp add: is_chain_expression_def Let_def e starts_with_def)
qed

definition chain_free :: "json dict \<Rightarrow> bool" where
  "chain_free ins = list_all (\<lambda>(k, v). case v of JStr s \<Rightarrow> \<not> is_chain_expression s | _ \<Rightarrow> True) ins"

text \<open>The value stored under a key of \<open>new_inputs\<close> is no chain expression.\<close>

definition chain_free_at :: "json dict \<Rightarrow> string \<Rightarrow> bool" where
  "chain_free_at ins k = (case map_of ins k of Some (JStr s) \<Rightarrow> \<not> is_chain_expression s | _ \<Rightarrow> True)"

lemma chain_free_iff:
  "distinct (map fst ins) \<Longrightarrow> chain_free ins \<longleftrightarrow> (\<forall>k \<in> fst ` set ins. chain_free_at ins k)"
  by (auto simp: chain_free_def chain_free_at_def list_all_iff split: json.splits)

lemma synth_input_new:
  assumes "synth_input resolver gc existing node (st, ins, ch) (k, v) = Inr (st', ins', ch')"
  shows "(ins' = ins \<and> ch' = ch \<and> st' = st \<and> (case v of JStr s \<Rightarrow> \<not> is_chain_expression s | _ \<Rightarrow> True))
    \<or> (\<exists>r f. ins' = AList.update k (JStr (placeholder_text r f)) ins \<and> ch' \<and> synthesized st' \<noteq> [])"
proof (cases v)
  case (JStr s)
  show ?thesis
  proof (cases "is_chain_expression s")
    case True
    from assms JStr True show ?thesis
      by (auto simp: synth_input_def Let_def split: option.splits prod.splits resolve_result.splits list.splits)
  qed (use assms JStr in \<open>auto simp: synth_input_def\<close>)
qed (use assms in \<open>auto simp: synth_input_def\<close>)

lemma synth_input_state:
  assumes "synth_input resolver gc existing node (st, ins, ch) kv = Inr (st', ins', ch')"
  shows "rewritten st' = rewritten st \<and> (\<exists>ps. synthesized st' = synthesized st @ ps)"
  using assms by (cases kv)
    (auto simp: synth_input_def Let_def split: json.splits if_splits option.splits resolve_result.splits list.splits)

text \<open>
  After the loop over a node's inputs: unless something changed the inputs are untouched and
  chain free; in any case the new inputs are.
\<close>

lemma synth_inputs_loop:
  assumes "fold_err (synth_input resolver gc existing node) (st, ins, ch) kvs = Inr (st', ins', ch')"
    and "distinct (map fst kvs)" and "\<forall>(k, v) \<in> set kvs. map_of ins k = Some v"
  shows "(\<forall>k. k \<in> fst ` set kvs \<or> chain_free_at ins k \<longrightarrow> chain_free_at ins' k)
    \<and> (distinct (map fst ins) \<longrightarrow> distinct (map fst ins')) \<and> (fst ` set ins' = fst ` set ins)
    \<and> (\<not> ch' \<longrightarrow> \<not> ch \<and> ins' = ins) \<and> rewritten st' = rewritten st
    \<and> (synthesized st \<noteq> [] \<longrightarrow> synthesized st' \<noteq> []) \<and> (ch' \<longrightarrow> ch \<or> synthesized st' \<noteq> [])"
  using assms
proof (induction kvs arbitrary: st ins ch)
  case (Cons kv kvs)
  obtain k v where kv: "kv = (k, v)" by (cases kv)
  from Cons.prems(1) obtain st1 ins1 ch1 where
    1: "synth_input resolver gc existing node (st, ins, ch) (k, v) = Inr (st1, ins1, ch1)" and
    2: "fold_err (synth_input resolver gc existing node) (st1, ins1, ch1) kvs = Inr (st', ins', ch')"
    by (auto simp: kv split: sum.splits)
  have mk: "map_of ins k = Some v" using Cons.prems(3) by (simp add: kv)
  have other: "\<forall>(k', v') \<in> set kvs. map_of ins1 k' = Some v'"
    using synth_input_new [OF 1] Cons.prems(2,3) by (auto simp: kv map_of_update rev_image_eqI)
  have d: "distinct (map fst kvs)" using Cons.prems(2) by simp
  note IH = Cons.IH [OF 2 d other]
  have k1: "chain_free_at ins1 k"
    using synth_input_new [OF 1] mk placeholder_not_chain
    by (auto simp: chain_free_at_def map_of_update split: json.splits)
  have keep: "chain_free_at ins k' \<Longrightarrow> chain_free_at ins1 k'" for k'
    using synth_input_new [OF 1] k1 by (auto simp: chain_free_at_def map_of_update split: if_splits)
  have keys: "fst ` set ins1 = fst ` set ins"
  proof -
    have "k \<in> fst ` set ins" using mk by (force dest: map_of_SomeD)
    then have "fst ` set (AList.update k x ins) = fst ` set ins" for x
      by (simp only: keys_update insert_absorb)
    with synth_input_new [OF 1] show ?thesis by metis
  qed
  have "distinct (map fst ins) \<longrightarrow> distinct (map fst ins1)"
    using synth_input_new [OF 1] by (auto simp: distinct_update)
  moreover have "\<not> ch1 \<longrightarrow> \<not> ch \<and> ins1 = ins" "ch1 \<longrightarrow> ch \<or> synthesized st1 \<noteq> []"
    using synth_input_new [OF 1] by auto
  ultimately show ?case
    using IH k1 keep keys synth_input_state [OF 1] by (auto simp: kv)
qed auto

lemma synth_node_step:
  assumes "synth_node resolver gc existing st node = Inr st'" and "distinct (map fst (l_inputs node))"
  shows "(rewritten st' = rewritten st \<and> chain_free (l_inputs node))
     \<or> (\<exists>ins. rewritten st' = AList.update (l_ref node) ins (rewritten st) \<and> chain_free ins \<and> synthesized st' \<noteq> [])"
proof (cases "l_inputs node = []")
  case True
  with assms show ?thesis by (simp add: synth_node_def chain_free_def)
next
  case False
  with assms(1) obtain st1 ins ch where
    f: "fold_err (synth_input resolver gc existing node) (st, l_inputs node, False) (l_inputs node) = Inr (st1, ins, ch)"
    and st': "st' = (if ch then st1\<lparr>rewritten := AList.update (l_ref node) ins (rewritten st1)\<rparr> else st1)"
    by (auto simp: synth_node_def split: sum.splits)
  have "\<forall>(k, v) \<in> set (l_inputs node). map_of (l_inputs node) k = Some v"
    using assms(2) by auto
  from synth_inputs_loop [OF f assms(2) this]
  have r: "rewritten st1 = rewritten st" "\<not> ch \<longrightarrow> ins = l_inputs node"
    "distinct (map fst ins)" "\<forall>k \<in> fst ` set ins. chain_free_at ins k" "ch \<longrightarrow> synthesized st1 \<noteq> []"
    using assms(2) by auto
  then have "chain_free ins" by (simp add: chain_free_iff)
  with r st' show ?thesis by (cases ch) auto
qed

text \<open>The loop over the nodes.\<close>

lemma synth_nodes_loop:
  assumes f: "fold_err (synth_node resolver gc existing) st nodes = Inr st'"
    and d: "\<forall>n \<in> set nodes. distinct (map fst (l_inputs n))" and r: "rewritten st = []"
    and n: "n \<in> set nodes"
  shows "chain_free (l_inputs (rebuild_node st' n))"
proof -
  have "\<forall>k ins. map_of (rewritten st') k = Some ins \<longrightarrow> chain_free ins"
  proof (rule fold_err_invariant [OF f])
    fix s x t
    assume s: "\<forall>k ins. map_of (rewritten s) k = Some ins \<longrightarrow> chain_free ins" and "x \<in> set nodes"
      and x: "synth_node resolver gc existing s x = Inr t"
    then have "distinct (map fst (l_inputs x))" using d by simp
    from synth_node_step [OF x this] s
    show "\<forall>k ins. map_of (rewritten t) k = Some ins \<longrightarrow> chain_free ins"
      by (auto simp: map_of_update split: if_splits)
  qed (simp add: r)
  moreover have "\<forall>n \<in> set nodes. map_of (rewritten st') (l_ref n) = None \<longrightarrow> chain_free (l_inputs n)"
  proof (rule fold_err_each [OF f])
    fix x s t
    assume x: "x \<in> set nodes" "synth_node resolver gc existing s x = Inr t"
    then have dx: "distinct (map fst (l_inputs x))" using d by simp
    show "map_of (rewritten t) (l_ref x) = None \<longrightarrow> chain_free (l_inputs x)"
      using synth_node_step [OF x(2) dx] by (auto simp: map_of_update)
    show "map_of (rewritten t) (l_ref y) = None \<longrightarrow> chain_free (l_inputs y)"
      if "map_of (rewritten s) (l_ref y) = None \<longrightarrow> chain_free (l_inputs y)" for y
      using synth_node_step [OF x(2) dx] that by (auto simp: map_of_update split: if_splits)
  qed
  ultimately show ?thesis
    using n by (cases "map_of (rewritten st') (l_ref n)") (auto simp: rebuild_node_def)
qed


lemma synthesized_grows:
  assumes "synth_node resolver gc existing st node = Inr st'" and "synthesized st \<noteq> []"
  shows "synthesized st' \<noteq> []"
proof -
  have "synthesized (fst acc') \<noteq> []"
    if "synthesized (fst acc) \<noteq> []" "fold_err (synth_input resolver gc existing node) acc kvs = Inr acc'"
    for acc acc' kvs
  proof (rule fold_err_invariant [where P = "\<lambda>acc. synthesized (fst acc) \<noteq> []", OF that(2,1)])
    fix s x t
    assume "synthesized (fst s) \<noteq> []" "synth_input resolver gc existing node s x = Inr t"
    then show "synthesized (fst t) \<noteq> []"
      using synth_input_state [of resolver gc existing node "fst s" "fst (snd s)" "snd (snd s)" x
          "fst t" "fst (snd t)" "snd (snd t)"] by auto
  qed
  with assms show ?thesis by (fastforce simp: synth_node_def split: if_splits sum.splits)
qed

lemma rewritten_needs_synthesis:
  assumes f: "fold_err (synth_node resolver gc existing) st nodes = Inr st'" and r: "rewritten st = []"
    and d: "\<forall>n \<in> set nodes. distinct (map fst (l_inputs n))"
  shows "rewritten st' = [] \<or> synthesized st' \<noteq> []"
proof (rule fold_err_invariant [OF f])
  fix s x t
  assume "x \<in> set nodes" "rewritten s = [] \<or> synthesized s \<noteq> []" "synth_node resolver gc existing s x = Inr t"
  with d synth_node_step [of resolver gc existing s x t] synthesized_grows [of resolver gc existing s x t]
  show "rewritten t = [] \<or> synthesized t \<noteq> []" by auto
qed (simp add: r)

lemma rebuild_node_frame [simp]:
  "l_ref (rebuild_node st n) = l_ref n" "l_op (rebuild_node st n) = l_op n" "is_gate (rebuild_node st n) = is_gate n"
  "l_iterate_over (rebuild_node st n) = l_iterate_over n"
  by (simp_all add: rebuild_node_def is_gate_def split: option.split)

lemma synthesize_shape:
  assumes "synthesize_resolve_producers resolver gc flow = Inr flow'"
  shows "\<exists>st. fold_err (synth_node resolver gc (map l_ref (w_nodes flow)))
        \<lparr>synthesized = [], rewritten = [], extra_deps = []\<rparr> (w_nodes flow) = Inr st
     \<and> (flow' = flow \<and> synthesized st = []
        \<or> w_nodes flow' = map (rebuild_node st) (w_nodes flow) @ synthesized st)"
  using assms by (auto simp: synthesize_resolve_producers_def split: sum.splits if_splits)

section \<open>Properties of producer synthesis\<close>

text \<open>
  Fail closed on chain expressions: when synthesis succeeds, no input of a node the
  planner emitted is still a \<open>RESOLVE(...)\<close> or double-brace expression; each was
  replaced by a placeholder, or synthesis raised.  Nodes keep their position and name.
\<close>

theorem chain_expressions_compiled_away:
  assumes "synthesize_resolve_producers resolver gc flow = Inr flow'"
    and "\<forall>n \<in> set (w_nodes flow). distinct (map fst (l_inputs n))"
  shows "\<exists>ns. w_nodes flow' = ns @ drop (length (w_nodes flow)) (w_nodes flow')
     \<and> map l_ref ns = map l_ref (w_nodes flow)
     \<and> (\<forall>n \<in> set ns. \<forall>(k, v) \<in> set (l_inputs n). case v of JStr s \<Rightarrow> \<not> is_chain_expression s | _ \<Rightarrow> True)"
proof -
  obtain st where f: "fold_err (synth_node resolver gc (map l_ref (w_nodes flow)))
        \<lparr>synthesized = [], rewritten = [], extra_deps = []\<rparr> (w_nodes flow) = Inr st"
    and cases: "flow' = flow \<and> synthesized st = [] \<or> w_nodes flow' = map (rebuild_node st) (w_nodes flow) @ synthesized st"
    using synthesize_shape [OF assms(1)] by blast
  have free: "chain_free (l_inputs (rebuild_node st n))" if "n \<in> set (w_nodes flow)" for n
    using synth_nodes_loop [OF f assms(2) _ that] by simp
  have "rewritten st = []" if "synthesized st = []"
    using rewritten_needs_synthesis [OF f _ assms(2)] that by simp
  moreover have "rewritten st = [] \<Longrightarrow> rebuild_node st n = n" for n by (simp add: rebuild_node_def)
  ultimately have "w_nodes flow' = map (rebuild_node st) (w_nodes flow) @ synthesized st"
    using cases by (auto simp: map_idI)
  with free show ?thesis
    by (intro exI [of _ "map (rebuild_node st) (w_nodes flow)"])
      (auto simp: chain_free_def list_all_iff case_prod_unfold)
qed

definition example_logical :: "string \<Rightarrow> string \<Rightarrow> json dict \<Rightarrow> string list \<Rightarrow> logical_node" where
  "example_logical op r ins deps = \<lparr>l_op = op, l_ref = r, l_inputs = ins, l_depends_on = deps, l_condition = None,
     l_branch_true = [], l_branch_false = [], l_iterate_over = None, l_domain = None, l_action = None\<rparr>"

definition example_flow :: "logical_node list \<Rightarrow> logical_workflow" where
  "example_flow ns = \<lparr>w_version = ''1.0'', w_nodes = ns, w_collections = []\<rparr>"

text \<open>\<open>RESOLVE("geo", "q", v)\<close>\<close>

definition resolve_text :: "string \<Rightarrow> string \<Rightarrow> string \<Rightarrow> string" where
  "resolve_text op key v = ''RESOLVE('' @ [CHR 0x22] @ op @ [CHR 0x22] @ '', '' @ [CHR 0x22] @ key @ [CHR 0x22]
     @ '', '' @ [CHR 0x22] @ v @ [CHR 0x22] @ '')''"

definition geo_gc :: global_context where
  "geo_gc = \<lparr>capability_index = [(''geo'', \<lparr>meta_contract = None, meta_produces = [''lat''],
     meta_input_props = [''q''], meta_input_required = [''q'']\<rparr>)], capability_providers = []\<rparr>"

definition one_candidate :: "string \<Rightarrow> resolve_result" where
  "one_candidate op = Resolved [\<lparr>ce_endpoint_id = ''e'', ce_capability = op, ce_provider_name = ''p'', ce_url = ''u'',
     ce_http_method = ''GET'', ce_score = 1, ce_cost_per_call = 0, ce_latency_p99_ms = Some 10,
     ce_reliability_score = 1, ce_api_version = None, ce_deprecated = False, ce_min_tier = None\<rparr>]"

definition chain_flow :: "string \<Rightarrow> logical_workflow" where
  "chain_flow v = example_flow [example_logical ''wx'' ''w'' [(''lat'', JStr (resolve_text ''geo'' ''q'' v))] []]"

theorem chain_expressions_compiled_away_witness:
  "\<exists>flow' ns. synthesize_resolve_producers one_candidate geo_gc (chain_flow ''Oslo'') = Inr flow'
     \<and> length (w_nodes flow') = 2 \<and> map l_ref ns = [''w'']
     \<and> (\<forall>n \<in> set (ns :: logical_node list).
          \<forall>(k, v) \<in> set (l_inputs n). case v of JStr s \<Rightarrow> \<not> is_chain_expression s | _ \<Rightarrow> True)"
proof -
  let ?r = "synthesize_resolve_producers one_candidate geo_gc (chain_flow ''Oslo'')"
  have "(case ?r of Inl _ \<Rightarrow> False | Inr f \<Rightarrow> length (w_nodes f) = 2)" by code_simp
  then obtain flow' where f: "?r = Inr flow'" "length (w_nodes flow') = 2" by (auto split: sum.splits)
  have "\<forall>n \<in> set (w_nodes (chain_flow ''Oslo'')). distinct (map fst (l_inputs n))"
    by (simp add: chain_flow_def example_flow_def example_logical_def)
  from chain_expressions_compiled_away [OF f(1) this]
  obtain ns :: "logical_node list" where "map l_ref ns = map l_ref (w_nodes (chain_flow ''Oslo''))"
    "\<forall>n \<in> set ns. \<forall>(k, v) \<in> set (l_inputs n). case v of JStr s \<Rightarrow> \<not> is_chain_expression s | _ \<Rightarrow> True"
    by (elim exE conjE) (rule that)
  moreover have "map l_ref (w_nodes (chain_flow ''Oslo'')) = [''w'']"
    by (simp add: chain_flow_def example_flow_def example_logical_def)
  ultimately show ?thesis using f by metis
qed

text \<open>
  The guarantee stops at the planner's own nodes: the value a \<open>RESOLVE\<close> expression
  passes to its producer is not examined, so a double-brace reference in it becomes a literal
  input of the synthesized producer.
\<close>

theorem synthesized_producer_may_keep_chain:
  "\<exists>flow'. synthesize_resolve_producers one_candidate geo_gc (chain_flow ''{{city}}'') = Inr flow'
     \<and> (\<exists>n \<in> set (w_nodes flow'). (''q'', JStr ''{{city}}'') \<in> set (l_inputs n)) \<and> is_chain_expression ''{{city}}''"
proof -
  let ?r = "synthesize_resolve_producers one_candidate geo_gc (chain_flow ''{{city}}'')"
  have "(case ?r of Inl _ \<Rightarrow> False | Inr f \<Rightarrow> list_ex (\<lambda>n. (''q'', JStr ''{{city}}'') \<in> set (l_inputs n)) (w_nodes f))"
    by code_simp
  moreover have "is_chain_expression ''{{city}}''" by code_simp
  ultimately show ?thesis by (auto simp: list_ex_iff split: sum.splits)
qed


section \<open>Compilation: the nodes\<close>

lemma map_of_foldl_ref_step:
  "map_of (foldl (ref_step digest) r2i ns) r = Some i \<Longrightarrow>
     map_of r2i r = Some i \<or> (\<exists>n \<in> set ns. l_ref n = r)"
  by (induction ns arbitrary: r2i) (force simp: ref_step_def map_of_update split: if_splits)+

lemma ref_to_id_keys: "fst ` set (ref_to_id digest ns) = l_ref ` set ns"
proof -
  have "fst ` set (foldl (ref_step digest) r2i ns) = fst ` set r2i \<union> l_ref ` set ns" for r2i
    by (induction ns arbitrary: r2i) (auto simp: ref_step_def keys_update)
  then show ?thesis by (simp add: ref_to_id_def)
qed

lemma ref_to_id_of_node:
  "map_of (ref_to_id digest ns) r = Some i \<Longrightarrow> \<exists>n \<in> set ns. l_ref n = r \<and> dict_get (ref_to_id digest ns) (l_ref n) [] = i"
  using map_of_foldl_ref_step [of digest "[]" ns r i] by (auto simp: ref_to_id_def dict_get_def)

definition pid_of :: "(string \<times> string) list \<Rightarrow> logical_node \<Rightarrow> string" where
  "pid_of r2i n = dict_get r2i (l_ref n) []"

fun is_conditional :: "physical_node \<Rightarrow> bool" where
  "is_conditional (ConditionalNode _) = True"
| "is_conditional _ = False"

lemma physical_of_frame:
  "node_id (physical_of digest def_lat r2i cands n) = pid_of r2i n"
  "is_conditional (physical_of digest def_lat r2i cands n) = False"
  "node_deps (physical_of digest def_lat r2i cands n)
     = map (\<lambda>d. the (map_of r2i d)) (filter (dict_has r2i) (l_depends_on n))"
  by (simp_all add: physical_of_def Let_def pid_of_def make_tool_def)

lemma mem_dep_ids:
  "d \<in> set (map (\<lambda>d. the (map_of r2i d)) (filter (dict_has r2i) ds)) \<longleftrightarrow> (\<exists>r \<in> set ds. map_of r2i r = Some d)"
  by (force simp: dict_has_def)

lemma compile_node_Inr:
  assumes "compile_node digest resolver def_lat r2i nodes n = Inr nodes'"
  shows "\<not> is_gate n \<and> (\<exists>cands. nodes' = AList.update (pid_of r2i n) (physical_of digest def_lat r2i cands n) nodes)"
  using assms by (auto simp: compile_node_def pid_of_def split: if_splits resolve_result.splits)

definition nodes_ok :: "(string \<times> string) list \<Rightarrow> (string \<times> physical_node) list \<Rightarrow> bool" where
  "nodes_ok r2i nodes \<longleftrightarrow> distinct (map fst nodes)
     \<and> (\<forall>(k, p) \<in> set nodes. node_id p = k \<and> \<not> is_conditional p \<and> set (node_deps p) \<subseteq> ran (map_of r2i))"

lemma nodes_ok_update:
  assumes "nodes_ok r2i nodes" and "node_id p = k" "\<not> is_conditional p" "set (node_deps p) \<subseteq> ran (map_of r2i)"
  shows "nodes_ok r2i (AList.update k p nodes)"
proof -
  have "set (AList.update k p nodes) \<subseteq> insert (k, p) (set nodes)"
    by (induction nodes) auto
  then have "\<forall>(k, p) \<in> set (AList.update k p nodes).
      node_id p = k \<and> \<not> is_conditional p \<and> set (node_deps p) \<subseteq> ran (map_of r2i)"
    using assms unfolding nodes_ok_def by blast
  with assms(1) show ?thesis unfolding nodes_ok_def by (simp add: distinct_update)
qed

lemma compile_nodes_ok:
  assumes f: "fold_err (compile_node digest resolver def_lat r2i) [] ns = Inr nodes"
  shows "nodes_ok r2i nodes \<and> (\<forall>n \<in> set ns. \<not> is_gate n \<and> pid_of r2i n \<in> fst ` set nodes)"
proof
  show "nodes_ok r2i nodes"
  proof (rule fold_err_invariant [OF f])
    fix s n t
    assume s: "nodes_ok r2i s" and "compile_node digest resolver def_lat r2i s n = Inr t"
    from compile_node_Inr [OF this(2)] obtain cands where
      t: "t = AList.update (pid_of r2i n) (physical_of digest def_lat r2i cands n) s" by blast
    have "set (node_deps (physical_of digest def_lat r2i cands n)) \<subseteq> ran (map_of r2i)"
      unfolding physical_of_frame(3) by (rule subsetI) (simp only: mem_dep_ids ran_def, blast)
    with s show "nodes_ok r2i t" unfolding t by (intro nodes_ok_update) (simp_all add: physical_of_frame)
  qed (simp add: nodes_ok_def)
  show "\<forall>n \<in> set ns. \<not> is_gate n \<and> pid_of r2i n \<in> fst ` set nodes"
  proof (rule fold_err_each [OF f])
    fix n s t
    assume "compile_node digest resolver def_lat r2i s n = Inr t"
    from compile_node_Inr [OF this]
    have t: "\<not> is_gate n" "fst ` set t = insert (pid_of r2i n) (fst ` set s)"
      by (blast, metis keys_update)
    then show "\<not> is_gate n \<and> pid_of r2i n \<in> fst ` set t" by simp
    show "\<not> is_gate y \<and> pid_of r2i y \<in> fst ` set t" if "\<not> is_gate y \<and> pid_of r2i y \<in> fst ` set s" for y
      using that unfolding t(2) by simp
  qed
qed

section \<open>Compilation: wiring\<close>

lemma set_add_deps:
  "set (foldl (add_dep r2i) deps rs) = set deps \<union> {i. \<exists>r \<in> set rs. map_of r2i r = Some i}"
  by (induction rs arbitrary: deps) (auto simp: add_dep_def split: option.split)

lemma set_wire_deps:
  assumes "set (ord (remdups (scan_placeholders (JDict ins)))) = set (scan_placeholders (JDict ins))"
  shows "set (wire_deps ord r2i ins deps)
    = set deps \<union> {i. \<exists>r \<in> set (scan_placeholders (JDict ins)). map_of r2i r = Some i}"
  using assms by (simp add: wire_deps_def set_add_deps)

lemma wire_node_frame [simp]:
  "node_id (wire_node ord r2i p) = node_id p" "is_conditional (wire_node ord r2i p) = is_conditional p"
  by (cases p, simp_all) (cases p, simp_all)

lemma wire_node_deps:
  "set (node_deps p) \<subseteq> set (node_deps (wire_node ord r2i p))
   \<and> set (node_deps (wire_node ord r2i p)) \<subseteq> set (node_deps p) \<union> ran (map_of r2i)"
  by (cases p) (auto simp: wire_deps_def set_add_deps add_dep_def ran_def split: option.split)

lemma keys_wire: "map fst (wire_implicit_dependencies ord r2i nodes) = map fst nodes"
  by (simp only: wire_implicit_dependencies_def map_fst_map_snd)

lemma nodes_ok_wire: "nodes_ok r2i nodes \<Longrightarrow> nodes_ok r2i (wire_implicit_dependencies ord r2i nodes)"
proof -
  assume ok: "nodes_ok r2i nodes"
  have "set (node_deps (wire_node ord r2i p)) \<subseteq> ran (map_of r2i)" if "(k, p) \<in> set nodes" for k p
    using wire_node_deps [of p ord r2i] ok that unfolding nodes_ok_def by blast
  then have "\<forall>(k, p) \<in> set (wire_implicit_dependencies ord r2i nodes).
      node_id p = k \<and> \<not> is_conditional p \<and> set (node_deps p) \<subseteq> ran (map_of r2i)"
    using ok by (auto simp: nodes_ok_def wire_implicit_dependencies_def)
  with ok show ?thesis by (simp add: nodes_ok_def keys_wire)
qed

lemma wire_gates_id:
  assumes "\<forall>(k, p) \<in> set nodes. \<not> is_conditional p"
  shows "wire_gates nodes = nodes"
proof -
  have "gate_edges kp = []" if "kp \<in> set nodes" for kp
    using assms that by (cases kp rule: gate_edges.cases) auto
  then have e: "concat (map gate_edges nodes) = []" by auto
  show ?thesis unfolding wire_gates_def e by simp
qed

text \<open>The shape of a successful compilation.\<close>

lemma compile_Inr:
  assumes "compile digest ord resolver def_lat gc flow = Inr g" and "w_nodes flow \<noteq> []"
  shows "\<exists>flow' nodes0. synthesize_resolve_producers resolver gc flow = Inr flow'
     \<and> fold_err (compile_node digest resolver def_lat (ref_to_id digest (w_nodes flow'))) [] (w_nodes flow') = Inr nodes0
     \<and> g_nodes g = wire_implicit_dependencies ord (ref_to_id digest (w_nodes flow')) nodes0
     \<and> nodes_ok (ref_to_id digest (w_nodes flow')) nodes0
     \<and> nodes_ok (ref_to_id digest (w_nodes flow')) (g_nodes g)
     \<and> build_waves (g_nodes g) = Inr (g_waves g)"
proof -
  from assms obtain flow' nodes0 where
    s: "synthesize_resolve_producers resolver gc flow = Inr flow'" and
    f: "fold_err (compile_node digest resolver def_lat (ref_to_id digest (w_nodes flow'))) [] (w_nodes flow') = Inr nodes0"
    and b: "build_waves (wire_gates (wire_implicit_dependencies ord (ref_to_id digest (w_nodes flow')) nodes0)) = Inr (g_waves g)"
    and g: "g_nodes g = wire_gates (wire_implicit_dependencies ord (ref_to_id digest (w_nodes flow')) nodes0)"
    by (auto simp: compile_def Let_def split: sum.splits)
  let ?r = "ref_to_id digest (w_nodes flow')"
  have ok: "nodes_ok ?r nodes0" using compile_nodes_ok [OF f] by blast
  then have ok': "nodes_ok ?r (wire_implicit_dependencies ord ?r nodes0)" by (rule nodes_ok_wire)
  then have "wire_gates (wire_implicit_dependencies ord ?r nodes0) = wire_implicit_dependencies ord ?r nodes0"
    by (intro wire_gates_id) (auto simp: nodes_ok_def)
  with s f b g ok ok' show ?thesis by auto
qed

lemma compile_closed:
  assumes "nodes_ok (ref_to_id digest ns) nodes" and "\<forall>n \<in> set ns. pid_of (ref_to_id digest ns) n \<in> fst ` set nodes"
  shows "closed_table (deps_table nodes)"
proof (rule closed_tableI)
  show d: "distinct (map fst (deps_table nodes))" using assms(1) by (simp add: nodes_ok_def)
  fix k e
  assume "e \<in> set (deps_in (deps_table nodes) k)"
  then obtain p where "map_of nodes k = Some p" "e \<in> set (node_deps p)"
    by (cases "map_of nodes k") (auto simp: deps_in_table)
  then have "e \<in> ran (map_of (ref_to_id digest ns))"
    using assms(1) by (fastforce simp: nodes_ok_def dest: map_of_SomeD)
  then obtain r where "map_of (ref_to_id digest ns) r = Some e" by (auto simp: ran_def)
  from ref_to_id_of_node [OF this] assms(2) show "e \<in> fst ` set (deps_table nodes)"
    by (auto simp: pid_of_def)
qed


section \<open>Properties of compilation\<close>

text \<open>
  C1: Whatever the planner emits, a compilation that succeeds returns an executable graph:
  unique ids equal to their keys, no dangling dependency, and a schedule in which every node
  occurs exactly once, after everything it depends on.
\<close>

theorem compile_yields_executable_graph:
  assumes "compile digest ord resolver def_lat gc flow = Inr g"
  shows "wf_graph g \<and> closed_graph g \<and> sound_waves g \<and> complete_waves g"
proof (cases "w_nodes flow = []")
  case True
  with assms show ?thesis
    by (auto simp: compile_def wf_graph_def closed_graph_def sound_waves_def complete_waves_def
        deps_table_def closed_table_def)
next
  case False
  from compile_Inr [OF assms False] obtain flow' :: logical_workflow and nodes0 where
    f: "fold_err (compile_node digest resolver def_lat (ref_to_id digest (w_nodes flow'))) [] (w_nodes flow') = Inr nodes0"
    and g: "g_nodes g = wire_implicit_dependencies ord (ref_to_id digest (w_nodes flow')) nodes0"
    and ok: "nodes_ok (ref_to_id digest (w_nodes flow')) (g_nodes g)"
    and b: "build_waves (g_nodes g) = Inr (g_waves g)" by blast
  have d: "distinct (map fst (g_nodes g))" using ok by (simp add: nodes_ok_def)
  have "fst ` set (g_nodes g) = fst ` set nodes0"
    unfolding g using keys_wire by (metis list.set_map)
  then have c: "closed_table (deps_table (g_nodes g))"
    using compile_closed [OF ok] compile_nodes_ok [OF f] by simp
  have "list_all (\<lambda>(k, n). node_id n = k) (g_nodes g)"
    using ok by (auto simp: nodes_ok_def list_all_iff)
  moreover have "distinct (concat (g_waves g))" "set (concat (g_waves g)) = fst ` set (g_nodes g)"
    "waves_ok (deps_in (deps_table (g_nodes g))) [] (g_waves g)"
    using build_waves_Inr [OF d, of "g_waves g"] b kahn_layers.layer_distinct [of "deps_table (g_nodes g)"]
      kahn_layers.layer_keys [of "deps_table (g_nodes g)"] kahn_layers.layer_ok [of "deps_table (g_nodes g)"]
      kahn_layers.complete_iff_length [of "deps_table (g_nodes g)"] d by auto
  ultimately show ?thesis
    using d c by (simp add: wf_graph_def closed_graph_def sound_waves_def complete_waves_def)
qed

definition weather_flow :: logical_workflow where
  "weather_flow = example_flow
     [example_logical ''wx'' ''w'' [(''lat'', JStr ''${g.result.lat}'')] [],
      example_logical ''geo'' ''g'' [(''q'', JStr ''Oslo'')] []]"

definition compile_example :: "logical_workflow \<Rightarrow> compiler_error + exec_graph" where
  "compile_example flow = compile id id one_candidate 1000 geo_gc flow"

theorem compile_yields_executable_graph_witness:
  "\<exists>g. compile_example weather_flow = Inr g \<and> length (g_nodes g) = 2 \<and> sound_waves g \<and> complete_waves g"
proof -
  have "(case compile_example weather_flow of Inl _ \<Rightarrow> False | Inr g \<Rightarrow> length (g_nodes g) = 2)" by code_simp
  then obtain g where g: "compile_example weather_flow = Inr g" "length (g_nodes g) = 2"
    by (auto split: sum.splits)
  with compile_yields_executable_graph [OF g(1) [unfolded compile_example_def]] show ?thesis by blast
qed

text \<open>
  C12: A forgotten \<open>depends_on\<close> is repaired: when an input of a tool call mentions
  \<open>${ref.result...}\<close> for a node of the workflow, that node runs in a strictly earlier
  wave, whether or not the planner declared the dependency.
\<close>

theorem compile_orders_placeholders:
  assumes "compile digest ord resolver def_lat gc flow = Inr g" and "\<forall>xs. set (ord xs) = set xs"
    and "w_nodes flow \<noteq> []" and "synthesize_resolve_producers resolver gc flow = Inr flow'"
    and "(k, ToolNode t) \<in> set (g_nodes g)"
    and "r \<in> set (scan_placeholders (JDict (inputs t)))"
    and "map_of (ref_to_id digest (w_nodes flow')) r = Some i"
  shows "\<exists>a b. a < b \<and> b < length (g_waves g) \<and> i \<in> set (g_waves g ! a) \<and> k \<in> set (g_waves g ! b)"
proof -
  let ?r = "ref_to_id digest (w_nodes flow')"
  from compile_Inr [OF assms(1,3)] assms(4) obtain nodes0 where
    g: "g_nodes g = wire_implicit_dependencies ord ?r nodes0" and ok: "nodes_ok ?r (g_nodes g)" by auto
  from assms(5) [unfolded g] obtain p0 where p0: "(k, p0) \<in> set nodes0" "ToolNode t = wire_node ord ?r p0"
    by (auto simp: wire_implicit_dependencies_def)
  then obtain t0 where t: "t = t0\<lparr>depends_on := wire_deps ord ?r (inputs t0) (depends_on t0)\<rparr>"
    by (cases p0) auto
  have "i \<in> set (depends_on t)"
    using assms(2,6,7) by (auto simp: t set_wire_deps)
  then have dep: "i \<in> set (deps_in (deps_table (g_nodes g)) k)"
    using assms(5) ok by (simp add: deps_in_table nodes_ok_def)
  have G: "sound_waves g" "complete_waves g" using compile_yields_executable_graph [OF assms(1)] by simp_all
  have "k \<in> set (concat (g_waves g))"
    using G(2) assms(5) by (force simp: complete_waves_def)
  then obtain w where "w \<in> set (g_waves g)" "k \<in> set w" by auto
  then obtain b where b: "b < length (g_waves g)" "k \<in> set (g_waves g ! b)" by (metis in_set_conv_nth)
  from waves_ok_index [OF G(1) [unfolded sound_waves_def] b dep] b show ?thesis by blast
qed


theorem compile_orders_placeholders_witness:
  "\<exists>g. compile_example weather_flow = Inr g \<and> (\<exists>a b. a < b \<and> b < length (g_waves g)
     \<and> ''node::geo::g'' \<in> set (g_waves g ! a) \<and> ''node::wx::w'' \<in> set (g_waves g ! b))"
proof -
  let ?k = "''node::wx::w''"
  have "(case compile_example weather_flow of Inl _ \<Rightarrow> False
      | Inr g \<Rightarrow> (case map_of (g_nodes g) ?k of Some (ToolNode t) \<Rightarrow> inputs t = [(''lat'', JStr ''${g.result.lat}'')] | _ \<Rightarrow> False))"
    by code_simp
  then obtain g t where g: "compile_example weather_flow = Inr g"
    and t: "(?k, ToolNode t) \<in> set (g_nodes g)" "inputs t = [(''lat'', JStr ''${g.result.lat}'')]"
    by (auto split: sum.splits option.splits physical_node.splits dest: map_of_SomeD)
  have s: "synthesize_resolve_producers one_candidate geo_gc weather_flow = Inr weather_flow" by code_simp
  have r: "map_of (ref_to_id id (w_nodes weather_flow)) ''g'' = Some ''node::geo::g''" by code_simp
  have m: "''g'' \<in> set (scan_placeholders (JDict (inputs t)))" unfolding t(2) by code_simp
  have "w_nodes weather_flow \<noteq> []" by (simp add: weather_flow_def example_flow_def)
  from compile_orders_placeholders [OF g [unfolded compile_example_def] _ this s t(1) m r] g
  show ?thesis by auto
qed

text \<open>
  The repair does not reach map nodes: a placeholder in the inputs of an iterated call is
  wired into the body only, so the map can be scheduled in the same wave as the producer of
  the value it needs.
\<close>

theorem map_placeholders_not_ordered:
  "\<exists>g m. compile_example (example_flow
        [(example_logical ''wx'' ''w'' [(''lat'', JStr ''${g.result.lat}'')] [])\<lparr>l_iterate_over := Some ''xs''\<rparr>,
         example_logical ''geo'' ''g'' [(''q'', JStr ''Oslo'')] []]) = Inr g
     \<and> (''map::wx::w'', MapNode m) \<in> set (g_nodes g) \<and> ''g'' \<in> set (scan_placeholders (JDict (inputs (body m))))
     \<and> depends_on m = [] \<and> depends_on (body m) = [''node::geo::g''] \<and> g_waves g = [[''map::wx::w'', ''node::geo::g'']]"
proof -
  let ?c = "compile_example (example_flow
        [(example_logical ''wx'' ''w'' [(''lat'', JStr ''${g.result.lat}'')] [])\<lparr>l_iterate_over := Some ''xs''\<rparr>,
         example_logical ''geo'' ''g'' [(''q'', JStr ''Oslo'')] []])"
  have "(case ?c of Inl _ \<Rightarrow> False | Inr g \<Rightarrow> g_waves g = [[''map::wx::w'', ''node::geo::g'']] \<and>
      (case map_of (g_nodes g) ''map::wx::w'' of
         Some (MapNode m) \<Rightarrow> ''g'' \<in> set (scan_placeholders (JDict (inputs (body m))))
            \<and> depends_on m = [] \<and> depends_on (body m) = [''node::geo::g'']
       | _ \<Rightarrow> False))"
    by code_simp
  then show ?thesis
    by (auto split: sum.splits option.splits physical_node.splits dest: map_of_SomeD)
qed

lemma gate_stops_compile:
  "n \<in> set ns \<Longrightarrow> is_gate n \<Longrightarrow> fold_err (compile_node digest resolver def_lat r2i) s ns \<noteq> Inr s'"
proof (induction ns arbitrary: s)
  case (Cons m ns)
  show ?case
  proof (cases "m = n")
    case True
    with Cons.prems show ?thesis by (simp add: compile_node_def)
  next
    case False
    with Cons show ?thesis by (auto split: sum.splits)
  qed
qed simp

text \<open>
  Conditional workflows never compile: as soon as one node carries a condition and a
  branch, compilation ends in an error, because the \<open>ConditionalNode\<close> is built without
  its required \<open>source_ref\<close>.  The gate wiring and the conditional execution behind it
  are unreachable from the compiler.
\<close>

theorem conditional_workflows_never_compile:
  assumes "n \<in> set (w_nodes flow)" and "is_gate n"
  shows "\<exists>e. compile digest ord resolver def_lat gc flow = Inl e"
proof (rule ccontr)
  assume "\<not> ?thesis"
  then obtain g where g: "compile digest ord resolver def_lat gc flow = Inr g"
    by (cases "compile digest ord resolver def_lat gc flow") auto
  have "w_nodes flow \<noteq> []" using assms(1) by auto
  from compile_Inr [OF g this] obtain flow' nodes0 where
    s: "synthesize_resolve_producers resolver gc flow = Inr flow'" and
    f: "fold_err (compile_node digest resolver def_lat (ref_to_id digest (w_nodes flow'))) [] (w_nodes flow') = Inr nodes0"
    by blast
  have "\<exists>m \<in> set (w_nodes flow'). is_gate m"
  proof -
    obtain st where "flow' = flow \<or> w_nodes flow' = map (rebuild_node st) (w_nodes flow) @ synthesized st"
      using synthesize_shape [OF s] by blast
    then have "n \<in> set (w_nodes flow') \<or> rebuild_node st n \<in> set (w_nodes flow')" using assms(1) by auto
    then show ?thesis using assms(2) rebuild_node_frame(3) by blast
  qed
  with gate_stops_compile f show False by blast
qed

theorem conditional_workflows_never_compile_witness:
  "\<exists>e. compile_example (example_flow [(example_logical ''chk'' ''c'' [] [])\<lparr>l_condition := Some ''x > 1'',
      l_branch_true := [''b'']\<rparr>, example_logical ''geo'' ''b'' [] []]) = Inl e"
  unfolding compile_example_def
  by (rule conditional_workflows_never_compile
      [of "(example_logical ''chk'' ''c'' [] [])\<lparr>l_condition := Some ''x > 1'', l_branch_true := [''b'']\<rparr>"])
    (simp_all add: example_flow_def is_gate_def)

end
