(* ===== verification/Ledger.thy ===== *)
theory Ledger
  imports Prelude
begin

text \<open>
  \<open>execution/ledger.py\<close>: the idempotency ledger.  \<open>sql_find\<close> to \<open>sql_release\<close>
  are the statements of \<open>SqlLedgerStore\<close> on the table \<open>completed_executions\<close>, keyed
  by session and execution key; a claim is two committed statements (insert, then update),
  each atomic.  The locale \<open>ledger_store\<close> is the \<open>LedgerStore\<close> protocol; its lemmas
  speak of arbitrary interleavings of the operations of several workers.  Times are integers.
\<close>

section \<open>The table and the statements of the SQL adapter\<close>

record ledger_row =
  lr_result :: "json option"
  lr_token :: "string option"
  lr_expires :: "int option"
  lr_arch :: string

type_synonym ledger_key = "string \<times> string"
type_synonym ledger_table = "(ledger_key \<times> ledger_row) list"

definition sql_find :: "ledger_table \<Rightarrow> ledger_key \<Rightarrow> ledger_row option" where
  "sql_find tbl key = map_of tbl key"

text \<open>Statement 1 of a claim: \<open>INSERT ... ON CONFLICT DO NOTHING\<close>, with its row count.\<close>

definition sql_insert :: "int \<Rightarrow> string \<Rightarrow> string \<Rightarrow> ledger_key \<Rightarrow> ledger_table \<Rightarrow> ledger_table \<times> bool" where
  "sql_insert expires token arch key tbl =
    (case map_of tbl key of
       None \<Rightarrow> (AList.update key \<lparr>lr_result = None, lr_token = Some token, lr_expires = Some expires, lr_arch = arch\<rparr> tbl, True)
     | Some _ \<Rightarrow> (tbl, False))"

text \<open>Statement 2: take over a row that has no result and no live lease.\<close>

definition stale_row :: "int \<Rightarrow> ledger_row \<Rightarrow> bool" where
  "stale_row now row \<longleftrightarrow> lr_result row = None \<and> (case lr_expires row of None \<Rightarrow> True | Some e \<Rightarrow> e < now)"

definition sql_takeover :: "int \<Rightarrow> int \<Rightarrow> string \<Rightarrow> string \<Rightarrow> ledger_key \<Rightarrow> ledger_table \<Rightarrow> ledger_table \<times> bool" where
  "sql_takeover now expires token arch key tbl =
    (case map_of tbl key of
       None \<Rightarrow> (tbl, False)
     | Some row \<Rightarrow> if stale_row now row
         then (AList.update key (row\<lparr>lr_token := Some token, lr_expires := Some expires, lr_arch := arch\<rparr>) tbl, True)
         else (tbl, False))"

text \<open>\<open>SqlLedgerStore.claim\<close>; \<open>now\<close> is read once, before the first statement.\<close>

definition sql_claim :: "int \<Rightarrow> int \<Rightarrow> string \<Rightarrow> string \<Rightarrow> ledger_key \<Rightarrow> ledger_table \<Rightarrow> ledger_table \<times> bool" where
  "sql_claim lease_s now token arch key tbl =
    (let r = sql_insert (now + lease_s) token arch key tbl in
     if snd r then r else sql_takeover now (now + lease_s) token arch key (fst r))"

definition sql_complete :: "string \<Rightarrow> json \<Rightarrow> ledger_key \<Rightarrow> ledger_table \<Rightarrow> ledger_table" where
  "sql_complete token result key tbl =
    (case map_of tbl key of
       None \<Rightarrow> tbl
     | Some row \<Rightarrow> if lr_token row = Some token
         then AList.update key (row\<lparr>lr_result := Some result, lr_token := None, lr_expires := None\<rparr>) tbl else tbl)"

definition sql_release :: "string \<Rightarrow> ledger_key \<Rightarrow> ledger_table \<Rightarrow> ledger_table" where
  "sql_release token key tbl =
    (case map_of tbl key of
       None \<Rightarrow> tbl
     | Some row \<Rightarrow> if lr_token row = Some token
         then AList.update key (row\<lparr>lr_token := None, lr_expires := None\<rparr>) tbl else tbl)"

section \<open>The executor-facing ledger\<close>

text \<open>
  \<open>CompletedExecutionLedger\<close> swallows every exception of the store; \<open>up\<close> tells whether
  the store answers.  A claim that cannot be recorded is granted all the same.
\<close>

definition ledger_find :: "bool \<Rightarrow> ledger_table \<Rightarrow> ledger_key \<Rightarrow> ledger_row option" where
  "ledger_find up tbl key = (if up then sql_find tbl key else None)"

definition ledger_claim :: "bool \<Rightarrow> int \<Rightarrow> int \<Rightarrow> string \<Rightarrow> string \<Rightarrow> ledger_key \<Rightarrow> ledger_table
    \<Rightarrow> ledger_table \<times> string option" where
  "ledger_claim up lease_s now new_token arch key tbl =
    (if \<not> up then (tbl, Some new_token)
     else let r = sql_claim lease_s now new_token arch key tbl in (fst r, if snd r then Some new_token else None))"

definition ledger_complete :: "bool \<Rightarrow> string \<Rightarrow> json \<Rightarrow> ledger_key \<Rightarrow> ledger_table \<Rightarrow> ledger_table" where
  "ledger_complete up token result key tbl = (if up then sql_complete token result key tbl else tbl)"

definition ledger_release :: "bool \<Rightarrow> string \<Rightarrow> ledger_key \<Rightarrow> ledger_table \<Rightarrow> ledger_table" where
  "ledger_release up token key tbl = (if up then sql_release token key tbl else tbl)"

section \<open>Interleaved operations\<close>

text \<open>
  The atomic operations on the store, by any number of workers.  \<open>OpInsert\<close> and
  \<open>OpTakeover\<close> are the two statements of a claim, with the time read before the first.
\<close>

datatype ledger_op =
    OpInsert int string string ledger_key
  | OpTakeover int string string ledger_key
  | OpComplete string json ledger_key
  | OpRelease string ledger_key

fun op_key :: "ledger_op \<Rightarrow> ledger_key" where
  "op_key (OpInsert now token arch key) = key"
| "op_key (OpTakeover now token arch key) = key"
| "op_key (OpComplete token result key) = key"
| "op_key (OpRelease token key) = key"

text \<open>One operation: the new table, and whether a lease was granted.\<close>

fun ledger_step :: "int \<Rightarrow> ledger_op \<Rightarrow> ledger_table \<Rightarrow> ledger_table \<times> bool" where
  "ledger_step lease_s (OpInsert now token arch key) tbl = sql_insert (now + lease_s) token arch key tbl"
| "ledger_step lease_s (OpTakeover now token arch key) tbl = sql_takeover now (now + lease_s) token arch key tbl"
| "ledger_step lease_s (OpComplete token result key) tbl = (sql_complete token result key tbl, False)"
| "ledger_step lease_s (OpRelease token key) tbl = (sql_release token key tbl, False)"

definition ledger_run :: "int \<Rightarrow> ledger_op list \<Rightarrow> ledger_table \<Rightarrow> ledger_table" where
  "ledger_run lease_s ops tbl = foldl (\<lambda>t op. fst (ledger_step lease_s op t)) tbl ops"

text \<open>The grants of a run: whether each operation granted a lease.\<close>

fun ledger_grants :: "int \<Rightarrow> ledger_op list \<Rightarrow> ledger_table \<Rightarrow> bool list" where
  "ledger_grants lease_s [] tbl = []"
| "ledger_grants lease_s (op # ops) tbl =
     snd (ledger_step lease_s op tbl) # ledger_grants lease_s ops (fst (ledger_step lease_s op tbl))"

section \<open>The protocol\<close>

text \<open>
  What \<open>LedgerStore\<close> promises, over an abstract store: \<open>look\<close> is \<open>find\<close>, and one
  operation changes only the row it names, in one of the ways listed.
\<close>

locale ledger_store =
  fixes look :: "'s \<Rightarrow> ledger_key \<Rightarrow> ledger_row option"
    and step :: "int \<Rightarrow> ledger_op \<Rightarrow> 's \<Rightarrow> 's \<times> bool"
  assumes other_rows: "key \<noteq> op_key op \<Longrightarrow> look (fst (step l op s)) key = look s key"
    and granted: "snd (step l op s) \<Longrightarrow> (\<exists>now token arch.
          (op = OpInsert now token arch (op_key op) \<or> op = OpTakeover now token arch (op_key op))
          \<and> (case look s (op_key op) of None \<Rightarrow> True | Some row \<Rightarrow> stale_row now row)
          \<and> (\<exists>row'. look (fst (step l op s)) (op_key op) = Some row' \<and> lr_result row' = None
               \<and> lr_token row' = Some token \<and> lr_expires row' = Some (now + l)))"
    and refused: "\<not> snd (step l op s) \<Longrightarrow> look (fst (step l op s)) (op_key op) = look s (op_key op)
          \<or> (\<exists>row token. look s (op_key op) = Some row \<and> lr_token row = Some token
               \<and> ((\<exists>r. op = OpComplete token r (op_key op)
                     \<and> look (fst (step l op s)) (op_key op) = Some (row\<lparr>lr_result := Some r, lr_token := None, lr_expires := None\<rparr>))
                  \<or> (op = OpRelease token (op_key op)
                     \<and> look (fst (step l op s)) (op_key op) = Some (row\<lparr>lr_token := None, lr_expires := None\<rparr>))))"
begin

text \<open>A recorded result without a holder is final.\<close>

definition settled :: "'s \<Rightarrow> ledger_key \<Rightarrow> json \<Rightarrow> bool" where
  "settled s key r \<longleftrightarrow> (\<exists>row. look s key = Some row \<and> lr_result row = Some r \<and> lr_token row = None)"

lemma settled_step:
  assumes "settled s key r"
  shows "settled (fst (step l op s)) key r \<and> (op_key op = key \<longrightarrow> \<not> snd (step l op s))"
proof (cases "op_key op = key")
  case False
  with assms show ?thesis by (simp add: settled_def other_rows)
next
  case True
  from assms obtain row where row: "look s key = Some row" "lr_result row = Some r" "lr_token row = None"
    by (auto simp: settled_def)
  have "\<not> snd (step l op s)"
  proof
    assume "snd (step l op s)"
    from granted [OF this] True row show False by (auto simp: stale_row_def)
  qed
  with refused [OF this] True row show ?thesis by (auto simp: settled_def)
qed

text \<open>
  A live lease is exclusive: until its holder completes or releases it, or its time runs out,
  no operation grants the key again.
\<close>

definition held :: "'s \<Rightarrow> ledger_key \<Rightarrow> string \<Rightarrow> int \<Rightarrow> bool" where
  "held s key token e \<longleftrightarrow> (\<exists>row. look s key = Some row \<and> lr_result row = None
     \<and> lr_token row = Some token \<and> lr_expires row = Some e)"

definition op_harmless :: "ledger_key \<Rightarrow> string \<Rightarrow> int \<Rightarrow> ledger_op \<Rightarrow> bool" where
  "op_harmless key token e op \<longleftrightarrow> op_key op = key \<longrightarrow> (case op of
     OpInsert now t a k \<Rightarrow> now \<le> e
   | OpTakeover now t a k \<Rightarrow> now \<le> e
   | OpComplete t r k \<Rightarrow> t \<noteq> token
   | OpRelease t k \<Rightarrow> t \<noteq> token)"

lemma held_step:
  assumes "held s key token e" and "op_harmless key token e op"
  shows "held (fst (step l op s)) key token e \<and> (op_key op = key \<longrightarrow> \<not> snd (step l op s))"
proof (cases "op_key op = key")
  case False
  with assms(1) show ?thesis by (simp add: held_def other_rows)
next
  case True
  from assms(1) obtain row where row: "look s key = Some row" "lr_result row = None"
    "lr_token row = Some token" "lr_expires row = Some e" by (auto simp: held_def)
  have "\<not> snd (step l op s)"
  proof
    assume "snd (step l op s)"
    from granted [OF this] True row obtain now tok arch where
      "op = OpInsert now tok arch key \<or> op = OpTakeover now tok arch key" "stale_row now row" by auto
    with assms(2) True row show False by (cases op) (auto simp: op_harmless_def stale_row_def)
  qed
  with refused [OF this] True row assms(2) show ?thesis by (cases op) (auto simp: held_def op_harmless_def)
qed

end

lemma step_other_rows: "key \<noteq> op_key op \<Longrightarrow> map_of (fst (ledger_step l op tbl)) key = map_of tbl key"
  by (cases op) (auto simp: sql_insert_def sql_takeover_def sql_complete_def sql_release_def map_of_update split: option.split)

interpretation sql_store: ledger_store sql_find ledger_step
proof unfold_locales
  show "sql_find (fst (ledger_step l op s)) key = sql_find s key" if "key \<noteq> op_key op" for key op l s
    using step_other_rows [OF that] by (simp add: sql_find_def)
next
  fix l op s
  assume "snd (ledger_step l op s)"
  then show "\<exists>now token arch.
          (op = OpInsert now token arch (op_key op) \<or> op = OpTakeover now token arch (op_key op))
          \<and> (case sql_find s (op_key op) of None \<Rightarrow> True | Some row \<Rightarrow> stale_row now row)
          \<and> (\<exists>row'. sql_find (fst (ledger_step l op s)) (op_key op) = Some row' \<and> lr_result row' = None
               \<and> lr_token row' = Some token \<and> lr_expires row' = Some (now + l))"
    by (cases op) (auto simp: sql_find_def sql_insert_def sql_takeover_def map_of_update stale_row_def
        split: option.splits if_splits)
next
  fix l op s
  assume "\<not> snd (ledger_step l op s)"
  then show "sql_find (fst (ledger_step l op s)) (op_key op) = sql_find s (op_key op)
          \<or> (\<exists>row token. sql_find s (op_key op) = Some row \<and> lr_token row = Some token
               \<and> ((\<exists>r. op = OpComplete token r (op_key op)
                     \<and> sql_find (fst (ledger_step l op s)) (op_key op) = Some (row\<lparr>lr_result := Some r, lr_token := None, lr_expires := None\<rparr>))
                  \<or> (op = OpRelease token (op_key op)
                     \<and> sql_find (fst (ledger_step l op s)) (op_key op) = Some (row\<lparr>lr_token := None, lr_expires := None\<rparr>))))"
    by (cases op) (auto simp: sql_find_def sql_insert_def sql_takeover_def sql_complete_def sql_release_def
        map_of_update split: option.splits if_splits)
qed

section \<open>Runs\<close>

lemma ledger_run_Cons [simp]: "ledger_run l (op # ops) tbl = ledger_run l ops (fst (ledger_step l op tbl))"
  by (simp add: ledger_run_def)

lemma ledger_run_Nil [simp]: "ledger_run l [] tbl = tbl"
  by (simp add: ledger_run_def)

lemma settled_run:
  "sql_store.settled tbl key r \<Longrightarrow> sql_store.settled (ledger_run l ops tbl) key r
     \<and> list_all2 (\<lambda>op g. op_key op = key \<longrightarrow> \<not> g) ops (ledger_grants l ops tbl)"
proof (induction ops arbitrary: tbl)
  case (Cons op ops)
  from sql_store.settled_step [OF Cons.prems] Cons.IH show ?case by simp
qed simp

lemma held_run:
  "sql_store.held tbl key token e \<Longrightarrow> list_all (sql_store.op_harmless key token e) ops \<Longrightarrow>
     sql_store.held (ledger_run l ops tbl) key token e
     \<and> list_all2 (\<lambda>op g. op_key op = key \<longrightarrow> \<not> g) ops (ledger_grants l ops tbl)"
proof (induction ops arbitrary: tbl)
  case (Cons op ops)
  from sql_store.held_step [OF Cons.prems(1)] Cons show ?case by simp
qed simp


section \<open>Properties\<close>

text \<open>
  C10: At most one worker at a time: after a claim is granted, no other claim of that key is
  granted, whatever operations of whatever workers run in between in whatever order, as long
  as the holder has neither completed nor released it and no claim is made later than the
  lease runs.
\<close>

theorem ledger_claim_exclusive:
  assumes "sql_claim lease_s now token arch key tbl = (tbl', True)" and "0 \<le> lease_s"
    and "list_all (\<lambda>op. op_key op = key \<longrightarrow> (case op of
       OpInsert t _ _ _ \<Rightarrow> t \<le> now + lease_s | OpTakeover t _ _ _ \<Rightarrow> t \<le> now + lease_s
     | OpComplete tok _ _ \<Rightarrow> tok \<noteq> token | OpRelease tok _ \<Rightarrow> tok \<noteq> token)) ops"
  shows "list_all2 (\<lambda>op granted. op_key op = key \<longrightarrow> \<not> granted) ops (ledger_grants lease_s ops tbl')"
proof -
  have "sql_store.held tbl' key token (now + lease_s)"
    using assms(1) by (auto simp: sql_claim_def sql_insert_def sql_takeover_def sql_store.held_def sql_find_def
        Let_def map_of_update stale_row_def split: option.splits if_splits)
  moreover have "list_all (sql_store.op_harmless key token (now + lease_s)) ops"
    using assms(3) by (simp add: list_all_iff sql_store.op_harmless_def)
  ultimately show ?thesis using held_run by blast
qed

theorem ledger_claim_exclusive_witness:
  "ledger_grants 120 [OpInsert 50 ''B'' ''fp'' (''s'', ''k''), OpTakeover 50 ''B'' ''fp'' (''s'', ''k'')]
     (fst (sql_claim 120 0 ''A'' ''fp'' (''s'', ''k'') [])) = [False, False]"
proof -
  let ?ops = "[OpInsert 50 ''B'' ''fp'' (''s'', ''k''), OpTakeover 50 ''B'' ''fp'' (''s'', ''k'')]"
  have "sql_claim 120 0 ''A'' ''fp'' (''s'', ''k'') [] = (fst (sql_claim 120 0 ''A'' ''fp'' (''s'', ''k'') []), True)"
    by code_simp
  from ledger_claim_exclusive [OF this, of ?ops] show ?thesis by auto
qed

text \<open>
  C11: A recorded result is final: once the holder of the lease has completed the key, every
  later find returns that result, whatever operations follow, and no claim of the key is ever
  granted again, so the operation is never executed a second time under the ledger.
\<close>

theorem ledger_result_final:
  assumes "map_of tbl key = Some row" and "lr_token row = Some token"
  shows "(\<exists>row'. sql_find (ledger_run lease_s ops (sql_complete token result key tbl)) key = Some row'
        \<and> lr_result row' = Some result)
     \<and> list_all2 (\<lambda>op granted. op_key op = key \<longrightarrow> \<not> granted) ops
          (ledger_grants lease_s ops (sql_complete token result key tbl))"
proof -
  have "sql_store.settled (sql_complete token result key tbl) key result"
    using assms by (simp add: sql_store.settled_def sql_find_def sql_complete_def map_of_update)
  from settled_run [OF this] show ?thesis by (auto simp: sql_store.settled_def)
qed

theorem ledger_result_final_witness:
  "\<exists>row'. sql_find (ledger_run 120 [OpRelease ''A'' (''s'', ''k''), OpInsert 900 ''B'' ''fp'' (''s'', ''k'')]
      (sql_complete ''A'' (JInt 7) (''s'', ''k'') (fst (sql_claim 120 0 ''A'' ''fp'' (''s'', ''k'') [])))) (''s'', ''k'')
    = Some row' \<and> lr_result row' = Some (JInt 7)"
proof -
  have "map_of (fst (sql_claim 120 0 ''A'' ''fp'' (''s'', ''k'') [])) (''s'', ''k'') =
      Some \<lparr>lr_result = None, lr_token = Some ''A'', lr_expires = Some 120, lr_arch = ''fp''\<rparr>" by code_simp
  from ledger_result_final [OF this, where token = "''A''" and lease_s = 120 and result = "JInt 7"] show ?thesis by (simp del: ledger_run_Cons)
qed

text \<open>
  Crash recovery with fencing: when the lease of a worker that never reported has
  expired, another worker's claim is granted, and from then on the first worker can neither
  record a result nor release the key.
\<close>

theorem ledger_recovers_expired_lease:
  assumes "map_of tbl key = Some row" and "lr_result row = None" and "lr_expires row = Some e" and "e < now"
    and "old \<noteq> new"
  shows "snd (sql_claim lease_s now new arch key tbl)
     \<and> sql_complete old result key (fst (sql_claim lease_s now new arch key tbl)) = fst (sql_claim lease_s now new arch key tbl)
     \<and> sql_release old key (fst (sql_claim lease_s now new arch key tbl)) = fst (sql_claim lease_s now new arch key tbl)"
  using assms by (simp add: sql_claim_def sql_insert_def sql_takeover_def stale_row_def Let_def
      sql_complete_def sql_release_def map_of_update)

theorem ledger_recovers_expired_lease_witness:
  "snd (sql_claim 120 121 ''B'' ''fp'' (''s'', ''k'') (fst (sql_claim 120 0 ''A'' ''fp'' (''s'', ''k'') [])))"
proof -
  have "map_of (fst (sql_claim 120 0 ''A'' ''fp'' (''s'', ''k'') [])) (''s'', ''k'') =
      Some \<lparr>lr_result = None, lr_token = Some ''A'', lr_expires = Some 120, lr_arch = ''fp''\<rparr>" by code_simp
  from ledger_recovers_expired_lease [OF this, where now = 121 and lease_s = 120 and old = "''A''" and new = "''B''"] show ?thesis by simp
qed

text \<open>
  The degradation is not exactly-once: while the store does not answer, the ledger finds
  nothing and grants every claim, so two workers hold the same key at the same time, each
  with its own token, and the table is unchanged.
\<close>

theorem ledger_degrades_to_duplicate_grants:
  "ledger_find False tbl key = None
   \<and> ledger_claim False lease_s now t1 arch key tbl = (tbl, Some t1)
   \<and> ledger_claim False lease_s now t2 arch key (fst (ledger_claim False lease_s now t1 arch key tbl)) = (tbl, Some t2)"
  by (simp add: ledger_find_def ledger_claim_def)

end
