(* ===== verification/Circuit_Breaker.thy ===== *)
theory Circuit_Breaker
  imports Prelude
begin

text \<open>
  The circuit breaker of \<open>errors/resilience.py\<close> and the per-provider registry of
  \<open>tools/circuit\_breaker.py\<close>.  A call is two atomic steps, admission and outcome; calls of
  concurrent tasks interleave between them, which the step relation \<open>cb_step\<close> allows.
  Clock values are rational numbers, non-decreasing along a trace.
\<close>

section \<open>The state machine\<close>

datatype circuit_state = CLOSED | OPEN | HALF_OPEN

record circuit_breaker =
  failure_threshold :: int
  success_threshold :: int
  cooldown_seconds :: rat
  cb_state :: circuit_state
  failure_count :: int
  success_count :: int
  last_failure_time :: rat

definition new_breaker :: "int \<Rightarrow> int \<Rightarrow> rat \<Rightarrow> circuit_breaker" where
  "new_breaker ft st cd = \<lparr>failure_threshold = ft, success_threshold = st, cooldown_seconds = cd,
     cb_state = CLOSED, failure_count = 0, success_count = 0, last_failure_time = 0\<rparr>"

text \<open>The admission part of \<open>call\<close>: \<open>None\<close> is \<open>CircuitOpenError\<close>.\<close>

definition cb_admit :: "rat \<Rightarrow> circuit_breaker \<Rightarrow> circuit_breaker option" where
  "cb_admit now cb = (if cb_state cb = OPEN then
       (if cooldown_seconds cb \<le> now - last_failure_time cb then Some (cb\<lparr>cb_state := HALF_OPEN\<rparr>) else None)
     else Some cb)"

definition on_failure :: "rat \<Rightarrow> circuit_breaker \<Rightarrow> circuit_breaker" where
  "on_failure now cb0 = (let cb = cb0\<lparr>failure_count := failure_count cb0 + 1, last_failure_time := now\<rparr> in
     if cb_state cb = HALF_OPEN then cb\<lparr>cb_state := OPEN\<rparr>
     else if cb_state cb = CLOSED \<and> failure_threshold cb \<le> failure_count cb then cb\<lparr>cb_state := OPEN\<rparr>
     else cb)"

definition on_success :: "circuit_breaker \<Rightarrow> circuit_breaker" where
  "on_success cb = (case cb_state cb of
     HALF_OPEN \<Rightarrow> (let n = success_count cb + 1 in
        if success_threshold cb \<le> n then cb\<lparr>cb_state := CLOSED, failure_count := 0, success_count := 0\<rparr>
        else cb\<lparr>success_count := n\<rparr>)
   | CLOSED \<Rightarrow> cb\<lparr>failure_count := 0\<rparr>
   | OPEN \<Rightarrow> cb)"

definition cb_reset :: "circuit_breaker \<Rightarrow> circuit_breaker" where
  "cb_reset cb = cb\<lparr>cb_state := CLOSED, failure_count := 0, success_count := 0\<rparr>"

text \<open>A whole call with nothing in between: \<open>ok\<close> tells whether the function returned.\<close>

datatype call_result = Rejected | Returned_value | Raised_error

definition cb_call :: "rat \<Rightarrow> bool \<Rightarrow> circuit_breaker \<Rightarrow> circuit_breaker \<times> call_result" where
  "cb_call now ok cb = (case cb_admit now cb of
     None \<Rightarrow> (cb, Rejected)
   | Some cb' \<Rightarrow> if ok then (on_success cb', Returned_value) else (on_failure now cb', Raised_error))"

section \<open>Interleavings\<close>

inductive cb_step :: "circuit_breaker \<Rightarrow> circuit_breaker \<Rightarrow> bool" where
  admit: "cb_admit now cb = Some cb' \<Longrightarrow> cb_step cb cb'"
| fail: "cb_step cb (on_failure now cb)"
| succeed: "cb_step cb (on_success cb)"
| manual_reset: "cb_step cb (cb_reset cb)"

inductive_cases cb_stepE: "cb_step cb cb'"

abbreviation cb_steps :: "circuit_breaker \<Rightarrow> circuit_breaker \<Rightarrow> bool" where
  "cb_steps \<equiv> cb_step\<^sup>*\<^sup>*"

lemmas cb_defs = cb_admit_def on_failure_def on_success_def cb_reset_def Let_def

text \<open>The invariant of every reachable state.\<close>

definition cb_inv :: "circuit_breaker \<Rightarrow> bool" where
  "cb_inv cb \<longleftrightarrow> 0 \<le> failure_count cb \<and> 0 \<le> success_count cb
     \<and> (0 < failure_threshold cb \<longrightarrow> cb_state cb = CLOSED \<longrightarrow> failure_count cb < failure_threshold cb)
     \<and> (0 < success_threshold cb \<longrightarrow> success_count cb < success_threshold cb)"

lemma cb_step_config:
  "cb_step cb cb' \<Longrightarrow> failure_threshold cb' = failure_threshold cb \<and> success_threshold cb' = success_threshold cb
     \<and> cooldown_seconds cb' = cooldown_seconds cb"
  by (elim cb_stepE) (auto simp: cb_defs split: if_splits circuit_state.split)

lemma cb_inv_step: "cb_step cb cb' \<Longrightarrow> cb_inv cb \<Longrightarrow> cb_inv cb'"
  by (elim cb_stepE) (auto simp: cb_inv_def cb_defs split: if_splits circuit_state.split)

lemma cb_inv_steps: "cb_steps cb cb' \<Longrightarrow> cb_inv cb \<Longrightarrow> cb_inv cb'"
  by (induction rule: rtranclp_induct) (auto intro: cb_inv_step)

lemma cb_config_steps: "cb_steps cb cb' \<Longrightarrow> failure_threshold cb' = failure_threshold cb
     \<and> success_threshold cb' = success_threshold cb \<and> cooldown_seconds cb' = cooldown_seconds cb"
  by (induction rule: rtranclp_induct) (auto dest: cb_step_config)

section \<open>Sequences of calls\<close>

fun cb_calls :: "(rat \<times> bool) list \<Rightarrow> circuit_breaker \<Rightarrow> circuit_breaker \<times> call_result list" where
  "cb_calls [] cb = (cb, [])"
| "cb_calls ((now, ok) # cs) cb = (let (cb', r) = cb_call now ok cb; (cb'', rs) = cb_calls cs cb' in (cb'', r # rs))"

lemma calls_fail_closed:
  assumes "cb_state cb = CLOSED" and "list_all (\<lambda>c. \<not> snd c) cs"
    and "failure_count cb + int (length cs) < failure_threshold cb"
  shows "cb_state (fst (cb_calls cs cb)) = CLOSED
     \<and> failure_count (fst (cb_calls cs cb)) = failure_count cb + int (length cs)
     \<and> snd (cb_calls cs cb) = replicate (length cs) Raised_error"
  using assms
proof (induction cs arbitrary: cb)
  case (Cons c cs)
  obtain now where c: "c = (now, False)" using Cons.prems(2) by (cases c) auto
  let ?cb = "fst (cb_call now False cb)"
  have 1: "?cb = cb\<lparr>failure_count := failure_count cb + 1, last_failure_time := now\<rparr>"
    "snd (cb_call now False cb) = Raised_error"
    using Cons.prems by (auto simp: cb_call_def cb_admit_def on_failure_def Let_def)
  have IH: "cb_state (fst (cb_calls cs ?cb)) = CLOSED
     \<and> failure_count (fst (cb_calls cs ?cb)) = failure_count ?cb + int (length cs)
     \<and> snd (cb_calls cs ?cb) = replicate (length cs) Raised_error"
    by (rule Cons.IH) (use Cons.prems 1 in auto)
  with 1 show ?case by (simp add: c case_prod_unfold Let_def)
qed simp

lemma calls_rejected:
  assumes "cb_state cb = OPEN" and "list_all (\<lambda>c. fst c - last_failure_time cb < cooldown_seconds cb) cs"
  shows "cb_calls cs cb = (cb, replicate (length cs) Rejected)"
  using assms
proof (induction cs)
  case (Cons c cs)
  obtain now ok where c: "c = (now, ok)" by (cases c)
  have "cb_call now ok cb = (cb, Rejected)"
    using Cons.prems by (auto simp: c cb_call_def cb_admit_def)
  with Cons show ?case by (simp add: c)
qed simp

section \<open>The registry of tool breakers\<close>

type_synonym breakers = "(string \<times> circuit_breaker) list"

definition get_breaker :: "string \<Rightarrow> int \<Rightarrow> rat \<Rightarrow> breakers \<Rightarrow> circuit_breaker \<times> breakers" where
  "get_breaker name ft cd bs = (case map_of bs name of
     Some cb \<Rightarrow> (cb, bs)
   | None \<Rightarrow> let cb = new_breaker (max 1 ft) 2 (max 1 cd) in (cb, AList.update name cb bs))"

definition tool_is_open :: "string \<Rightarrow> breakers \<Rightarrow> bool" where
  "tool_is_open name bs = (case map_of bs name of None \<Rightarrow> False | Some cb \<Rightarrow> cb_state cb = OPEN)"

definition record_success :: "string \<Rightarrow> breakers \<Rightarrow> breakers" where
  "record_success name bs = (case map_of bs name of None \<Rightarrow> bs | Some cb \<Rightarrow> AList.update name (on_success cb) bs)"

definition record_failure :: "rat \<Rightarrow> string \<Rightarrow> breakers \<Rightarrow> breakers" where
  "record_failure now name bs =
     (case map_of bs name of None \<Rightarrow> bs | Some cb \<Rightarrow> AList.update name (on_failure now cb) bs)"

text \<open>What the executor does with a provider's breaker: it only records outcomes.\<close>

datatype breaker_op = RecSuccess string | RecFailure rat string | GetBreaker string int rat

fun breaker_op_run :: "breakers \<Rightarrow> breaker_op \<Rightarrow> breakers" where
  "breaker_op_run bs (RecSuccess name) = record_success name bs"
| "breaker_op_run bs (RecFailure now name) = record_failure now name bs"
| "breaker_op_run bs (GetBreaker name ft cd) = snd (get_breaker name ft cd bs)"

lemma tool_open_step: "tool_is_open name bs \<Longrightarrow> tool_is_open name (breaker_op_run bs op)"
  by (cases op) (auto simp: tool_is_open_def record_success_def record_failure_def get_breaker_def
      map_of_update on_success_def on_failure_def Let_def split: option.splits)

section \<open>Properties\<close>

text \<open>
  C39: In every state any interleaving of admissions, outcomes and resets can reach from a new
  breaker, a closed breaker has fewer failures than its threshold and the count of probe
  successes is below its threshold: no transition overshoots.
\<close>

theorem breaker_counters_bounded:
  assumes "cb_steps (new_breaker ft st cd) cb" and "0 < ft" and "0 < st"
  shows "(cb_state cb = CLOSED \<longrightarrow> 0 \<le> failure_count cb \<and> failure_count cb < ft)
     \<and> 0 \<le> success_count cb \<and> success_count cb < st"
proof -
  have "cb_inv (new_breaker ft st cd)" using assms(2,3) by (simp add: cb_inv_def new_breaker_def)
  from cb_inv_steps [OF assms(1) this] cb_config_steps [OF assms(1)] assms(2,3)
  show ?thesis by (auto simp: cb_inv_def new_breaker_def)
qed

theorem breaker_counters_bounded_witness:
  "failure_count (on_failure 7 (new_breaker 5 2 30)) < 5"
proof -
  have "cb_steps (new_breaker 5 2 30) (on_failure 7 (new_breaker 5 2 30))"
    by (rule r_into_rtranclp) (rule cb_step.fail)
  from breaker_counters_bounded [OF this] show ?thesis by (simp add: on_failure_def new_breaker_def)
qed

text \<open>
  The breaker trips exactly at the threshold and then shields the resource: from a fresh
  breaker the first \<open>ft - 1\<close> consecutive failures leave it closed, failure number \<open>ft\<close>
  opens it, and until the cooldown has passed since that failure every further call is
  rejected without being made and without changing the breaker.
\<close>

theorem breaker_trips_at_threshold:
  assumes "length cs + 1 = nat ft" and "1 \<le> ft" and "list_all (\<lambda>c. \<not> snd c) cs"
    and "list_all (\<lambda>c. fst c - now < cd) later"
  shows "cb_state (fst (cb_calls cs (new_breaker ft st cd))) = CLOSED
     \<and> cb_state (fst (cb_call now False (fst (cb_calls cs (new_breaker ft st cd))))) = OPEN
     \<and> cb_calls later (fst (cb_call now False (fst (cb_calls cs (new_breaker ft st cd)))))
         = (fst (cb_call now False (fst (cb_calls cs (new_breaker ft st cd)))), replicate (length later) Rejected)"
proof -
  let ?b = "fst (cb_calls cs (new_breaker ft st cd))"
  have cfg: "failure_threshold (fst (cb_calls xs b)) = failure_threshold b
      \<and> cooldown_seconds (fst (cb_calls xs b)) = cooldown_seconds b" for xs b
  proof (induction xs arbitrary: b)
    case (Cons x xs)
    have "failure_threshold (fst (cb_call t ok b)) = failure_threshold b
        \<and> cooldown_seconds (fst (cb_call t ok b)) = cooldown_seconds b" for t ok
      by (auto simp: cb_call_def cb_defs split: option.splits if_splits circuit_state.split)
    with Cons show ?case by (cases x) (simp add: case_prod_unfold Let_def)
  qed simp
  have "cb_state ?b = CLOSED \<and> failure_count ?b = int (length cs)"
    using calls_fail_closed [of "new_breaker ft st cd" cs] assms(1-3) by (simp add: new_breaker_def)
  moreover have "failure_threshold ?b = ft" "cooldown_seconds ?b = cd" using cfg by (simp_all add: new_breaker_def)
  moreover have "int (length cs) + 1 = ft" using assms(1,2) by linarith
  ultimately have o': "cb_state ?b = CLOSED" "cb_state (fst (cb_call now False ?b)) = OPEN"
    "last_failure_time (fst (cb_call now False ?b)) = now" "cooldown_seconds (fst (cb_call now False ?b)) = cd"
    by (auto simp: cb_call_def cb_admit_def on_failure_def Let_def)
  with calls_rejected [of "fst (cb_call now False ?b)" later] assms(4) show ?thesis by simp
qed

theorem breaker_trips_at_threshold_witness:
  "snd (cb_calls [(5, True), (31, True)] (fst (cb_call 2 False (fst (cb_calls [(0, False)] (new_breaker 2 2 30))))))
     = [Rejected, Rejected]"
  using breaker_trips_at_threshold [where cs = "[(0, False)]" and ft = 2 and now = 2 and cd = 30
      and later = "[(5, True), (31, True)]" and st = 2] by simp

text \<open>
  Probe successes need not be consecutive: a failed probe re-opens the breaker without
  resetting the success count, so with a threshold of two it closes after a success, a failure
  and, one cooldown later, a single success.
\<close>

theorem breaker_keeps_stale_success:
  "\<exists>cb. cb_steps (new_breaker 1 2 30) cb \<and> cb_state cb = HALF_OPEN \<and> success_count cb = 1
     \<and> cb_state (on_failure 40 cb) = OPEN
     \<and> (\<exists>cb'. cb_admit 70 (on_failure 40 cb) = Some cb' \<and> cb_state (on_success cb') = CLOSED)"
proof -
  let ?b = "new_breaker 1 2 30"
  let ?c = "on_success ((on_failure 0 ?b)\<lparr>cb_state := HALF_OPEN\<rparr>)"
  have "cb_admit 30 (on_failure 0 ?b) = Some ((on_failure 0 ?b)\<lparr>cb_state := HALF_OPEN\<rparr>)" by code_simp
  then have "cb_steps ?b ?c"
    by (meson cb_step.intros converse_rtranclp_into_rtranclp rtranclp.rtrancl_refl)
  moreover have "cb_state ?c = HALF_OPEN" "success_count ?c = 1" "cb_state (on_failure 40 ?c) = OPEN"
    by (code_simp, code_simp, code_simp)
  moreover have "cb_admit 70 (on_failure 40 ?c) = Some ((on_failure 40 ?c)\<lparr>cb_state := HALF_OPEN\<rparr>)" by code_simp
  moreover have "cb_state (on_success ((on_failure 40 ?c)\<lparr>cb_state := HALF_OPEN\<rparr>)) = CLOSED" by code_simp
  ultimately show ?thesis by blast
qed

text \<open>
  The tool registry never recovers a tripped provider: the executor asks \<open>is_open\<close> and
  records outcomes but never admits a probe, so once a breaker is open, no sequence of
  recorded successes and failures and lookups, at any times, closes it.
\<close>

theorem tool_breaker_never_recovers:
  assumes "tool_is_open name bs"
  shows "tool_is_open name (foldl breaker_op_run bs ops)"
  using assms by (induction ops arbitrary: bs) (auto simp: tool_open_step)

theorem tool_breaker_never_recovers_witness:
  "tool_is_open ''p'' (foldl breaker_op_run
     (record_failure 0 ''p'' (snd (get_breaker ''p'' 1 30 []))) [RecSuccess ''p'', RecSuccess ''p'', GetBreaker ''p'' 1 30])"
  by (rule tool_breaker_never_recovers) code_simp

end
