(* ===== verification/Tasks.thy ===== *)
theory Tasks
  imports Prelude
begin

text \<open>
  Background tasks: the task table and its operations (\<open>tasks/registry.py\<close>), the worker
  (\<open>tasks/worker.py\<close>) and the scheduler (\<open>tasks/scheduler.py\<close>).  Every registry
  operation is one committed statement and atomic.  Times are integers; a task id that is no
  UUID behaves like one that is not in the table.  What other processes do to the table while
  a worker executes is a parameter of the worker's run.
\<close>

section \<open>The task table\<close>

datatype task_status = PENDING | QUEUED | RUNNING | PAUSED | COMPLETED | FAILED | CANCELLED

record task_row =
  task_type :: string
  payload :: "json dict"
  task_state :: task_status
  task_result :: "json option"
  progress :: int
  attempts :: int
  max_attempts :: int
  cancel_requested :: bool
  schedule_cron :: "string option"
  next_run_at :: "int option"
  error_message :: "string option"
  worker_id :: "string option"
  lease_expires_at :: "int option"
  started_at :: "int option"
  completed_at :: "int option"
  updated_at :: "int option"

type_synonym task_table = "(string \<times> task_row) list"

definition new_task :: "string \<Rightarrow> json dict \<Rightarrow> int \<Rightarrow> string option \<Rightarrow> int option \<Rightarrow> task_row" where
  "new_task ty pl max_att cron next_run = \<lparr>task_type = ty, payload = pl, task_state = PENDING, task_result = None,
     progress = 0, attempts = 0, max_attempts = max_att, cancel_requested = False, schedule_cron = cron,
     next_run_at = next_run, error_message = None, worker_id = None, lease_expires_at = None, started_at = None,
     completed_at = None, updated_at = None\<rparr>"

definition clamp_progress :: "int \<Rightarrow> int" where
  "clamp_progress p = max 0 (min 100 p)"

definition modify_task :: "(task_row \<Rightarrow> task_row) \<Rightarrow> string \<Rightarrow> task_table \<Rightarrow> task_table" where
  "modify_task f tid tbl = (case map_of tbl tid of None \<Rightarrow> tbl | Some row \<Rightarrow> AList.update tid (f row) tbl)"

definition status_values ::
  "int \<Rightarrow> task_status \<Rightarrow> string option \<Rightarrow> json option \<Rightarrow> int option \<Rightarrow> task_row \<Rightarrow> task_row" where
  "status_values now st err res prog row =
    (let r1 = row\<lparr>task_state := st, updated_at := Some now\<rparr>;
         r2 = (case err of None \<Rightarrow> r1 | Some e \<Rightarrow> r1\<lparr>error_message := Some e\<rparr>);
         r3 = (case res of None \<Rightarrow> r2 | Some v \<Rightarrow> r2\<lparr>task_result := Some v\<rparr>);
         r4 = (case prog of None \<Rightarrow> r3 | Some p \<Rightarrow> r3\<lparr>progress := clamp_progress p\<rparr>)
     in if st = RUNNING then r4\<lparr>started_at := Some now\<rparr>
        else if st \<in> {COMPLETED, FAILED, CANCELLED} then r4\<lparr>completed_at := Some now\<rparr> else r4)"

definition update_status ::
  "int \<Rightarrow> string \<Rightarrow> task_status \<Rightarrow> string option \<Rightarrow> json option \<Rightarrow> int option \<Rightarrow> task_table \<Rightarrow> task_table" where
  "update_status now tid st err res prog tbl = modify_task (status_values now st err res prog) tid tbl"

definition update_progress :: "string \<Rightarrow> int \<Rightarrow> task_table \<Rightarrow> task_table" where
  "update_progress tid p tbl = modify_task (\<lambda>row. row\<lparr>progress := clamp_progress p\<rparr>) tid tbl"

definition mark_attempt :: "int \<Rightarrow> string \<Rightarrow> task_table \<Rightarrow> task_table" where
  "mark_attempt now tid tbl = (case map_of tbl tid of None \<Rightarrow> tbl
     | Some row \<Rightarrow> update_status now tid RUNNING None None (Some (progress row)) tbl)"

definition lease_free :: "int \<Rightarrow> task_row \<Rightarrow> bool" where
  "lease_free now row = (case lease_expires_at row of None \<Rightarrow> True | Some e \<Rightarrow> e < now)"

text \<open>A claim, and the count of an attempt below, are refused when the database fails (\<open>db\<close> is false).\<close>

definition claim_lease :: "bool \<Rightarrow> int \<Rightarrow> string \<Rightarrow> string \<Rightarrow> int \<Rightarrow> task_table \<Rightarrow> task_table \<times> bool" where
  "claim_lease db now tid worker lease_s tbl = (if \<not> db then (tbl, False) else case map_of tbl tid of
     None \<Rightarrow> (tbl, False)
   | Some row \<Rightarrow> if \<not> cancel_requested row \<and> lease_free now row
       then (AList.update tid (row\<lparr>worker_id := Some worker, lease_expires_at := Some (now + lease_s),
               started_at := Some now\<rparr>) tbl, True)
       else (tbl, False))"

definition heartbeat :: "int \<Rightarrow> string \<Rightarrow> string \<Rightarrow> int \<Rightarrow> task_table \<Rightarrow> task_table" where
  "heartbeat now tid worker lease_s tbl = modify_task (\<lambda>row. if worker_id row = Some worker
     then row\<lparr>lease_expires_at := Some (now + lease_s)\<rparr> else row) tid tbl"

definition release_lease :: "string \<Rightarrow> string \<Rightarrow> task_table \<Rightarrow> task_table" where
  "release_lease tid worker tbl = modify_task (\<lambda>row. if worker_id row = Some worker
     then row\<lparr>worker_id := None, lease_expires_at := None\<rparr> else row) tid tbl"

definition register_attempt :: "bool \<Rightarrow> string \<Rightarrow> task_table \<Rightarrow> task_table \<times> bool" where
  "register_attempt db tid tbl = (if \<not> db then (tbl, False) else case map_of tbl tid of
     None \<Rightarrow> (tbl, False)
   | Some row \<Rightarrow> let n = attempts row + 1 in
       (AList.update tid (row\<lparr>attempts := n\<rparr>) tbl, n < (if max_attempts row = 0 then 1 else max_attempts row)))"

definition request_cancel :: "string \<Rightarrow> task_table \<Rightarrow> task_table" where
  "request_cancel tid tbl = modify_task (\<lambda>row. row\<lparr>cancel_requested := True\<rparr>) tid tbl"

definition mark_completed :: "int \<Rightarrow> string \<Rightarrow> json \<Rightarrow> task_table \<Rightarrow> task_table" where
  "mark_completed now tid result tbl = update_status now tid COMPLETED None (Some result) (Some 100) tbl"

definition mark_failed :: "int \<Rightarrow> string \<Rightarrow> string \<Rightarrow> task_table \<Rightarrow> task_table" where
  "mark_failed now tid err tbl = update_status now tid FAILED (Some err) None None tbl"

definition pause_task :: "int \<Rightarrow> string \<Rightarrow> task_table \<Rightarrow> task_table" where
  "pause_task now tid tbl = update_status now tid PAUSED None None None tbl"

definition resume_task :: "int \<Rightarrow> string \<Rightarrow> task_table \<Rightarrow> task_table" where
  "resume_task now tid tbl = update_status now tid QUEUED None None None tbl"

text \<open>The due tasks: at most 50, earliest first.\<close>

definition is_due :: "int \<Rightarrow> task_row \<Rightarrow> bool" where
  "is_due now row \<longleftrightarrow> task_state row \<in> {PENDING, QUEUED} \<and> (case next_run_at row of None \<Rightarrow> False | Some t \<Rightarrow> t \<le> now)"

definition due_tasks :: "int \<Rightarrow> task_table \<Rightarrow> (string \<times> task_row) list" where
  "due_tasks now tbl = take 50 (sort_key (\<lambda>p. the (next_run_at (snd p))) (filter (\<lambda>p. is_due now (snd p)) tbl))"

section \<open>The worker\<close>

datatype exec_outcome = ExecReturns json | ExecRaises string | ExecCancelled

datatype run_report = Nothing_claimed | Unknown_task | Cancelled_before | Lease_held | No_executor | Executed exec_outcome

record worker_world =
  w_tasks :: task_table
  w_acked :: "string list"

definition ack :: "string \<Rightarrow> worker_world \<Rightarrow> worker_world" where
  "ack entry w = w\<lparr>w_acked := w_acked w @ [entry]\<rparr>"

text \<open>A result that is no dictionary is wrapped in one.\<close>

definition as_result :: "json \<Rightarrow> json" where
  "as_result v = (case v of JDict _ \<Rightarrow> v | _ \<Rightarrow> JDict [(''result'', v)])"

definition finish_run :: "bool \<Rightarrow> int \<Rightarrow> string \<Rightarrow> string \<Rightarrow> exec_outcome \<Rightarrow> worker_world \<Rightarrow> worker_world" where
  "finish_run db now tid entry outcome w =
    (case outcome of
       ExecReturns v \<Rightarrow> ack entry (w\<lparr>w_tasks := mark_completed now tid (as_result v) (w_tasks w)\<rparr>)
     | ExecCancelled \<Rightarrow> w
     | ExecRaises e \<Rightarrow> (let r = register_attempt db tid (w_tasks w) in
         if snd r then w\<lparr>w_tasks := fst r\<rparr>
         else ack entry (w\<lparr>w_tasks := mark_failed now tid (take 500 e) (fst r)\<rparr>)))"

text \<open>
  \<open>run_once\<close>: \<open>claimed\<close> is what the queue returned, \<open>during\<close> what happens to the
  table while the executor runs (heartbeats, other processes), \<open>later\<close> the time it ends;
  \<open>db\<close> tells whether the database answers when the lease is claimed, and when a failed
  attempt is counted.
\<close>

definition run_once ::
  "bool \<times> bool \<Rightarrow> string \<Rightarrow> int \<Rightarrow> string list \<Rightarrow> int \<Rightarrow> int \<Rightarrow> (task_table \<Rightarrow> task_table) \<Rightarrow> exec_outcome
     \<Rightarrow> (string \<times> string) option \<Rightarrow> worker_world \<Rightarrow> worker_world \<times> run_report" where
  "run_once db worker lease_s executors now later during outcome claimed w =
    (case claimed of None \<Rightarrow> (w, Nothing_claimed)
     | Some (tid, entry) \<Rightarrow>
      (case map_of (w_tasks w) tid of
         None \<Rightarrow> (ack entry w, Unknown_task)
       | Some record \<Rightarrow>
          if cancel_requested record
          then (ack entry (w\<lparr>w_tasks := update_status now tid CANCELLED None None None (w_tasks w)\<rparr>), Cancelled_before)
          else (let c = claim_lease (fst db) now tid worker lease_s (w_tasks w) in
            if \<not> snd c then (w, Lease_held)
            else let t1 = update_status now tid RUNNING None None None (fst c) in
              if task_type record \<notin> set executors
              then (ack entry (w\<lparr>w_tasks := release_lease tid worker (mark_failed now tid (''No executor for task type '' @ [CHR 0x27]
                      @ task_type record @ [CHR 0x27]) t1)\<rparr>), No_executor)
              else let w2 = finish_run (snd db) later tid entry outcome (w\<lparr>w_tasks := during t1\<rparr>) in
                (w2\<lparr>w_tasks := release_lease tid worker (w_tasks w2)\<rparr>, Executed outcome))))"

section \<open>The scheduler\<close>

text \<open>
  \<open>next_cron\<close> (croniter) and the success of an enqueue are parameters; the queue collects
  the ids enqueued.
\<close>

definition advance_next_run :: "string \<Rightarrow> int option \<Rightarrow> task_table \<Rightarrow> task_table" where
  "advance_next_run tid t tbl = modify_task (\<lambda>row. row\<lparr>next_run_at := t\<rparr>) tid tbl"

definition recurring :: "task_row \<Rightarrow> bool" where
  "recurring row = (case schedule_cron row of None \<Rightarrow> False | Some c \<Rightarrow> c \<noteq> [])"

definition tick_task ::
  "int \<Rightarrow> (string \<Rightarrow> int option) \<Rightarrow> (string \<Rightarrow> bool) \<Rightarrow> task_table \<times> string list \<Rightarrow> string \<times> task_row
     \<Rightarrow> task_table \<times> string list" where
  "tick_task now next_cron enqueue_ok s p =
    (case p of (tid, row) \<Rightarrow>
     let t1 = (if recurring row
          then advance_next_run tid (next_cron (the (schedule_cron row))) (update_status now tid QUEUED None None None (fst s))
          else fst s) in
     if \<not> enqueue_ok tid then (t1, snd s)
     else (if recurring row then t1 else advance_next_run tid None t1, snd s @ [tid]))"

definition tick ::
  "int \<Rightarrow> (string \<Rightarrow> int option) \<Rightarrow> (string \<Rightarrow> bool) \<Rightarrow> task_table \<times> string list \<Rightarrow> task_table \<times> string list" where
  "tick now next_cron enqueue_ok s = foldl (tick_task now next_cron enqueue_ok) s (due_tasks now (fst s))"

section \<open>Lemmas: single operations\<close>

lemma map_of_modify [simp]:
  "map_of (modify_task f tid tbl) k = (if k = tid then map_option f (map_of tbl k) else map_of tbl k)"
  by (auto simp: modify_task_def map_of_update split: option.split)

lemma keys_modify [simp]: "map fst (modify_task f tid tbl) = map fst tbl"
proof (cases "map_of tbl tid")
  case (Some row)
  then have "tid \<in> fst ` set tbl" by (force dest: map_of_SomeD)
  with Some show ?thesis by (simp add: modify_task_def map_fst_update)
qed (simp add: modify_task_def)

lemma status_values_frame [simp]:
  "worker_id (status_values now st err res prog row) = worker_id row"
  "lease_expires_at (status_values now st err res prog row) = lease_expires_at row"
  "cancel_requested (status_values now st err res prog row) = cancel_requested row"
  "attempts (status_values now st err res prog row) = attempts row"
  "max_attempts (status_values now st err res prog row) = max_attempts row"
  "task_type (status_values now st err res prog row) = task_type row"
  "task_state (status_values now st err res prog row) = st"
  "schedule_cron (status_values now st err res prog row) = schedule_cron row"
  "next_run_at (status_values now st err res prog row) = next_run_at row"
  by (simp_all add: status_values_def Let_def split: option.split)


section \<open>Leases under interleaving\<close>

text \<open>The committed operations of any process on the task table.\<close>

datatype task_op =
    TClaim bool int string string
  | THeartbeat int string string
  | TRelease string string
  | TStatus int string task_status "string option" "json option" "int option"
  | TProgress string int
  | TAttempt bool string
  | TCancel string
  | TNextRun string "int option"

text \<open>One operation, and whether it granted a lease; \<open>l\<close> is the lease duration.\<close>

fun task_step :: "int \<Rightarrow> task_op \<Rightarrow> task_table \<Rightarrow> task_table \<times> bool" where
  "task_step l (TClaim db now tid w) tbl = claim_lease db now tid w l tbl"
| "task_step l (THeartbeat now tid w) tbl = (heartbeat now tid w l tbl, False)"
| "task_step l (TRelease tid w) tbl = (release_lease tid w tbl, False)"
| "task_step l (TStatus now tid st err res prog) tbl = (update_status now tid st err res prog tbl, False)"
| "task_step l (TProgress tid p) tbl = (update_progress tid p tbl, False)"
| "task_step l (TAttempt db tid) tbl = (fst (register_attempt db tid tbl), False)"
| "task_step l (TCancel tid) tbl = (request_cancel tid tbl, False)"
| "task_step l (TNextRun tid t) tbl = (advance_next_run tid t tbl, False)"

fun task_grants :: "int \<Rightarrow> task_op list \<Rightarrow> task_table \<Rightarrow> bool list" where
  "task_grants l [] tbl = []"
| "task_grants l (op # ops) tbl = snd (task_step l op tbl) # task_grants l ops (fst (task_step l op tbl))"

fun claim_of :: "string \<Rightarrow> task_op \<Rightarrow> bool" where
  "claim_of tid (TClaim db now t w) = (t = tid)"
| "claim_of tid _ = False"

text \<open>The holder neither releases nor lets the clock run backwards; nobody claims too late.\<close>

fun respects_lease :: "int \<Rightarrow> int \<Rightarrow> string \<Rightarrow> string \<Rightarrow> task_op \<Rightarrow> bool" where
  "respects_lease l t0 tid w (TClaim db now t w') = (t = tid \<longrightarrow> now \<le> t0 + l)"
| "respects_lease l t0 tid w (THeartbeat now t w') = (t = tid \<and> w' = w \<longrightarrow> t0 \<le> now)"
| "respects_lease l t0 tid w (TRelease t w') = (t = tid \<longrightarrow> w' \<noteq> w)"
| "respects_lease l t0 tid w _ = True"

definition task_held :: "int \<Rightarrow> string \<Rightarrow> string \<Rightarrow> task_table \<Rightarrow> bool" where
  "task_held e tid w tbl = (case map_of tbl tid of None \<Rightarrow> False | Some row \<Rightarrow>
     worker_id row = Some w \<and> (case lease_expires_at row of None \<Rightarrow> False | Some e' \<Rightarrow> e \<le> e'))"

lemma task_held_step:
  assumes "task_held (t0 + l) tid w tbl" and "respects_lease l t0 tid w op"
  shows "task_held (t0 + l) tid w (fst (task_step l op tbl)) \<and> (claim_of tid op \<longrightarrow> \<not> snd (task_step l op tbl))"
proof -
  from assms(1) obtain row e' where row: "map_of tbl tid = Some row" "worker_id row = Some w"
    "lease_expires_at row = Some e'" "t0 + l \<le> e'"
    by (auto simp: task_held_def split: option.splits)
  with assms(2) show ?thesis
  by (cases op) (auto simp: task_held_def claim_lease_def lease_free_def heartbeat_def release_lease_def
      update_status_def update_progress_def register_attempt_def request_cancel_def advance_next_run_def
      map_of_update Let_def split: option.split)
qed

lemma task_held_run:
  "task_held (t0 + l) tid w tbl \<Longrightarrow> list_all (respects_lease l t0 tid w) ops \<Longrightarrow>
     list_all2 (\<lambda>op granted. claim_of tid op \<longrightarrow> \<not> granted) ops (task_grants l ops tbl)"
proof (induction ops arbitrary: tbl)
  case (Cons op ops)
  from task_held_step [OF Cons.prems(1)] Cons show ?case by simp
qed simp

section \<open>A failing run\<close>

text \<open>The table after a run whose executor raised and nobody interfered.\<close>

lemma run_once_raises:
  assumes "map_of (w_tasks w) tid = Some row" and "\<not> cancel_requested row" and "lease_free now row"
    and "task_type row \<in> set executors"
  shows "\<exists>row'. map_of (w_tasks (fst (run_once (True, True) worker l executors now later (\<lambda>t. t) (ExecRaises e) (Some (tid, entry)) w))) tid = Some row'
    \<and> attempts row' = attempts row + 1 \<and> max_attempts row' = max_attempts row \<and> \<not> cancel_requested row'
    \<and> lease_expires_at row' = None \<and> worker_id row' = None \<and> task_type row' = task_type row
    \<and> task_state row' = (if attempts row + 1 < (if max_attempts row = 0 then 1 else max_attempts row) then RUNNING else FAILED)
    \<and> w_acked (fst (run_once (True, True) worker l executors now later (\<lambda>t. t) (ExecRaises e) (Some (tid, entry)) w))
        = (if attempts row + 1 < (if max_attempts row = 0 then 1 else max_attempts row) then w_acked w
           else w_acked w @ [entry])"
  using assms
  by (simp add: run_once_def claim_lease_def update_status_def finish_run_def register_attempt_def ack_def
      mark_failed_def release_lease_def map_of_update Let_def)

section \<open>Properties of tasks\<close>

text \<open>
  C35: One worker per task: from the moment a worker's claim of a task is granted until its
  lease runs out or it releases the lease, no claim of that task is granted to anyone,
  whatever status changes, heartbeats, cancellations and releases of others happen.
\<close>

theorem task_lease_exclusive:
  assumes "claim_lease db t0 tid w l tbl = (tbl', True)" and "list_all (respects_lease l t0 tid w) ops"
  shows "list_all2 (\<lambda>op granted. claim_of tid op \<longrightarrow> \<not> granted) ops (task_grants l ops tbl')"
proof -
  have "task_held (t0 + l) tid w tbl'"
    using assms(1) by (auto simp: claim_lease_def task_held_def map_of_update split: option.splits if_splits)
  then show ?thesis using assms(2) by (rule task_held_run)
qed

definition example_task :: task_row where
  "example_task = new_task ''report'' [] 3 None None"

theorem task_lease_exclusive_witness:
  "task_grants 60 [TStatus 1 ''t'' RUNNING None None None, TRelease ''t'' ''B'', TClaim True 60 ''t'' ''B'']
     (fst (claim_lease True 0 ''t'' ''A'' 60 [(''t'', example_task)])) = [False, False, False]"
proof -
  let ?ops = "[TStatus 1 ''t'' RUNNING None None None, TRelease ''t'' ''B'', TClaim True 60 ''t'' ''B'']"
  have "claim_lease True 0 ''t'' ''A'' 60 [(''t'', example_task)]
      = (fst (claim_lease True 0 ''t'' ''A'' 60 [(''t'', example_task)]), True)"
    by code_simp
  from task_lease_exclusive [OF this, of ?ops] show ?thesis by simp
qed

text \<open>
  A cancellation requested before pickup is honoured: the worker that is given the task
  never runs its executor, marks it CANCELLED and acknowledges the entry; and no claim of a
  cancelled task is ever granted.
\<close>

theorem cancelled_task_never_executes:
  assumes "map_of (w_tasks w) tid = Some row" and "cancel_requested row"
  shows "snd (run_once db worker l executors now later during outcome (Some (tid, entry)) w) = Cancelled_before
     \<and> entry \<in> set (w_acked (fst (run_once db worker l executors now later during outcome (Some (tid, entry)) w)))
     \<and> (\<exists>row'. map_of (w_tasks (fst (run_once db worker l executors now later during outcome (Some (tid, entry)) w))) tid = Some row'
          \<and> task_state row' = CANCELLED)
     \<and> \<not> snd (claim_lease (fst db) t tid worker l (w_tasks w))"
  using assms by (simp add: run_once_def ack_def update_status_def claim_lease_def)

theorem cancelled_task_never_executes_witness:
  "snd (run_once (True, True) ''A'' 60 [''report''] 0 1 (\<lambda>t. t) (ExecReturns JNull) (Some (''t'', ''e1''))
     \<lparr>w_tasks = request_cancel ''t'' [(''t'', example_task)], w_acked = []\<rparr>) = Cancelled_before"
  by (rule cancelled_task_never_executes [THEN conjunct1, of _ _ "example_task\<lparr>cancel_requested := True\<rparr>"])
    (simp_all add: request_cancel_def)

text \<open>
  Writes are not lease-scoped: a worker that lost its lease while executing still commits.
  Worker A claims the task, its lease expires, worker B claims it, completes it and records
  its result; when A ends, it overwrites the result of the completed task.
\<close>

theorem stale_worker_overwrites_result:
  "\<exists>w during tbl. run_once (True, True) ''A'' 60 [''report''] 0 200 during (ExecReturns (JDict [(''by'', JStr ''A'')]))
        (Some (''t'', ''e1'')) w = (tbl, Executed (ExecReturns (JDict [(''by'', JStr ''A'')])))
     \<and> (\<exists>w1. snd (run_once (True, True) ''B'' 60 [''report''] 100 150 (\<lambda>t. t) (ExecReturns (JDict [(''by'', JStr ''B'')]))
          (Some (''t'', ''e1'')) \<lparr>w_tasks = w1, w_acked = []\<rparr>) = Executed (ExecReturns (JDict [(''by'', JStr ''B'')]))
        \<and> during w1 = w_tasks (fst (run_once (True, True) ''B'' 60 [''report''] 100 150 (\<lambda>t. t)
             (ExecReturns (JDict [(''by'', JStr ''B'')])) (Some (''t'', ''e1'')) \<lparr>w_tasks = w1, w_acked = []\<rparr>))
        \<and> map_option task_result (map_of (during w1) ''t'') = Some (Some (JDict [(''by'', JStr ''B'')]))
        \<and> map_option worker_id (map_of (during w1) ''t'') = Some None)
     \<and> map_option task_result (map_of (w_tasks tbl) ''t'') = Some (Some (JDict [(''by'', JStr ''A'')]))"
proof -
  let ?b = "\<lambda>t. w_tasks (fst (run_once (True, True) ''B'' 60 [''report''] 100 150 (\<lambda>t. t)
             (ExecReturns (JDict [(''by'', JStr ''B'')])) (Some (''t'', ''e1'')) \<lparr>w_tasks = t, w_acked = []\<rparr>))"
  let ?w = "\<lparr>w_tasks = [(''t'', example_task)], w_acked = []\<rparr>"
  let ?t1 = "update_status 0 ''t'' RUNNING None None None (fst (claim_lease True 0 ''t'' ''A'' 60 [(''t'', example_task)]))"
  let ?run = "run_once (True, True) ''A'' 60 [''report''] 0 200 ?b (ExecReturns (JDict [(''by'', JStr ''A'')])) (Some (''t'', ''e1'')) ?w"
  have "snd ?run = Executed (ExecReturns (JDict [(''by'', JStr ''A'')]))" by code_simp
  then have "?run = (fst ?run, Executed (ExecReturns (JDict [(''by'', JStr ''A'')])))" by (simp add: prod_eq_iff)
  moreover have "map_option task_result (map_of (w_tasks (fst ?run)) ''t'') = Some (Some (JDict [(''by'', JStr ''A'')]))"
    by code_simp
  moreover have "snd (run_once (True, True) ''B'' 60 [''report''] 100 150 (\<lambda>t. t) (ExecReturns (JDict [(''by'', JStr ''B'')]))
      (Some (''t'', ''e1'')) \<lparr>w_tasks = ?t1, w_acked = []\<rparr>) = Executed (ExecReturns (JDict [(''by'', JStr ''B'')]))"
    by code_simp
  moreover have "map_option task_result (map_of (?b ?t1) ''t'') = Some (Some (JDict [(''by'', JStr ''B'')]))" by code_simp
  moreover have "map_option worker_id (map_of (?b ?t1) ''t'') = Some None" by code_simp
  ultimately show ?thesis by blast
qed


section \<open>The scheduler tick\<close>

text \<open>What a tick makes of a due row.\<close>

definition ticked :: "int \<Rightarrow> (string \<Rightarrow> int option) \<Rightarrow> bool \<Rightarrow> task_row \<Rightarrow> task_row" where
  "ticked now next_cron ok row =
    (if recurring row then (status_values now QUEUED None None None row)\<lparr>next_run_at := next_cron (the (schedule_cron row))\<rparr>
     else if ok then row\<lparr>next_run_at := None\<rparr> else row)"

lemma tick_task_lookup:
  assumes "map_of (fst s) tid = Some row"
  shows "map_of (fst (tick_task now next_cron enqueue_ok s (tid, row))) k
     = (if k = tid then Some (ticked now next_cron (enqueue_ok tid) row) else map_of (fst s) k)"
  using assms by (simp add: tick_task_def ticked_def advance_next_run_def update_status_def Let_def)

lemma tick_task_queue:
  "snd (tick_task now next_cron enqueue_ok s (tid, row)) = snd s @ (if enqueue_ok tid then [tid] else [])"
  by (simp add: tick_task_def Let_def)

lemma tick_fold:
  assumes "distinct (map fst due)" and "\<forall>(tid, row) \<in> set due. map_of (fst s) tid = Some row"
  shows "map_of (fst (foldl (tick_task now next_cron enqueue_ok) s due)) k
      = (case map_of due k of None \<Rightarrow> map_of (fst s) k | Some row \<Rightarrow> Some (ticked now next_cron (enqueue_ok k) row))
     \<and> snd (foldl (tick_task now next_cron enqueue_ok) s due) = snd s @ filter enqueue_ok (map fst due)"
  using assms
proof (induction due arbitrary: s)
  case (Cons p due)
  obtain tid row where p: "p = (tid, row)" by (cases p)
  have t: "map_of (fst s) tid = Some row" using Cons.prems(2) by (simp add: p)
  let ?s = "tick_task now next_cron enqueue_ok s (tid, row)"
  have "\<forall>(k, r) \<in> set due. map_of (fst ?s) k = Some r"
    using Cons.prems by (auto simp: p tick_task_lookup [OF t] rev_image_eqI)
  from Cons.IH [OF _ this] Cons.prems(1) show ?case
    by (auto simp: p tick_task_lookup [OF t] tick_task_queue map_of_eq_None_iff [symmetric] split: option.split)
qed simp

lemma due_tasks_rows:
  assumes "distinct (map fst tbl)"
  shows "distinct (map fst (due_tasks now tbl)) \<and> (\<forall>(tid, row) \<in> set (due_tasks now tbl). map_of tbl tid = Some row \<and> is_due now row)"
proof
  let ?f = "filter (\<lambda>p. is_due now (snd p)) tbl"
  let ?s = "sort_key (\<lambda>p. the (next_run_at (snd p))) ?f"
  have "distinct (map fst ?f)" using assms by (rule distinct_map_fst_filter)
  moreover have "mset (map fst ?s) = mset (map fst ?f)" by simp
  ultimately have "distinct (map fst ?s)" using mset_eq_imp_distinct_iff by blast
  then show "distinct (map fst (due_tasks now tbl))"
    unfolding due_tasks_def by (simp only: take_map [symmetric] distinct_take)
  show "\<forall>(tid, row) \<in> set (due_tasks now tbl). map_of tbl tid = Some row \<and> is_due now row"
  proof
    fix x assume "x \<in> set (due_tasks now tbl)"
    then have "x \<in> set ?s" unfolding due_tasks_def by (rule in_set_takeD)
    then show "case x of (tid, row) \<Rightarrow> map_of tbl tid = Some row \<and> is_due now row"
      using assms by auto
  qed
qed

text \<open>
  One scheduler tick over a table with unique ids: exactly the due tasks whose enqueue
  succeeded are enqueued, once each, in due order; a one-shot task leaves the schedule if and
  only if it was enqueued (a failed enqueue is tried again); a recurring task is moved to its
  next cron time whether or not it was enqueued, so a failed enqueue loses that run; all
  other rows are untouched.
\<close>

theorem scheduler_tick_exact:
  assumes "distinct (map fst tbl)" and "tick now next_cron enqueue_ok (tbl, q) = (tbl', q')"
  shows "q' = q @ filter enqueue_ok (map fst (due_tasks now tbl))
     \<and> (\<forall>(tid, row) \<in> set (due_tasks now tbl). \<exists>row'. map_of tbl' tid = Some row'
          \<and> (if recurring row then next_run_at row' = next_cron (the (schedule_cron row)) \<and> task_state row' = QUEUED
             else if enqueue_ok tid then next_run_at row' = None \<and> task_state row' = task_state row
             else row' = row))
     \<and> (\<forall>tid. tid \<notin> fst ` set (due_tasks now tbl) \<longrightarrow> map_of tbl' tid = map_of tbl tid)"
proof -
  let ?d = "due_tasks now tbl"
  from due_tasks_rows [OF assms(1), of now] have d: "distinct (map fst ?d)"
    and r: "\<forall>(tid, row) \<in> set ?d. map_of (fst (tbl, q)) tid = Some row" by auto
  have L: "map_of tbl' k = (case map_of ?d k of None \<Rightarrow> map_of tbl k | Some row \<Rightarrow> Some (ticked now next_cron (enqueue_ok k) row))"
    and Q: "q' = q @ filter enqueue_ok (map fst ?d)" for k
    using tick_fold [OF d r, of now next_cron enqueue_ok k] assms(2) unfolding fst_conv snd_conv by (simp_all add: tick_def)
  have "\<exists>row'. map_of tbl' tid = Some row'
          \<and> (if recurring row then next_run_at row' = next_cron (the (schedule_cron row)) \<and> task_state row' = QUEUED
             else if enqueue_ok tid then next_run_at row' = None \<and> task_state row' = task_state row
             else row' = row)" if "(tid, row) \<in> set ?d" for tid row
  proof -
    have "map_of ?d tid = Some row" using d that by simp
    then have "map_of tbl' tid = Some (ticked now next_cron (enqueue_ok tid) row)" by (simp add: L)
    then show ?thesis by (simp add: ticked_def)
  qed
  moreover have "map_of tbl' tid = map_of tbl tid" if "tid \<notin> fst ` set ?d" for tid
    using that by (simp add: L map_of_eq_None_iff [THEN iffD2])
  ultimately show ?thesis using Q by (intro conjI ballI allI impI) (simp_all add: case_prod_unfold)
qed

theorem scheduler_tick_exact_witness:
  "snd (tick 10 (\<lambda>_. Some 70) (\<lambda>t. t \<noteq> ''b'')
     ([(''a'', new_task ''r'' [] 3 None (Some 5)), (''b'', new_task ''r'' [] 3 (Some ''* * * * *'') (Some 4)),
       (''c'', new_task ''r'' [] 3 None (Some 99))], [])) = [''a'']"
proof -
  let ?tbl = "[(''a'', new_task ''r'' [] 3 None (Some 5)), (''b'', new_task ''r'' [] 3 (Some ''* * * * *'') (Some 4)),
       (''c'', new_task ''r'' [] 3 None (Some 99))]"
  let ?t = "tick 10 (\<lambda>_. Some 70) (\<lambda>t. t \<noteq> ''b'') (?tbl, [])"
  have "?t = (fst ?t, snd ?t)" by simp
  from scheduler_tick_exact [OF _ this] have "snd ?t = filter (\<lambda>t. t \<noteq> ''b'') (map fst (due_tasks 10 ?tbl))" by simp
  also have "map fst (due_tasks 10 ?tbl) = [''b'', ''a'']" by code_simp
  finally show ?thesis by simp
qed

end
