(* ===== verification/Recovery.thy ===== *)
theory Recovery
  imports Prelude
begin

text \<open>
  Bounded reasoning: the invocation budget (\<open>agent/budget.py\<close>), the failure classifier
  (\<open>agent/recovery.py\<close>), the graph node that calls it and its routing
  (\<open>agent/graph.py\<close>), and the replan counter (\<open>agent/nodes/replan\_node.py\<close>).
  Amounts and times are rational numbers; \<open>perf_counter\<close> is a parameter.
\<close>

section \<open>The budget\<close>

record reasoning_budget =
  max_wall_time_ms :: rat
  max_graph_steps :: int
  max_replans :: int
  max_recovery_attempts :: int
  max_llm_calls :: int
  max_tool_calls :: int
  max_cost_usd :: rat
  budget_started_at :: rat
  consumed :: "(string \<times> rat) list"

text \<open>\<open>getattr(self, f"max_{key}", None)\<close>: the attributes the class has.\<close>

definition budget_limit :: "reasoning_budget \<Rightarrow> string \<Rightarrow> rat option" where
  "budget_limit b key =
    (if key = ''wall_time_ms'' then Some (max_wall_time_ms b)
     else if key = ''graph_steps'' then Some (of_int (max_graph_steps b))
     else if key = ''replans'' then Some (of_int (max_replans b))
     else if key = ''recovery_attempts'' then Some (of_int (max_recovery_attempts b))
     else if key = ''llm_calls'' then Some (of_int (max_llm_calls b))
     else if key = ''tool_calls'' then Some (of_int (max_tool_calls b))
     else if key = ''cost_usd'' then Some (max_cost_usd b)
     else None)"

definition consume :: "string \<Rightarrow> rat \<Rightarrow> reasoning_budget \<Rightarrow> reasoning_budget \<times> bool" where
  "consume key amount b = (case budget_limit b key of
     None \<Rightarrow> (b, True)
   | Some limit \<Rightarrow> let used = dict_get (consumed b) key 0 + amount in
       if limit < used then (b, False) else (b\<lparr>consumed := AList.update key used (consumed b)\<rparr>, True))"

definition settle_cost :: "rat \<Rightarrow> reasoning_budget \<Rightarrow> reasoning_budget" where
  "settle_cost actual b = (if 0 < actual
     then b\<lparr>consumed := AList.update ''cost_usd'' (dict_get (consumed b) ''cost_usd'' 0 + actual) (consumed b)\<rparr> else b)"

definition remaining :: "string \<Rightarrow> reasoning_budget \<Rightarrow> rat" where
  "remaining key b = (case budget_limit b key of None \<Rightarrow> 1 | Some l \<Rightarrow> max 0 (l - dict_get (consumed b) key 0))"

definition elapsed_ms :: "rat \<Rightarrow> reasoning_budget \<Rightarrow> rat" where
  "elapsed_ms now b = (now - budget_started_at b) * 1000"

definition exceeded :: "rat \<Rightarrow> reasoning_budget \<Rightarrow> string option" where
  "exceeded now b = (if max_wall_time_ms b < elapsed_ms now b then Some ''wall_time''
     else map_option fst (find (\<lambda>(key, limit). limit \<le> dict_get (consumed b) key 0)
       [(''graph_steps'', of_int (max_graph_steps b)), (''replans'', of_int (max_replans b)),
        (''recovery'', of_int (max_recovery_attempts b)), (''llm_calls'', of_int (max_llm_calls b)),
        (''tool_calls'', of_int (max_tool_calls b)), (''cost_usd'', max_cost_usd b)]))"

text \<open>\<open>merge\<close>, on the numeric entries of the other ledger.\<close>

definition merge_budget :: "(string \<times> rat) list \<Rightarrow> reasoning_budget \<Rightarrow> reasoning_budget" where
  "merge_budget other b = b\<lparr>consumed :=
     foldl (\<lambda>c (k, v). AList.update k (max (dict_get c k 0) v) c) (consumed b) other\<rparr>"

section \<open>The classifier\<close>

datatype recovery_action = RETRY | SELF_HEAL | REPLAN | FAIL

text \<open>The reason texts, with the values they quote.\<close>

datatype recovery_reason =
    Workflow_owned
  | Rounds_exhausted int int
  | No_failures
  | Approval_denied
  | Budget_exceeded
  | Structural_failure "string list"
  | Contract_with_fallback
  | Contract_without_fallback
  | Transient_failure int
  | No_strategy

record recovery_decision =
  action :: recovery_action
  reason :: recovery_reason
  round_no :: int

record failure =
  f_status :: string
  f_error :: string

definition lower_char :: "char \<Rightarrow> char" where
  "lower_char c = (let n = of_char c :: nat in
     if (65 \<le> n \<and> n \<le> 90) \<or> (192 \<le> n \<and> n \<le> 222 \<and> n \<noteq> 215) then char_of (n + 32) else c)"

definition py_lower :: "string \<Rightarrow> string" where
  "py_lower s = map lower_char s"

text \<open>\<open>str.isdigit\<close>: decimal digits and the superscript digits.\<close>

definition py_isdigit :: "string \<Rightarrow> bool" where
  "py_isdigit s \<longleftrightarrow> s \<noteq> [] \<and> list_all (\<lambda>c. is_digit c \<or> of_char c \<in> {178, 179, 185 :: nat}) s"

definition is_structural :: "failure \<Rightarrow> bool" where
  "is_structural f = (let status = py_lower (f_status f) in
     if status \<in> {''timeout'', ''rate_limited''} then False
     else if status = ''uncertain'' then False
     else if py_isdigit status \<and> starts_with ''5'' status then False
     else status \<in> {''unavailable'', ''tool_not_found''})"

definition is_contract :: "failure \<Rightarrow> bool" where
  "is_contract f = (py_lower (f_status f) = ''validation_error'')"

definition structural_reason :: "failure list \<Rightarrow> bool \<Rightarrow> bool \<Rightarrow> recovery_reason" where
  "structural_reason failures approval_blocked budget_violated =
    (if approval_blocked then Approval_denied else if budget_violated then Budget_exceeded
     else Structural_failure (take 3 (map (\<lambda>f. take 80 (f_error f)) failures)))"

definition decide ::
  "int \<Rightarrow> failure list \<Rightarrow> int \<Rightarrow> int \<Rightarrow> bool \<Rightarrow> bool \<Rightarrow> bool \<Rightarrow> bool \<Rightarrow> recovery_decision" where
  "decide max_rounds failures rounds retries_left has_fallback approval_blocked budget_violated workflow_owned =
    (if workflow_owned then \<lparr>action = FAIL, reason = Workflow_owned, round_no = rounds\<rparr>
     else if max_rounds \<le> rounds then \<lparr>action = FAIL, reason = Rounds_exhausted rounds max_rounds, round_no = rounds\<rparr>
     else if failures = [] \<and> \<not> approval_blocked \<and> \<not> budget_violated then
       \<lparr>action = FAIL, reason = No_failures, round_no = 0\<rparr>
     else if list_ex is_structural failures \<or> approval_blocked \<or> budget_violated then
       \<lparr>action = REPLAN, reason = structural_reason failures approval_blocked budget_violated, round_no = rounds + 1\<rparr>
     else if list_ex is_contract failures \<and> has_fallback then
       \<lparr>action = SELF_HEAL, reason = Contract_with_fallback, round_no = rounds\<rparr>
     else if list_ex is_contract failures then
       \<lparr>action = REPLAN, reason = Contract_without_fallback, round_no = rounds + 1\<rparr>
     else if 0 < retries_left then \<lparr>action = RETRY, reason = Transient_failure retries_left, round_no = rounds\<rparr>
     else \<lparr>action = FAIL, reason = No_strategy, round_no = rounds\<rparr>)"

section \<open>The graph nodes around it\<close>

text \<open>The state entries \<open>recovery_manager_node\<close> and \<open>ReplanNode\<close> read and write.\<close>

record task_result =
  tr_task_id :: string
  tr_failure :: failure

record recovery_state =
  tool_results :: "task_result list"
  validation_failed :: "string list"
  replan_rounds :: int
  total_retry_count :: int
  approval_denied_blocking :: bool
  within_budget :: "bool option"
  active_workflow :: bool
  recovery_decision_of :: "recovery_decision option"

definition validation_failure :: failure where
  "validation_failure = \<lparr>f_status = ''validation_error'', f_error = ''post-execution validation failed''\<rparr>"

definition collect_failures :: "recovery_state \<Rightarrow> failure list" where
  "collect_failures s =
    (let failed = filter (\<lambda>r. f_status (tr_failure r) \<noteq> ''success'') (tool_results s);
         known = map tr_task_id failed in
     map tr_failure failed @
     map (\<lambda>_. validation_failure) (filter (\<lambda>tid. tid \<noteq> [] \<and> tid \<notin> set known) (validation_failed s)))"

definition recovery_manager_node :: "int \<Rightarrow> int \<Rightarrow> recovery_state \<Rightarrow> recovery_state" where
  "recovery_manager_node max_replan max_retries s = s\<lparr>recovery_decision_of := Some
     (decide max_replan (collect_failures s) (replan_rounds s) (max 0 (max_retries - total_retry_count s)) False
        (approval_denied_blocking s) (within_budget s = Some False) (active_workflow s))\<rparr>"

definition route_after_recovery :: "recovery_state \<Rightarrow> string" where
  "route_after_recovery s = (case recovery_decision_of s of None \<Rightarrow> ''ResponseNode''
     | Some d \<Rightarrow> (case action d of RETRY \<Rightarrow> ''ReflectionNode'' | REPLAN \<Rightarrow> ''ReplanNode'' | _ \<Rightarrow> ''ResponseNode''))"

text \<open>\<open>ReplanNode\<close>: the round counter and the shared replan budget.\<close>

definition replan_node :: "recovery_state \<times> reasoning_budget \<Rightarrow> recovery_state \<times> reasoning_budget" where
  "replan_node s = ((fst s)\<lparr>replan_rounds := replan_rounds (fst s) + 1\<rparr>, fst (consume ''replans'' 1 (snd s)))"

section \<open>Budget lemmas\<close>

datatype budget_op = Reserve string rat | Settle rat

fun budget_step :: "reasoning_budget \<Rightarrow> budget_op \<Rightarrow> reasoning_budget" where
  "budget_step b (Reserve key amount) = fst (consume key amount b)"
| "budget_step b (Settle cost) = settle_cost cost b"

lemma consume_frame [simp]:
  "budget_limit (fst (consume key amount b)) k = budget_limit b k"
  by (auto simp: consume_def budget_limit_def Let_def split: option.split)

lemma settle_frame [simp]: "budget_limit (settle_cost a b) k = budget_limit b k"
  by (simp add: settle_cost_def budget_limit_def)

lemma consume_bounded:
  assumes "budget_limit b k = Some l" and "dict_get (consumed b) k 0 \<le> l"
  shows "dict_get (consumed (fst (consume key amount b))) k 0 \<le> l"
  using assms by (auto simp: consume_def Let_def dict_get_update split: option.split)

lemma consume_grant:
  assumes "budget_limit b k = Some l"
  shows "dict_get (consumed (fst (consume k amount b))) k 0
      = dict_get (consumed b) k 0 + (if snd (consume k amount b) then amount else 0)"
  using assms by (auto simp: consume_def Let_def dict_get_update)

text \<open>The sum of the amounts granted for a key in a run of reservations.\<close>

fun granted_sum :: "string \<Rightarrow> reasoning_budget \<Rightarrow> budget_op list \<Rightarrow> rat" where
  "granted_sum k b [] = 0"
| "granted_sum k b (Reserve key amount # ops) =
     (if key = k \<and> snd (consume key amount b) then amount else 0) + granted_sum k (fst (consume key amount b)) ops"
| "granted_sum k b (Settle c # ops) = granted_sum k (settle_cost c b) ops"

lemma consumed_other:
  "key \<noteq> k \<Longrightarrow> dict_get (consumed (fst (consume key amount b))) k 0 = dict_get (consumed b) k 0"
  by (auto simp: consume_def Let_def dict_get_update split: option.split)

lemma granted_run:
  assumes "budget_limit b k = Some l" and "dict_get (consumed b) k 0 \<le> l" and "k \<noteq> ''cost_usd''"
  shows "dict_get (consumed (foldl budget_step b ops)) k 0 = dict_get (consumed b) k 0 + granted_sum k b ops
     \<and> dict_get (consumed (foldl budget_step b ops)) k 0 \<le> l"
  using assms
proof (induction ops arbitrary: b)
  case (Cons op ops)
  show ?case
  proof (cases op)
    case (Reserve key amount)
    have "dict_get (consumed (fst (consume key amount b))) k 0
        = dict_get (consumed b) k 0 + (if key = k \<and> snd (consume key amount b) then amount else 0)"
      using consume_grant [OF Cons.prems(1)] consumed_other by (cases "key = k") auto
    moreover have "dict_get (consumed (foldl budget_step (fst (consume key amount b)) ops)) k 0
        = dict_get (consumed (fst (consume key amount b))) k 0 + granted_sum k (fst (consume key amount b)) ops
      \<and> dict_get (consumed (foldl budget_step (fst (consume key amount b)) ops)) k 0 \<le> l"
      using Cons.prems consume_bounded [OF Cons.prems(1,2)] by (intro Cons.IH) simp_all
    ultimately show ?thesis
      unfolding Reserve foldl.simps budget_step.simps granted_sum.simps by (intro conjI) linarith+
  next
    case (Settle c)
    have "dict_get (consumed (settle_cost c b)) k 0 = dict_get (consumed b) k 0"
      using Cons.prems(3) by (simp add: settle_cost_def dict_get_update)
    with Cons.IH [of "settle_cost c b"] Cons.prems show ?thesis
      unfolding Settle foldl.simps budget_step.simps granted_sum.simps settle_frame by metis
  qed
qed simp

lemma unlimited_never_recorded:
  "budget_limit b k = None \<Longrightarrow> map_of (consumed b) k = None \<Longrightarrow> map_of (consumed (fst (consume key amount b))) k = None"
  by (cases "budget_limit b key") (auto simp: consume_def Let_def map_of_update)

lemma recovery_never_consumed:
  "map_of (consumed b) ''recovery'' = None \<Longrightarrow> map_of (consumed (foldl budget_step b ops)) ''recovery'' = None"
proof (induction ops arbitrary: b)
  case (Cons op ops)
  have "budget_limit b ''recovery'' = None" by (simp add: budget_limit_def)
  then have "map_of (consumed (budget_step b op)) ''recovery'' = None"
    using Cons.prems unlimited_never_recorded by (cases op) (simp_all add: settle_cost_def map_of_update)
  from Cons.IH [OF this] show ?case by simp
qed simp

lemma recovery_limit_frame: "max_recovery_attempts (foldl budget_step b ops) = max_recovery_attempts b"
proof (induction ops arbitrary: b)
  case (Cons op ops)
  have "max_recovery_attempts (budget_step b op) = max_recovery_attempts b"
    by (cases op) (auto simp: consume_def settle_cost_def Let_def split: option.split)
  with Cons show ?case by simp
qed simp

section \<open>Properties\<close>

text \<open>
  C37: Reserve before execute: for every call-count dimension the amounts granted in any
  sequence of reservations and cost settlements never sum to more than the limit, and the
  ledger records exactly what was granted.
\<close>

theorem budget_never_overspent:
  assumes "budget_limit b k = Some l" and "k \<noteq> ''cost_usd''" and "consumed b = []" and "0 \<le> l"
  shows "granted_sum k b ops \<le> l \<and> dict_get (consumed (foldl budget_step b ops)) k 0 = granted_sum k b ops"
  using granted_run [OF assms(1) _ assms(2), of ops] assms(3,4) by (simp add: dict_get_def)

definition example_budget :: reasoning_budget where
  "example_budget = \<lparr>max_wall_time_ms = 120000, max_graph_steps = 50, max_replans = 2, max_recovery_attempts = 3,
     max_llm_calls = 30, max_tool_calls = 40, max_cost_usd = 1, budget_started_at = 0, consumed = []\<rparr>"

theorem budget_never_overspent_witness:
  "granted_sum ''replans'' example_budget [Reserve ''replans'' 1, Settle 5, Reserve ''replans'' 1, Reserve ''replans'' 1] \<le> 2"
  by (rule budget_never_overspent [THEN conjunct1]) (simp_all add: budget_limit_def example_budget_def)

text \<open>
  The recovery dimension is dead: \<open>exceeded\<close> looks it up as \<open>recovery\<close>, a key no
  reservation ever records (the limit is called \<open>max_recovery_attempts\<close>), so while the
  limit is positive no amount of reserved recovery attempts is ever reported.
\<close>

theorem recovery_budget_never_reported:
  assumes "''recovery'' \<notin> fst ` set (consumed b)" and "0 < max_recovery_attempts b"
  shows "exceeded now (foldl budget_step b ops) \<noteq> Some ''recovery''"
proof -
  have "map_of (consumed (foldl budget_step b ops)) ''recovery'' = None"
    using recovery_never_consumed assms(1) by (simp only: map_of_eq_None_iff)
  then have "dict_get (consumed (foldl budget_step b ops)) ''recovery'' 0 = 0" by (simp add: dict_get_def)
  with assms(2) show ?thesis by (auto simp: exceeded_def recovery_limit_frame)
qed

theorem recovery_budget_never_reported_witness:
  "exceeded 1 (foldl budget_step example_budget (replicate 9 (Reserve ''recovery'' 1))) \<noteq> Some ''recovery''"
  by (rule recovery_budget_never_reported) (simp_all add: example_budget_def)

text \<open>
  The classifier is a function of typed statuses with a fixed priority: workflow-owned
  and exhausted runs fail; a structural failure, a blocking denial or a violated budget
  replans; only then does a contract failure heal or replan; only then is anything retried.
\<close>

theorem decide_priority:
  "action (decide m fs r t fb ab bv wo) =
    (if wo \<or> m \<le> r \<or> (fs = [] \<and> \<not> ab \<and> \<not> bv) then FAIL
     else if ab \<or> bv \<or> (\<exists>f \<in> set fs. py_lower (f_status f) \<in> {''unavailable'', ''tool_not_found''}) then REPLAN
     else if (\<exists>f \<in> set fs. py_lower (f_status f) = ''validation_error'') then (if fb then SELF_HEAL else REPLAN)
     else if 0 < t then RETRY else FAIL)"
proof -
  have "is_structural f \<longleftrightarrow> py_lower (f_status f) \<in> {''unavailable'', ''tool_not_found''}" for f
    by (auto simp: is_structural_def Let_def py_isdigit_def starts_with_def is_digit_def)
  then show ?thesis by (simp add: decide_def is_contract_def list_ex_iff)
qed

text \<open>
  A run of the recovery loop: before each visit of the recovery node the executor and the
  other nodes have filled in the state arbitrarily, except for the replan counter.
\<close>

fun recovery_loop :: "int \<Rightarrow> int \<Rightarrow> recovery_state list \<Rightarrow> int \<Rightarrow> reasoning_budget \<Rightarrow> recovery_action list" where
  "recovery_loop m mr [] rounds b = []"
| "recovery_loop m mr (s # ss) rounds b =
    (let s1 = recovery_manager_node m mr (s\<lparr>replan_rounds := rounds\<rparr>);
         next_state = (if route_after_recovery s1 = ''ReplanNode'' then replan_node (s1, b) else (s1, b))
     in action (the (recovery_decision_of s1)) # recovery_loop m mr ss (replan_rounds (fst next_state)) (snd next_state))"

lemma route_replan:
  "route_after_recovery (recovery_manager_node m mr s) = ''ReplanNode''
     \<longleftrightarrow> action (the (recovery_decision_of (recovery_manager_node m mr s))) = REPLAN"
  by (simp add: route_after_recovery_def recovery_manager_node_def split: recovery_action.split)

lemma decide_replan_bound: "action (decide m fs r t fb ab bv wo) = REPLAN \<Longrightarrow> r < m"
  by (auto simp: decide_def split: if_splits)

text \<open>
  C38: Replanning terminates: however the executions between them fail, in any run of the
  recovery loop the number of decisions to replan is at most the configured maximum, because
  every replan advances the round counter that the classifier checks first.
\<close>

theorem replans_bounded:
  "int (count_list (recovery_loop m mr ss rounds b) REPLAN) \<le> max 0 (m - rounds)"
proof (induction ss arbitrary: rounds b)
  case (Cons s ss)
  let ?s = "recovery_manager_node m mr (s\<lparr>replan_rounds := rounds\<rparr>)"
  have r: "replan_rounds ?s = rounds" by (simp add: recovery_manager_node_def)
  show ?case
  proof (cases "action (the (recovery_decision_of ?s)) = REPLAN")
    case True
    then have "rounds < m" by (auto simp: recovery_manager_node_def dest: decide_replan_bound)
    then show ?thesis
      using True r Cons.IH [of "rounds + 1" "fst (consume ''replans'' 1 b)"] by (simp add: Let_def route_replan replan_node_def)
  next
    case False
    with Cons.IH [of rounds b] r show ?thesis by (simp add: Let_def route_replan)
  qed
qed simp

text \<open>
  A call whose outcome is unknown is retried: the classifier's documentation says an
  \<open>uncertain\<close> failure is never retried, but nothing in \<open>decide\<close> excludes it, so with
  retries left it is treated as transient.
\<close>

theorem uncertain_failure_is_retried:
  assumes "rounds < max_rounds" and "0 < retries"
  shows "action (decide max_rounds [\<lparr>f_status = ''uncertain'', f_error = err\<rparr>] rounds retries fb False False False) = RETRY"
proof -
  have "py_lower ''uncertain'' = ''uncertain''" by code_simp
  with assms show ?thesis by (simp add: decide_priority)
qed

theorem uncertain_failure_is_retried_witness:
  "action (decide 1 [\<lparr>f_status = ''uncertain'', f_error = ''cancelled''\<rparr>] 0 2 False False False False) = RETRY"
  by (rule uncertain_failure_is_retried) simp_all

end
