(* ===== verification/Rate_Limit.thy ===== *)
theory Rate_Limit
  imports Prelude
begin

text \<open>
  Rate limiting: the two Redis scripts and their clients (\<open>redis\_client/rate\_limiter.py\<close>)
  and the HTTP middleware (\<open>security/rate\_limit.py\<close>).  A script runs atomically; client
  and server share one clock.  Keys with an expiry in the past read as absent.
\<close>

section \<open>Sliding window\<close>

text \<open>
  The sorted set of one key: members \<open>now:seq\<close> with their score, the sequence counter,
  and the expiry times of both keys.
\<close>

record window_state =
  members :: "((int \<times> int) \<times> int) list"
  seq_no :: int
  set_expires :: "int option"
  seq_expires :: "int option"

definition empty_window :: window_state where
  "empty_window = \<lparr>members = [], seq_no = 0, set_expires = None, seq_expires = None\<rparr>"

definition expired :: "int \<Rightarrow> int option \<Rightarrow> bool" where
  "expired now e = (case e of None \<Rightarrow> False | Some t \<Rightarrow> t \<le> now)"

definition expire_keys :: "int \<Rightarrow> window_state \<Rightarrow> window_state" where
  "expire_keys now s =
    (let s1 = (if expired now (set_expires s) then s\<lparr>members := [], set_expires := None\<rparr> else s) in
     if expired now (seq_expires s1) then s1\<lparr>seq_no := 0, seq_expires := None\<rparr> else s1)"

definition sliding_window_script :: "int \<Rightarrow> int \<Rightarrow> int \<Rightarrow> window_state \<Rightarrow> window_state \<times> bool" where
  "sliding_window_script now window max_requests s0 =
    (let s1 = expire_keys now s0;
         s2 = s1\<lparr>members := filter (\<lambda>(m, score). \<not> (0 \<le> score \<and> score \<le> now - window)) (members s1)\<rparr> in
     if max_requests \<le> int (length (members s2)) then (s2, False)
     else let n = seq_no s2 + 1 in
       (s2\<lparr>members := AList.update (now, n) now (members s2), seq_no := n,
           set_expires := Some (now + window), seq_expires := Some (now + window)\<rparr>, True))"

datatype acquire_result = Allowed | Denied | Limit_error rat

text \<open>\<open>SlidingWindowRateLimiter.acquire\<close>; \<open>now_ms\<close> is the clock in milliseconds.\<close>

definition sliding_acquire ::
  "int \<Rightarrow> int \<Rightarrow> int \<Rightarrow> bool \<Rightarrow> window_state \<Rightarrow> window_state \<times> acquire_result" where
  "sliding_acquire now_ms max_requests window_s raise_on_limit s =
    (let r = sliding_window_script now_ms (window_s * 1000) max_requests s in
     (fst r, if snd r then Allowed else if raise_on_limit then Limit_error (of_int window_s) else Denied))"

section \<open>Token bucket\<close>

text \<open>Tokens, time stamp and expiry; \<open>None\<close> is an absent hash.\<close>

type_synonym bucket = "(rat \<times> rat \<times> rat) option"

definition live_bucket :: "rat \<Rightarrow> bucket \<Rightarrow> bucket" where
  "live_bucket now b = (case b of None \<Rightarrow> None | Some (tokens, ts, e) \<Rightarrow> if e \<le> now then None else b)"

definition bucket_level :: "rat \<Rightarrow> rat \<Rightarrow> rat \<Rightarrow> bucket \<Rightarrow> rat" where
  "bucket_level now rate capacity b = (case live_bucket now b of
     None \<Rightarrow> min capacity (capacity + max 0 (now - now) * rate)
   | Some (tokens, ts, e) \<Rightarrow> min capacity (tokens + max 0 (now - ts) * rate))"

text \<open>The script; the second component is the remaining tokens, or \<open>- 1\<close>.\<close>

definition token_bucket_script :: "rat \<Rightarrow> rat \<Rightarrow> rat \<Rightarrow> rat \<Rightarrow> bucket \<Rightarrow> bucket \<times> rat" where
  "token_bucket_script now rate capacity requested b =
    (let refilled = bucket_level now rate capacity b in
     if refilled < requested then (live_bucket now b, - 1)
     else (Some (refilled - requested, now, now + of_int \<lceil>capacity / rate * 1000\<rceil> / 1000), refilled - requested))"

text \<open>\<open>TokenBucketRateLimiter.acquire\<close>; Redis truncates the reply to an integer.\<close>

definition redis_int :: "rat \<Rightarrow> int" where
  "redis_int x = (if x < 0 then \<lceil>x\<rceil> else \<lfloor>x\<rfloor>)"

definition bucket_acquire :: "rat \<Rightarrow> rat \<Rightarrow> rat \<Rightarrow> rat \<Rightarrow> bool \<Rightarrow> bucket \<Rightarrow> bucket \<times> acquire_result" where
  "bucket_acquire now rate capacity tokens raise_on_limit b =
    (let r = token_bucket_script now rate capacity tokens b; remaining = redis_int (snd r) in
     (fst r, if 0 \<le> remaining then Allowed
       else if raise_on_limit then Limit_error ((tokens - of_int remaining) / rate) else Denied))"

section \<open>The middleware\<close>

record limiter_store =
  ip_windows :: "(string \<times> window_state) list"
  feature_windows :: "((string \<times> string) \<times> window_state) list"

definition feature_limits :: "(string \<times> int \<times> int) list" where
  "feature_limits = [(''chat'', 30, 60), (''tools'', 60, 60)]"

datatype http_result = Passed_on | Too_many_requests

text \<open>
  \<open>dispatch\<close> up to the response: \<open>Inl\<close> is the exception that the surrounding
  \<open>try\<close> block catches.  The limiters are called with their default \<open>raise_on_limit\<close>.
\<close>

definition check_ip :: "int \<Rightarrow> string \<Rightarrow> limiter_store \<Rightarrow> limiter_store \<times> (rat + bool)" where
  "check_ip now ip st =
    (let r = sliding_acquire now 100 60 True (dict_get (ip_windows st) ip empty_window);
         st' = st\<lparr>ip_windows := AList.update ip (fst r) (ip_windows st)\<rparr> in
     (st', case snd r of Allowed \<Rightarrow> Inr True | Denied \<Rightarrow> Inr False | Limit_error t \<Rightarrow> Inl t))"

definition check_feature :: "int \<Rightarrow> string \<Rightarrow> string \<Rightarrow> limiter_store \<Rightarrow> limiter_store \<times> (rat + bool)" where
  "check_feature now ip path st =
    (case find (\<lambda>(f, lim). contains_str (''/'' @ f) path) feature_limits of
       None \<Rightarrow> (st, Inr True)
     | Some (f, max_r, window) \<Rightarrow>
        (let r = sliding_acquire now max_r window True (dict_get (feature_windows st) (f, ip) empty_window);
             st' = st\<lparr>feature_windows := AList.update (f, ip) (fst r) (feature_windows st)\<rparr> in
         (st', case snd r of Allowed \<Rightarrow> Inr True | Denied \<Rightarrow> Inr False | Limit_error t \<Rightarrow> Inl t)))"

definition dispatch :: "bool \<Rightarrow> int \<Rightarrow> string \<Rightarrow> string \<Rightarrow> limiter_store \<Rightarrow> limiter_store \<times> http_result" where
  "dispatch redis_up now ip path st =
    (if \<not> redis_up then (st, Passed_on)
     else case check_ip now ip st of
       (st1, Inl e) \<Rightarrow> (st1, Passed_on)
     | (st1, Inr False) \<Rightarrow> (st1, Too_many_requests)
     | (st1, Inr True) \<Rightarrow> (case check_feature now ip path st1 of
           (st2, Inl e) \<Rightarrow> (st2, Passed_on)
         | (st2, Inr False) \<Rightarrow> (st2, Too_many_requests)
         | (st2, Inr True) \<Rightarrow> (st2, Passed_on)))"

section \<open>Sliding window: the set is the recent history\<close>

text \<open>A run of script calls at given times; the history is the times admitted.\<close>

fun window_run :: "int \<Rightarrow> int \<Rightarrow> int list \<Rightarrow> window_state \<Rightarrow> window_state \<times> bool list" where
  "window_run window m [] s = (s, [])"
| "window_run window m (t # ts) s =
    (let (s', ok) = sliding_window_script t window m s; (s'', oks) = window_run window m ts s' in (s'', ok # oks))"

definition admitted :: "int list \<Rightarrow> bool list \<Rightarrow> int list" where
  "admitted ts oks = map fst (filter snd (zip ts oks))"

definition window_inv :: "int \<Rightarrow> int \<Rightarrow> int list \<Rightarrow> window_state \<Rightarrow> bool" where
  "window_inv window now hist s \<longleftrightarrow>
     sorted hist \<and> (\<forall>t \<in> set hist. 0 \<le> t \<and> t \<le> now)
     \<and> map snd (members s) = filter (\<lambda>t. now - window < t) hist
     \<and> (\<forall>((n, q), t) \<in> set (members s). n = t \<and> (n = now \<longrightarrow> q \<le> seq_no s))
     \<and> set_expires s = seq_expires s
     \<and> (case set_expires s of None \<Rightarrow> members s = [] | Some e \<Rightarrow> hist \<noteq> [] \<and> e = last hist + window)"

lemma window_inv_empty: "window_inv window now [] empty_window"
  by (simp add: window_inv_def empty_window_def)

text \<open>After expiry and pruning the set holds exactly the admissions inside the window.\<close>

definition pruned :: "int \<Rightarrow> int \<Rightarrow> window_state \<Rightarrow> window_state" where
  "pruned now window s = (let s1 = expire_keys now s in
     s1\<lparr>members := filter (\<lambda>(m, score). \<not> (0 \<le> score \<and> score \<le> now - window)) (members s1)\<rparr>)"

lemma script_pruned:
  "sliding_window_script now window m s = (let s2 = pruned now window s in
     if m \<le> int (length (members s2)) then (s2, False)
     else let n = seq_no s2 + 1 in
       (s2\<lparr>members := AList.update (now, n) now (members s2), seq_no := n,
           set_expires := Some (now + window), seq_expires := Some (now + window)\<rparr>, True))"
  by (simp add: sliding_window_script_def pruned_def Let_def)

lemma map_snd_filter: "map snd (filter (\<lambda>(m, t). P t) xs) = filter P (map snd xs)"
  by (induction xs) auto

lemma sorted_le_last: "sorted xs \<Longrightarrow> x \<in> set xs \<Longrightarrow> x \<le> last (xs :: int list)"
  by (induction xs) (auto split: if_splits)

lemma window_member_score:
  assumes "window_inv window now hist s" "p \<in> set (members s)"
  shows "0 \<le> snd p \<and> snd p \<le> now \<and> now - window < snd p"
proof -
  have "snd p \<in> set (map snd (members s))" using assms(2) by simp
  with assms(1) show ?thesis unfolding window_inv_def by auto
qed

lemma pruned_inv:
  assumes I: "window_inv window now hist s" and t: "now \<le> t" and w: "0 < window"
  shows "window_inv window t hist (pruned t window s)"
proof (cases "expired t (set_expires s)")
  case True
  then obtain e where e: "set_expires s = Some e" "e \<le> t" by (auto simp: expired_def split: option.splits)
  with I have l: "e = last hist + window" and so: "sorted hist" by (auto simp: window_inv_def)
  have "\<forall>x \<in> set hist. x \<le> t - window"
  proof
    fix x assume "x \<in> set hist"
    then have "x \<le> last hist" by (rule sorted_le_last [OF so])
    then show "x \<le> t - window" using l e(2) by simp
  qed
  then have "filter (\<lambda>x. t - window < x) hist = []" by (auto simp: filter_empty_conv)
  with I True t show ?thesis
    by (auto simp: window_inv_def pruned_def expire_keys_def expired_def Let_def split: option.splits)
next
  case False
  have f: "filter (\<lambda>x. t - window < x) (filter (\<lambda>x. now - window < x) hist) = filter (\<lambda>x. t - window < x) hist"
    using t by (auto simp: intro!: filter_cong)
  have neg: "filter (\<lambda>(m, x). \<not> (0 \<le> x \<and> x \<le> t - window)) (members s) = filter (\<lambda>(m, x). t - window < x) (members s)"
  proof (rule filter_cong)
    fix p assume "p \<in> set (members s)"
    then have "0 \<le> snd p" using window_member_score [OF I] by blast
    then show "(case p of (m, x) \<Rightarrow> \<not> (0 \<le> x \<and> x \<le> t - window)) = (case p of (m, x) \<Rightarrow> t - window < x)"
      by (cases p) auto
  qed simp
  have p: "pruned t window s = s\<lparr>members := filter (\<lambda>(m, x). t - window < x) (members s)\<rparr>"
    using False I neg by (simp add: pruned_def expire_keys_def Let_def window_inv_def)
  have mem: "n = x \<and> (n = t \<longrightarrow> q \<le> seq_no s)" if "((n, q), x) \<in> set (members s)" for n q x
    using that window_member_score [OF I that] I t unfolding window_inv_def by auto
  from I t f mem show ?thesis
    unfolding p window_inv_def by (auto simp: map_snd_filter split: option.splits)
qed


lemma update_fresh: "k \<notin> fst ` set al \<Longrightarrow> AList.update k v al = al @ [(k, v)]"
  by (induction al) auto

lemma script_step:
  fixes m :: int
  assumes I: "window_inv window now hist s" and t: "now \<le> t" "0 \<le> t" and w: "0 < window"
  defines "ok \<equiv> int (length (filter (\<lambda>x. t - window < x) hist)) < m"
  shows "snd (sliding_window_script t window m s) = ok"
    and "window_inv window t (if ok then hist @ [t] else hist) (fst (sliding_window_script t window m s))"
proof -
  let ?s = "pruned t window s"
  have J: "window_inv window t hist ?s" by (rule pruned_inv [OF I t(1) w])
  have len: "length (members ?s) = length (filter (\<lambda>x. t - window < x) hist)"
    using J unfolding window_inv_def by (metis length_map)
  have fresh: "(t, seq_no ?s + 1) \<notin> fst ` set (members ?s)"
    using J unfolding window_inv_def by force
  show "snd (sliding_window_script t window m s) = ok"
    by (simp add: script_pruned Let_def len ok_def not_less)
  show "window_inv window t (if ok then hist @ [t] else hist) (fst (sliding_window_script t window m s))"
  proof (cases ok)
    case False
    with J show ?thesis by (simp add: script_pruned Let_def len ok_def not_less)
  next
    case True
    with len have "\<not> m \<le> int (length (members ?s))" by (simp add: ok_def)
    with True J w t show ?thesis
      by (auto simp: script_pruned Let_def update_fresh [OF fresh] window_inv_def sorted_append)
  qed
qed

text \<open>The reference limiter keeps the complete history of admissions.\<close>

fun log_limiter :: "int \<Rightarrow> int \<Rightarrow> int list \<Rightarrow> int list \<Rightarrow> bool list" where
  "log_limiter window m hist [] = []"
| "log_limiter window m hist (t # ts) =
    (let ok = int (length (filter (\<lambda>x. t - window < x) hist)) < m in
     ok # log_limiter window m (if ok then hist @ [t] else hist) ts)"

lemma window_run_log:
  "window_inv window now hist s \<Longrightarrow> sorted (now # ts) \<Longrightarrow> 0 \<le> now \<Longrightarrow> 0 < window \<Longrightarrow>
   snd (window_run window m ts s) = log_limiter window m hist ts"
proof (induction ts arbitrary: now hist s)
  case (Cons t ts)
  then have t: "now \<le> t" "0 \<le> t" and so: "sorted (t # ts)" by auto
  note st = script_step [OF Cons.prems(1) t Cons.prems(4), where m = m]
  from Cons.IH [OF st(2) so t(2) Cons.prems(4)] st(1) show ?case
    by (simp add: Let_def split_beta del: sorted_wrt.simps)
qed simp

lemma admitted_Cons: "admitted (t # ts) (ok # oks) = (if ok then t # admitted ts oks else admitted ts oks)"
  by (simp add: admitted_def)

lemma log_limiter_bound:
  "sorted (hist @ ts) \<Longrightarrow> 0 \<le> m \<Longrightarrow>
   (\<And>u. int (length (filter (\<lambda>x. u - window < x \<and> x \<le> u) hist)) \<le> m) \<Longrightarrow>
   int (length (filter (\<lambda>x. u - window < x \<and> x \<le> u) (hist @ admitted ts (log_limiter window m hist ts)))) \<le> m"
proof (induction ts arbitrary: hist)
  case Nil
  then show ?case by (simp add: admitted_def)
next
  case (Cons t ts)
  let ?ok = "int (length (filter (\<lambda>x. t - window < x) hist)) < m"
  show ?case
  proof (cases ?ok)
    case False
    have "sorted (hist @ ts)" using Cons.prems(1) by (auto simp: sorted_append)
    from Cons.IH [OF this Cons.prems(2,3)] False show ?thesis by (simp add: admitted_Cons)
  next
    case True
    have so: "sorted ((hist @ [t]) @ ts)" using Cons.prems(1) by simp
    have le: "\<And>x. x \<in> set hist \<Longrightarrow> x \<le> t" using Cons.prems(1) by (auto simp: sorted_append)
    have "int (length (filter (\<lambda>x. u - window < x \<and> x \<le> u) (hist @ [t]))) \<le> m" for u
    proof (cases "u - window < t \<and> t \<le> u")
      case in_window: True
      have "length (filter (\<lambda>x. u - window < x \<and> x \<le> u) hist) \<le> length (filter (\<lambda>x. t - window < x) hist)"
        using in_window by (induction hist) auto
      with True in_window show ?thesis by simp
    next
      case False
      with Cons.prems(3) show ?thesis by auto
    qed
    from Cons.IH [OF so Cons.prems(2) this] True show ?thesis by (simp add: admitted_Cons)
  qed
qed

text \<open>C33: The Redis sliding window decides every request exactly as a limiter with an
  unbounded log would: it admits a request at time \<open>t\<close> iff fewer than the maximum were
  admitted in \<open>(t - window, t]\<close>, although it forgets, expires and renumbers entries.\<close>

theorem sliding_window_exact:
  assumes "sorted ts" "\<forall>t \<in> set ts. 0 \<le> t" "0 < window"
  shows "snd (window_run window m ts empty_window) = log_limiter window m [] ts"
  using assms window_run_log [OF window_inv_empty, of 0 ts window m] by simp

theorem sliding_window_exact_witness:
  "snd (window_run 10 2 [1, 2, 3, 11, 12] empty_window) = [True, True, False, True, True]"
  by (subst sliding_window_exact) (simp_all add: Let_def)

text \<open>Whatever the request times, no interval of one window's length contains more
  admitted requests than the maximum.\<close>

theorem sliding_window_never_exceeded:
  assumes "sorted ts" "\<forall>t \<in> set ts. 0 \<le> t" "0 < window" "0 \<le> m"
  shows "int (length (filter (\<lambda>x. u - window < x \<and> x \<le> u)
           (admitted ts (snd (window_run window m ts empty_window))))) \<le> m"
proof -
  have "snd (window_run window m ts empty_window) = log_limiter window m [] ts"
    using assms window_run_log [OF window_inv_empty, of 0 ts window m] by simp
  with assms log_limiter_bound [of "[]" ts m window u] show ?thesis by simp
qed

theorem sliding_window_never_exceeded_witness:
  "int (length (filter (\<lambda>x. 12 - 10 < x \<and> x \<le> 12)
     (admitted [1, 2, 3, 11, 12] (snd (window_run 10 2 [1, 2, 3, 11, 12] empty_window))))) \<le> 2"
  by (rule sliding_window_never_exceeded) simp_all

section \<open>Token bucket: conservation\<close>

definition bucket_ok :: "rat \<Rightarrow> rat \<Rightarrow> rat \<Rightarrow> bucket \<Rightarrow> bool" where
  "bucket_ok now rate capacity b = (case b of None \<Rightarrow> True
   | Some (tokens, ts, e) \<Rightarrow> 0 \<le> tokens \<and> tokens \<le> capacity \<and> ts \<le> now \<and> ts + capacity / rate \<le> e)"

lemma expiry_long_enough: "capacity / rate \<le> of_int \<lceil>capacity / rate * 1000\<rceil> / (1000 :: rat)"
proof -
  have "capacity / rate * 1000 \<le> of_int \<lceil>capacity / rate * 1000\<rceil>" by simp
  then show ?thesis by simp
qed

text \<open>Expiry cannot be observed: an expired bucket would have refilled completely.\<close>

lemma expired_is_full:
  assumes "bucket_ok now rate capacity (Some (tokens, ts, e))" "e \<le> now" "0 < rate"
  shows "capacity \<le> tokens + (now - ts) * rate"
proof -
  have "capacity / rate \<le> now - ts" using assms by (simp add: bucket_ok_def)
  then have "capacity \<le> (now - ts) * rate" using assms(3) by (simp add: pos_divide_le_eq)
  with assms show ?thesis by (simp add: bucket_ok_def)
qed

lemma bucket_level_eq:
  assumes "bucket_ok now rate capacity b" "0 < rate"
  shows "bucket_level now rate capacity b = (case b of None \<Rightarrow> capacity
           | Some (tokens, ts, e) \<Rightarrow> min capacity (tokens + (now - ts) * rate))"
proof (cases b)
  case (Some p)
  obtain tokens ts e where p: "p = (tokens, ts, e)" by (cases p)
  show ?thesis
  proof (cases "e \<le> now")
    case True
    with assms Some p expired_is_full [of now rate capacity tokens ts e] show ?thesis
      by (simp add: bucket_level_def live_bucket_def)
  next
    case False
    with assms Some p show ?thesis by (simp add: bucket_level_def live_bucket_def bucket_ok_def max_def)
  qed
qed (simp add: bucket_level_def live_bucket_def)

lemma bucket_ok_later: "bucket_ok now rate capacity b \<Longrightarrow> now \<le> t \<Longrightarrow> bucket_ok t rate capacity b"
  by (auto simp: bucket_ok_def split: option.splits)

lemma level_growth:
  assumes "bucket_ok now rate capacity b" "0 < rate" "now \<le> t"
  shows "bucket_level t rate capacity b \<le> bucket_level now rate capacity b + rate * (t - now)"
    and "min capacity (bucket_level now rate capacity b + rate * (t - now)) \<le> bucket_level t rate capacity b"
proof -
  have ok: "bucket_ok t rate capacity b" by (rule bucket_ok_later [OF assms(1,3)])
  have grow: "0 \<le> rate * (t - now)" using assms(2,3) by simp
  have split: "(t - ts) * rate = (now - ts) * rate + rate * (t - now)" for ts by (simp add: algebra_simps)
  show "bucket_level t rate capacity b \<le> bucket_level now rate capacity b + rate * (t - now)"
    using grow unfolding bucket_level_eq [OF ok assms(2)] bucket_level_eq [OF assms(1,2)]
    by (cases b) (auto simp: split min_def split: if_splits)
  show "min capacity (bucket_level now rate capacity b + rate * (t - now)) \<le> bucket_level t rate capacity b"
    using grow unfolding bucket_level_eq [OF ok assms(2)] bucket_level_eq [OF assms(1,2)]
    by (cases b) (auto simp: split min_def split: if_splits)
qed

lemma script_grant:
  assumes "bucket_ok now rate capacity b" "0 < rate" "0 < capacity" "0 \<le> req"
  defines "r \<equiv> token_bucket_script now rate capacity req b"
  shows "bucket_ok now rate capacity (fst r)"
    and "bucket_level now rate capacity (fst r) =
           (if req \<le> bucket_level now rate capacity b then bucket_level now rate capacity b - req
            else bucket_level now rate capacity b)"
    and "0 \<le> redis_int (snd r) \<longleftrightarrow> req \<le> bucket_level now rate capacity b"
proof -
  let ?l = "bucket_level now rate capacity b"
  have l: "?l \<le> capacity" by (auto simp: bucket_level_def split: option.splits)
  have live: "bucket_ok now rate capacity (live_bucket now b)"
    "bucket_level now rate capacity (live_bucket now b) = ?l"
    using assms(1) by (auto simp: live_bucket_def bucket_level_def bucket_ok_def split: option.splits)
  have ok: "bucket_ok now rate capacity (fst r)"
    using l live assms(4) expiry_long_enough [of capacity rate]
    by (auto simp: r_def token_bucket_script_def Let_def bucket_ok_def not_less)
  show "bucket_ok now rate capacity (fst r)" by (rule ok)
  show "bucket_level now rate capacity (fst r) = (if req \<le> ?l then ?l - req else ?l)"
  proof (cases "req \<le> ?l")
    case True
    with bucket_level_eq [OF ok assms(2)] l assms(4) show ?thesis
      by (simp add: r_def token_bucket_script_def Let_def min_def)
  next
    case False
    with live show ?thesis by (simp add: r_def token_bucket_script_def Let_def)
  qed
  show "0 \<le> redis_int (snd r) \<longleftrightarrow> req \<le> ?l"
    by (auto simp: r_def token_bucket_script_def Let_def redis_int_def)
qed

text \<open>A run of \<open>acquire\<close> calls \<open>(time, tokens)\<close> and the number of tokens it hands out.\<close>

fun bucket_run :: "rat \<Rightarrow> rat \<Rightarrow> (rat \<times> rat) list \<Rightarrow> bucket \<Rightarrow> rat" where
  "bucket_run rate capacity [] b = 0"
| "bucket_run rate capacity ((t, req) # qs) b =
    (let (b', res) = bucket_acquire t rate capacity req False b in
     (if res = Allowed then req else 0) + bucket_run rate capacity qs b')"

lemma bucket_run_bound:
  "bucket_ok now rate capacity b \<Longrightarrow> 0 < rate \<Longrightarrow> 0 < capacity \<Longrightarrow> sorted (now # map fst qs)
   \<Longrightarrow> \<forall>q \<in> set qs. 0 \<le> snd q \<Longrightarrow>
   bucket_run rate capacity qs b \<le> bucket_level now rate capacity b + rate * (last (now # map fst qs) - now)"
proof (induction qs arbitrary: now b)
  case Nil
  then show ?case by (auto simp: bucket_level_eq bucket_ok_def split: option.splits)
next
  case (Cons q qs)
  obtain t req where q: "q = (t, req)" by (cases q)
  with Cons.prems have t: "now \<le> t" and req: "0 \<le> req" and so: "sorted (t # map fst qs)" by auto
  let ?r = "token_bucket_script t rate capacity req b"
  have ok: "bucket_ok t rate capacity b" by (rule bucket_ok_later [OF Cons.prems(1) t])
  note g = script_grant [OF ok Cons.prems(2,3) req]
  have "bucket_run rate capacity qs (fst ?r)
      \<le> bucket_level t rate capacity (fst ?r) + rate * (last (t # map fst qs) - t)"
    using Cons.IH [OF g(1) Cons.prems(2,3) so] Cons.prems(5) by simp
  moreover have "bucket_level t rate capacity b \<le> bucket_level now rate capacity b + rate * (t - now)"
    by (rule level_growth(1) [OF Cons.prems(1,2) t])
  moreover have "bucket_run rate capacity (q # qs) b = (if req \<le> bucket_level t rate capacity b then req else 0)
      + bucket_run rate capacity qs (fst ?r)"
    using g(3) by (simp add: q bucket_acquire_def Let_def)
  moreover have "last (now # map fst (q # qs)) = last (t # map fst qs)" by (simp add: q)
  ultimately show ?case using g(2) by (simp add: algebra_simps split: if_splits)
qed

text \<open>C34: Over any run of requests a token bucket hands out at most its capacity plus the
  refill of the elapsed time, although Redis may delete the key meanwhile.\<close>

theorem token_bucket_conservation:
  assumes "0 < rate" "0 < capacity" "sorted (t # map fst qs)" "\<forall>q \<in> set qs. 0 \<le> snd q"
  shows "bucket_run rate capacity qs None \<le> capacity + rate * (last (t # map fst qs) - t)"
  using bucket_run_bound [of t rate capacity None qs] assms
  by (simp add: bucket_ok_def bucket_level_eq)

theorem token_bucket_conservation_witness:
  "bucket_run 1 2 [(0, 2), (1, 1), (1, 1)] None \<le> 2 + 1 * (last (0 # map fst [(0, 2), (1, 1), (1, 1 :: rat)]) - 0)"
  by (rule token_bucket_conservation) simp_all

text \<open>The suggested delay of a rejected request is sufficient: the same request, made
  after the delay with nobody else drawing tokens, is admitted.\<close>

theorem retry_after_sufficient:
  assumes "bucket_ok now rate capacity b" "0 < rate" "0 < capacity" "0 \<le> req" "req \<le> capacity"
    and "bucket_acquire now rate capacity req True b = (b', Limit_error d)"
  shows "snd (bucket_acquire (now + d) rate capacity req True b') = Allowed"
proof -
  let ?r = "token_bucket_script now rate capacity req b"
  note g = script_grant [OF assms(1-4)]
  have r: "b' = fst ?r" "\<not> req \<le> bucket_level now rate capacity b"
    "d = (req - of_int (redis_int (snd ?r))) / rate"
    using assms(6) g(3) by (auto simp: bucket_acquire_def Let_def split: if_splits)
  then have d: "d = (req + 1) / rate" by (simp add: token_bucket_script_def Let_def redis_int_def)
  then have pos: "0 \<le> d" using assms(2,4) by simp
  have "0 \<le> bucket_level now rate capacity b'"
    using g(1) assms(2,3) r(1) by (auto simp: bucket_level_eq bucket_ok_def split: option.splits)
  then have "req \<le> min capacity (bucket_level now rate capacity b' + rate * (now + d - now))"
    using assms(2,5) d by simp
  also have "\<dots> \<le> bucket_level (now + d) rate capacity b'"
    using level_growth(2) [of now rate capacity b' "now + d"] g(1) r(1) assms(2) pos by simp
  finally have "req \<le> bucket_level (now + d) rate capacity b'" .
  moreover have "bucket_ok (now + d) rate capacity b'"
    using bucket_ok_later [of now rate capacity b' "now + d"] g(1) r(1) pos by simp
  ultimately show ?thesis
    using script_grant(3) [of "now + d" rate capacity b' req] assms(2-4) by (simp add: bucket_acquire_def Let_def)
qed

theorem retry_after_sufficient_witness:
  "snd (bucket_acquire (10 + 2) 1 2 1 True (Some (0, 10, 20))) = Allowed"
  by (rule retry_after_sufficient [of 10 1 2 "Some (0, 10, 20)" 1 "Some (0, 10, 20)"])
     (simp_all add: bucket_ok_def bucket_acquire_def token_bucket_script_def bucket_level_def
        live_bucket_def redis_int_def Let_def)

section \<open>The middleware never rejects\<close>

lemma acquire_raises: "snd (sliding_acquire now m w True s) \<noteq> Denied"
  by (simp add: sliding_acquire_def Let_def)

lemma checks_never_false:
  "snd (check_ip now ip st) \<noteq> Inr False" "snd (check_feature now ip path st) \<noteq> Inr False"
  using acquire_raises
  by (auto simp: check_ip_def check_feature_def Let_def split: acquire_result.splits option.splits)

text \<open>No request is ever answered with status 429: the limiters raise when the limit is
  exceeded, and the exception handler around the checks lets the request through.\<close>

theorem rate_limit_never_enforced:
  "snd (dispatch redis_up now ip path st) = Passed_on"
  using checks_never_false
  by (auto simp: dispatch_def split: prod.splits sum.splits bool.splits) (metis snd_conv)+

end
