(* ===== verification/Artifacts.thy ===== *)
theory Artifacts
  imports Prelude
begin

text \<open>
  \<open>artifacts/normalizer.py\<close>: from a raw tool result to the normalised artifact payload.
  \<open>None\<close> as a value is \<open>JNull\<close>; a Python set of names is a list used by
  membership only.
\<close>

section \<open>Path segments\<close>

text \<open>
  \<open>key[3]\<close> as \<open>(key, 3)\<close>, with a possibly empty key; \<open>$\<close> also matches before
  a final newline.
\<close>

definition nat_of_digits :: "string \<Rightarrow> nat" where
  "nat_of_digits ds = nat (foldl (\<lambda>n c. n * 10 + digit_val c) 0 ds)"

definition parse_index :: "string \<Rightarrow> (string \<times> nat) option" where
  "parse_index s = (case dropWhile (\<lambda>c. c \<noteq> CHR 0x5B) s of
      [] \<Rightarrow> None
    | _ # r \<Rightarrow> let ds = takeWhile is_digit r; q = dropWhile is_digit r in
        if ds \<noteq> [] \<and> (q = [CHR 0x5D] \<or> q = [CHR 0x5D, CHR 0x0A])
        then Some (takeWhile (\<lambda>c. c \<noteq> CHR 0x5B) s, nat_of_digits ds) else None)"

definition keyed_index :: "string \<Rightarrow> (string \<times> nat) option" where
  "keyed_index s = (case parse_index s of None \<Rightarrow> None | Some (k, i) \<Rightarrow> if k = [] then None else Some (k, i))"

section \<open>The normaliser\<close>

definition state_key :: string where "state_key = ''_nx_state''"
definition version_key :: string where "version_key = ''_nx_normalizer_version''"

definition mark :: "json dict \<Rightarrow> json dict" where
  "mark p = AList.update version_key (JStr ''2'') (AList.update state_key (JStr ''normalized'') p)"

definition strip_normalization_state :: "json dict \<Rightarrow> json dict" where
  "strip_normalization_state p = filter (\<lambda>(k, v). k \<noteq> state_key \<and> k \<noteq> version_key) p"

definition is_normalized :: "json dict \<Rightarrow> bool" where
  "is_normalized p = (map_of p state_key = Some (JStr ''normalized''))"

text \<open>\<open>_limit_payload\<close>: depth 10, 20 items, 1000 characters.\<close>

function limit_payload :: "nat \<Rightarrow> json \<Rightarrow> json" where
  "limit_payload depth v = (if 10 \<le> depth then JStr ''...''
     else case v of
       JDict d \<Rightarrow> JDict (map (\<lambda>(k, x). (k, limit_payload (Suc depth) x)) (take 20 d))
     | JList xs \<Rightarrow> JList (map (limit_payload (Suc depth)) (take 20 xs))
     | JStr s \<Rightarrow> if 1000 < length s then JStr (take 1000 s @ ''...'') else v
     | _ \<Rightarrow> v)"
  by pat_completeness auto
termination by (relation "measure (\<lambda>(depth, v). 10 - depth)") auto

declare limit_payload.simps [simp del]

definition limit_dict :: "json dict \<Rightarrow> json dict" where
  "limit_dict d = (case limit_payload 0 (JDict d) of JDict d' \<Rightarrow> d' | _ \<Rightarrow> [])"

fun walk_path :: "json \<Rightarrow> string list \<Rightarrow> json" where
  "walk_path cur [] = cur"
| "walk_path cur (seg # segs) =
    (case keyed_index seg of
       Some (key, i) \<Rightarrow> (case cur of
           JDict d \<Rightarrow> (case map_of d key of
               Some (JList xs) \<Rightarrow> if i < length xs then walk_path (xs ! i) segs else JNull
             | _ \<Rightarrow> JNull)
         | _ \<Rightarrow> JNull)
     | None \<Rightarrow> (case cur of
           JDict d \<Rightarrow> (case map_of d seg of None \<Rightarrow> JNull | Some v \<Rightarrow> walk_path v segs)
         | _ \<Rightarrow> JNull))"

definition deep_extract :: "json \<Rightarrow> string \<Rightarrow> json" where
  "deep_extract obj path = walk_path obj (py_split (CHR ''.'') path)"

datatype normalization_error = Already_normalized | Reserved_keys

definition promoted :: "json dict \<Rightarrow> (string \<times> string) list \<Rightarrow> json dict" where
  "promoted raw flat = map (\<lambda>(k, p). (k, deep_extract (JDict raw) p))
     (filter (\<lambda>(k, p). deep_extract (JDict raw) p \<noteq> JNull) flat)"

definition projected :: "string list option \<Rightarrow> json dict \<Rightarrow> json dict" where
  "projected allowed raw = filter (\<lambda>(k, v). case allowed of None \<Rightarrow> False | Some ks \<Rightarrow> k \<in> set ks) raw"

definition normalize_artifact ::
  "string list option \<Rightarrow> (string \<times> string) list \<Rightarrow> json dict \<Rightarrow> normalization_error + json dict" where
  "normalize_artifact allowed flat raw =
    (if is_normalized raw then Inl Already_normalized
     else if dict_has raw state_key \<or> dict_has raw version_key then Inl Reserved_keys
     else if flat \<noteq> [] then Inr (mark (limit_dict (dict_merge (projected allowed raw) (promoted raw flat))))
     else if allowed \<noteq> None \<and> allowed \<noteq> Some [] then Inr (mark (limit_dict (projected allowed raw)))
     else Inr (mark (limit_dict raw)))"

section \<open>The artifact contract\<close>

fun prefix_is_empty :: "json \<Rightarrow> string list \<Rightarrow> bool" where
  "prefix_is_empty cur [] = False"
| "prefix_is_empty cur (seg # segs) =
    (case keyed_index seg of
       Some (key, i) \<Rightarrow> (case cur of
           JDict d \<Rightarrow> (case map_of d key of
               None \<Rightarrow> False
             | Some (JList xs) \<Rightarrow> if length xs \<le> i then True else xs ! i = JNull
             | Some v \<Rightarrow> v = JNull)
         | _ \<Rightarrow> False)
     | None \<Rightarrow> (case cur of
           JDict d \<Rightarrow> (case map_of d seg of None \<Rightarrow> False | Some v \<Rightarrow> prefix_is_empty v segs)
         | _ \<Rightarrow> False))"

text \<open>\<open>item.split("@", 1)[1]\<close> of an item made of the key, an at sign and the path.\<close>

definition item_path :: "string \<times> string \<Rightarrow> string" where
  "item_path kp = tl (dropWhile (\<lambda>c. c \<noteq> CHR ''@'') (fst kp @ ''@'' @ snd kp))"

text \<open>The missing fields; a non-empty list is \<open>ArtifactContractViolation\<close>.\<close>

definition validate_artifact_contract ::
  "json dict \<Rightarrow> (string \<times> string) list \<Rightarrow> string list \<Rightarrow> json dict \<Rightarrow> (string \<times> string) list" where
  "validate_artifact_contract normalized flat optional raw =
    (let missing = filter (\<lambda>(k, p). \<not> dict_has normalized k \<and> k \<notin> set optional) flat in
     if raw \<noteq> [] then filter (\<lambda>kp. \<not> prefix_is_empty (JDict raw) (py_split (CHR ''.'') (item_path kp))) missing
     else missing)"

section \<open>Lemmas\<close>

lemma keys_differ [simp]: "state_key \<noteq> version_key" "version_key \<noteq> state_key"
  by (simp_all add: state_key_def version_key_def)

lemma limit_dict_eq: "limit_dict d = map (\<lambda>(k, x). (k, limit_payload 1 x)) (take 20 d)"
  by (simp add: limit_dict_def limit_payload.simps [of 0])

lemma keys_limit_dict: "map fst (limit_dict d) = take 20 (map fst d)"
  by (auto simp: limit_dict_eq take_map)

lemma marked: "is_normalized (mark d)"
  by (simp add: is_normalized_def mark_def map_of_update)

lemma strip_update_state:
  "strip_normalization_state (AList.update version_key v d) = strip_normalization_state d"
  "strip_normalization_state (AList.update state_key v d) = strip_normalization_state d"
  by (induction d) (auto simp: strip_normalization_state_def)

lemma strip_mark: "strip_normalization_state (mark d) = strip_normalization_state d"
  by (simp add: mark_def strip_update_state)

lemma dict_has_strip_mark:
  "k \<noteq> state_key \<Longrightarrow> k \<noteq> version_key \<Longrightarrow> dict_has (strip_normalization_state (mark d)) k = dict_has d k"
  by (simp only: strip_mark) (auto simp: strip_normalization_state_def dict_has_iff)

lemma walk_path_not_empty: "walk_path cur segs \<noteq> JNull \<Longrightarrow> segs \<noteq> [] \<Longrightarrow> \<not> prefix_is_empty cur segs"
proof (induction cur segs rule: walk_path.induct)
  case (2 cur seg segs)
  show ?case
  proof (cases "segs = []")
    case True
    with 2 show ?thesis
      by (auto split: option.splits json.splits if_splits prod.splits)
  next
    case False
    have null: "walk_path JNull segs = JNull" using False by (cases segs) (auto split: option.splits)
    from 2 False null show ?thesis
      by (auto split: option.splits json.splits if_splits prod.splits)
  qed
qed simp


lemma keys_dict_merge: "fst ` set (dict_merge d1 d2) = fst ` set d1 \<union> fst ` set d2"
proof (induction d2 arbitrary: d1)
  case (Cons p d2)
  obtain k v where p: "p = (k, v)" by (cases p)
  have "dict_merge d1 (p # d2) = dict_merge (AList.update k v d1) d2" by (simp add: p dict_merge_def)
  then show ?case by (simp only: Cons.IH keys_update) (auto simp: p)
qed (simp add: dict_merge_def)

lemma prefix_dict_merge: "\<exists>r. map fst (dict_merge d1 d2) = map fst d1 @ r"
proof (induction d2 arbitrary: d1)
  case (Cons p d2)
  obtain k v where p: "p = (k, v)" by (cases p)
  have "dict_merge d1 (p # d2) = dict_merge (AList.update k v d1) d2" by (simp add: p dict_merge_def)
  moreover obtain r where "map fst (dict_merge (AList.update k v d1) d2) = map fst (AList.update k v d1) @ r"
    using Cons.IH by blast
  ultimately show ?case by (auto simp: map_fst_update)
qed (simp add: dict_merge_def)

lemma normalize_cases:
  assumes "normalize_artifact allowed flat raw = Inr n"
  obtains d where "n = mark (limit_dict d)"
  using assms by (auto simp: normalize_artifact_def split: if_splits)

text \<open>Size of a payload: depth, items per container, characters per string.\<close>

fun payload_bounded :: "nat \<Rightarrow> json \<Rightarrow> bool" where
  "payload_bounded 0 (JDict d) = False"
| "payload_bounded (Suc n) (JDict d) = (length d \<le> 20 \<and> (\<forall>p \<in> set d. payload_bounded n (snd p)))"
| "payload_bounded 0 (JList xs) = False"
| "payload_bounded (Suc n) (JList xs) = (length xs \<le> 20 \<and> (\<forall>x \<in> set xs. payload_bounded n x))"
| "payload_bounded n (JStr s) = (length s \<le> 1003)"
| "payload_bounded n JNull = True"
| "payload_bounded n (JBool b) = True"
| "payload_bounded n (JInt i) = True"
| "payload_bounded n (JFloat r) = True"

lemma limit_bounded: "payload_bounded (10 - depth) (limit_payload depth v)"
proof (induction depth v rule: limit_payload.induct)
  case (1 depth v)
  show ?case
  proof (cases "10 \<le> depth")
    case True
    then show ?thesis by (simp add: limit_payload.simps [of depth])
  next
    case False
    have e: "10 - depth = Suc (10 - Suc depth)" using False by simp
    show ?thesis
    proof (cases v)
      case (JDict d)
      with False 1(2) [OF False JDict] show ?thesis
        by (force simp: limit_payload.simps [of depth] e)
    next
      case (JList xs)
      with False 1(1) [OF False JList] show ?thesis
        by (force simp: limit_payload.simps [of depth] e)
    qed (use False in \<open>simp_all add: limit_payload.simps [of depth] min_def\<close>)
  qed
qed

lemma limit_idem: "limit_payload depth (limit_payload depth v) = limit_payload depth v"
proof (induction depth v rule: limit_payload.induct)
  case (1 depth v)
  show ?case
  proof (cases "10 \<le> depth")
    case True
    then show ?thesis by (simp add: limit_payload.simps [of depth])
  next
    case False
    with 1 show ?thesis
      by (cases v) (force simp: limit_payload.simps [of depth] take_map split: prod.splits)+
  qed
qed

section \<open>Properties\<close>

text \<open>
  a payload can be normalised only once: whatever the arguments, the normaliser rejects
  its own output.
\<close>

theorem normalization_happens_once:
  assumes "normalize_artifact allowed flat raw = Inr n"
  shows "normalize_artifact allowed' flat' n = Inl Already_normalized"
  using assms by (auto simp: normalize_artifact_def marked split: if_splits)

theorem normalization_happens_once_witness:
  "normalize_artifact None [] (mark [(''a'', JInt 1)]) = Inl Already_normalized"
  by (rule normalization_happens_once [of None "[]" "[(''a'', JInt 1)]"])
    (simp add: normalize_artifact_def is_normalized_def dict_has_def limit_dict_eq limit_payload.simps
       state_key_def version_key_def)

text \<open>
  C31: every payload that leaves the normaliser is at most ten levels deep, with at most 20
  entries per container besides the two markers and 1003 characters per string, and limiting
  it again changes nothing.
\<close>

theorem normalized_payload_bounded:
  assumes "normalize_artifact allowed flat raw = Inr n"
  shows "payload_bounded 10 (JDict (strip_normalization_state n))
    \<and> limit_dict (strip_normalization_state n) = strip_normalization_state n"
proof -
  obtain d where n: "n = mark (limit_dict d)" using assms by (rule normalize_cases)
  let ?s = "strip_normalization_state (limit_dict d)"
  have s: "strip_normalization_state n = ?s" by (simp add: n strip_mark)
  have len: "length ?s \<le> 20"
    unfolding strip_normalization_state_def limit_dict_eq
    by (rule order_trans [OF length_filter_le]) simp
  have entries: "\<exists>x. v = limit_payload 1 x" if "(k, v) \<in> set ?s" for k v
    using that by (auto simp: strip_normalization_state_def limit_dict_eq)
  have "payload_bounded 9 v" if "(k, v) \<in> set ?s" for k v
    using entries [OF that] limit_bounded [of 1] by auto
  then have b: "payload_bounded 10 (JDict ?s)"
    using len by (force simp: eval_nat_numeral)
  have "map (\<lambda>(k, x). (k, limit_payload 1 x)) ?s = ?s"
    by (rule map_idI) (use entries limit_idem [of 1] in force)
  then have "limit_dict ?s = ?s" using len by (simp add: limit_dict_eq)
  with b s show ?thesis by simp
qed

theorem normalized_payload_bounded_witness:
  "payload_bounded 10 (JDict (strip_normalization_state (mark [(''a'', JInt 1)])))
    \<and> limit_dict (strip_normalization_state (mark [(''a'', JInt 1)])) = strip_normalization_state (mark [(''a'', JInt 1)])"
  by (rule normalized_payload_bounded [of None "[]" "[(''a'', JInt 1)]"])
    (simp add: normalize_artifact_def is_normalized_def dict_has_def limit_dict_eq limit_payload.simps
       state_key_def version_key_def)

text \<open>
  when every declared path resolves (or is optional) and projection and promoted fields
  fit the limit of 20 entries, the contract validation accepts the normalised payload.
\<close>

theorem resolved_contract_accepted:
  assumes "normalize_artifact allowed flat raw = Inr n" and "flat \<noteq> []"
    and "\<forall>(k, p) \<in> set flat. k \<noteq> state_key \<and> k \<noteq> version_key
           \<and> (k \<in> set optional \<or> deep_extract (JDict raw) p \<noteq> JNull)"
    and "length (dict_merge (projected allowed raw) (promoted raw flat)) \<le> 20"
  shows "validate_artifact_contract (strip_normalization_state n) flat optional raw = []"
proof -
  let ?m = "dict_merge (projected allowed raw) (promoted raw flat)"
  have n: "n = mark (limit_dict ?m)" using assms(1,2) by (auto simp: normalize_artifact_def split: if_splits)
  have ok: "dict_has (strip_normalization_state n) k"
    if "(k, p) \<in> set flat" "k \<notin> set optional" for k p
  proof -
    have "deep_extract (JDict raw) p \<noteq> JNull" using assms(3) that by blast
    then have "k \<in> fst ` set (promoted raw flat)" using that(1) by (force simp: promoted_def)
    then have "k \<in> fst ` set ?m" by (simp only: keys_dict_merge) simp
    then have "k \<in> set (map fst (limit_dict ?m))" using assms(4) by (simp only: keys_limit_dict) simp
    then have "dict_has (limit_dict ?m) k" by (simp add: dict_has_iff)
    then show ?thesis using assms(3) that(1) unfolding n by (subst dict_has_strip_mark) auto
  qed
  then have "filter (\<lambda>(k, p). \<not> dict_has (strip_normalization_state n) k \<and> k \<notin> set optional) flat = []"
    by (auto simp: filter_empty_conv)
  then show ?thesis by (simp add: validate_artifact_contract_def Let_def)
qed

theorem resolved_contract_accepted_witness:
  "validate_artifact_contract (strip_normalization_state (mark (limit_dict [(''lat'', JInt 7)])))
     [(''lat'', ''pos.lat'')] [] [(''pos'', JDict [(''lat'', JInt 7)])] = []"
proof (rule resolved_contract_accepted [of "Some []"])
  have e: "promoted [(''pos'', JDict [(''lat'', JInt 7)])] [(''lat'', ''pos.lat'')] = [(''lat'', JInt 7)]"
    by (simp add: promoted_def deep_extract_def keyed_index_def parse_index_def)
  show "normalize_artifact (Some []) [(''lat'', ''pos.lat'')] [(''pos'', JDict [(''lat'', JInt 7)])]
      = Inr (mark (limit_dict [(''lat'', JInt 7)]))"
    by (simp add: normalize_artifact_def e is_normalized_def dict_has_def projected_def dict_merge_def
        state_key_def version_key_def)
  show "length (dict_merge (projected (Some []) [(''pos'', JDict [(''lat'', JInt 7)])])
      (promoted [(''pos'', JDict [(''lat'', JInt 7)])] [(''lat'', ''pos.lat'')])) \<le> 20"
    by (simp add: e projected_def dict_merge_def)
qed (simp_all add: state_key_def version_key_def deep_extract_def keyed_index_def parse_index_def)

text \<open>
  promoted fields come after the projected ones, so a projection of 20 or more fields
  drops every promoted field with a name of its own, and the contract is reported as violated
  although the declared path resolves.
\<close>

theorem truncation_violates_contract:
  assumes "normalize_artifact allowed flat raw = Inr n" and "(k, p) \<in> set flat"
    and "k \<notin> set optional" "CHR ''@'' \<notin> set k" "k \<notin> fst ` set (projected allowed raw)"
    and "20 \<le> length (projected allowed raw)" "deep_extract (JDict raw) p \<noteq> JNull"
  shows "(k, p) \<in> set (validate_artifact_contract (strip_normalization_state n) flat optional raw)"
proof -
  let ?m = "dict_merge (projected allowed raw) (promoted raw flat)"
  have n: "n = mark (limit_dict ?m)" using assms(1,2) by (auto simp: normalize_artifact_def split: if_splits)
  obtain r where r: "map fst ?m = map fst (projected allowed raw) @ r" using prefix_dict_merge by blast
  have "set (map fst (limit_dict ?m)) \<subseteq> set (map fst (projected allowed raw))"
    using assms(6) unfolding keys_limit_dict r by (auto dest!: in_set_takeD)
  then have "k \<notin> fst ` set (limit_dict ?m)" using assms(5) by auto
  then have "\<not> dict_has (strip_normalization_state n) k"
    unfolding n strip_mark by (auto simp: dict_has_iff strip_normalization_state_def)
  moreover have "takeWhile (\<lambda>c. c \<noteq> CHR ''@'') k = k" "dropWhile (\<lambda>c. c \<noteq> CHR ''@'') k = []"
    using assms(4) by (auto simp: takeWhile_eq_all_conv)
  then have "item_path (k, p) = p"
    using assms(4) by (simp add: item_path_def dropWhile_append1 dropWhile_append2)
  moreover have "py_split (CHR ''.'') p \<noteq> []" by (cases p) (auto split: list.split)
  with assms(7) have "\<not> prefix_is_empty (JDict raw) (py_split (CHR ''.'') p)"
    by (intro walk_path_not_empty) (simp_all add: deep_extract_def)
  ultimately show ?thesis
    using assms(2,3) by (auto simp: validate_artifact_contract_def Let_def)
qed

definition wide_names :: "string list" where
  "wide_names = map (\<lambda>c. [c]) ''abcdefghijklmnopqrst''"

definition wide_raw :: "json dict" where
  "wide_raw = map (\<lambda>k. (k, JInt 0)) wide_names @ [(''x'', JDict [(''y'', JInt 1)])]"

lemma wide_walk: "deep_extract (JDict wide_raw) ''x.y'' = JInt 1"
  by (simp add: wide_raw_def wide_names_def deep_extract_def keyed_index_def parse_index_def)

theorem truncation_violates_contract_witness:
  "(''total'', ''x.y'') \<in> set (validate_artifact_contract
     (strip_normalization_state (mark (limit_dict (dict_merge (projected (Some wide_names) wide_raw)
        (promoted wide_raw [(''total'', ''x.y'')]))))) [(''total'', ''x.y'')] [] wide_raw)"
proof (rule truncation_violates_contract [of "Some wide_names"])
  show "normalize_artifact (Some wide_names) [(''total'', ''x.y'')] wide_raw =
      Inr (mark (limit_dict (dict_merge (projected (Some wide_names) wide_raw) (promoted wide_raw [(''total'', ''x.y'')]))))"
    by (simp add: normalize_artifact_def is_normalized_def dict_has_def wide_raw_def wide_names_def
        state_key_def version_key_def)
qed (simp_all add: wide_walk, simp_all add: wide_raw_def wide_names_def projected_def)

text \<open>
  an empty collection behind an indexed segment is not recognised: the walk stops at the
  first indexed segment, so for two nested collections with an empty inner one the contract is
  violated, while an empty outer one is exempt.
\<close>

theorem inner_empty_collection_violates:
  "validate_artifact_contract [] [(''first'', ''results[0].items[0].name'')] []
       [(''results'', JList [JDict [(''items'', JList [])]])] = [(''first'', ''results[0].items[0].name'')]
   \<and> validate_artifact_contract [] [(''first'', ''results[0].items[0].name'')] []
       [(''results'', JList [])] = []"
  by (simp add: validate_artifact_contract_def dict_has_def item_path_def keyed_index_def parse_index_def
      is_digit_def nat_of_digits_def digit_val_def)

end
