(* ===== verification/Placeholders.thy ===== *)
theory Placeholders
  imports Artifacts
begin

text \<open>
  Placeholder resolution of \<open>agent/executors/concurrent_executor.py\<close>: the regular
  expression for \<open>${ref.result[0].field}\<close>, the path language over results, the lookup
  through symbolic references, and the substitution into a task's inputs.  Parameters:
  \<open>fs\<close> (Python's text of a float) and \<open>al\<close> (\<open>settings.tools.field_aliases\<close>).
  \<open>None\<close> as a value is \<open>JNull\<close>.
\<close>

section \<open>The regular expression\<close>

record placeholder =
  ph_text :: string
  ph_ref :: string
  ph_index :: "string option"
  ph_field :: "string option"

text \<open>\<open>(?:\.(.+?))?\}\<close> at the start of a string, with the text that follows the match.\<close>

definition field_tail :: "string \<Rightarrow> (string option \<times> string) option" where
  "field_tail s = (case s of
      [] \<Rightarrow> None
    | c # r \<Rightarrow>
        if c = CHR 0x7D then Some (None, r)
        else if c = CHR ''.'' then
          (case r of [] \<Rightarrow> None | x # q \<Rightarrow>
            (if x = CHR 0x0A then None
             else case dropWhile (\<lambda>y. y \<noteq> CHR 0x7D \<and> y \<noteq> CHR 0x0A) q of
                 [] \<Rightarrow> None
               | y # rest \<Rightarrow> if y = CHR 0x7D
                   then Some (Some (x # takeWhile (\<lambda>y. y \<noteq> CHR 0x7D \<and> y \<noteq> CHR 0x0A) q), rest) else None))
        else None)"

text \<open>\<open>(?:\[(\d+)\])?\<close> before it.\<close>

definition after_result :: "string \<Rightarrow> (string option \<times> string option \<times> string) option" where
  "after_result s = (case s of
      [] \<Rightarrow> None
    | c # r \<Rightarrow>
        if c = CHR 0x5B then
          (let ds = takeWhile is_digit r in
           case dropWhile is_digit r of
             [] \<Rightarrow> None
           | y # q \<Rightarrow> if ds \<noteq> [] \<and> y = CHR 0x5D
               then map_option (\<lambda>(f, rest). (Some ds, f, rest)) (field_tail q) else None)
        else map_option (\<lambda>(f, rest). (None, f, rest)) (field_tail s))"

text \<open>\<open>(.+?)\.result\<close>: the shortest reference after which the rest matches.\<close>

fun match_ref :: "string \<Rightarrow> string \<Rightarrow> (string \<times> string option \<times> string option \<times> string) option" where
  "match_ref ref [] = None"
| "match_ref ref (c # cs) =
    (case (if ref \<noteq> [] \<and> starts_with ''.result'' (c # cs) then after_result (drop 7 (c # cs)) else None) of
       Some (i, f, rest) \<Rightarrow> Some (ref, i, f, rest)
     | None \<Rightarrow> if c = CHR 0x0A then None else match_ref (ref @ [c]) cs)"

definition match_placeholder :: "string \<Rightarrow> placeholder option" where
  "match_placeholder s = (if starts_with ''${'' s then
      map_option (\<lambda>(r, i, f, rest). \<lparr>ph_text = take (length s - length rest) s, ph_ref = r, ph_index = i, ph_field = f\<rparr>)
        (match_ref [] (drop 2 s)) else None)"

fun search_placeholder :: "string \<Rightarrow> placeholder option" where
  "search_placeholder [] = None"
| "search_placeholder (c # cs) =
    (case match_placeholder (c # cs) of Some m \<Rightarrow> Some m | None \<Rightarrow> search_placeholder cs)"

section \<open>Paths\<close>

datatype resolution_error = Unresolved string string | Index_error

text \<open>One segment: an uncaught \<open>IndexError\<close>, an early \<open>return ""\<close>, or the next value.\<close>

datatype path_step = Raises | Not_there | Go json

definition parse_path_segment :: "string \<Rightarrow> string \<times> nat option" where
  "parse_path_segment s = (case parse_index s of None \<Rightarrow> (s, None) | Some (k, i) \<Rightarrow> (k, Some i))"

fun scan_lists :: "nat \<Rightarrow> json list \<Rightarrow> path_step" where
  "scan_lists i [] = Not_there"
| "scan_lists i (v # vs) = (case v of
     JList xs \<Rightarrow> if i < length xs then Go (xs ! i) else scan_lists i vs
   | _ \<Rightarrow> scan_lists i vs)"

fun scan_values :: "string \<Rightarrow> nat option \<Rightarrow> json list \<Rightarrow> path_step" where
  "scan_values key idx [] = Not_there"
| "scan_values key idx (v # vs) = (case v of
     JDict d \<Rightarrow> (case map_of d key of Some x \<Rightarrow> Go x | None \<Rightarrow> scan_values key idx vs)
   | JList [] \<Rightarrow> scan_values key idx vs
   | JList (x # xs) \<Rightarrow>
      (case idx of
         None \<Rightarrow> (case x of JDict d \<Rightarrow> (case map_of d key of Some y \<Rightarrow> Go y | None \<Rightarrow> scan_values key idx vs)
                  | _ \<Rightarrow> scan_values key idx vs)
       | Some i \<Rightarrow> if length (x # xs) \<le> i then Raises
           else (case (x # xs) ! i of
               JDict d \<Rightarrow> (case map_of d key of Some y \<Rightarrow> Go y | None \<Rightarrow> Go ((x # xs) ! i))
             | w \<Rightarrow> Go w))
   | _ \<Rightarrow> scan_values key idx vs)"

definition at_index :: "nat option \<Rightarrow> json \<Rightarrow> json" where
  "at_index idx v = (case idx of None \<Rightarrow> v | Some i \<Rightarrow>
     (case v of JList xs \<Rightarrow> if i < length xs then xs ! i else JStr [] | _ \<Rightarrow> v))"

definition deep_step :: "json \<Rightarrow> string \<Rightarrow> path_step" where
  "deep_step cur seg = (case parse_path_segment seg of (key, idx) \<Rightarrow>
     (case (if key = [] then idx else None) of
        Some i \<Rightarrow> (case cur of
            JList xs \<Rightarrow> if i < length xs then Go (xs ! i) else Not_there
          | JDict d \<Rightarrow> scan_lists i (map snd d)
          | _ \<Rightarrow> Not_there)
      | None \<Rightarrow> (case cur of
            JDict d \<Rightarrow> (case map_of d key of
                Some v \<Rightarrow> Go (at_index idx v)
              | None \<Rightarrow> scan_values key idx (map snd d))
          | JList xs \<Rightarrow> (let t = (case idx of None \<Rightarrow> 0 | Some i \<Rightarrow> i) in
              if t < length xs then (case xs ! t of JDict d \<Rightarrow> Go (dict_get d key (JStr [])) | _ \<Rightarrow> Not_there)
              else Not_there)
          | _ \<Rightarrow> Not_there)))"

fun deep_walk :: "json \<Rightarrow> string list \<Rightarrow> resolution_error + json" where
  "deep_walk cur [] = Inr cur"
| "deep_walk cur (seg # segs) = (case deep_step cur seg of
     Raises \<Rightarrow> Inl Index_error | Not_there \<Rightarrow> Inr (JStr []) | Go v \<Rightarrow> deep_walk v segs)"

definition deep_get :: "json \<Rightarrow> string \<Rightarrow> resolution_error + json" where
  "deep_get obj path = deep_walk obj (py_split (CHR ''.'') path)"

text \<open>\<open>_resolve_field\<close>: the first attempt with a result other than the empty string.\<close>

definition field_attempts :: "(string \<times> string) list \<Rightarrow> json \<Rightarrow> string \<Rightarrow> (json \<times> string) list" where
  "field_attempts al data name =
    [(data, name)] @
    (case data of
       JList (x # xs) \<Rightarrow> (x, name) # (case x of
           JDict d \<Rightarrow> (case map_of d ''results'' of Some r \<Rightarrow> [(r, name)] | None \<Rightarrow> [])
         | _ \<Rightarrow> [])
     | _ \<Rightarrow> []) @
    (case map_of al name of
       Some a \<Rightarrow> if a = [] then [] else (data, a) # (case data of JList (x # xs) \<Rightarrow> [(x, a)] | _ \<Rightarrow> [])
     | None \<Rightarrow> [])"

fun first_found :: "(json \<times> string) list \<Rightarrow> resolution_error + json" where
  "first_found [] = Inr JNull"
| "first_found (p # ps) = (case deep_get (fst p) (snd p) of
     Inl e \<Rightarrow> Inl e | Inr v \<Rightarrow> if v \<noteq> JStr [] then Inr v else first_found ps)"

definition resolve_field :: "(string \<times> string) list \<Rightarrow> json \<Rightarrow> string \<Rightarrow> resolution_error + json" where
  "resolve_field al data name = first_found (field_attempts al data name)"

section \<open>Lookup and substitution\<close>

text \<open>The data of the referenced task; \<open>refs\<close> maps symbolic references to task ids.\<close>

definition referenced_data :: "(string \<times> string) list \<Rightarrow> json dict \<Rightarrow> string \<Rightarrow> json" where
  "referenced_data refs results r =
    (let d = dict_get results r JNull in
     if d \<noteq> JNull then d
     else case map_of refs r of
       None \<Rightarrow> JNull
     | Some [] \<Rightarrow> JNull
     | Some (c # cs) \<Rightarrow>
        if CHR '','' \<in> set (c # cs)
        then (let agg = map (\<lambda>i. dict_get results i JNull) (filter (dict_has results) (py_split (CHR '','') (c # cs))) in
              if agg = [] then JNull else JList agg)
        else dict_get results (c # cs) JNull)"

definition placeholder_path :: "placeholder \<Rightarrow> string" where
  "placeholder_path ph = (case ph_index ph of
     Some i \<Rightarrow> ''['' @ i @ '']'' @ (case ph_field ph of Some f \<Rightarrow> ''.'' @ f | None \<Rightarrow> [])
   | None \<Rightarrow> (case ph_field ph of Some f \<Rightarrow> f | None \<Rightarrow> []))"

definition lookup_placeholder ::
  "(string \<times> string) list \<Rightarrow> (string \<times> string) list \<Rightarrow> json dict \<Rightarrow> placeholder \<Rightarrow> resolution_error + json" where
  "lookup_placeholder al refs results ph =
    (let data = referenced_data refs results (ph_ref ph); path = placeholder_path ph in
     if data = JNull then Inr JNull
     else if path = [] then Inr data
     else case resolve_field al data path of
       Inl e \<Rightarrow> Inl e
     | Inr v \<Rightarrow> if v \<noteq> JNull then Inr v
         else (case data of
             JDict d \<Rightarrow>
               (let inner = (if truthy (dict_get d ''results'' JNull) then dict_get d ''results'' JNull else dict_get d ''data'' JNull) in
                case inner of JList (x # xs) \<Rightarrow> resolve_field al inner path | _ \<Rightarrow> Inr JNull)
           | _ \<Rightarrow> Inr JNull))"

definition resolve_string ::
  "(rat \<Rightarrow> string) \<Rightarrow> (string \<times> string) list \<Rightarrow> (string \<times> string) list \<Rightarrow> json dict \<Rightarrow> string \<Rightarrow> resolution_error + json" where
  "resolve_string fs al refs results s =
    (if \<not> contains_str ''${'' s then Inr (JStr s)
     else case search_placeholder s of
       None \<Rightarrow> Inr (JStr s)
     | Some ph \<Rightarrow> (case lookup_placeholder al refs results ph of
         Inl e \<Rightarrow> Inl e
       | Inr v \<Rightarrow> if v = JNull then Inl (Unresolved (ph_text ph) (ph_ref ph))
           else if ph_text ph = s then Inr v
           else Inr (JStr (py_replace (ph_text ph) (py_str fs v) 0 s))))"

function resolve_value ::
  "(string \<Rightarrow> resolution_error + json) \<Rightarrow> json \<Rightarrow> resolution_error + json" where
  "resolve_value f (JDict d) = (case map_err (\<lambda>p. case resolve_value f (snd p) of Inl e \<Rightarrow> Inl e | Inr v \<Rightarrow> Inr (fst p, v)) d of
     Inl e \<Rightarrow> Inl e | Inr d' \<Rightarrow> Inr (JDict d'))"
| "resolve_value f (JList xs) = (case map_err (resolve_value f) xs of Inl e \<Rightarrow> Inl e | Inr ys \<Rightarrow> Inr (JList ys))"
| "resolve_value f (JStr s) = f s"
| "resolve_value f JNull = Inr JNull"
| "resolve_value f (JBool b) = Inr (JBool b)"
| "resolve_value f (JInt i) = Inr (JInt i)"
| "resolve_value f (JFloat r) = Inr (JFloat r)"
  by pat_completeness auto
termination
  by (relation "measure (\<lambda>(f, v). size v)") (auto simp: size_mem_list dest: size_mem_dict)

text \<open>\<open>_resolve_placeholders\<close>, with its fast path.\<close>

definition resolve_placeholders ::
  "(rat \<Rightarrow> string) \<Rightarrow> (string \<times> string) list \<Rightarrow> (string \<times> string) list \<Rightarrow> json dict \<Rightarrow> json dict
     \<Rightarrow> resolution_error + json dict" where
  "resolve_placeholders fs al refs results ins =
    (if \<not> contains_str ''${'' (py_repr fs (JDict ins)) then Inr ins
     else case resolve_value (resolve_string fs al refs results) (JDict ins) of
       Inl e \<Rightarrow> Inl e | Inr (JDict d) \<Rightarrow> Inr d | Inr _ \<Rightarrow> Inr [])"

section \<open>Lemmas: substrings\<close>

lemma starts_with_iff: "starts_with p s \<longleftrightarrow> (\<exists>r. s = p @ r)"
  by (metis append_eq_conv_conj append_take_drop_id starts_with_def)

lemma contains_str_iff: "contains_str sub s \<longleftrightarrow> (\<exists>a b. s = a @ sub @ b)"
proof (induction s)
  case (Cons c cs)
  show ?case (is "_ \<longleftrightarrow> ?R")
  proof
    assume "contains_str sub (c # cs)"
    then consider "starts_with sub (c # cs)" | "contains_str sub cs" by auto
    then show ?R
    proof cases
      case 1
      then show ?thesis by (metis append_Nil starts_with_iff)
    next
      case 2
      with Cons show ?thesis by (metis append_Cons)
    qed
  next
    assume ?R
    then obtain a b where ab: "c # cs = a @ sub @ b" by blast
    show "contains_str sub (c # cs)"
    proof (cases a)
      case Nil
      with ab have "starts_with sub (c # cs)" by (auto simp: starts_with_iff)
      then show ?thesis by simp
    next
      case (Cons x a')
      with ab Cons.IH show ?thesis by auto
    qed
  qed
qed auto

lemma contains_append: "contains_str sub s \<Longrightarrow> contains_str sub (a @ s @ b)"
  by (metis append.assoc contains_str_iff)

lemma contains_join: "x \<in> set xs \<Longrightarrow> contains_str sub x \<Longrightarrow> contains_str sub (py_join sep xs)"
proof (induction sep xs rule: py_join.induct)
  case (3 sep x' y ys)
  show ?case
  proof (cases "contains_str sub x'")
    case True
    from contains_append [OF this, of "[]" "sep @ py_join sep (y # ys)"] show ?thesis by simp
  next
    case False
    with 3 have "contains_str sub (py_join sep (y # ys))" by auto
    from contains_append [OF this, of "x' @ sep" "[]"] show ?thesis by simp
  qed
qed auto

lemma contains_repr: "contains_str ''${'' s \<Longrightarrow> contains_str ''${'' (str_repr s)"
proof -
  assume "contains_str ''${'' s"
  then obtain a b where s: "s = a @ ''${'' @ b" by (auto simp: contains_str_iff)
  define q where "q = (if CHR 0x27 \<in> set s \<and> CHR 0x22 \<notin> set s then CHR 0x22 else CHR 0x27)"
  have "repr_char q (CHR 0x24) = ''$''" "repr_char q (CHR 0x7B) = ''{''"
    by (auto simp: repr_char_def q_def)
  then have "str_repr s = (q # concat (map (repr_char q) a)) @ ''${'' @ (concat (map (repr_char q) b) @ [q])"
    by (simp add: str_repr_def q_def [symmetric] Let_def) (simp add: s)
  then show ?thesis unfolding contains_str_iff by blast
qed

section \<open>Lemmas: the strings of a value\<close>

fun string_leaves :: "json \<Rightarrow> string list" where
  "string_leaves (JDict d) = concat (map (\<lambda>p. string_leaves (snd p)) d)"
| "string_leaves (JList xs) = concat (map string_leaves xs)"
| "string_leaves (JStr s) = [s]"
| "string_leaves _ = []"

lemma leaf_contained: "s \<in> set (string_leaves v) \<Longrightarrow> contains_str ''${'' s \<Longrightarrow> contains_str ''${'' (py_repr fs v)"
proof (induction v rule: string_leaves.induct)
  case (1 d)
  then obtain p where p: "p \<in> set d" "s \<in> set (string_leaves (snd p))" by auto
  with 1 have "contains_str ''${'' (py_repr fs (snd p))" by blast
  from contains_append [OF this, of "str_repr (fst p) @ '': ''" "[]"]
  have "contains_str ''${'' (py_join '', '' (map (\<lambda>p. str_repr (fst p) @ '': '' @ py_repr fs (snd p)) d))"
    by (intro contains_join [of "str_repr (fst p) @ '': '' @ py_repr fs (snd p)"]) (use p in auto)
  from contains_append [OF this, of "''{''" "''}''"] show ?case by simp
next
  case (2 xs)
  then obtain x where x: "x \<in> set xs" "s \<in> set (string_leaves x)" by auto
  with 2 have "contains_str ''${'' (py_repr fs x)" by blast
  then have "contains_str ''${'' (py_join '', '' (map (py_repr fs) xs))"
    by (intro contains_join [of "py_repr fs x"]) (use x in auto)
  from contains_append [OF this, of "''[''" "'']''"] show ?case by simp
qed (auto simp: contains_repr)

lemma map_err_exists: "(\<exists>ys. map_err f xs = Inr ys) \<longleftrightarrow> (\<forall>x \<in> set xs. \<exists>y. f x = Inr y)"
  by (induction xs) (auto split: sum.splits)

lemma resolve_value_succeeds:
  "(\<exists>w. resolve_value f v = Inr w) \<longleftrightarrow> (\<forall>s \<in> set (string_leaves v). \<exists>w. f s = Inr w)"
proof (induction f v rule: resolve_value.induct)
  case (1 f d)
  have "(\<exists>w. resolve_value f (JDict d) = Inr w) \<longleftrightarrow>
      (\<forall>p \<in> set d. \<exists>w. resolve_value f (snd p) = Inr w)"
    using map_err_exists [of "\<lambda>p. case resolve_value f (snd p) of Inl e \<Rightarrow> Inl e | Inr v \<Rightarrow> Inr (fst p, v)" d]
    by (fastforce split: sum.splits)
  with 1 show ?case by auto
next
  case (2 f xs)
  have "(\<exists>w. resolve_value f (JList xs) = Inr w) \<longleftrightarrow> (\<forall>x \<in> set xs. \<exists>w. resolve_value f x = Inr w)"
    using map_err_exists [of "resolve_value f" xs] by (auto split: sum.splits)
  with 2 show ?case by auto
qed auto

lemma map_err_id: "(\<And>x. x \<in> set xs \<Longrightarrow> f x = Inr x) \<Longrightarrow> map_err f xs = Inr xs"
  by (induction xs) auto

lemma resolve_value_id: "(\<And>s. s \<in> set (string_leaves v) \<Longrightarrow> f s = Inr (JStr s)) \<Longrightarrow> resolve_value f v = Inr v"
proof (induction f v rule: resolve_value.induct)
  case (1 f d)
  have "map_err (\<lambda>p. case resolve_value f (snd p) of Inl e \<Rightarrow> Inl e | Inr v \<Rightarrow> Inr (fst p, v)) d = Inr d"
    by (rule map_err_id) (use 1 in fastforce)
  then show ?case by simp
next
  case (2 f xs)
  have "map_err (resolve_value f) xs = Inr xs" by (rule map_err_id) (use 2 in auto)
  then show ?case by simp
qed auto

lemma resolve_dict: "resolve_value f (JDict d) = Inr w \<Longrightarrow> \<exists>d'. w = JDict d'"
  by (auto split: sum.splits)

text \<open>The fast path cannot be observed.\<close>

lemma resolve_placeholders_slow:
  "resolve_placeholders fs al refs results ins =
    (case resolve_value (resolve_string fs al refs results) (JDict ins) of
       Inl e \<Rightarrow> Inl e | Inr (JDict d) \<Rightarrow> Inr d | Inr _ \<Rightarrow> Inr [])"
proof (cases "contains_str ''${'' (py_repr fs (JDict ins))")
  case False
  then have "resolve_string fs al refs results s = Inr (JStr s)" if "s \<in> set (string_leaves (JDict ins))" for s
    using leaf_contained [OF that] by (auto simp: resolve_string_def)
  then have "resolve_value (resolve_string fs al refs results) (JDict ins) = Inr (JDict ins)"
    by (rule resolve_value_id)
  with False show ?thesis by (simp add: resolve_placeholders_def)
qed (simp add: resolve_placeholders_def)

lemma search_contains: "search_placeholder s = Some ph \<Longrightarrow> contains_str ''${'' s"
  by (induction s) (auto simp: match_placeholder_def split: if_splits option.splits)

lemma resolve_string_succeeds:
  "(\<exists>w. resolve_string fs al refs results s = Inr w) \<longleftrightarrow>
    (case search_placeholder s of None \<Rightarrow> True
     | Some ph \<Rightarrow> (case lookup_placeholder al refs results ph of Inl e \<Rightarrow> False | Inr v \<Rightarrow> v \<noteq> JNull))"
  using search_contains [of s] by (auto simp: resolve_string_def split: option.splits sum.splits)

section \<open>Properties\<close>

text \<open>
  C7: resolution of a task's inputs succeeds exactly when the first placeholder of every
  string anywhere in the inputs refers to a result that exists and yields a value; otherwise
  it raises, and the task fails before its tool is called.  The docstring of
  \<open>_resolve_placeholders\<close> says that unresolvable placeholders become \<open>None\<close>; the
  code and its own comments fail instead.
\<close>

theorem resolution_succeeds_iff:
  "(\<exists>d. resolve_placeholders fs al refs results ins = Inr d) \<longleftrightarrow>
    list_all (\<lambda>s. case search_placeholder s of None \<Rightarrow> True
       | Some ph \<Rightarrow> (case lookup_placeholder al refs results ph of Inl e \<Rightarrow> False | Inr v \<Rightarrow> v \<noteq> JNull))
      (string_leaves (JDict ins))"
proof -
  have "(\<exists>d. resolve_placeholders fs al refs results ins = Inr d) \<longleftrightarrow>
      (\<exists>w. resolve_value (resolve_string fs al refs results) (JDict ins) = Inr w)"
    unfolding resolve_placeholders_slow using resolve_dict
    by (fastforce split: sum.splits json.splits simp del: resolve_value.simps)
  then show ?thesis by (simp only: resolve_value_succeeds resolve_string_succeeds list_all_iff)
qed

text \<open>
  only the first placeholder of a string is replaced: a second one reaches the tool as
  literal text, even when it refers to a task that never ran.
\<close>

theorem second_placeholder_reaches_tool:
  "resolve_placeholders fs al [] [(''a'', JDict [(''x'', JStr ''1'')])] [(''q'', JStr ''${a.result.x}-${b.result.x}'')]
    = Inr [(''q'', JStr ''1-${b.result.x}'')]"
proof -
  have m: "search_placeholder ''${a.result.x}-${b.result.x}'' =
      Some \<lparr>ph_text = ''${a.result.x}'', ph_ref = ''a'', ph_index = None, ph_field = Some ''x''\<rparr>"
    by (simp add: match_placeholder_def starts_with_def after_result_def field_tail_def)
  have l: "lookup_placeholder al [] [(''a'', JDict [(''x'', JStr ''1'')])]
      \<lparr>ph_text = ''${a.result.x}'', ph_ref = ''a'', ph_index = None, ph_field = Some ''x''\<rparr> = Inr (JStr ''1'')"
    by (simp add: lookup_placeholder_def referenced_data_def placeholder_path_def resolve_field_def
        field_attempts_def deep_get_def deep_step_def parse_path_segment_def parse_index_def at_index_def dict_get_def)
  have "resolve_string fs al [] [(''a'', JDict [(''x'', JStr ''1'')])] ''${a.result.x}-${b.result.x}''
      = Inr (JStr ''1-${b.result.x}'')"
    unfolding resolve_string_def m option.case l using search_contains [OF m]
    by (simp add: py_str_def starts_with_def)
  then show ?thesis by (simp add: resolve_placeholders_slow)
qed

lemma deep_walk_agrees:
  "walk_path cur segs \<noteq> JNull \<Longrightarrow> \<forall>s \<in> set segs. \<forall>i. parse_index s \<noteq> Some ([], i) \<Longrightarrow>
   deep_walk cur segs = Inr (walk_path cur segs)"
proof (induction cur segs rule: walk_path.induct)
  case (2 cur seg segs)
  show ?case
  proof (cases "keyed_index seg")
    case None
    with 2 have "parse_index seg = None" by (auto simp: keyed_index_def split: option.splits prod.splits if_splits)
    with 2 None show ?thesis
      by (auto simp: deep_step_def parse_path_segment_def at_index_def split: json.splits option.splits)
  next
    case (Some p)
    then obtain key i where p: "p = (key, i)" "parse_index seg = Some (key, i)" "key \<noteq> []"
      by (auto simp: keyed_index_def split: option.splits prod.splits if_splits)
    with 2 Some show ?thesis
      by (auto simp: deep_step_def parse_path_segment_def at_index_def split: json.splits option.splits if_splits)
  qed
qed simp

text \<open>
  A value that the normaliser finds on a path without bare indices is what the executor's lookup
  finds there.  The converse does not hold: the executor goes on to search the values of a
  dictionary when the key is missing.
\<close>

theorem executor_finds_normalised_values:
  assumes "deep_extract obj path \<noteq> JNull"
    and "\<forall>s \<in> set (py_split (CHR ''.'') path). \<forall>i. parse_index s \<noteq> Some ([], i)"
  shows "deep_get obj path = Inr (deep_extract obj path)"
  using deep_walk_agrees [OF _ assms(2), of obj] assms(1) by (simp add: deep_extract_def deep_get_def)

theorem executor_finds_normalised_values_witness:
  "deep_get (JDict [(''results'', JList [JDict [(''lat'', JInt 7)]])]) ''results[0].lat'' = Inr (JInt 7)"
proof -
  let ?o = "JDict [(''results'', JList [JDict [(''lat'', JInt 7)]])]"
  have e: "deep_extract ?o ''results[0].lat'' = JInt 7"
    by (simp add: deep_extract_def keyed_index_def parse_index_def is_digit_def nat_of_digits_def digit_val_def)
  have "deep_get ?o ''results[0].lat'' = Inr (deep_extract ?o ''results[0].lat'')"
    by (rule executor_finds_normalised_values) (simp_all add: e, simp_all add: parse_index_def)
  with e show ?thesis by simp
qed

text \<open>On the path \<open>lat\<close> the executor finds a nested value where the normaliser finds none.\<close>

theorem executor_searches_deeper:
  "deep_extract (JDict [(''geo'', JDict [(''lat'', JInt 7)])]) ''lat'' = JNull
   \<and> deep_get (JDict [(''geo'', JDict [(''lat'', JInt 7)])]) ''lat'' = Inr (JInt 7)"
  by (simp add: deep_extract_def deep_get_def keyed_index_def parse_index_def deep_step_def parse_path_segment_def)

lemma match_ref_split:
  "match_ref acc s = Some (r, i, f, rest) \<Longrightarrow> r \<noteq> [] \<and> (\<exists>w t. r = acc @ w \<and> s = w @ ''.result'' @ t)"
proof (induction acc s rule: match_ref.induct)
  case (2 ref c cs)
  show ?case
  proof (cases "ref \<noteq> [] \<and> starts_with ''.result'' (c # cs) \<and> after_result (drop 7 (c # cs)) \<noteq> None")
    case True
    with 2(2) have "r = ref" by (auto split: option.splits)
    moreover obtain t where "c # cs = ''.result'' @ t" using True by (auto simp: starts_with_iff)
    ultimately show ?thesis using True by auto
  next
    case False
    then have none: "(if ref \<noteq> [] \<and> starts_with ''.result'' (c # cs) then after_result (drop 7 (c # cs)) else None) = None"
      by (auto simp del: not_None_eq)
    with 2(2) have c: "c \<noteq> CHR 0x0A" and m: "match_ref (ref @ [c]) cs = Some (r, i, f, rest)"
      by (auto split: if_splits)
    from 2(1) [OF none c m] show ?thesis by (metis append.assoc append_Cons append_Nil)
  qed
qed simp

lemma search_skip: "CHR ''$'' \<notin> set u \<Longrightarrow> search_placeholder (u @ v) = search_placeholder v"
  by (induction u) (auto simp: match_placeholder_def starts_with_def)

end
