(* ===== verification/Executor.thy ===== *)
theory Executor
  imports Placeholders Ledger Recovery Global_Context
begin

text \<open>
  \<open>agent/executors/concurrent_executor.py\<close>: one task from the idempotency checks
  through retries and endpoint fallback to the registered artifact (\<open>run_task\<close> is the
  function \<open>_run\<close>, \<open>execute_single\<close> the method of that name), conditional pruning, a
  wave, and the whole plan.  Parameters: \<open>sha\<close> and \<open>digest\<close> (SHA256 of a canonical
  JSON value and of a string), \<open>dumps\<close> and \<open>loads\<close> (JSON text), the outcome of each
  provider call, the clock and the fresh lease token.  The task runs of a wave are taken
  one after the other, in an order that is a parameter; what another task or process can do
  to the shared ledger in between is the subject of \<open>Ledger\<close>.
\<close>

section \<open>Tasks, tools, configuration\<close>

record exec_task =
  et_id :: string
  et_tool :: string
  et_inputs :: "json dict"
  et_deps :: "string list"
  et_max_retries :: nat
  et_url :: string
  et_method :: string
  et_candidates :: "json dict list"
  et_kind :: string
  et_condition :: string
  et_true :: "string list"
  et_false :: "string list"

text \<open>
  What the executor reads of a tool's row: \<open>m_valid\<close> tells whether \<open>ToolRead\<close> accepts
  the row, \<open>m_public\<close> whether its cache scope is public.
\<close>

record tool_meta =
  m_idempotent :: bool
  m_cacheable :: bool
  m_public :: bool
  m_valid :: bool
  m_url :: string
  m_method :: string
  m_allowed :: "string list option"
  m_flat :: "(string \<times> string) list"
  m_optional :: "string list"
  m_schema_hash :: string

definition no_meta :: tool_meta where
  "no_meta = \<lparr>m_idempotent = False, m_cacheable = True, m_public = False, m_valid = False, m_url = [],
     m_method = ''GET'', m_allowed = None, m_flat = [], m_optional = [], m_schema_hash = []\<rparr>"

record exec_cfg =
  cfg_session :: string
  cfg_tools :: "(string \<times> tool_meta) list"
  cfg_gc :: global_context
  cfg_aliases :: "(string \<times> string) list"   \<comment> \<open>\<open>settings.tools.field_aliases\<close>\<close>
  cfg_refs :: "(string \<times> string) list"      \<comment> \<open>\<open>_ref_aliases\<close>\<close>
  cfg_arch :: string
  cfg_reg :: string
  cfg_ledger_up :: bool
  cfg_cache_up :: bool
  cfg_lease_s :: int
  cfg_float :: "rat \<Rightarrow> string"
  cfg_sha :: "json \<Rightarrow> string"
  cfg_digest :: "string \<Rightarrow> string"
  cfg_dumps :: "json \<Rightarrow> string"
  cfg_loads :: "string \<Rightarrow> json option"

definition meta_of :: "exec_cfg \<Rightarrow> string \<Rightarrow> tool_meta" where
  "meta_of cfg tool = dict_get (cfg_tools cfg) tool no_meta"

text \<open>\<open>ToolRead\<close> as far as it is used: the endpoint and the artifact contract.\<close>

record tool_read =
  rd_url :: string
  rd_method :: string
  rd_allowed :: "string list option"
  rd_flat :: "(string \<times> string) list"
  rd_optional :: "string list"

text \<open>\<open>_tool_dict_to_read\<close>: the row, else a stub with the first provider that has a URL.\<close>

fun provider_url :: "json list \<Rightarrow> string \<times> string" where
  "provider_url [] = ([], ''GET'')"
| "provider_url (p # ps) = (case p of
     JDict d \<Rightarrow> (case dict_get d ''url'' JNull of
         JStr (c # cs) \<Rightarrow> (c # cs, case dict_get d ''http_method'' JNull of JStr (x # xs) \<Rightarrow> x # xs | _ \<Rightarrow> ''GET'')
       | _ \<Rightarrow> provider_url ps)
   | _ \<Rightarrow> provider_url ps)"

definition tool_dict_to_read :: "exec_cfg \<Rightarrow> string \<Rightarrow> tool_read" where
  "tool_dict_to_read cfg tool = (let m = meta_of cfg tool in
     if m_valid m then \<lparr>rd_url = m_url m, rd_method = m_method m, rd_allowed = m_allowed m,
         rd_flat = m_flat m, rd_optional = m_optional m\<rparr>
     else let p = provider_url (get_capability_providers (cfg_gc cfg) tool) in
       \<lparr>rd_url = fst p, rd_method = snd p, rd_allowed = None, rd_flat = [], rd_optional = []\<rparr>)"

definition bind_tool :: "exec_cfg \<Rightarrow> string \<Rightarrow> string \<Rightarrow> string \<Rightarrow> tool_read" where
  "bind_tool cfg tool url meth = (if url \<noteq> [] then (let m = meta_of cfg tool in
      \<lparr>rd_url = url, rd_method = meth, rd_allowed = m_allowed m, rd_flat = m_flat m, rd_optional = m_optional m\<rparr>)
    else tool_dict_to_read cfg tool)"

definition execution_key_of :: "exec_cfg \<Rightarrow> string \<Rightarrow> json dict \<Rightarrow> string" where
  "execution_key_of cfg tool ins =
     hash_json (cfg_sha cfg) (JDict [(''tool_name'', JStr tool), (''inputs'', JDict ins)])"

definition idempotency_key :: "exec_cfg \<Rightarrow> string \<Rightarrow> string \<Rightarrow> string" where
  "idempotency_key cfg tid key = take 40 (cfg_digest cfg (cfg_session cfg @ '':'' @ tid @ '':'' @ key))"

section \<open>The artifact cache\<close>

text \<open>
  A row of the memory table written by the executor; \<open>put\<close> cleans the text first.  The
  last pattern, \<open><|endoftext|>\s*$\<close>, is an alternation of three.
\<close>

record cache_row =
  c_session :: "string option"
  c_kind :: string
  c_key :: string
  c_tool :: string
  c_arch :: string
  c_reg :: string
  c_schema :: string
  c_content :: string

definition drop_suffix :: "string \<Rightarrow> string \<Rightarrow> string" where
  "drop_suffix suf s = (if ends_with suf s then take (length s - length suf) s else s)"

fun drop_tokens :: "nat \<Rightarrow> string \<Rightarrow> string" where
  "drop_tokens k [] = []"
| "drop_tokens (Suc k) (c # cs) = drop_tokens k cs"
| "drop_tokens 0 (c # cs) =
    (if c = CHR 0x3C then drop_tokens 0 cs
     else if starts_with ''endoftext'' (c # cs) then drop_tokens 8 cs
     else if c = CHR 0x3E \<and> cs = [] then []
     else c # drop_tokens 0 cs)"

definition sanitize :: "string \<Rightarrow> string" where
  "sanitize s = drop_tokens 0 (py_strip (drop_suffix ''<|im_end|>'' (py_strip (drop_suffix ''###'' (py_strip s)))))"

definition session_opt :: "exec_cfg \<Rightarrow> string option" where
  "session_opt cfg = (if cfg_session cfg = [] then None else Some (cfg_session cfg))"

definition cache_put :: "exec_cfg \<Rightarrow> string \<Rightarrow> string \<Rightarrow> string \<Rightarrow> json \<Rightarrow> cache_row list \<Rightarrow> cache_row list" where
  "cache_put cfg kind key tool v rows = (if \<not> cfg_cache_up cfg then rows
     else rows @ [\<lparr>c_session = session_opt cfg, c_kind = kind, c_key = key, c_tool = tool, c_arch = cfg_arch cfg,
       c_reg = cfg_reg cfg, c_schema = m_schema_hash (meta_of cfg tool), c_content = sanitize (cfg_dumps cfg v)\<rparr>])"

text \<open>\<open>find_by_metadata\<close> with \<open>top_k=1\<close>: the newest matching row; scope \<open>None\<close> matches all.\<close>

definition cache_get :: "exec_cfg \<Rightarrow> string \<Rightarrow> string \<Rightarrow> string \<Rightarrow> cache_row list \<Rightarrow> string option" where
  "cache_get cfg kind key tool rows = (if \<not> cfg_cache_up cfg then None
     else let scope = (if m_public (meta_of cfg tool) then None else session_opt cfg) in
       map_option c_content (find (\<lambda>r. c_kind r = kind \<and> (scope = None \<or> c_session r = scope) \<and> c_key r = key
         \<and> c_tool r = tool \<and> c_arch r = cfg_arch cfg \<and> c_reg r = cfg_reg cfg
         \<and> c_schema r = m_schema_hash (meta_of cfg tool)) (rev rows)))"

definition cache_dict :: "exec_cfg \<Rightarrow> string \<Rightarrow> string \<Rightarrow> string \<Rightarrow> cache_row list \<Rightarrow> json dict option" where
  "cache_dict cfg kind key tool rows = (case cache_get cfg kind key tool rows of None \<Rightarrow> None
     | Some s \<Rightarrow> (case cfg_loads cfg s of Some (JDict d) \<Rightarrow> Some d | _ \<Rightarrow> None))"

section \<open>The executor's state\<close>

text \<open>The observable trace: provider calls and backoff pauses, oldest first.\<close>

datatype exec_event =
    Called (ev_task: string) (ev_url: string) (ev_method: string) (ev_key: string)
  | Slept nat

record exec_world =
  completed_keys :: "string list"
  x_ledger :: ledger_table
  x_cache :: "cache_row list"
  x_budget :: "reasoning_budget option"
  x_trace :: "exec_event list"
  x_artifacts :: "(string \<times> json dict) list"

record exec_result =
  er_task :: string
  er_status :: string
  er_data :: json
  er_error :: "string option"
  er_key :: "string option"
  er_cached :: bool

definition plain_result :: "exec_task \<Rightarrow> string \<Rightarrow> string option \<Rightarrow> string option \<Rightarrow> exec_result" where
  "plain_result task status err key = \<lparr>er_task = et_id task, er_status = status, er_data = JNull,
     er_error = err, er_key = key, er_cached = False\<rparr>"

definition success_result :: "exec_task \<Rightarrow> json \<Rightarrow> string \<Rightarrow> bool \<Rightarrow> exec_result" where
  "success_result task v key cached = \<lparr>er_task = et_id task, er_status = ''success'', er_data = v,
     er_error = None, er_key = Some key, er_cached = cached\<rparr>"

text \<open>
  What one provider call does: a result, a timeout, cancellation in flight, or an exception.
\<close>

record tool_response =
  rs_status :: string
  rs_http :: "int option"
  rs_data :: "json dict option"
  rs_error :: "string option"

datatype tool_outcome = Responded tool_response | Timed_out | Cancelled_mid_call | Raised_exc string

definition is_permanent_http_error :: "tool_response \<Rightarrow> bool" where
  "is_permanent_http_error r \<longleftrightarrow> rs_status r = ''validation_error'' \<or> rs_status r = ''validation_failed''
     \<or> (case rs_http r of None \<Rightarrow> False | Some c \<Rightarrow> 400 \<le> c \<and> c < 500 \<and> c \<noteq> 408 \<and> c \<noteq> 425 \<and> c \<noteq> 429)"

section \<open>Artifact registration\<close>

text \<open>
  The normalised payload is returned, stripped; a contract violation returns it without
  registering; an exception of the normaliser registers and returns an empty payload.
\<close>

definition register_artifact ::
  "exec_cfg \<Rightarrow> exec_task \<Rightarrow> tool_read \<Rightarrow> string \<Rightarrow> json \<Rightarrow> exec_world \<Rightarrow> exec_world \<times> json dict" where
  "register_artifact cfg task rd key v w =
    (let payload = (case v of JDict d \<Rightarrow> d | _ \<Rightarrow> []) in
     case (if is_normalized payload then Inr payload else normalize_artifact (rd_allowed rd) (rd_flat rd) payload) of
       Inl _ \<Rightarrow> (w\<lparr>x_artifacts := x_artifacts w @ [(et_id task, [])]\<rparr>, [])
     | Inr n \<Rightarrow>
        if rd_flat rd \<noteq> [] \<and>
           validate_artifact_contract (strip_normalization_state n) (rd_flat rd) (rd_optional rd) payload \<noteq> []
        then (w, strip_normalization_state n)
        else (w\<lparr>x_cache := cache_put cfg ''normalized_artifact'' key (et_tool task) (JDict n) (x_cache w),
                x_artifacts := x_artifacts w @ [(et_id task, strip_normalization_state n)]\<rparr>,
              strip_normalization_state n))"

section \<open>One attempt\<close>

record attempt_state =
  a_url :: string
  a_method :: string
  a_fallback :: nat
  a_error :: "string option"

definition cand_url :: "json dict \<Rightarrow> string" where
  "cand_url c = (case dict_get c ''url'' JNull of JStr u \<Rightarrow> u | _ \<Rightarrow> [])"

definition cand_method :: "json dict \<Rightarrow> string \<Rightarrow> string" where
  "cand_method c current = (case dict_get c ''http_method'' JNull of JStr m \<Rightarrow> m | _ \<Rightarrow> current)"

definition pick_candidate :: "json dict list \<Rightarrow> attempt_state \<Rightarrow> attempt_state" where
  "pick_candidate pool st = (if a_fallback st = 0 then st
     else case find (\<lambda>c. cand_url c \<noteq> [] \<and> cand_url c \<noteq> a_url st) pool of
       None \<Rightarrow> st
     | Some c \<Rightarrow> st\<lparr>a_url := cand_url c, a_method := cand_method c (a_method st)\<rparr>)"

text \<open>The ledger calls of a run, for the token it holds, if any.\<close>

definition complete_claim :: "exec_cfg \<Rightarrow> string \<Rightarrow> string option \<Rightarrow> json dict \<Rightarrow> exec_world \<Rightarrow> exec_world" where
  "complete_claim cfg key tok d w = (case tok of None \<Rightarrow> w
     | Some t \<Rightarrow> w\<lparr>x_ledger := ledger_complete (cfg_ledger_up cfg) t (JDict d) (cfg_session cfg, key) (x_ledger w)\<rparr>)"

definition release_claim :: "exec_cfg \<Rightarrow> string \<Rightarrow> string option \<Rightarrow> exec_world \<Rightarrow> exec_world" where
  "release_claim cfg key tok w = (case tok of None \<Rightarrow> w
     | Some t \<Rightarrow> w\<lparr>x_ledger := ledger_release (cfg_ledger_up cfg) t (cfg_session cfg, key) (x_ledger w)\<rparr>)"

definition mark_completed_key :: "string \<Rightarrow> exec_world \<Rightarrow> exec_world" where
  "mark_completed_key key w = w\<lparr>completed_keys := List.insert key (completed_keys w)\<rparr>"

definition record_event :: "exec_event \<Rightarrow> exec_world \<Rightarrow> exec_world" where
  "record_event e w = w\<lparr>x_trace := x_trace w @ [e]\<rparr>"

text \<open>A hit of the artifact cache, preferring the normalised form of this normaliser version.\<close>

definition cached_success ::
  "exec_cfg \<Rightarrow> exec_task \<Rightarrow> tool_read \<Rightarrow> string \<Rightarrow> string option \<Rightarrow> json dict \<Rightarrow> exec_world \<Rightarrow> exec_world \<times> exec_result" where
  "cached_success cfg task rd key tok hit w =
    (let d = (case cache_dict cfg ''normalized_artifact'' key (et_tool task) (x_cache w) of
           Some n \<Rightarrow> if map_of n version_key = Some (JStr ''2'') then n else hit
         | None \<Rightarrow> hit);
         w1 = fst (register_artifact cfg task rd key (JDict d) (mark_completed_key key w));
         out = strip_normalization_state d in
     (complete_claim cfg key tok out w1, success_result task (JDict out) key True))"

text \<open>A successful response: cache write, completed key, ledger, artifact.\<close>

definition fresh_success ::
  "exec_cfg \<Rightarrow> exec_task \<Rightarrow> tool_read \<Rightarrow> string \<Rightarrow> string option \<Rightarrow> json dict option \<Rightarrow> exec_world \<Rightarrow> exec_world \<times> exec_result" where
  "fresh_success cfg task rd key tok data w =
    (let w1 = (case data of
           Some d \<Rightarrow> if m_cacheable (meta_of cfg (et_tool task))
             then w\<lparr>x_cache := cache_put cfg ''artifact'' key (et_tool task) (JDict d) (x_cache w)\<rparr> else w
         | None \<Rightarrow> w);
         d = (case data of Some d \<Rightarrow> d | None \<Rightarrow> []);
         r = register_artifact cfg task rd key (JDict d) (complete_claim cfg key tok d (mark_completed_key key w1)) in
     (fst r, success_result task (JDict (snd r)) key False))"

definition contract_error :: "tool_response \<Rightarrow> bool" where
  "contract_error r = (case rs_error r of None \<Rightarrow> False | Some e \<Rightarrow> e \<noteq> [] \<and> contains_str ''contract'' (py_lower e))"

definition error_or :: "string option \<Rightarrow> string \<Rightarrow> string" where
  "error_or e dflt = (case e of None \<Rightarrow> dflt | Some s \<Rightarrow> if s = [] then dflt else s)"

definition backoff :: "bool \<Rightarrow> nat \<Rightarrow> exec_world \<Rightarrow> exec_world" where
  "backoff again n w = (if again then record_event (Slept (2 ^ n)) w else w)"

text \<open>
  What follows the provider's answer in attempt \<open>n\<close>: \<open>Inl\<close> goes on with the loop,
  \<open>Inr\<close> returns.
\<close>

definition on_response ::
  "exec_cfg \<Rightarrow> exec_task \<Rightarrow> tool_read \<Rightarrow> string \<Rightarrow> string option \<Rightarrow> nat \<Rightarrow> nat \<Rightarrow> attempt_state \<Rightarrow> tool_response
     \<Rightarrow> exec_world \<Rightarrow> exec_world \<times> (attempt_state + exec_result)" where
  "on_response cfg task rd key tok retries n st r w =
    (if rs_status r = ''success''
     then (let x = fresh_success cfg task rd key tok (rs_data r) w in (fst x, Inr (snd x)))
     else if a_fallback st < length (et_candidates task) \<and> m_idempotent (meta_of cfg (et_tool task))
         \<and> (rs_status r = ''validation_error'' \<or> contract_error r)
     then (w, Inl (st\<lparr>a_fallback := a_fallback st + 1, a_error := Some (error_or (rs_error r) ''Validation failed'')\<rparr>))
     else if rs_status r = ''validation_error'' \<or> is_permanent_http_error r
     then (w, Inr (plain_result task (rs_status r) (Some (error_or (rs_error r) (rs_status r))) None))
     else (backoff (n < retries) n w, Inl (st\<lparr>a_error := Some (error_or (rs_error r) ''Unknown error'')\<rparr>)))"

definition on_outcome ::
  "exec_cfg \<Rightarrow> exec_task \<Rightarrow> tool_read \<Rightarrow> string \<Rightarrow> string option \<Rightarrow> nat \<Rightarrow> nat \<Rightarrow> attempt_state \<Rightarrow> tool_outcome
     \<Rightarrow> exec_world \<Rightarrow> exec_world \<times> (attempt_state + exec_result)" where
  "on_outcome cfg task rd key tok retries n st out w =
    (case out of
       Responded r \<Rightarrow> on_response cfg task rd key tok retries n st r w
     | Cancelled_mid_call \<Rightarrow> (w, Inr (plain_result task ''uncertain'' (Some ''cancelled during execution'') (Some key)))
     | Timed_out \<Rightarrow> if n < retries then (backoff True n w, Inl (st\<lparr>a_error := Some ''Timed out''\<rparr>))
         else (w, Inr (plain_result task ''timeout'' (Some ''Timed out'') None))
     | Raised_exc e \<Rightarrow> (backoff (n < et_max_retries task) n w, Inl (st\<lparr>a_error := Some e\<rparr>)))"

definition reserve_call :: "exec_world \<Rightarrow> exec_world option" where
  "reserve_call w = (case x_budget w of None \<Rightarrow> Some w
     | Some b \<Rightarrow> let r = consume ''tool_calls'' 1 b in if snd r then Some (w\<lparr>x_budget := Some (fst r)\<rparr>) else None)"

definition attempt_once ::
  "exec_cfg \<Rightarrow> exec_task \<Rightarrow> json dict \<Rightarrow> string option \<Rightarrow> nat \<Rightarrow> nat \<Rightarrow> tool_outcome \<Rightarrow> attempt_state \<Rightarrow> exec_world
     \<Rightarrow> exec_world \<times> (attempt_state + exec_result)" where
  "attempt_once cfg task ins tok retries n out st0 w =
    (let st = pick_candidate (et_candidates task) st0;
         rd = bind_tool cfg (et_tool task) (a_url st) (a_method st);
         key = execution_key_of cfg (et_tool task) ins;
         hit = (if m_cacheable (meta_of cfg (et_tool task)) \<and> key \<notin> set (completed_keys w)
           then cache_dict cfg ''artifact'' key (et_tool task) (x_cache w) else None) in
     case hit of
       Some d \<Rightarrow> (let x = cached_success cfg task rd key tok d w in (fst x, Inr (snd x)))
     | None \<Rightarrow>
        (case reserve_call w of
           None \<Rightarrow> (release_claim cfg key tok w,
             Inr (plain_result task ''error'' (Some ''invocation tool-call budget exhausted'') (Some key)))
         | Some w1 \<Rightarrow> on_outcome cfg task rd key tok retries n st out
             (record_event (Called (et_id task) (rd_url rd) (rd_method rd) (idempotency_key cfg (et_id task) key)) w1)))"

text \<open>The loop: \<open>left\<close> attempts remain, \<open>outs n\<close> is the outcome of a call in attempt \<open>n\<close>.\<close>

fun attempt_loop ::
  "exec_cfg \<Rightarrow> exec_task \<Rightarrow> json dict \<Rightarrow> string option \<Rightarrow> nat \<Rightarrow> (nat \<Rightarrow> tool_outcome) \<Rightarrow> nat \<Rightarrow> nat \<Rightarrow> attempt_state
     \<Rightarrow> exec_world \<Rightarrow> exec_world \<times> exec_result" where
  "attempt_loop cfg task ins tok retries outs n 0 st w = (w, plain_result task ''error'' (a_error st) None)"
| "attempt_loop cfg task ins tok retries outs n (Suc left) st w =
    (case attempt_once cfg task ins tok retries n (outs n) st w of
       (w', Inr r) \<Rightarrow> (w', r)
     | (w', Inl st') \<Rightarrow> attempt_loop cfg task ins tok retries outs (Suc n) left st' w')"

definition task_retries :: "exec_cfg \<Rightarrow> exec_task \<Rightarrow> nat" where
  "task_retries cfg task = (if m_idempotent (meta_of cfg (et_tool task)) then et_max_retries task else 0)"

definition execute_single ::
  "exec_cfg \<Rightarrow> exec_task \<Rightarrow> json dict \<Rightarrow> string option \<Rightarrow> (nat \<Rightarrow> tool_outcome) \<Rightarrow> exec_world \<Rightarrow> exec_world \<times> exec_result" where
  "execute_single cfg task ins tok outs w =
     attempt_loop cfg task ins tok (task_retries cfg task) outs 0 (task_retries cfg task + 1)
       \<lparr>a_url = et_url task, a_method = et_method task, a_fallback = 0, a_error = None\<rparr> w"

section \<open>One task\<close>

definition is_disabled :: "string list \<Rightarrow> exec_task \<Rightarrow> bool" where
  "is_disabled disabled task \<longleftrightarrow> et_id task \<in> set disabled \<or> (\<exists>d \<in> set (et_deps task). d \<in> set disabled)"

definition replayable :: "exec_cfg \<Rightarrow> ledger_row option \<Rightarrow> json option" where
  "replayable cfg row = (case row of None \<Rightarrow> None
     | Some r \<Rightarrow> if cfg_arch cfg = [] \<or> lr_arch r = cfg_arch cfg then lr_result r else None)"

text \<open>
  \<open>_run\<close>: \<open>now\<close> and \<open>fresh\<close> are the clock and the new lease token.  An exception of
  the placeholder resolution becomes an error outcome in \<open>gather\<close>.
\<close>

definition resolution_message :: "resolution_error \<Rightarrow> string" where
  "resolution_message e = (case e of Unresolved t r \<Rightarrow> ''cannot resolve placeholder '' @ t | Index_error \<Rightarrow> ''list index out of range'')"

definition run_task ::
  "exec_cfg \<Rightarrow> string list \<Rightarrow> json dict \<Rightarrow> int \<Rightarrow> string \<Rightarrow> (nat \<Rightarrow> tool_outcome) \<Rightarrow> exec_task \<Rightarrow> exec_world
     \<Rightarrow> exec_world \<times> exec_result" where
  "run_task cfg disabled accumulated now fresh outs task w =
    (if is_disabled disabled task then (w, plain_result task ''skipped'' None None)
     else case resolve_placeholders (cfg_float cfg) (cfg_aliases cfg) (cfg_refs cfg) accumulated (et_inputs task) of
       Inl e \<Rightarrow> (w, plain_result task ''error'' (Some (resolution_message e)) None)
     | Inr ins \<Rightarrow>
      (let key = execution_key_of cfg (et_tool task) ins; lk = (cfg_session cfg, key) in
       if key \<in> set (completed_keys w)
       then (w, success_result task (dict_get accumulated (et_id task) JNull) key False)
       else if cfg_session cfg = [] then execute_single cfg task ins None outs w
       else case replayable cfg (ledger_find (cfg_ledger_up cfg) (x_ledger w) lk) of
         Some v \<Rightarrow> (fst (register_artifact cfg task (tool_dict_to_read cfg (et_tool task)) key v (mark_completed_key key w)),
                    success_result task v key True)
       | None \<Rightarrow>
        (let c = ledger_claim (cfg_ledger_up cfg) (cfg_lease_s cfg) now fresh (cfg_arch cfg) lk (x_ledger w);
             w1 = w\<lparr>x_ledger := fst c\<rparr> in
         case snd c of
           None \<Rightarrow> (case replayable cfg (ledger_find (cfg_ledger_up cfg) (x_ledger w1) lk) of
               Some v \<Rightarrow> (mark_completed_key key w1, success_result task v key True)
             | None \<Rightarrow> (w1, plain_result task ''error'' (Some ''execution already in progress'') (Some key)))
         | Some tok \<Rightarrow>
             (let r = execute_single cfg task ins (Some tok) outs w1 in
              (if er_status (snd r) \<noteq> ''success'' \<and> er_status (snd r) \<noteq> ''uncertain''
               then release_claim cfg key (Some tok) (fst r) else fst r, snd r)))))"

section \<open>Waves\<close>

text \<open>
  The environment of a plan: per task the clock, the fresh token, the outcomes of its calls,
  and whether it is cancelled before it starts; \<open>en_cond\<close> evaluates a gate's condition,
  \<open>None\<close> being an exception; \<open>en_order\<close> is the order in which a wave's tasks run.
\<close>

record exec_env =
  en_now :: "string \<Rightarrow> int"
  en_fresh :: "string \<Rightarrow> string"
  en_outs :: "string \<Rightarrow> nat \<Rightarrow> tool_outcome"
  en_cancelled :: "string \<Rightarrow> bool"
  en_cond :: "string \<Rightarrow> json dict \<Rightarrow> bool option"
  en_order :: "exec_task list \<Rightarrow> exec_task list"

definition guarded_run ::
  "exec_cfg \<Rightarrow> exec_env \<Rightarrow> string list \<Rightarrow> json dict \<Rightarrow> exec_task \<Rightarrow> exec_world \<Rightarrow> exec_world \<times> exec_result" where
  "guarded_run cfg env disabled acc task w =
    (if en_cancelled env (et_id task) then (w, plain_result task ''uncertain'' (Some ''cancelled during execution'') None)
     else run_task cfg disabled acc (en_now env (et_id task)) (en_fresh env (et_id task)) (en_outs env (et_id task)) task w)"

text \<open>Gates are evaluated and removed; the tasks of the losing branch are disabled.\<close>

definition prune_step ::
  "exec_env \<Rightarrow> json dict \<Rightarrow> string list \<times> exec_task list \<Rightarrow> exec_task \<Rightarrow> string list \<times> exec_task list" where
  "prune_step env acc s task =
    (if et_kind task \<noteq> ''conditional'' then (fst s, snd s @ [task])
     else let taken = (case en_cond env (et_condition task) acc of None \<Rightarrow> False | Some b \<Rightarrow> b);
              chosen = (if taken then et_true task else et_false task) in
       (fst s @ filter (\<lambda>t. t \<notin> set chosen) (et_true task @ et_false task), snd s))"

definition prune_conditional_tasks ::
  "exec_env \<Rightarrow> json dict \<Rightarrow> string list \<Rightarrow> exec_task list \<Rightarrow> string list \<times> exec_task list" where
  "prune_conditional_tasks env acc disabled tasks = foldl (prune_step env acc) (disabled, []) tasks"

definition wave_task ::
  "exec_cfg \<Rightarrow> exec_env \<Rightarrow> string list \<Rightarrow> json dict \<Rightarrow> exec_world \<times> (string \<times> exec_result) list \<Rightarrow> exec_task
     \<Rightarrow> exec_world \<times> (string \<times> exec_result) list" where
  "wave_task cfg env disabled acc s task =
    (let r = guarded_run cfg env disabled acc task (fst s) in (fst r, AList.update (et_id task) (snd r) (snd s)))"

text \<open>\<open>gather\<close> returns the results in the order of the tasks.\<close>

definition execute_wave ::
  "exec_cfg \<Rightarrow> exec_env \<Rightarrow> string list \<Rightarrow> json dict \<Rightarrow> exec_task list \<Rightarrow> exec_world \<Rightarrow> exec_world \<times> exec_result list" where
  "execute_wave cfg env disabled acc tasks w =
    (let s = foldl (wave_task cfg env disabled acc) (w, []) (en_order env tasks) in
     (fst s, map (\<lambda>t. dict_get (snd s) (et_id t) (plain_result t ''error'' (Some ''Unknown error'') None)) tasks))"

section \<open>The plan\<close>

record exec_results =
  by_task :: "(string \<times> exec_result) list"
  successful :: "string list"
  failed :: "string list"
  timed_out :: "string list"
  skipped :: "string list"

definition all_successful :: "exec_results \<Rightarrow> bool" where
  "all_successful r \<longleftrightarrow> failed r = [] \<and> timed_out r = []"

definition no_results :: exec_results where
  "no_results = \<lparr>by_task = [], successful = [], failed = [], timed_out = [], skipped = []\<rparr>"

definition record_outcome :: "exec_results \<times> json dict \<Rightarrow> exec_result \<Rightarrow> exec_results \<times> json dict" where
  "record_outcome s o' =
    (let r = (fst s)\<lparr>by_task := AList.update (er_task o') o' (by_task (fst s))\<rparr> in
     if er_status o' = ''success'' then (r\<lparr>successful := successful r @ [er_task o']\<rparr>, AList.update (er_task o') (er_data o') (snd s))
     else if er_status o' = ''timeout'' then (r\<lparr>timed_out := timed_out r @ [er_task o']\<rparr>, snd s)
     else if er_status o' = ''skipped'' then (r\<lparr>skipped := skipped r @ [er_task o']\<rparr>, snd s)
     else (r\<lparr>failed := failed r @ [er_task o']\<rparr>, snd s))"

text \<open>The state between waves: world, disabled tasks, results, accumulated data.\<close>

type_synonym plan_state = "exec_world \<times> string list \<times> exec_results \<times> json dict"

definition plan_wave :: "exec_cfg \<Rightarrow> exec_env \<Rightarrow> plan_state \<Rightarrow> exec_task list \<Rightarrow> plan_state" where
  "plan_wave cfg env s wave = (case s of (w, disabled, res, acc) \<Rightarrow>
    (let p = prune_conditional_tasks env acc disabled wave in
     if snd p = [] then (w, fst p, res, acc)
     else let x = execute_wave cfg env (fst p) acc (snd p) w;
              y = foldl record_outcome (res, acc) (snd x) in
       (fst x, fst p, fst y, snd y)))"

definition execute_plan :: "exec_cfg \<Rightarrow> exec_env \<Rightarrow> exec_task list list \<Rightarrow> exec_world \<Rightarrow> plan_state" where
  "execute_plan cfg env waves w = foldl (plan_wave cfg env) (w, [], no_results, []) waves"

section \<open>Lemmas: the trace\<close>

fun is_call :: "exec_event \<Rightarrow> bool" where
  "is_call (Called t u m k) = True"
| "is_call (Slept n) = False"

definition calls :: "exec_world \<Rightarrow> exec_event list" where
  "calls w = filter is_call (x_trace w)"

lemma trace_frame [simp]:
  "x_trace (fst (register_artifact cfg task rd key v w)) = x_trace w"
  "x_trace (complete_claim cfg key tok d w) = x_trace w"
  "x_trace (release_claim cfg key tok w) = x_trace w"
  "x_trace (mark_completed_key key w) = x_trace w"
  by (auto simp: register_artifact_def complete_claim_def release_claim_def mark_completed_key_def Let_def
      split: sum.splits option.splits)

lemma trace_success [simp]:
  "x_trace (fst (cached_success cfg task rd key tok d w)) = x_trace w"
  "x_trace (fst (fresh_success cfg task rd key tok data w)) = x_trace w"
  by (auto simp: cached_success_def fresh_success_def Let_def split: option.splits)

lemma calls_cong: "x_trace w' = x_trace w \<Longrightarrow> calls w' = calls w"
  by (simp add: calls_def)

lemma calls_success [simp]:
  "calls (fst (cached_success cfg task rd key tok d w)) = calls w"
  "calls (fst (fresh_success cfg task rd key tok data w)) = calls w"
  "calls (fst (register_artifact cfg task rd key v w)) = calls w"
  "calls (release_claim cfg key tok w) = calls w"
  "calls (mark_completed_key key w) = calls w"
  "calls (w\<lparr>x_ledger := l\<rparr>) = calls w"
  by (simp_all add: calls_def)

lemma calls_frame [simp]:
  "calls (record_event (Slept n) w) = calls w"
  "calls (record_event (Called t u m k) w) = calls w @ [Called t u m k]"
  "calls (backoff b n w) = calls w"
  by (auto simp: calls_def record_event_def backoff_def)

lemma calls_outcome: "calls (fst (on_outcome cfg task rd key tok retries n st out w)) = calls w"
  by (auto simp: on_outcome_def on_response_def Let_def split: tool_outcome.splits)

lemma reserve_frame:
  "reserve_call w = Some w' \<Longrightarrow> x_trace w' = x_trace w \<and> x_ledger w' = x_ledger w"
  by (auto simp: reserve_call_def Let_def split: option.splits if_splits)

text \<open>One attempt makes at most one call, to the endpoint it has bound.\<close>

lemma attempt_calls:
  "calls (fst (attempt_once cfg task ins tok retries n out st w)) = calls w
   \<or> calls (fst (attempt_once cfg task ins tok retries n out st w)) = calls w @
      [Called (et_id task)
         (rd_url (bind_tool cfg (et_tool task) (a_url (pick_candidate (et_candidates task) st)) (a_method (pick_candidate (et_candidates task) st))))
         (rd_method (bind_tool cfg (et_tool task) (a_url (pick_candidate (et_candidates task) st)) (a_method (pick_candidate (et_candidates task) st))))
         (idempotency_key cfg (et_id task) (execution_key_of cfg (et_tool task) ins))]"
proof (cases "reserve_call w")
  case None
  then show ?thesis by (auto simp: attempt_once_def Let_def split: option.split)
next
  case (Some w1)
  then have "calls w1 = calls w" using reserve_frame calls_cong by blast
  with Some show ?thesis by (auto simp: attempt_once_def Let_def calls_outcome split: option.split)
qed

lemma loop_calls:
  "\<exists>cs. calls (fst (attempt_loop cfg task ins tok retries outs n left st w)) = calls w @ cs \<and> length cs \<le> left
     \<and> (\<forall>c \<in> set cs. ev_task c = et_id task
          \<and> ev_key c = idempotency_key cfg (et_id task) (execution_key_of cfg (et_tool task) ins))"
proof (induction cfg task ins tok retries outs n left st w rule: attempt_loop.induct)
  case (2 cfg task ins tok retries outs n left st w)
  obtain w' x where a: "attempt_once cfg task ins tok retries n (outs n) st w = (w', x)" by fastforce
  obtain cs where cs: "calls w' = calls w @ cs" "length cs \<le> 1"
    "\<forall>c \<in> set cs. ev_task c = et_id task
        \<and> ev_key c = idempotency_key cfg (et_id task) (execution_key_of cfg (et_tool task) ins)"
    using attempt_calls [of cfg task ins tok retries n "outs n" st w] unfolding a by fastforce
  show ?case
  proof (cases x)
    case (Inr r)
    with a cs show ?thesis by auto
  next
    case (Inl st')
    from 2 [OF a [symmetric] Inl] obtain ds where
      "calls (fst (attempt_loop cfg task ins tok retries outs (Suc n) left st' w')) = calls w' @ ds"
      "length ds \<le> left" "\<forall>c \<in> set ds. ev_task c = et_id task
        \<and> ev_key c = idempotency_key cfg (et_id task) (execution_key_of cfg (et_tool task) ins)"
      by blast
    with a Inl cs show ?thesis by (intro exI [of _ "cs @ ds"]) auto
  qed
qed simp

lemma single_calls:
  "\<exists>cs. calls (fst (execute_single cfg task ins tok outs w)) = calls w @ cs
     \<and> length cs \<le> task_retries cfg task + 1
     \<and> (\<forall>c \<in> set cs. ev_task c = et_id task
          \<and> ev_key c = idempotency_key cfg (et_id task) (execution_key_of cfg (et_tool task) ins))"
  unfolding execute_single_def by (rule loop_calls)

text \<open>Where a run of a task gets to the provider.\<close>

lemma run_task_calls:
  "calls (fst (run_task cfg disabled acc now fresh outs task w)) = calls w \<or>
   (\<exists>ins tok w1. resolve_placeholders (cfg_float cfg) (cfg_aliases cfg) (cfg_refs cfg) acc (et_inputs task) = Inr ins
      \<and> x_trace w1 = x_trace w
      \<and> calls (fst (run_task cfg disabled acc now fresh outs task w)) = calls (fst (execute_single cfg task ins tok outs w1)))"
proof (cases "resolve_placeholders (cfg_float cfg) (cfg_aliases cfg) (cfg_refs cfg) acc (et_inputs task)")
  case (Inl e)
  then show ?thesis by (simp add: run_task_def)
next
  case (Inr ins)
  let ?key = "execution_key_of cfg (et_tool task) ins"
  let ?c = "ledger_claim (cfg_ledger_up cfg) (cfg_lease_s cfg) now fresh (cfg_arch cfg) (cfg_session cfg, ?key) (x_ledger w)"
  let ?w1 = "w\<lparr>x_ledger := fst ?c\<rparr>"
  let ?run = "calls (fst (run_task cfg disabled acc now fresh outs task w))"
  have w1: "x_trace ?w1 = x_trace w" by simp
  have "?run = calls w \<or> ?run = calls (fst (execute_single cfg task ins None outs w))
      \<or> ?run = calls (fst (execute_single cfg task ins (snd ?c) outs ?w1))"
    by (cases "cfg_session cfg = []"; cases "snd ?c")
      (simp_all add: run_task_def Inr Let_def split: option.split)
  with Inr w1 show ?thesis by metis
qed

section \<open>Properties: calls\<close>

text \<open>
  C5: a run of a task calls its tool at most once when the tool is not idempotent, and at most
  one time more than its retry limit otherwise, whatever fails; all its calls carry the same
  idempotency key.
\<close>

theorem provider_calls_bounded:
  "\<exists>cs key. calls (fst (run_task cfg disabled acc now fresh outs task w)) = calls w @ cs
     \<and> length cs \<le> (if m_idempotent (meta_of cfg (et_tool task)) then et_max_retries task + 1 else 1)
     \<and> list_all (\<lambda>c. ev_task c = et_id task \<and> ev_key c = key) cs"
proof -
  from run_task_calls [of cfg disabled acc now fresh outs task w] show ?thesis
  proof (elim disjE exE conjE)
    fix ins tok and w1 :: exec_world
    assume "x_trace w1 = x_trace w" and c: "calls (fst (run_task cfg disabled acc now fresh outs task w)) = calls (fst (execute_single cfg task ins tok outs w1))"
    have "calls w1 = calls w" using \<open>x_trace w1 = x_trace w\<close> by (rule calls_cong)
    with c single_calls [of cfg task ins tok outs w1] show ?thesis
      by (fastforce simp: task_retries_def list_all_iff)
  qed auto
qed

section \<open>Lemmas: fallback endpoints\<close>

lemma outcome_state:
  "snd (on_outcome cfg task rd key tok retries n st out w) = Inl st' \<Longrightarrow> a_url st' = a_url st"
  by (auto simp: on_outcome_def on_response_def Let_def split: tool_outcome.splits if_splits)

lemma attempt_state_url:
  assumes "attempt_once cfg task ins tok retries n out st w = (w', Inl st')"
  shows "a_url st' = a_url (pick_candidate (et_candidates task) st)"
  using assms outcome_state by (fastforce simp: attempt_once_def Let_def prod_eq_iff split: option.splits)

lemma loop_urls:
  assumes "\<And>st. a_url st \<in> S \<Longrightarrow> a_url (pick_candidate (et_candidates task) st) \<in> S" and "[] \<notin> S"
  shows "a_url st \<in> S \<Longrightarrow> \<exists>cs. calls (fst (attempt_loop cfg task ins tok retries outs n left st w)) = calls w @ cs
     \<and> (\<forall>c \<in> set cs. ev_url c \<in> S)"
proof (induction left arbitrary: n st w)
  case (Suc left)
  let ?st = "pick_candidate (et_candidates task) st"
  obtain w' x where a: "attempt_once cfg task ins tok retries n (outs n) st w = (w', x)" by fastforce
  have st: "a_url ?st \<in> S" using assms(1) Suc.prems .
  then have "rd_url (bind_tool cfg (et_tool task) (a_url ?st) (a_method ?st)) = a_url ?st"
    using assms(2) by (auto simp: bind_tool_def Let_def)
  with st obtain cs where cs: "calls w' = calls w @ cs" "\<forall>c \<in> set cs. ev_url c \<in> S"
    using attempt_calls [of cfg task ins tok retries n "outs n" st w] unfolding a by fastforce
  show ?case
  proof (cases x)
    case (Inr r)
    with a cs show ?thesis by auto
  next
    case (Inl st')
    with a attempt_state_url st have "a_url st' \<in> S" by metis
    from Suc.IH [OF this, of "Suc n" w'] a Inl cs show ?thesis by fastforce
  qed
qed simp

section \<open>Lemmas: the ledger row of a run\<close>

definition own_row :: "exec_cfg \<Rightarrow> string \<Rightarrow> string \<Rightarrow> exec_world \<Rightarrow> bool" where
  "own_row cfg key tok w = (case map_of (x_ledger w) (cfg_session cfg, key) of None \<Rightarrow> False
     | Some row \<Rightarrow> lr_token row = Some tok \<and> lr_arch row = cfg_arch cfg)"

definition done_row :: "exec_cfg \<Rightarrow> string \<Rightarrow> exec_world \<Rightarrow> bool" where
  "done_row cfg key w = (case map_of (x_ledger w) (cfg_session cfg, key) of None \<Rightarrow> False
     | Some row \<Rightarrow> lr_result row \<noteq> None \<and> lr_arch row = cfg_arch cfg)"

lemma ledger_frame [simp]:
  "x_ledger (fst (register_artifact cfg task rd key v w)) = x_ledger w"
  "x_ledger (mark_completed_key key w) = x_ledger w"
  "x_ledger (record_event e w) = x_ledger w"
  "x_ledger (backoff b n w) = x_ledger w"
  by (auto simp: register_artifact_def mark_completed_key_def record_event_def backoff_def Let_def split: sum.splits)

lemma own_row_cong: "x_ledger w' = x_ledger w \<Longrightarrow> own_row cfg key tok w' = own_row cfg key tok w"
  by (simp add: own_row_def)

lemma done_row_cong: "x_ledger w' = x_ledger w \<Longrightarrow> done_row cfg key w' = done_row cfg key w"
  by (simp add: done_row_def)

lemma complete_own:
  "cfg_ledger_up cfg \<Longrightarrow> own_row cfg key t w \<Longrightarrow> done_row cfg key (complete_claim cfg key (Some t) d w)"
  by (auto simp: own_row_def done_row_def complete_claim_def ledger_complete_def sql_complete_def map_of_update
      split: option.splits)

lemma success_completes:
  assumes "cfg_ledger_up cfg" and "own_row cfg key t w"
  shows "done_row cfg key (fst (cached_success cfg task rd key (Some t) d w))"
    and "done_row cfg key (fst (fresh_success cfg task rd key (Some t) data w))"
proof -
  show "done_row cfg key (fst (cached_success cfg task rd key (Some t) d w))"
    unfolding cached_success_def Let_def fst_conv
    by (rule complete_own [OF assms(1)]) (simp add: own_row_cong [of _ w] assms(2))
  let ?w1 = "case data of Some d \<Rightarrow> if m_cacheable (meta_of cfg (et_tool task))
        then w\<lparr>x_cache := cache_put cfg ''artifact'' key (et_tool task) (JDict d) (x_cache w)\<rparr> else w | None \<Rightarrow> w"
  have "x_ledger (mark_completed_key key ?w1) = x_ledger w" by (simp split: option.split)
  then have "own_row cfg key t (mark_completed_key key ?w1)" using assms(2) own_row_cong by blast
  from complete_own [OF assms(1) this] show "done_row cfg key (fst (fresh_success cfg task rd key (Some t) data w))"
    unfolding fresh_success_def Let_def fst_conv by (subst done_row_cong [OF ledger_frame(1)])
qed

lemma plain_not_success [simp]:
  "er_status (plain_result task st e k) = st" "er_status (success_result task v key c) = ''success''"
  by (simp_all add: plain_result_def success_result_def)

lemma outcome_row:
  assumes "cfg_ledger_up cfg" and "own_row cfg key t w"
    and "on_outcome cfg task rd key (Some t) retries n st out w = (w', x)"
  shows "case x of Inl st' \<Rightarrow> x_ledger w' = x_ledger w | Inr r \<Rightarrow> er_status r = ''success'' \<longrightarrow> done_row cfg key w'"
  using assms(3) success_completes [OF assms(1,2)]
  by (auto simp: on_outcome_def on_response_def Let_def split: tool_outcome.splits if_splits)

lemma attempt_row:
  assumes "cfg_ledger_up cfg" and "own_row cfg (execution_key_of cfg (et_tool task) ins) t w"
    and "attempt_once cfg task ins (Some t) retries n out st w = (w', x)"
  shows "case x of Inl st' \<Rightarrow> x_ledger w' = x_ledger w
     | Inr r \<Rightarrow> er_status r = ''success'' \<longrightarrow> done_row cfg (execution_key_of cfg (et_tool task) ins) w'"
proof -
  let ?key = "execution_key_of cfg (et_tool task) ins"
  let ?st = "pick_candidate (et_candidates task) st"
  let ?rd = "bind_tool cfg (et_tool task) (a_url ?st) (a_method ?st)"
  let ?hit = "if m_cacheable (meta_of cfg (et_tool task)) \<and> ?key \<notin> set (completed_keys w)
           then cache_dict cfg ''artifact'' ?key (et_tool task) (x_cache w) else None"
  show ?thesis
  proof (cases ?hit)
    case (Some d)
    with assms(3) have "w' = fst (cached_success cfg task ?rd ?key (Some t) d w)" "\<exists>r. x = Inr r"
      by (auto simp: attempt_once_def Let_def)
    with success_completes(1) [OF assms(1,2)] show ?thesis by auto
  next
    case None
    show ?thesis
    proof (cases "reserve_call w")
      case no_budget: None
      with None assms(3) show ?thesis by (auto simp: attempt_once_def Let_def)
    next
      case (Some w1)
      let ?w2 = "record_event (Called (et_id task) (rd_url ?rd) (rd_method ?rd) (idempotency_key cfg (et_id task) ?key)) w1"
      have oc: "on_outcome cfg task ?rd ?key (Some t) retries n ?st out ?w2 = (w', x)"
        using None Some assms(3) by (auto simp: attempt_once_def Let_def)
      have l: "x_ledger ?w2 = x_ledger w" using reserve_frame [OF Some] by simp
      have "own_row cfg ?key t ?w2" using own_row_cong [OF l] assms(2) by blast
      from outcome_row [OF assms(1) this oc] show ?thesis unfolding l .
    qed
  qed
qed

lemma loop_row:
  assumes "cfg_ledger_up cfg"
  shows "own_row cfg (execution_key_of cfg (et_tool task) ins) t w \<Longrightarrow>
    attempt_loop cfg task ins (Some t) retries outs n left st w = (w', r) \<Longrightarrow> er_status r = ''success'' \<Longrightarrow>
    done_row cfg (execution_key_of cfg (et_tool task) ins) w'"
proof (induction left arbitrary: n st w)
  case (Suc left)
  obtain w1 x where a: "attempt_once cfg task ins (Some t) retries n (outs n) st w = (w1, x)" by fastforce
  note row = attempt_row [OF assms Suc.prems(1) a]
  show ?case
  proof (cases x)
    case (Inr r')
    with a row Suc.prems show ?thesis by auto
  next
    case (Inl st')
    with row have l: "x_ledger w1 = x_ledger w" by simp
    have "own_row cfg (execution_key_of cfg (et_tool task) ins) t w1"
      unfolding own_row_cong [OF l] by (rule Suc.prems(1))
    moreover have "attempt_loop cfg task ins (Some t) retries outs (Suc n) left st' w1 = (w', r)"
      using Suc.prems(2) a Inl by simp
    ultimately show ?thesis using Suc.prems(3) by (rule Suc.IH)
  qed
qed (auto simp: plain_result_def)

lemma claim_owns:
  assumes "ledger_claim up lease_s now fresh arch lk tbl = (tbl', Some tok)" and "up"
  shows "tok = fresh \<and> (\<exists>row. map_of tbl' lk = Some row \<and> lr_token row = Some fresh \<and> lr_arch row = arch)"
  using assms by (auto simp: ledger_claim_def sql_claim_def sql_insert_def sql_takeover_def Let_def map_of_update
      split: if_splits option.splits)

section \<open>Properties: fallback, replay, conflict\<close>

text \<open>
  of the ranked candidates of a compiled task the executor only ever calls the first and
  the first one with another URL: the fallback alternates between these two.
\<close>

theorem fallback_uses_two_endpoints:
  assumes "et_candidates task = c # cs" and "et_url task = cand_url c" and "cand_url c \<noteq> []"
  shows "\<exists>ds. calls (fst (run_task cfg disabled acc now fresh outs task w)) = calls w @ ds
    \<and> list_all (\<lambda>d. ev_url d = cand_url c
        \<or> Some (ev_url d) = map_option cand_url (find (\<lambda>x. cand_url x \<noteq> [] \<and> cand_url x \<noteq> cand_url c) cs)) ds"
proof -
  let ?f = "find (\<lambda>x. cand_url x \<noteq> [] \<and> cand_url x \<noteq> cand_url c) cs"
  let ?S = "{u. u = cand_url c \<or> Some u = map_option cand_url ?f}"
  have other: "cand_url d \<noteq> cand_url c \<and> cand_url d \<noteq> []" if "?f = Some d" for d
    using that by (auto simp: find_Some_iff)
  have pick: "a_url (pick_candidate (et_candidates task) st) \<in> ?S" if "a_url st \<in> ?S" for st
  proof (cases "a_url st = cand_url c")
    case True
    then show ?thesis using assms(1) by (cases ?f) (auto simp: pick_candidate_def)
  next
    case False
    with that obtain d where "?f = Some d" "a_url st = cand_url d" by (cases ?f) auto
    with other [of d] show ?thesis using assms(1,3) by (auto simp: pick_candidate_def)
  qed
  have ne: "[] \<notin> ?S"
  proof (cases ?f)
    case None
    with assms(3) show ?thesis by simp
  next
    case (Some d)
    with assms(3) other [OF Some] show ?thesis by auto
  qed
  from run_task_calls [of cfg disabled acc now fresh outs task w] show ?thesis
  proof (elim disjE exE conjE)
    fix ins tok and w1 :: exec_world
    assume t: "x_trace w1 = x_trace w" and c: "calls (fst (run_task cfg disabled acc now fresh outs task w))
        = calls (fst (execute_single cfg task ins tok outs w1))"
    let ?st = "\<lparr>a_url = et_url task, a_method = et_method task, a_fallback = 0, a_error = None\<rparr>"
    have init: "a_url ?st \<in> ?S" using assms(2) by simp
    obtain ds where "calls (fst (execute_single cfg task ins tok outs w1)) = calls w1 @ ds"
      "\<forall>d \<in> set ds. ev_url d \<in> ?S"
      unfolding execute_single_def using loop_urls [OF pick ne init] by blast
    with c calls_cong [OF t] show ?thesis by (auto simp: list_all_iff)
  qed auto
qed

text \<open>
  while another attempt holds a live lease on a task's execution key, a run of the task
  calls nothing, changes nothing and reports an error.
\<close>

theorem leased_execution_not_duplicated:
  assumes "\<not> is_disabled disabled task" and "cfg_session cfg \<noteq> []" and "cfg_ledger_up cfg"
    and "resolve_placeholders (cfg_float cfg) (cfg_aliases cfg) (cfg_refs cfg) acc (et_inputs task) = Inr ins"
    and "execution_key_of cfg (et_tool task) ins \<notin> set (completed_keys w)"
    and "map_of (x_ledger w) (cfg_session cfg, execution_key_of cfg (et_tool task) ins) = Some row"
    and "lr_result row = None" and "lr_expires row = Some e" and "now \<le> e"
  shows "fst (run_task cfg disabled acc now fresh outs task w) = w
    \<and> er_status (snd (run_task cfg disabled acc now fresh outs task w)) = ''error''"
  using assms by (simp add: run_task_def Let_def ledger_find_def sql_find_def replayable_def ledger_claim_def
      sql_claim_def sql_insert_def sql_takeover_def stale_row_def)

text \<open>
  C6: a run that called its tool and succeeded is never repeated in its session: a later run
  of the task, even by an executor without memory of it, calls nothing and replays a result.
\<close>

theorem success_is_replayed:
  assumes "cfg_session cfg \<noteq> []" and "cfg_ledger_up cfg"
    and "run_task cfg disabled acc now fresh outs task w = (w1, r1)" and "er_status r1 = ''success''"
    and "x_trace w1 \<noteq> x_trace w"
  shows "x_trace (fst (run_task cfg disabled acc now' fresh' outs' task (w1\<lparr>completed_keys := []\<rparr>))) = x_trace w1
    \<and> er_status (snd (run_task cfg disabled acc now' fresh' outs' task (w1\<lparr>completed_keys := []\<rparr>))) = ''success''
    \<and> er_cached (snd (run_task cfg disabled acc now' fresh' outs' task (w1\<lparr>completed_keys := []\<rparr>)))"
proof -
  have dis: "\<not> is_disabled disabled task" using assms(3,5) by (auto simp: run_task_def)
  obtain ins where ins: "resolve_placeholders (cfg_float cfg) (cfg_aliases cfg) (cfg_refs cfg) acc (et_inputs task) = Inr ins"
    using assms(3,5) dis by (auto simp: run_task_def split: sum.splits)
  let ?key = "execution_key_of cfg (et_tool task) ins"
  let ?c = "ledger_claim (cfg_ledger_up cfg) (cfg_lease_s cfg) now fresh (cfg_arch cfg) (cfg_session cfg, ?key) (x_ledger w)"
  have new: "?key \<notin> set (completed_keys w)" using assms(3,5) dis ins by (auto simp: run_task_def Let_def)
  have no_replay: "replayable cfg (ledger_find (cfg_ledger_up cfg) (x_ledger w) (cfg_session cfg, ?key)) = None"
    using assms(1,3,5) dis ins new by (auto simp: run_task_def Let_def mark_completed_key_def split: option.splits)
  obtain tok where tok: "snd ?c = Some tok"
    using assms(1,3,5) dis ins new no_replay
    by (cases "snd ?c") (auto simp: run_task_def Let_def mark_completed_key_def split: option.splits)
  let ?w0 = "w\<lparr>x_ledger := fst ?c\<rparr>"
  let ?r = "execute_single cfg task ins (Some tok) outs ?w0"
  have "run_task cfg disabled acc now fresh outs task w =
      (if er_status (snd ?r) \<noteq> ''success'' \<and> er_status (snd ?r) \<noteq> ''uncertain''
       then release_claim cfg ?key (Some tok) (fst ?r) else fst ?r, snd ?r)"
    using assms(1) dis ins new no_replay tok by (simp add: run_task_def Let_def)
  with assms(3,4) have r: "?r = (w1, r1)" by (auto simp: prod_eq_iff)
  have c: "?c = (fst ?c, Some tok)" using tok by (simp add: prod_eq_iff)
  have "own_row cfg ?key tok ?w0"
    using claim_owns [OF c assms(2)] by (auto simp: own_row_def)
  from loop_row [OF assms(2) this] r assms(4) have "done_row cfg ?key w1"
    unfolding execute_single_def by blast
  then obtain row v where row: "map_of (x_ledger w1) (cfg_session cfg, ?key) = Some row"
    "lr_result row = Some v" "lr_arch row = cfg_arch cfg"
    by (auto simp: done_row_def split: option.splits)
  then have "replayable cfg (ledger_find (cfg_ledger_up cfg) (x_ledger w1) (cfg_session cfg, ?key)) = Some v"
    using assms(2) by (simp add: replayable_def ledger_find_def sql_find_def)
  with assms(1) dis ins show ?thesis by (simp add: run_task_def Let_def success_result_def)
qed

section \<open>A concrete executor\<close>

definition demo_cfg :: "bool \<Rightarrow> exec_cfg" where
  "demo_cfg idem = \<lparr>cfg_session = ''s'',
     cfg_tools = [(''pay'', no_meta\<lparr>m_idempotent := idem, m_valid := True, m_cacheable := False, m_allowed := Some [''a'']\<rparr>)],
     cfg_gc = \<lparr>capability_index = [], capability_providers = []\<rparr>, cfg_aliases = [], cfg_refs = [], cfg_arch = ''v'',
     cfg_reg = [], cfg_ledger_up = True, cfg_cache_up = False, cfg_lease_s = 600, cfg_float = (\<lambda>_. []),
     cfg_sha = (\<lambda>_. ''k''), cfg_digest = (\<lambda>_. ''i''), cfg_dumps = (\<lambda>_. []), cfg_loads = (\<lambda>_. None)\<rparr>"

definition demo_task :: "string \<Rightarrow> string list \<Rightarrow> exec_task" where
  "demo_task tid deps = \<lparr>et_id = tid, et_tool = ''pay'', et_inputs = [(''n'', JInt 1)], et_deps = deps, et_max_retries = 2,
     et_url = ''u1'', et_method = ''POST'', et_candidates = [[(''url'', JStr ''u1'')], [(''url'', JStr ''u2'')], [(''url'', JStr ''u3'')]],
     et_kind = ''tool'', et_condition = [], et_true = [], et_false = []\<rparr>"

definition demo_world :: exec_world where
  "demo_world = \<lparr>completed_keys = [], x_ledger = [], x_cache = [], x_budget = None, x_trace = [], x_artifacts = []\<rparr>"

definition ok_response :: tool_outcome where
  "ok_response = Responded \<lparr>rs_status = ''success'', rs_http = Some 200,
     rs_data = Some [(''a'', JInt 1), (''b'', JInt 2)], rs_error = None\<rparr>"

lemmas demo_simps = demo_cfg_def demo_task_def demo_world_def ok_response_def no_meta_def meta_of_def dict_get_def
  resolve_placeholders_slow is_disabled_def run_task_def execute_single_def task_retries_def attempt_once_def
  pick_candidate_def bind_tool_def tool_dict_to_read_def execution_key_of_def hash_json_def reserve_call_def
  record_event_def on_outcome_def on_response_def backoff_def release_claim_def complete_claim_def replayable_def
  ledger_find_def sql_find_def ledger_claim_def sql_claim_def sql_insert_def sql_takeover_def stale_row_def
  ledger_release_def sql_release_def ledger_complete_def sql_complete_def plain_result_def success_result_def
  calls_def idempotency_key_def Let_def cand_url_def fresh_success_def register_artifact_def
  mark_completed_key_def is_normalized_def state_key_def version_key_def normalize_artifact_def dict_has_def
  mark_def limit_dict_def limit_payload.simps projected_def strip_normalization_state_def cache_put_def

theorem fallback_uses_two_endpoints_witness:
  "\<exists>ds. calls (fst (run_task (demo_cfg True) [] [] 0 ''x'' (\<lambda>_. Timed_out) (demo_task ''t'' []) demo_world)) = calls demo_world @ ds
    \<and> list_all (\<lambda>d. ev_url d = ''u1'' \<or> Some (ev_url d) = Some ''u2'') ds"
  using fallback_uses_two_endpoints [of "demo_task ''t'' []" "[(''url'', JStr ''u1'')]" "[[(''url'', JStr ''u2'')], [(''url'', JStr ''u3'')]]"
      "demo_cfg True" "[]" "[]" 0 "''x''" "\<lambda>_. Timed_out" demo_world]
  by (simp add: demo_task_def cand_url_def dict_get_def)

theorem leased_execution_not_duplicated_witness:
  "fst (run_task (demo_cfg True) [] [] 5 ''x'' (\<lambda>_. ok_response) (demo_task ''t'' [])
        (demo_world\<lparr>x_ledger := [((''s'', ''k''), \<lparr>lr_result = None, lr_token = Some ''y'', lr_expires = Some 9, lr_arch = ''v''\<rparr>)]\<rparr>))
      = demo_world\<lparr>x_ledger := [((''s'', ''k''), \<lparr>lr_result = None, lr_token = Some ''y'', lr_expires = Some 9, lr_arch = ''v''\<rparr>)]\<rparr>
   \<and> er_status (snd (run_task (demo_cfg True) [] [] 5 ''x'' (\<lambda>_. ok_response) (demo_task ''t'' [])
        (demo_world\<lparr>x_ledger := [((''s'', ''k''), \<lparr>lr_result = None, lr_token = Some ''y'', lr_expires = Some 9, lr_arch = ''v''\<rparr>)]\<rparr>)))
      = ''error''"
  by (rule leased_execution_not_duplicated [where ins = "[(''n'', JInt 1)]" and e = 9])
    (simp_all add: demo_simps, simp_all)

lemma demo_success:
  "run_task (demo_cfg idem) [] [] 0 ''x'' (\<lambda>_. ok_response) (demo_task ''t'' []) demo_world =
    (\<lparr>completed_keys = [''k''],
       x_ledger = [((''s'', ''k''), \<lparr>lr_result = Some (JDict [(''a'', JInt 1), (''b'', JInt 2)]), lr_token = None,
          lr_expires = None, lr_arch = ''v''\<rparr>)],
       x_cache = [], x_budget = None, x_trace = [Called ''t'' ''u1'' ''POST'' ''i''],
       x_artifacts = [(''t'', [(''a'', JInt 1)])]\<rparr>,
     \<lparr>er_task = ''t'', er_status = ''success'', er_data = JDict [(''a'', JInt 1)], er_error = None, er_key = Some ''k'',
       er_cached = False\<rparr>)"
  by (simp add: demo_simps)

theorem success_is_replayed_witness:
  "x_trace (fst (run_task (demo_cfg False) [] [] 9 ''y'' (\<lambda>_. Timed_out) (demo_task ''t'' [])
      ((fst (run_task (demo_cfg False) [] [] 0 ''x'' (\<lambda>_. ok_response) (demo_task ''t'' []) demo_world))\<lparr>completed_keys := []\<rparr>)))
    = [Called ''t'' ''u1'' ''POST'' ''i'']"
  using success_is_replayed [of "demo_cfg False" "[]" "[]" 0 "''x''" "\<lambda>_. ok_response" "demo_task ''t'' []" demo_world _ _ 9 "''y''" "\<lambda>_. Timed_out",
      OF _ _ surjective_pairing]
  by (simp add: demo_success, simp add: demo_cfg_def demo_world_def)

text \<open>
  the replay of a result is not the result: the first run hands the normalised payload to
  the tasks that depend on it, the replay the provider's raw payload.
\<close>

theorem replay_returns_raw_payload:
  "er_data (snd (run_task (demo_cfg False) [] [] 0 ''x'' (\<lambda>_. ok_response) (demo_task ''t'' []) demo_world)) = JDict [(''a'', JInt 1)]
   \<and> er_data (snd (run_task (demo_cfg False) [] [] 9 ''y'' outs (demo_task ''t'' [])
      ((fst (run_task (demo_cfg False) [] [] 0 ''x'' (\<lambda>_. ok_response) (demo_task ''t'' []) demo_world))\<lparr>completed_keys := []\<rparr>)))
     = JDict [(''a'', JInt 1), (''b'', JInt 2)]"
  unfolding demo_success by (simp add: demo_simps)

text \<open>
  a timed-out call of a non-idempotent tool, whose effect may have happened, releases its
  lease: the next run of the same task calls the provider again.
\<close>

theorem timeout_permits_second_call:
  "let r1 = run_task (demo_cfg False) [] [] 0 ''x'' (\<lambda>_. Timed_out) (demo_task ''t'' []) demo_world;
       r2 = run_task (demo_cfg False) [] [] 1 ''y'' (\<lambda>_. ok_response) (demo_task ''t'' []) (fst r1) in
   er_status (snd r1) = ''timeout'' \<and> map ev_key (calls (fst r2)) = [''i'', ''i'']"
  by (simp add: demo_simps)

section \<open>Properties: the artifact cache\<close>

lemma drop_tokens_length: "length (drop_tokens k s) \<le> length s"
  by (induction k s rule: drop_tokens.induct) auto

lemma drop_tokens_id:
  "drop_tokens 0 s = s \<longleftrightarrow> CHR 0x3C \<notin> set s \<and> \<not> contains_str ''endoftext'' s \<and> (s \<noteq> [] \<longrightarrow> last s \<noteq> CHR 0x3E)"
proof (induction s)
  case (Cons c cs)
  have shorter: "drop_tokens k cs \<noteq> c # cs" for k
    using drop_tokens_length [of k cs] by (metis impossible_Cons)
  from Cons shorter [of 0] shorter [of 8] show ?case by auto
qed simp

text \<open>
  the text of a cached value is read back unchanged exactly when it contains neither a
  less-than sign nor the word \<open>endoftext\<close>; otherwise the cleaning of the store has
  removed them.
\<close>

theorem cache_roundtrip_iff:
  assumes "cfg_cache_up cfg" and "cfg_dumps cfg v = ''{'' @ m @ ''}''"
  shows "cache_get cfg kind key tool (cache_put cfg kind key tool v rows) = Some (cfg_dumps cfg v)
    \<longleftrightarrow> CHR 0x3C \<notin> set (cfg_dumps cfg v) \<and> \<not> contains_str ''endoftext'' (cfg_dumps cfg v)"
proof -
  let ?s = "cfg_dumps cfg v"
  have rev_s: "rev ?s = CHR 0x7D # rev m @ ''{''" by (simp add: assms(2))
  have strip: "py_strip ?s = ?s" by (simp add: py_strip_def assms(2) is_space_def)
  have suffix: "drop_suffix suf ?s = ?s" if "suf \<noteq> []" "last suf \<noteq> CHR 0x7D" for suf
    using that by (cases suf rule: rev_cases) (simp_all add: drop_suffix_def ends_with_def starts_with_def rev_s)
  have "sanitize ?s = drop_tokens 0 ?s" by (simp add: sanitize_def strip suffix)
  moreover have "cache_get cfg kind key tool (cache_put cfg kind key tool v rows) = Some (sanitize ?s)"
    using assms(1) by (simp add: cache_get_def cache_put_def Let_def)
  moreover have "last ?s = CHR 0x7D" "?s \<noteq> []" by (simp_all add: assms(2))
  ultimately show ?thesis using drop_tokens_id [of ?s] by auto
qed

definition demo_cache_cfg :: exec_cfg where
  "demo_cache_cfg = (demo_cfg True)\<lparr>cfg_cache_up := True, cfg_dumps := (\<lambda>v. py_repr (\<lambda>_. []) v)\<rparr>"

theorem cache_roundtrip_iff_witness:
  "cache_get demo_cache_cfg ''artifact'' ''k'' ''pay'' (cache_put demo_cache_cfg ''artifact'' ''k'' ''pay'' (JDict [(''h'', JStr ''<b>'')]) [])
     \<noteq> Some (cfg_dumps demo_cache_cfg (JDict [(''h'', JStr ''<b>'')]))"
proof -
  have d: "cfg_dumps demo_cache_cfg (JDict [(''h'', JStr ''<b>'')])
      = ''{'' @ [CHR 0x27, CHR ''h'', CHR 0x27, CHR '':'', CHR '' '', CHR 0x27, CHR 0x3C, CHR ''b'', CHR 0x3E, CHR 0x27] @ ''}''"
    by (simp add: demo_cache_cfg_def demo_cfg_def str_repr_def repr_char_def Let_def)
  have "cfg_cache_up demo_cache_cfg" by (simp add: demo_cache_cfg_def)
  from cache_roundtrip_iff [OF this d, of "''artifact''" "''k''" "''pay''" "[]"] show ?thesis by (simp add: d)
qed

text \<open>
  C32: an executor with a session reads, for a tool whose cache scope is not public, only rows
  its own session has written.
\<close>

theorem private_cache_isolated:
  assumes "cfg_session cfg \<noteq> []" and "\<not> m_public (meta_of cfg tool)"
    and "cache_get cfg kind key tool rows = Some text"
  shows "\<exists>r \<in> set rows. c_session r = Some (cfg_session cfg) \<and> c_content r = text \<and> c_key r = key
    \<and> c_tool r = tool \<and> c_arch r = cfg_arch cfg \<and> c_reg r = cfg_reg cfg"
proof -
  obtain r where "find (\<lambda>r. c_kind r = kind \<and> (Some (cfg_session cfg) = None \<or> c_session r = Some (cfg_session cfg)) \<and> c_key r = key
         \<and> c_tool r = tool \<and> c_arch r = cfg_arch cfg \<and> c_reg r = cfg_reg cfg
         \<and> c_schema r = m_schema_hash (meta_of cfg tool)) (rev rows) = Some r" and t: "c_content r = text"
    using assms by (auto simp: cache_get_def session_opt_def Let_def split: if_splits)
  then have "r \<in> set rows \<and> c_session r = Some (cfg_session cfg) \<and> c_key r = key \<and> c_tool r = tool
      \<and> c_arch r = cfg_arch cfg \<and> c_reg r = cfg_reg cfg"
    by (auto simp: find_Some_iff) (metis nth_mem set_rev length_rev)
  with t show ?thesis by blast
qed

theorem private_cache_isolated_witness:
  "\<exists>r \<in> set (cache_put demo_cache_cfg ''artifact'' ''k'' ''pay'' (JDict []) []). c_session r = Some (cfg_session demo_cache_cfg)
     \<and> c_content r = ''{}'' \<and> c_key r = ''k'' \<and> c_tool r = ''pay'' \<and> c_arch r = cfg_arch demo_cache_cfg \<and> c_reg r = cfg_reg demo_cache_cfg"
  by (rule private_cache_isolated [where kind = "''artifact''"])
    (simp_all add: demo_cache_cfg_def demo_cfg_def meta_of_def dict_get_def no_meta_def cache_put_def cache_get_def
       session_opt_def sanitize_def py_strip_def is_space_def drop_suffix_def ends_with_def starts_with_def)

text \<open>
  an executor without a session reads every session's rows: the scope of its lookups is
  not restricted, although no tool declared them public.
\<close>

theorem sessionless_cache_unscoped:
  assumes "cfg_session cfg = []" and "cfg_cache_up cfg" and "c_kind r = kind" "c_key r = key" "c_tool r = tool"
    and "c_arch r = cfg_arch cfg" "c_reg r = cfg_reg cfg" "c_schema r = m_schema_hash (meta_of cfg tool)"
  shows "cache_get cfg kind key tool (rows @ [r]) = Some (c_content r)"
  using assms by (simp add: cache_get_def session_opt_def)

theorem sessionless_cache_unscoped_witness:
  "cache_get (demo_cache_cfg\<lparr>cfg_session := []\<rparr>) ''artifact'' ''k'' ''pay''
     ([] @ [\<lparr>c_session = Some ''other'', c_kind = ''artifact'', c_key = ''k'', c_tool = ''pay'', c_arch = ''v'', c_reg = [],
        c_schema = [], c_content = ''{}''\<rparr>]) = Some ''{}''"
  by (subst sessionless_cache_unscoped) (simp_all add: demo_cache_cfg_def demo_cfg_def meta_of_def dict_get_def no_meta_def)

section \<open>Properties: the plan\<close>

lemma result_names_task:
  "er_task (snd (run_task cfg disabled acc now fresh outs task w)) = et_id task"
proof -
  have p: "er_task (plain_result task st e k) = et_id task" "er_task (success_result task v key c) = et_id task"
    for st e k v key c by (simp_all add: plain_result_def success_result_def)
  have f: "er_task (snd (fresh_success cfg task rd key tok d w)) = et_id task"
    "er_task (snd (cached_success cfg task rd key tok d' w)) = et_id task" for rd key tok d d' w
    by (simp_all add: fresh_success_def cached_success_def Let_def p)
  have o: "x = Inr r \<Longrightarrow> er_task r = et_id task"
    if "on_outcome cfg task rd key tok retries n st out w = (w', x)" for rd key tok retries n st out w w' x r
    using that by (auto simp: on_outcome_def on_response_def Let_def p f split: tool_outcome.splits if_splits)
  have a: "er_task r = et_id task" if "attempt_once cfg task ins tok retries n out st w = (w', Inr r)"
    for ins tok retries n out st w w' r
    using that o by (fastforce simp: attempt_once_def Let_def p f split: option.splits)
  have l: "er_task (snd (attempt_loop cfg task ins tok retries outs n left st w)) = et_id task" for ins tok retries outs n left st w
  proof (induction left arbitrary: n st w)
    case (Suc left)
    then show ?case using a by (auto split: prod.splits sum.splits)
  qed (simp add: p)
  have e: "er_task (snd (execute_single cfg task ins tok outs w)) = et_id task" for ins tok w
    unfolding execute_single_def by (rule l)
  show ?thesis
    by (simp add: run_task_def Let_def p e split: sum.split option.split)
qed

lemma wave_names_tasks: "map er_task (snd (execute_wave cfg env disabled acc tasks w)) = map et_id tasks"
proof -
  have g: "er_task (snd (guarded_run cfg env disabled acc task w)) = et_id task" for task w
    by (simp add: guarded_run_def result_names_task plain_result_def)
  have inv: "map_of (snd (foldl (wave_task cfg env disabled acc) s ts)) k = Some r \<Longrightarrow> er_task r = k"
    if "\<And>k r. map_of (snd s) k = Some r \<Longrightarrow> er_task r = k" for s ts k r
    using that
  proof (induction ts arbitrary: s)
    case (Cons t ts)
    have "er_task r = k" if "map_of (snd (wave_task cfg env disabled acc s t)) k = Some r" for k r
      using that Cons.prems(2) by (auto simp: wave_task_def Let_def map_of_update g split: if_splits)
    with Cons.IH Cons.prems(1) show ?case by simp
  qed simp
  let ?res = "snd (foldl (wave_task cfg env disabled acc) (w, []) (en_order env tasks))"
  have "er_task (dict_get ?res (et_id t) (plain_result t ''error'' (Some ''Unknown error'') None)) = et_id t" for t
  proof (cases "map_of ?res (et_id t)")
    case None
    then show ?thesis by (simp add: dict_get_None plain_result_def)
  next
    case (Some r)
    with inv [of "(w, [])", OF _ Some] show ?thesis by (simp add: dict_get_Some)
  qed
  then show ?thesis by (simp add: execute_wave_def Let_def)
qed

lemma prune_keeps: "snd (prune_conditional_tasks env acc disabled tasks) = filter (\<lambda>t. et_kind t \<noteq> ''conditional'') tasks"
proof -
  have "snd (foldl (prune_step env acc) s tasks) = snd s @ filter (\<lambda>t. et_kind t \<noteq> ''conditional'') tasks" for s
    by (induction tasks arbitrary: s) (auto simp: prune_step_def Let_def)
  then show ?thesis by (simp add: prune_conditional_tasks_def)
qed

text \<open>The tasks classified so far, and the data handed on.\<close>

definition classified :: "exec_results \<Rightarrow> string list" where
  "classified r = successful r @ failed r @ timed_out r @ skipped r"

lemma classified_outcomes:
  "mset (classified (fst (foldl record_outcome s os))) = mset (classified (fst s)) + mset (map er_task os)"
  by (induction os arbitrary: s) (auto simp: record_outcome_def classified_def Let_def)

lemma data_only_of_successes:
  "fst ` set (snd s) \<subseteq> set (successful (fst s)) \<Longrightarrow>
   fst ` set (snd (foldl record_outcome s os)) \<subseteq> set (successful (fst (foldl record_outcome s os)))"
proof (induction os arbitrary: s)
  case (Cons x os)
  have "fst ` set (snd (record_outcome s x)) \<subseteq> set (successful (fst (record_outcome s x)))"
    using Cons.prems by (simp add: record_outcome_def Let_def keys_update) blast
  from Cons.IH [OF this] show ?case by simp
qed simp

text \<open>
  C9: every task of the plan that is no gate ends in exactly one of the classes successful,
  failed, timed out and skipped, and later waves see data of successful tasks only.
\<close>

theorem every_task_has_one_outcome:
  "case execute_plan cfg env waves w of (w', disabled, res, acc) \<Rightarrow>
     mset (classified res) = mset (map et_id (filter (\<lambda>t. et_kind t \<noteq> ''conditional'') (concat waves)))
     \<and> fst ` set acc \<subseteq> set (successful res)"
proof -
  have "case foldl (plan_wave cfg env) (w0, d0, r0, a0) waves of (w', disabled, res, acc) \<Rightarrow>
      mset (classified res) = mset (classified r0) + mset (map et_id (filter (\<lambda>t. et_kind t \<noteq> ''conditional'') (concat waves)))
      \<and> fst ` set acc \<subseteq> set (successful res)"
    if "fst ` set a0 \<subseteq> set (successful r0)" for w0 d0 r0 a0
    using that
  proof (induction waves arbitrary: w0 d0 r0 a0)
    case (Cons wave waves)
    let ?p = "prune_conditional_tasks env a0 d0 wave"
    show ?case
    proof (cases "snd ?p = []")
      case True
      then have "filter (\<lambda>t. et_kind t \<noteq> ''conditional'') wave = []" by (simp add: prune_keeps)
      with Cons.IH [OF Cons.prems, of w0 "fst ?p"] True show ?thesis
        by (simp add: plan_wave_def Let_def)
    next
      case False
      let ?x = "execute_wave cfg env (fst ?p) a0 (snd ?p) w0"
      let ?y = "foldl record_outcome (r0, a0) (snd ?x)"
      have "fst ` set (snd ?y) \<subseteq> set (successful (fst ?y))"
        using data_only_of_successes [of "(r0, a0)"] Cons.prems by simp
      from Cons.IH [OF this, of "fst ?x" "fst ?p"] classified_outcomes [of "(r0, a0)" "snd ?x"]
      show ?thesis using False
        by (simp add: plan_wave_def Let_def wave_names_tasks prune_keeps split_beta)
    qed
  qed simp
  from this [of "[]" no_results w "[]"] show ?thesis
    by (simp add: execute_plan_def no_results_def classified_def)
qed

definition demo_env :: exec_env where
  "demo_env = \<lparr>en_now = (\<lambda>_. 0), en_fresh = (\<lambda>t. t), en_outs = (\<lambda>_ _. ok_response), en_cancelled = (\<lambda>_. False),
     en_cond = (\<lambda>_ _. Some True), en_order = (\<lambda>ts. ts)\<rparr>"

lemma demo_run_fresh:
  assumes "\<not> is_disabled dis (demo_task tid deps)" and "completed_keys w = []" "x_ledger w = []" "x_budget w = None"
  shows "run_task (demo_cfg False) dis acc 0 fresh (\<lambda>_. ok_response) (demo_task tid deps) w =
    (w\<lparr>completed_keys := [''k''],
       x_ledger := [((''s'', ''k''), \<lparr>lr_result = Some (JDict [(''a'', JInt 1), (''b'', JInt 2)]), lr_token = None,
          lr_expires = None, lr_arch = ''v''\<rparr>)],
       x_trace := x_trace w @ [Called tid ''u1'' ''POST'' ''i''], x_artifacts := x_artifacts w @ [(tid, [(''a'', JInt 1)])]\<rparr>,
     \<lparr>er_task = tid, er_status = ''success'', er_data = JDict [(''a'', JInt 1)], er_error = None, er_key = Some ''k'',
       er_cached = False\<rparr>)"
  using assms by (cases w) (simp add: demo_simps)

lemma demo_run_known:
  "\<not> is_disabled dis (demo_task tid deps) \<Longrightarrow> completed_keys w = [''k''] \<Longrightarrow>
   run_task (demo_cfg False) dis acc now fresh outs (demo_task tid deps) w =
    (w, success_result (demo_task tid deps) (dict_get acc tid JNull) ''k'' False)"
  by (simp add: run_task_def Let_def resolve_placeholders_slow) (simp add: demo_cfg_def demo_task_def execution_key_of_def hash_json_def)

lemma demo_run_disabled:
  "is_disabled dis task \<Longrightarrow> run_task cfg dis acc now fresh outs task w = (w, plain_result task ''skipped'' None None)"
  by (simp add: run_task_def)

lemma demo_fields [simp]:
  "et_id (demo_task tid deps) = tid" "et_deps (demo_task tid deps) = deps" "et_kind (demo_task tid deps) = ''tool''"
  by (simp_all add: demo_task_def)

lemma demo_disabled [simp]:
  "is_disabled dis (demo_task tid deps) \<longleftrightarrow> tid \<in> set dis \<or> (\<exists>d \<in> set deps. d \<in> set dis)"
  by (simp add: is_disabled_def)

lemmas demo_plan_simps = demo_run_fresh demo_run_known demo_run_disabled demo_env_def execute_plan_def plan_wave_def
  prune_conditional_tasks_def prune_step_def execute_wave_def wave_task_def guarded_run_def record_outcome_def
  no_results_def demo_world_def Let_def dict_get_def plain_result_def success_result_def

text \<open>
  a second task with the same tool and inputs as a completed one counts as successful but
  carries no data and registers no artifact, so nothing that refers to it can be resolved.
\<close>

theorem repeated_call_loses_data:
  "case execute_plan (demo_cfg False) demo_env [[demo_task ''first'' []], [demo_task ''second'' []]] demo_world of
     (w, disabled, res, acc) \<Rightarrow> successful res = [''first'', ''second''] \<and> map_of acc ''second'' = Some JNull
       \<and> map_of acc ''first'' = Some (JDict [(''a'', JInt 1)]) \<and> map fst (x_artifacts w) = [''first'']"
  by (simp add: demo_plan_simps)

definition demo_gate :: exec_task where
  "demo_gate = (demo_task ''gate'' [])\<lparr>et_kind := ''conditional'', et_false := [''no'']\<rparr>"

lemma demo_gate_fields [simp]:
  "et_kind demo_gate = ''conditional''" "et_true demo_gate = []" "et_false demo_gate = [''no'']"
  by (simp_all add: demo_gate_def demo_task_def)

text \<open>
  skipping does not propagate: a task that depends on a skipped dependant of the losing
  branch is executed all the same.
\<close>

theorem branch_skip_not_transitive:
  "case execute_plan (demo_cfg False) demo_env
      [[demo_gate], [demo_task ''no'' []], [demo_task ''next'' [''no'']], [demo_task ''last'' [''next'']]] demo_world of
     (w, disabled, res, acc) \<Rightarrow> skipped res = [''no'', ''next''] \<and> map ev_task (calls w) = [''last'']"
  by (simp add: demo_plan_simps calls_def)

end
