(* ===== verification/Routing.thy ===== *)
theory Routing
  imports Prelude Recovery
begin

text \<open>
  \<open>agent/graph.py\<close> and \<open>agent/goals.py\<close>: the agent graph.  The state of a turn
  (\<open>AgentState\<close>) is a dictionary; a node returns the entries it updates; a routing function
  reads the state and names the next node.  \<open>declared_targets\<close> are the edges that
  \<open>build_agent_graph\<close> declares.  What the nodes themselves write is a relation \<open>upd\<close>
  here; the nodes that are modelled have their own theories.  A routing function that raises
  (a \<open>.get\<close> on something that is not a dictionary) is \<open>None\<close>.
\<close>

type_synonym agent_state = "json dict"

datatype node_name =
    RouterNode | ApprovalCheckpointResumeNode | InteractiveWorkflowNode | RequirementCollectorNode
  | SemanticPlannerNode | PlanValidatorNode | CompilerNode | OptimizerNode | EstimatorNode
  | ValidationNode | ApprovalGateNode | ExecutorNode | AggregatorNode | ValidatorNode
  | RecoveryManagerNode | ReflectionNode | ReplanNode | ResponseNode | MemoryHelperNode | Graph_END

section \<open>Reading the state\<close>

definition state_flag :: "agent_state \<Rightarrow> string \<Rightarrow> bool" where
  "state_flag s k = truthy (dict_get s k JNull)"

text \<open>\<open>int(v or 0)\<close>, \<open>None\<close> being its exception.\<close>

definition int_or_zero :: "json \<Rightarrow> int option" where
  "int_or_zero v = (if \<not> truthy v then Some 0 else case v of
      JBool b \<Rightarrow> Some 1
    | JInt i \<Rightarrow> Some i
    | JFloat r \<Rightarrow> Some (if 0 \<le> r then \<lfloor>r\<rfloor> else \<lceil>r\<rceil>)
    | JStr t \<Rightarrow> py_int t
    | _ \<Rightarrow> None)"

text \<open>\<open>x.get(k, d) if isinstance(x, dict) else d\<close>.\<close>

definition get_in :: "json \<Rightarrow> string \<Rightarrow> json \<Rightarrow> json" where
  "get_in v k d = (case v of JDict m \<Rightarrow> dict_get m k d | _ \<Rightarrow> d)"

text \<open>\<open>len(v)\<close>, where it is defined.\<close>

definition py_len :: "json \<Rightarrow> nat option" where
  "py_len v = (case v of JStr t \<Rightarrow> Some (length t) | JList xs \<Rightarrow> Some (length xs) | JDict d \<Rightarrow> Some (length d) | _ \<Rightarrow> None)"

section \<open>Goals\<close>

datatype execution_goal = CONVERSATION | INFORMATION | ANALYSIS | ACTION | WORKFLOW

record execution_goals =
  goals_of :: "execution_goal list"
  needs_requirements :: bool

definition goal_value :: "execution_goal \<Rightarrow> string" where
  "goal_value g = (case g of CONVERSATION \<Rightarrow> ''conversation'' | INFORMATION \<Rightarrow> ''information''
     | ANALYSIS \<Rightarrow> ''analysis'' | ACTION \<Rightarrow> ''action'' | WORKFLOW \<Rightarrow> ''workflow'')"

definition goal_priority :: "execution_goal list" where
  "goal_priority = [WORKFLOW, ACTION, ANALYSIS, INFORMATION, CONVERSATION]"

text \<open>\<open>None\<close> marks the modifier \<open>needs_requirements\<close>.\<close>

definition legacy_aliases :: "(string \<times> execution_goal option) list" where
  "legacy_aliases = [(''no_tool'', Some CONVERSATION), (''greeting'', Some CONVERSATION),
     (''conversational'', Some CONVERSATION), (''knowledge_only'', Some INFORMATION),
     (''single_tool'', Some ACTION), (''independent_multi'', Some ACTION),
     (''dependent_multi'', Some ACTION), (''needs_requirements'', None),
     (''workflow'', Some WORKFLOW), (''action'', Some ACTION), (''analysis'', Some ANALYSIS),
     (''information'', Some INFORMATION), (''conversation'', Some CONVERSATION)]"

definition primary :: "execution_goals \<Rightarrow> execution_goal" where
  "primary gs = (if goals_of gs = [] then CONVERSATION
     else case find (\<lambda>g. g \<in> set (goals_of gs)) goal_priority of Some g \<Rightarrow> g | None \<Rightarrow> CONVERSATION)"

definition from_legacy :: "string \<Rightarrow> execution_goals" where
  "from_legacy q = (case dict_get legacy_aliases q (Some ACTION) of
      None \<Rightarrow> \<lparr>goals_of = [ACTION], needs_requirements = True\<rparr>
    | Some g \<Rightarrow> \<lparr>goals_of = [g], needs_requirements = False\<rparr>)"

definition goal_of_value :: "string \<Rightarrow> execution_goal option" where
  "goal_of_value v = find (\<lambda>g. goal_value g = v) goal_priority"

definition from_values :: "string list \<Rightarrow> execution_goals" where
  "from_values vs = \<lparr>goals_of = foldl (\<lambda>gs v. case goal_of_value v of None \<Rightarrow> gs
      | Some g \<Rightarrow> if g \<in> set gs then gs else gs @ [g]) [] vs, needs_requirements = False\<rparr>"

definition to_state :: "execution_goals \<Rightarrow> agent_state" where
  "to_state gs = [(''_query_type'', JStr (goal_value (primary gs))),
     (''_goals'', JList (map (\<lambda>g. JStr (goal_value g)) (goals_of gs))),
     (''_needs_requirements'', JBool (needs_requirements gs))]"

section \<open>Routing functions\<close>

definition route_after_plan_validator :: "agent_state \<Rightarrow> node_name option" where
  "route_after_plan_validator s =
    (case int_or_zero (dict_get s ''_plan_validator_rounds'' (JInt 0)) of None \<Rightarrow> None | Some rounds \<Rightarrow>
      (let a = dict_get s ''_plan_validator_action'' (JStr []) in
       Some (if a = JStr ''abort'' then ResponseNode
         else if a = JStr ''require_more_info'' then RequirementCollectorNode
         else if a = JStr ''refine'' \<or> a = JStr ''drop_op'' then SemanticPlannerNode
         else CompilerNode)))"

text \<open>On the state as a dictionary; \<open>Recovery.route_after_recovery\<close> is its view on records.\<close>

definition route_recovery :: "agent_state \<Rightarrow> node_name option" where
  "route_recovery s = (case dict_get s ''_recovery_decision'' (JDict []) of
      JDict d \<Rightarrow> (let a = dict_get d ''action'' (JStr ''fail'') in
        Some (if a = JStr ''retry'' then ReflectionNode else if a = JStr ''replan'' then ReplanNode else ResponseNode))
    | _ \<Rightarrow> None)"

text \<open>The goals of the state; an unhashable query type raises.\<close>

definition state_goals :: "agent_state \<Rightarrow> execution_goals option" where
  "state_goals s = (let q = dict_get s ''_query_type'' (JStr []) in
     map_option (\<lambda>gs. if state_flag s ''_needs_requirements'' then gs\<lparr>needs_requirements := True\<rparr> else gs)
      (if \<not> truthy q then Some \<lparr>goals_of = [], needs_requirements = False\<rparr>
       else case q of JStr t \<Rightarrow> Some (from_legacy t) | JList _ \<Rightarrow> None | JDict _ \<Rightarrow> None
         | _ \<Rightarrow> Some \<lparr>goals_of = [ACTION], needs_requirements = False\<rparr>))"

definition route_after_router :: "agent_state \<Rightarrow> node_name option" where
  "route_after_router s = (case dict_get s ''_safety_result'' (JDict []) of
      JDict safety \<Rightarrow>
       (if dict_get safety ''action'' JNull = JStr ''reject'' then Some ResponseNode
        else if state_flag s ''_approval_pending'' \<and> \<not> state_flag s ''_bypass_workflow'' then Some ApprovalCheckpointResumeNode
        else if state_flag s ''_active_workflow_id'' \<and> \<not> state_flag s ''_bypass_workflow'' then Some InteractiveWorkflowNode
        else map_option (\<lambda>gs.
          if needs_requirements gs then RequirementCollectorNode
          else case primary gs of
              CONVERSATION \<Rightarrow> ResponseNode
            | INFORMATION \<Rightarrow> ResponseNode
            | WORKFLOW \<Rightarrow> if state_flag s ''_bypass_workflow'' then SemanticPlannerNode else InteractiveWorkflowNode
            | _ \<Rightarrow> SemanticPlannerNode) (state_goals s))
    | _ \<Rightarrow> None)"

definition route_after_validation :: "agent_state \<Rightarrow> node_name option" where
  "route_after_validation s = (let w = dict_get s ''_logical_workflow'' (JDict []) in
     if \<not> truthy w then Some ResponseNode
     else case py_len (get_in w ''nodes'' (JList [])) of None \<Rightarrow> None | Some n \<Rightarrow>
       Some (if n = 0 then ResponseNode
         else if state_flag s ''_needs_clarification'' then RequirementCollectorNode
         else if get_in (dict_get s ''_validation_result'' (JDict [])) ''ready'' JNull = JBool False then RequirementCollectorNode
         else if truthy (get_in (dict_get s ''_ir_stack'' (JDict [])) ''operations'' (JList [])) then ApprovalGateNode
         else if dict_get s ''_ready_to_plan'' JNull = JBool False then RequirementCollectorNode
         else ApprovalGateNode))"

definition route_after_approval :: "agent_state \<Rightarrow> node_name" where
  "route_after_approval s = (if dict_get s ''_approval_decision'' JNull = JStr ''rejected''
       \<or> dict_get s ''_approval_granted'' (JBool True) = JBool False then ResponseNode else ExecutorNode)"

definition route_after_checkpoint :: "agent_state \<Rightarrow> node_name" where
  "route_after_checkpoint s = (if state_flag s ''_route_to_gate'' then ApprovalGateNode
     else if state_flag s ''_route_to_planner'' then SemanticPlannerNode
     else if dict_get s ''_routing_decision'' JNull = JStr ''replan'' then SemanticPlannerNode
     else ResponseNode)"

text \<open>\<open>state.get("_execution_graph") or {}\<close> and its \<open>nodes\<close>, \<open>None\<close> when not a dictionary.\<close>

definition graph_nodes :: "agent_state \<Rightarrow> json dict option" where
  "graph_nodes s = (case get_in (dict_get s ''_execution_graph'' JNull) ''nodes'' JNull of JDict d \<Rightarrow> Some d | _ \<Rightarrow> None)"

definition is_reduce :: "json \<Rightarrow> bool" where
  "is_reduce n = (get_in n ''kind'' JNull = JStr ''reduce'')"

definition route_after_executor :: "agent_state \<Rightarrow> node_name" where
  "route_after_executor s = (let all_success = truthy (dict_get s ''_executor_all_success'' (JBool True)) in
     if dict_get s ''_workflow_next_action'' JNull = JStr ''execute_step'' \<and> all_success then InteractiveWorkflowNode
     else if (case graph_nodes s of None \<Rightarrow> False | Some d \<Rightarrow> list_ex (\<lambda>p. is_reduce (snd p)) d) then AggregatorNode
     else if all_success then ResponseNode else AggregatorNode)"

definition route_after_reflection :: "agent_state \<Rightarrow> node_name" where
  "route_after_reflection s = (if dict_get s ''_routing_decision'' (JStr ''finalize'') = JStr ''retry''
     then ExecutorNode else ResponseNode)"

definition route_after_compiler :: "nat \<Rightarrow> agent_state \<Rightarrow> node_name" where
  "route_after_compiler min_nodes s = (if state_flag s ''_route_to_planner'' then SemanticPlannerNode
     else if dict_get s ''_routing_decision'' JNull = JStr ''finalize'' then ResponseNode
     else if state_flag s ''_budget_exceeded'' then EstimatorNode
     else case graph_nodes s of Some d \<Rightarrow> if length d \<le> min_nodes then EstimatorNode else OptimizerNode
       | None \<Rightarrow> OptimizerNode)"

definition route_after_requirement_collector :: "agent_state \<Rightarrow> node_name" where
  "route_after_requirement_collector s =
     (if state_flag s ''_ready_to_plan'' \<or> state_flag s ''_route_to_planner'' then SemanticPlannerNode else Graph_END)"

definition route_after_workflow :: "agent_state \<Rightarrow> node_name" where
  "route_after_workflow s = (if dict_get s ''_routing_decision'' JNull = JStr ''finalize'' then ResponseNode
     else if state_flag s ''_route_to_compiler'' then CompilerNode
     else if state_flag s ''_route_to_planner'' then SemanticPlannerNode
     else if state_flag s ''_route_to_router'' then RouterNode
     else Graph_END)"

section \<open>The graph\<close>

text \<open>\<open>build_agent_graph\<close>: the declared targets of each node.\<close>

fun declared_targets :: "node_name \<Rightarrow> node_name list" where
  "declared_targets RouterNode = [InteractiveWorkflowNode, ApprovalCheckpointResumeNode, SemanticPlannerNode,
     ResponseNode, RequirementCollectorNode]"
| "declared_targets ApprovalCheckpointResumeNode = [ApprovalGateNode, SemanticPlannerNode, ResponseNode]"
| "declared_targets InteractiveWorkflowNode = [CompilerNode, SemanticPlannerNode, RouterNode, ResponseNode, Graph_END]"
| "declared_targets SemanticPlannerNode = [PlanValidatorNode]"
| "declared_targets PlanValidatorNode = [CompilerNode, RequirementCollectorNode, SemanticPlannerNode, ResponseNode, Graph_END]"
| "declared_targets CompilerNode = [OptimizerNode, EstimatorNode, SemanticPlannerNode, ResponseNode]"
| "declared_targets OptimizerNode = [EstimatorNode]"
| "declared_targets EstimatorNode = [ValidationNode]"
| "declared_targets ValidationNode = [ApprovalGateNode, ResponseNode, RequirementCollectorNode]"
| "declared_targets RequirementCollectorNode = [SemanticPlannerNode, Graph_END]"
| "declared_targets ApprovalGateNode = [ExecutorNode, ResponseNode]"
| "declared_targets ExecutorNode = [AggregatorNode, ResponseNode, InteractiveWorkflowNode]"
| "declared_targets AggregatorNode = [ValidatorNode]"
| "declared_targets ValidatorNode = [RecoveryManagerNode]"
| "declared_targets RecoveryManagerNode = [ReflectionNode, ReplanNode, ResponseNode]"
| "declared_targets ReplanNode = [SemanticPlannerNode]"
| "declared_targets ReflectionNode = [ExecutorNode, ResponseNode]"
| "declared_targets ResponseNode = [MemoryHelperNode]"
| "declared_targets MemoryHelperNode = [Graph_END]"
| "declared_targets Graph_END = []"

text \<open>The node that runs after \<open>n\<close> in the state \<open>n\<close> has left.\<close>

fun next_node :: "nat \<Rightarrow> node_name \<Rightarrow> agent_state \<Rightarrow> node_name option" where
  "next_node m RouterNode s = route_after_router s"
| "next_node m ApprovalCheckpointResumeNode s = Some (route_after_checkpoint s)"
| "next_node m InteractiveWorkflowNode s = Some (route_after_workflow s)"
| "next_node m SemanticPlannerNode s = Some PlanValidatorNode"
| "next_node m PlanValidatorNode s = route_after_plan_validator s"
| "next_node m CompilerNode s = Some (route_after_compiler m s)"
| "next_node m OptimizerNode s = Some EstimatorNode"
| "next_node m EstimatorNode s = Some ValidationNode"
| "next_node m ValidationNode s = route_after_validation s"
| "next_node m RequirementCollectorNode s = Some (route_after_requirement_collector s)"
| "next_node m ApprovalGateNode s = Some (route_after_approval s)"
| "next_node m ExecutorNode s = Some (route_after_executor s)"
| "next_node m AggregatorNode s = Some ValidatorNode"
| "next_node m ValidatorNode s = Some RecoveryManagerNode"
| "next_node m RecoveryManagerNode s = route_recovery s"
| "next_node m ReplanNode s = Some SemanticPlannerNode"
| "next_node m ReflectionNode s = Some (route_after_reflection s)"
| "next_node m ResponseNode s = Some MemoryHelperNode"
| "next_node m MemoryHelperNode s = Some Graph_END"
| "next_node m Graph_END s = None"

text \<open>
  One step of a turn: the current node writes its updates, then the next node is chosen.
  \<open>upd n s u\<close> holds of the updates \<open>u\<close> node \<open>n\<close> may return in state \<open>s\<close>.
\<close>

inductive graph_step ::
  "(node_name \<Rightarrow> agent_state \<Rightarrow> agent_state \<Rightarrow> bool) \<Rightarrow> nat \<Rightarrow> node_name \<times> agent_state \<Rightarrow> node_name \<times> agent_state \<Rightarrow> bool"
  for upd m where
  step: "upd n s u \<Longrightarrow> next_node m n (dict_merge s u) = Some n' \<Longrightarrow> graph_step upd m (n, s) (n', dict_merge s u)"

inductive graph_run ::
  "(node_name \<Rightarrow> agent_state \<Rightarrow> agent_state \<Rightarrow> bool) \<Rightarrow> nat \<Rightarrow> node_name \<times> agent_state \<Rightarrow> node_name list \<Rightarrow> node_name \<times> agent_state \<Rightarrow> bool"
  for upd m where
  run_here: "graph_run upd m c [] c"
| run_step: "graph_step upd m c c' \<Longrightarrow> graph_run upd m c' ns d \<Longrightarrow> graph_run upd m c (fst c # ns) d"

inductive_cases graph_stepE: "graph_step upd m c c'"
inductive_simps graph_step_iff: "graph_step upd m (n, s) (n', s')"

section \<open>Lemmas\<close>

lemma dict_get_merge_other: "k \<notin> fst ` set u \<Longrightarrow> dict_get (dict_merge s u) k d = dict_get s k d"
  by (induction u arbitrary: s) (auto simp: dict_merge_def dict_get_update)

lemma flag_merge:
  "state_flag s k \<Longrightarrow> (\<And>v. (k, v) \<in> set u \<Longrightarrow> truthy v) \<Longrightarrow> state_flag (dict_merge s u) k"
proof (induction u arbitrary: s)
  case (Cons p u)
  obtain k' v where p: "p = (k', v)" by (cases p)
  have "state_flag (AList.update k' v s) k" using Cons.prems p by (auto simp: state_flag_def dict_get_update)
  with Cons show ?case by (simp add: p dict_merge_def)
qed (simp add: dict_merge_def)

lemma run_from_set:
  assumes "graph_run upd m c ns d" and "P c" and "\<And>c c'. P c \<Longrightarrow> graph_step upd m c c' \<Longrightarrow> P c'"
  shows "P d \<and> (\<forall>n \<in> set ns. \<exists>s. P (n, s))"
  using assms(1,2)
proof (induction rule: graph_run.induct)
  case (run_step c c' ns d)
  with assms(3) have "P c'" by blast
  with run_step show ?case by (metis prod.collapse set_ConsD)
qed simp

lemma run_snoc:
  "graph_run upd m c ns d \<Longrightarrow> graph_step upd m d e \<Longrightarrow> graph_run upd m c (ns @ [fst d]) e"
proof (induction rule: graph_run.induct)
  case (run_here c)
  from graph_run.run_step [OF run_here graph_run.run_here] show ?case by simp
qed (simp add: graph_run.run_step)

lemma set_goal_priority [simp]: "set goal_priority = UNIV"
  by (auto simp: goal_priority_def) (metis execution_goal.exhaust)

lemma primary_mem: "goals_of gs \<noteq> [] \<Longrightarrow> primary gs \<in> set (goals_of gs)"
proof (cases "find (\<lambda>g. g \<in> set (goals_of gs)) goal_priority")
  case None
  moreover assume "goals_of gs \<noteq> []"
  ultimately show ?thesis by (auto simp: find_None_iff)
next
  case (Some g)
  then have "g \<in> set (goals_of gs)" by (auto simp: find_Some_iff)
  with Some show ?thesis by (auto simp: primary_def)
qed

lemma primary_single [simp]: "primary \<lparr>goals_of = [g], needs_requirements = b\<rparr> = g"
  using primary_mem [of "\<lparr>goals_of = [g], needs_requirements = b\<rparr>"] by simp

lemma from_legacy_value [simp]: "from_legacy (goal_value g) = \<lparr>goals_of = [g], needs_requirements = False\<rparr>"
  by (cases g) (simp_all add: from_legacy_def legacy_aliases_def goal_value_def dict_get_def)

lemma goal_value_nonempty [simp]: "goal_value g \<noteq> []"
  by (cases g) (simp_all add: goal_value_def)

lemma next_node_declared:
  "next_node m n s = Some n' \<Longrightarrow> n' \<in> set (declared_targets n)"
  by (cases n)
    (auto simp: route_after_router_def route_after_plan_validator_def route_recovery_def route_after_checkpoint_def
      route_after_workflow_def route_after_compiler_def route_after_validation_def
      route_after_requirement_collector_def route_after_approval_def route_after_executor_def
      route_after_reflection_def Let_def
      split: json.splits option.splits if_splits execution_goal.splits)

section \<open>Properties\<close>

text \<open>
  C27: Every routing function, when it does not raise, names a node that \<open>build_agent_graph\<close>
  declares as a target of the node it routes from, so the graph never fails on an unknown edge.
\<close>

theorem routes_declared:
  "next_node m n s = Some n' \<Longrightarrow> n' \<in> set (declared_targets n)"
  by (rule next_node_declared)

theorem routes_declared_witness:
  "route_after_approval [] \<in> set (declared_targets ApprovalGateNode)"
  by (rule routes_declared [of 0 ApprovalGateNode "[]"]) simp

text \<open>
  C14: Whatever the nodes write, a turn never reaches the executor without having run the approval
  gate before.
\<close>

theorem execution_passes_gate:
  assumes "graph_run upd m (RouterNode, s) ns (ExecutorNode, s')"
  shows "ApprovalGateNode \<in> set ns"
proof -
  let ?before = "{RouterNode, ApprovalCheckpointResumeNode, InteractiveWorkflowNode, RequirementCollectorNode,
    SemanticPlannerNode, PlanValidatorNode, CompilerNode, OptimizerNode, EstimatorNode, ValidationNode,
    ApprovalGateNode, ResponseNode, MemoryHelperNode, Graph_END}"
  have "ApprovalGateNode \<in> set ns \<or> fst d \<in> ?before"
    if "graph_run upd m c ns d" "fst c \<in> ?before" for c d ns
    using that
  proof (induction rule: graph_run.induct)
    case (run_step c c' ns d)
    obtain n t n' t' where c: "c = (n, t)" "c' = (n', t')" by (metis surj_pair)
    with run_step have t: "n' \<in> set (declared_targets n)" by (auto elim!: graph_stepE dest: next_node_declared)
    show ?case
    proof (cases "n = ApprovalGateNode")
      case False
      with t run_step c have "fst c' \<in> ?before" by auto
      with run_step.IH show ?thesis by auto
    qed (simp add: c)
  qed simp
  from this [OF assms] show ?thesis by simp
qed

theorem execution_passes_gate_witness:
  "ApprovalGateNode \<in> set [RouterNode, SemanticPlannerNode, PlanValidatorNode, CompilerNode, OptimizerNode,
     EstimatorNode, ValidationNode, ApprovalGateNode]"
proof (rule execution_passes_gate)
  let ?s = "[(''_query_type'', JStr ''action''), (''_logical_workflow'', JDict [(''nodes'', JList [JNull])])]"
  let ?step = "graph_step (\<lambda>n s u. u = []) 3"
  have st: "?step (RouterNode, ?s) (SemanticPlannerNode, ?s)" "?step (SemanticPlannerNode, ?s) (PlanValidatorNode, ?s)"
    "?step (PlanValidatorNode, ?s) (CompilerNode, ?s)" "?step (CompilerNode, ?s) (OptimizerNode, ?s)"
    "?step (OptimizerNode, ?s) (EstimatorNode, ?s)" "?step (EstimatorNode, ?s) (ValidationNode, ?s)"
    "?step (ValidationNode, ?s) (ApprovalGateNode, ?s)" "?step (ApprovalGateNode, ?s) (ExecutorNode, ?s)"
    using from_legacy_value [of ACTION]
    by (simp_all add: graph_step_iff dict_merge_def route_after_plan_validator_def int_or_zero_def dict_get_def
        route_after_router_def state_flag_def state_goals_def route_after_compiler_def graph_nodes_def get_in_def
        route_after_validation_def py_len_def route_after_approval_def goal_value_def)
  from run_step [OF st(1) run_step [OF st(2) run_step [OF st(3) run_step [OF st(4) run_step [OF st(5)
    run_step [OF st(6) run_step [OF st(7) run_step [OF st(8) run_here]]]]]]]]
  show "graph_run (\<lambda>n s u. u = []) 3 (RouterNode, ?s)
    [RouterNode, SemanticPlannerNode, PlanValidatorNode, CompilerNode, OptimizerNode,
     EstimatorNode, ValidationNode, ApprovalGateNode] (ExecutorNode, ?s)" by simp
qed

text \<open>
  C28: The goals a node stores survive the state: reading the classified request back for routing
  gives the same primary goal and the same request for requirements.
\<close>

theorem goals_roundtrip:
  "map_option (\<lambda>g. (primary g, needs_requirements g)) (state_goals (dict_merge s (to_state gs)))
     = Some (primary gs, needs_requirements gs)"
proof -
  have "dict_get (dict_merge s (to_state gs)) ''_query_type'' (JStr []) = JStr (goal_value (primary gs))"
    "state_flag (dict_merge s (to_state gs)) ''_needs_requirements'' = needs_requirements gs"
    by (simp_all add: to_state_def state_flag_def dict_get_def map_of_dict_merge)
  then show ?thesis by (simp add: state_goals_def Let_def)
qed

end
