(* ===== verification/Agent_Context.thy ===== *)
theory Agent_Context
  imports Routing
begin

text \<open>
  \<open>execution/context.py\<close> and \<open>agent/node_wrapper.py\<close>: the versioned context a node sees,
  patches, replay, and the decorator \<open>context_node\<close> that turns a node's patch into updates of
  the agent state.  \<open>pf\<close> is Python's \<open>float\<close> on strings (\<open>None\<close>: \<open>ValueError\<close>), \<open>now\<close>
  the text of the clock.  \<open>None\<close> as a result is an exception (a value that pydantic or a
  conversion rejects).
\<close>

section \<open>Data\<close>

record exec_context =
  cx_version :: int
  cx_parent :: int
  cx_snapshot :: "json dict"
  cx_ir :: "json dict"
  cx_artifact_ids :: "string list"
  cx_execution_ids :: "string list"
  cx_routing :: string
  cx_timeline :: "string list"
  cx_budget :: "json dict"
  cx_strategy :: string
  cx_checkpoints :: "json dict"
  cx_artifacts :: "json dict"
  cx_idempotency :: "string option"
  cx_roles :: "string list"
  cx_created :: string

record state_patch =
  sp_version :: int
  sp_updates :: "json dict"
  sp_removes :: "string list"
  sp_ir :: "json dict option"

definition reserved_keys :: "string list" where
  "reserved_keys = [''compiled_graph'', ''ontology'', ''static_schemas'', ''registry_checksum'',
     ''user_context'', ''user_id'', ''policies'', ''memory_ids'', ''registry_version_checksum'']"

definition static_strip_fields :: "string list" where
  "static_strip_fields = [''available_tools'', ''tool_results'', ''_executor_results'']"

text \<open>The named fields that do not start with an underscore; the others are kept anyway.\<close>

definition lean_fields :: "string list" where
  "lean_fields = [''iteration_count'', ''final_response'', ''response_type'', ''errors'', ''session_id'',
     ''reflection_feedback'', ''gathered_requirements'', ''messages'', ''tool_results'', ''dag_tasks'',
     ''intent'', ''intent_analysis'']"

definition is_global_or_session_key :: "string \<Rightarrow> bool" where
  "is_global_or_session_key k \<longleftrightarrow> k \<in> set reserved_keys"

definition keep_field :: "string \<Rightarrow> bool" where
  "keep_field k \<longleftrightarrow> k \<notin> set static_strip_fields \<and> k \<noteq> ''_context_snapshot''
     \<and> (k \<in> set lean_fields \<or> starts_with ''_'' k)"

section \<open>Operations\<close>

definition int_field :: "json \<Rightarrow> int option" where
  "int_field v = (case v of JInt i \<Rightarrow> Some i | JBool b \<Rightarrow> Some (if b then 1 else 0)
     | JFloat r \<Rightarrow> if of_int \<lfloor>r\<rfloor> = r then Some \<lfloor>r\<rfloor> else None | _ \<Rightarrow> None)"

text \<open>\<open>list(v)\<close> validated as a list of strings.\<close>

definition str_of :: "json \<Rightarrow> string option" where
  "str_of v = (case v of JStr t \<Rightarrow> Some t | _ \<Rightarrow> None)"

definition str_list :: "json \<Rightarrow> string list option" where
  "str_list v = (case v of
      JList xs \<Rightarrow> if list_all (\<lambda>x. str_of x \<noteq> None) xs then Some (map (\<lambda>x. the (str_of x)) xs) else None
    | JStr t \<Rightarrow> Some (map (\<lambda>c. [c]) t)
    | JDict d \<Rightarrow> Some (map fst d)
    | _ \<Rightarrow> None)"

definition empty_context :: exec_context where
  "empty_context = \<lparr>cx_version = 0, cx_parent = 0, cx_snapshot = [], cx_ir = [], cx_artifact_ids = [],
     cx_execution_ids = [], cx_routing = ''continue'', cx_timeline = [], cx_budget = [], cx_strategy = [],
     cx_checkpoints = [], cx_artifacts = [], cx_idempotency = None, cx_roles = [], cx_created = []\<rparr>"

definition from_state :: "string \<Rightarrow> agent_state \<Rightarrow> exec_context option" where
  "from_state now s = (case int_field (dict_get s ''_context_version'' (JInt 1)) of None \<Rightarrow> None | Some v \<Rightarrow>
     (case str_of (dict_get s ''_routing_decision'' (JStr ''continue'')) of None \<Rightarrow> None | Some r \<Rightarrow>
     (case str_list (dict_get s ''_node_timeline'' (JList [])) of None \<Rightarrow> None | Some ts \<Rightarrow>
       Some (empty_context\<lparr>cx_version := v, cx_parent := max 0 (v - 1),
         cx_snapshot := filter (\<lambda>p. keep_field (fst p)) s,
         cx_ir := (case dict_get s ''_ir_stack'' (JDict []) of JDict d \<Rightarrow> d | _ \<Rightarrow> []),
         cx_routing := r, cx_timeline := ts, cx_created := now\<rparr>))))"

definition to_state_update :: "exec_context \<Rightarrow> agent_state" where
  "to_state_update c = [(''_ir_stack'', JDict (cx_ir c)), (''_context_version'', JInt (cx_version c)),
     (''_context_snapshot'', JDict (cx_snapshot c)), (''_routing_decision'', JStr (cx_routing c)),
     (''_node_timeline'', JList (map JStr (cx_timeline c)))]"

text \<open>\<open>float(v or 0.0)\<close>.\<close>

definition float_or_zero :: "(string \<Rightarrow> rat option) \<Rightarrow> json \<Rightarrow> rat option" where
  "float_or_zero pf v = (if \<not> truthy v then Some 0 else case v of
      JStr t \<Rightarrow> pf t | _ \<Rightarrow> num_of v)"

definition remove_keys :: "string list \<Rightarrow> 'v dict \<Rightarrow> 'v dict" where
  "remove_keys ks d = foldl (\<lambda>d k. AList.delete k d) d ks"

definition patched_snapshot :: "state_patch \<Rightarrow> json dict \<Rightarrow> json dict" where
  "patched_snapshot p d = remove_keys (sp_removes p) (dict_merge d (sp_updates p))"

text \<open>The strategy is \<open>str(v or "")\<close>; \<open>fs\<close> prints floats.\<close>

definition apply_patch ::
  "(rat \<Rightarrow> string) \<Rightarrow> (string \<Rightarrow> rat option) \<Rightarrow> state_patch \<Rightarrow> exec_context \<Rightarrow> exec_context option" where
  "apply_patch fs pf p c = (let snap = patched_snapshot p (cx_snapshot c) in
     case float_or_zero pf (dict_get snap ''_cost_estimate'' (JFloat 0)) of None \<Rightarrow> None | Some cost \<Rightarrow>
     (case int_or_zero (dict_get snap ''_latency_estimate_ms'' (JInt 0)) of None \<Rightarrow> None | Some lat \<Rightarrow>
       Some (empty_context\<lparr>cx_version := sp_version p, cx_parent := cx_version c, cx_snapshot := snap,
         cx_ir := (case sp_ir p of None \<Rightarrow> cx_ir c | Some d \<Rightarrow> dict_merge (cx_ir c) d),
         cx_artifact_ids := cx_artifact_ids c, cx_execution_ids := cx_execution_ids c,
         cx_routing := cx_routing c, cx_timeline := cx_timeline c,
         cx_budget := [(''cost_estimate_usd'', JFloat cost), (''latency_estimate_ms'', JInt lat),
           (''within_budget'', JBool (truthy (dict_get snap ''_within_budget'' (JBool True))))],
         cx_strategy := (let v = dict_get snap ''_execution_strategy'' (JStr []) in if truthy v then py_str fs v else []),
         cx_checkpoints := (let v = dict_get snap ''_plan_validator_action'' JNull in
             (if truthy v then [(''plan_validator'', v)] else []) @
             (if truthy (dict_get snap ''_approval_pending'' JNull) then [(''approval'', JStr ''pending'')] else [])),
         cx_created := cx_created c\<rparr>)))"

definition record_node :: "string \<Rightarrow> exec_context \<Rightarrow> exec_context" where
  "record_node n c = c\<lparr>cx_timeline := cx_timeline c @ [n]\<rparr>"

fun replay :: "(rat \<Rightarrow> string) \<Rightarrow> (string \<Rightarrow> rat option) \<Rightarrow> state_patch list \<Rightarrow> exec_context \<Rightarrow> exec_context option" where
  "replay fs pf [] c = Some c"
| "replay fs pf (p # ps) c = (if sp_version p \<le> cx_version c then replay fs pf ps c
     else case apply_patch fs pf p c of None \<Rightarrow> None | Some c' \<Rightarrow> replay fs pf ps c')"

definition branch :: "exec_context \<Rightarrow> exec_context" where
  "branch c = c\<lparr>cx_parent := cx_version c, cx_idempotency := None, cx_roles := []\<rparr>"

text \<open>\<open>context_node\<close> around a node that returns a patch.\<close>

definition context_node ::
  "(rat \<Rightarrow> string) \<Rightarrow> (string \<Rightarrow> rat option) \<Rightarrow> string \<Rightarrow> string \<Rightarrow> (exec_context \<Rightarrow> state_patch) \<Rightarrow> agent_state
     \<Rightarrow> agent_state option" where
  "context_node fs pf now name node s = (case from_state now s of None \<Rightarrow> None | Some c0 \<Rightarrow>
     (let c = record_node name c0; p = node c in
      if list_ex is_global_or_session_key (map fst (sp_updates p) @ sp_removes p) then None
      else case apply_patch fs pf p c of None \<Rightarrow> None | Some c' \<Rightarrow>
        (let merged = dict_merge (to_state_update c') (filter (\<lambda>q. fst q \<notin> set static_strip_fields) (sp_updates p));
             surfaced = (case dict_get merged ''_context_snapshot'' JNull of JDict d \<Rightarrow> d | _ \<Rightarrow> []) in
         Some (dict_merge merged (filter (\<lambda>q. \<not> dict_has merged (fst q)) surfaced)))))"

section \<open>Lemmas\<close>

definition canonical_keys :: "string set" where
  "canonical_keys = {''_ir_stack'', ''_context_version'', ''_context_snapshot'', ''_routing_decision'', ''_node_timeline''}"

lemma map_of_filter_keys: "map_of (filter (\<lambda>p. P (fst p)) d) k = (if P k then map_of d k else None)"
  by (induction d) auto

lemma distinct_filter_keys: "distinct (map fst d) \<Longrightarrow> distinct (map fst (filter P d))"
  by (rule distinct_map_fst_filter)

lemma remove_keys_props:
  "distinct (map fst d) \<Longrightarrow> distinct (map fst (remove_keys ks d))"
  "map_of (remove_keys ks d) k = (if k \<in> set ks then None else map_of d k)"
  by (induction ks arbitrary: d) (auto simp: remove_keys_def map_of_delete distinct_delete)

lemma apply_fields:
  assumes "apply_patch fs pf p c = Some c'"
  shows "cx_snapshot c' = patched_snapshot p (cx_snapshot c)" "cx_version c' = sp_version p"
    "cx_parent c' = cx_version c" "cx_timeline c' = cx_timeline c"
  using assms by (auto simp: apply_patch_def Let_def split: option.splits)

lemma canonical_update: "map_of (to_state_update c) k = None \<longleftrightarrow> k \<notin> canonical_keys"
  by (auto simp: to_state_update_def canonical_keys_def)

lemma from_state_snapshot: "from_state now s = Some c \<Longrightarrow> cx_snapshot c = filter (\<lambda>p. keep_field (fst p)) s"
  by (auto simp: from_state_def split: option.splits)

text \<open>What the decorator returns, when it returns.\<close>

lemma context_node_parts:
  assumes "context_node fs pf now name node s = Some u"
  obtains c c' where "from_state now s = Some c"
    "apply_patch fs pf (node (record_node name c)) (record_node name c) = Some c'"
    "\<not> list_ex is_global_or_session_key (map fst (sp_updates (node (record_node name c))) @ sp_removes (node (record_node name c)))"
    "u = (let p = node (record_node name c);
             merged = dict_merge (to_state_update c') (filter (\<lambda>q. fst q \<notin> set static_strip_fields) (sp_updates p));
             surfaced = (case dict_get merged ''_context_snapshot'' JNull of JDict d \<Rightarrow> d | _ \<Rightarrow> [])
          in dict_merge merged (filter (\<lambda>q. \<not> dict_has merged (fst q)) surfaced))"
  using assms by (auto simp: context_node_def Let_def split: option.splits if_splits)

lemma patched_snapshot_map:
  "distinct (map fst (sp_updates p)) \<Longrightarrow> distinct (map fst d) \<Longrightarrow>
   map_of (patched_snapshot p d) k = (if k \<in> set (sp_removes p) then None else (map_of d ++ map_of (sp_updates p)) k)"
  by (simp add: patched_snapshot_def remove_keys_props distinct_dict_merge map_of_dict_merge)

lemma patched_snapshot_distinct: "distinct (map fst d) \<Longrightarrow> distinct (map fst (patched_snapshot p d))"
  by (simp add: patched_snapshot_def remove_keys_props distinct_dict_merge)

lemma version_replay: "replay fs pf ps c = Some c' \<Longrightarrow> cx_version c \<le> cx_version c' \<and> (\<forall>p \<in> set ps. sp_version p \<le> cx_version c')"
proof (induction ps arbitrary: c)
  case (Cons p ps)
  show ?case
  proof (cases "sp_version p \<le> cx_version c")
    case True
    with Cons have "cx_version c \<le> cx_version c' \<and> (\<forall>p \<in> set ps. sp_version p \<le> cx_version c')" by simp
    with True show ?thesis by auto
  next
    case False
    with Cons.prems obtain d where d: "apply_patch fs pf p c = Some d" "replay fs pf ps d = Some c'"
      by (auto split: option.splits)
    from Cons.IH [OF d(2)] apply_fields(2) [OF d(1)] False show ?thesis by auto
  qed
qed simp

lemma replay_old: "\<forall>p \<in> set ps. sp_version p \<le> cx_version c \<Longrightarrow> replay fs pf ps c = Some c"
  by (induction ps) auto

lemma context_node_value:
  assumes "context_node fs pf now name node s = Some u" and "distinct (map fst s)"
    and "from_state now s = Some c" and "sp_updates (node (record_node name c)) = us" and "distinct (map fst us)"
    and "''_context_snapshot'' \<notin> fst ` set us"
  shows "\<exists>c'. apply_patch fs pf (node (record_node name c)) (record_node name c) = Some c' \<and> distinct (map fst u)
    \<and> (\<forall>k. map_of u k = (if k \<in> fst ` set us \<and> k \<notin> set static_strip_fields then map_of us k
        else if k \<in> canonical_keys then map_of (to_state_update c') k
        else if k \<in> set (sp_removes (node (record_node name c))) then None
        else case map_of us k of Some v \<Rightarrow> Some v | None \<Rightarrow> if keep_field k then map_of s k else None))"
proof -
  obtain c' where c: "from_state now s = Some c"
    "apply_patch fs pf (node (record_node name c)) (record_node name c) = Some c'"
    "u = (let p = node (record_node name c);
             merged = dict_merge (to_state_update c') (filter (\<lambda>q. fst q \<notin> set static_strip_fields) (sp_updates p));
             surfaced = (case dict_get merged ''_context_snapshot'' JNull of JDict d \<Rightarrow> d | _ \<Rightarrow> [])
          in dict_merge merged (filter (\<lambda>q. \<not> dict_has merged (fst q)) surfaced))"
  proof (rule context_node_parts [OF assms(1)])
    fix d d'
    assume d: "from_state now s = Some d"
      "apply_patch fs pf (node (record_node name d)) (record_node name d) = Some d'"
      "u = (let p = node (record_node name d);
             merged = dict_merge (to_state_update d') (filter (\<lambda>q. fst q \<notin> set static_strip_fields) (sp_updates p));
             surfaced = (case dict_get merged ''_context_snapshot'' JNull of JDict d \<Rightarrow> d | _ \<Rightarrow> [])
          in dict_merge merged (filter (\<lambda>q. \<not> dict_has merged (fst q)) surfaced))"
    have "d = c" using d(1) assms(3) by simp
    then show thesis using that d by blast
  qed
  let ?p = "node (record_node name c)"
  let ?f = "filter (\<lambda>q. fst q \<notin> set static_strip_fields) us"
  let ?m = "dict_merge (to_state_update c') ?f"
  let ?snap = "cx_snapshot c'"
  have snap: "?snap = patched_snapshot ?p (filter (\<lambda>p. keep_field (fst p)) s)"
    using apply_fields(1) [OF c(2)] from_state_snapshot [OF c(1)] by (simp add: record_node_def)
  have df: "distinct (map fst ?f)" using assms(5) by (rule distinct_map_fst_filter)
  have mm: "map_of ?m = map_of (to_state_update c') ++ map_of ?f" by (rule map_of_dict_merge [OF df])
  have dm: "distinct (map fst ?m)" by (rule distinct_dict_merge) (simp add: to_state_update_def)
  have "map_of ?f ''_context_snapshot'' = None"
    using assms(6) by (auto simp: map_of_filter_keys map_of_eq_None_iff)
  moreover have "map_of (to_state_update c') ''_context_snapshot'' = Some (JDict ?snap)"
    by (simp add: to_state_update_def)
  ultimately have "dict_get ?m ''_context_snapshot'' JNull = JDict ?snap"
    by (simp add: dict_get_def mm map_add_def)
  then have u: "u = dict_merge ?m (filter (\<lambda>q. \<not> dict_has ?m (fst q)) ?snap)"
    using c(3) assms(4) by (simp add: Let_def)
  have ds: "distinct (map fst ?snap)"
    unfolding snap by (rule patched_snapshot_distinct) (rule distinct_map_fst_filter [OF assms(2)])
  have "map_of (filter (\<lambda>q. \<not> dict_has ?m (fst q)) ?snap) k = (if \<not> dict_has ?m k then map_of ?snap k else None)" for k
    by (rule map_of_filter_keys)
  then have mu: "map_of u k = (if dict_has ?m k then map_of ?m k else map_of ?snap k)" for k
    unfolding u map_of_dict_merge [OF distinct_map_fst_filter [OF ds]] map_add_def dict_has_def
    by (simp split: option.split del: not_None_eq)
  have du: "distinct (map fst u)" unfolding u by (rule distinct_dict_merge [OF dm])
  have fk: "map_of ?f k = (if k \<notin> set static_strip_fields then map_of us k else None)" for k
    by (rule map_of_filter_keys)
  have kk: "map_of (filter (\<lambda>p. keep_field (fst p)) s) k = (if keep_field k then map_of s k else None)" for k
    by (rule map_of_filter_keys)
  have sk: "map_of ?snap k = (if k \<in> set (sp_removes ?p) then None
      else case map_of us k of Some v \<Rightarrow> Some v | None \<Rightarrow> if keep_field k then map_of s k else None)" for k
    using assms(4) patched_snapshot_map [of ?p "filter (\<lambda>p. keep_field (fst p)) s" k] assms(5)
    by (simp add: snap distinct_map_fst_filter [OF assms(2)] map_add_def kk split: option.split)
  have mk: "map_of ?m k = (if k \<in> fst ` set us \<and> k \<notin> set static_strip_fields then map_of us k
      else map_of (to_state_update c') k)" for k
  proof (cases "map_of us k")
    case None
    then have "k \<notin> fst ` set us" by (simp add: map_of_eq_None_iff)
    with None show ?thesis by (simp add: mm map_add_def fk)
  next
    case (Some v)
    then have "k \<in> fst ` set us" by (force dest: map_of_SomeD)
    with Some show ?thesis by (simp add: mm map_add_def fk)
  qed
  have "map_of u k = (if k \<in> fst ` set us \<and> k \<notin> set static_strip_fields then map_of us k
        else if k \<in> canonical_keys then map_of (to_state_update c') k
        else if k \<in> set (sp_removes ?p) then None
        else case map_of us k of Some v \<Rightarrow> Some v | None \<Rightarrow> if keep_field k then map_of s k else None)" for k
  proof (cases "k \<in> fst ` set us \<and> k \<notin> set static_strip_fields")
    case True
    then have "map_of us k \<noteq> None" by (simp add: map_of_eq_None_iff)
    with True show ?thesis by (simp add: mu mk dict_has_def)
  next
    case False
    then show ?thesis using canonical_update [of c' k] unfolding mu mk dict_has_def
      by (simp only: if_not_P [OF False] sk) (auto simp: sk)
  qed
  with c(2) du show ?thesis by blast
qed

lemma context_node_lookup:
  assumes "context_node fs pf now name node s = Some u" and "distinct (map fst s)"
    and "from_state now s = Some c" and "sp_updates (node (record_node name c)) = us" and "distinct (map fst us)"
    and "''_context_snapshot'' \<notin> fst ` set us" and "k \<in> canonical_keys \<longrightarrow> k \<in> fst ` set us"
    and "k \<in> set static_strip_fields \<longrightarrow> k \<notin> set (sp_removes (node (record_node name c)))"
  shows "map_of (dict_merge s u) k = (case map_of us k of Some v \<Rightarrow> Some v | None \<Rightarrow> map_of s k)"
proof -
  obtain c' where du: "distinct (map fst u)" and u: "map_of u k = (if k \<in> fst ` set us \<and> k \<notin> set static_strip_fields then map_of us k
        else if k \<in> canonical_keys then map_of (to_state_update c') k
        else if k \<in> set (sp_removes (node (record_node name c))) then None
        else case map_of us k of Some v \<Rightarrow> Some v | None \<Rightarrow> if keep_field k then map_of s k else None)"
    using context_node_value [OF assms(1-6)] by blast
  have disj: "k \<in> set static_strip_fields \<Longrightarrow> k \<notin> canonical_keys"
    by (auto simp: canonical_keys_def static_strip_fields_def)
  have dom: "k \<in> fst ` set us \<longleftrightarrow> map_of us k \<noteq> None" by (simp add: map_of_eq_None_iff)
  have "map_of (dict_merge s u) k = (case map_of u k of Some v \<Rightarrow> Some v | None \<Rightarrow> map_of s k)"
    by (simp add: map_of_dict_merge [OF du] map_add_def split: option.split)
  then show ?thesis
    using assms(7,8) disj unfolding u dom by (auto split: option.splits if_splits)
qed

text \<open>A node whose patch removes nothing and sets no reserved key returns, on a state of the usual types.\<close>

lemma filter_keep_get: "keep_field k \<Longrightarrow> dict_get (filter (\<lambda>p. keep_field (fst p)) s) k d = dict_get s k d"
  using map_of_filter_key [of keep_field s k] by (simp add: dict_get_def case_prod_unfold)

lemma context_node_total:
  assumes "dict_get s ''_context_version'' (JInt 1) = JInt v" and "dict_get s ''_routing_decision'' (JStr ''continue'') = JStr r"
    and "dict_get s ''_node_timeline'' (JList []) = JList []"
    and "\<And>c. sp_removes (node c) = []" and "\<And>c. list_all (\<lambda>k. \<not> is_global_or_session_key k) (map fst (sp_updates (node c)))"
    and "\<And>c. cx_snapshot c = filter (\<lambda>p. keep_field (fst p)) s \<Longrightarrow>
      (\<exists>x. dict_get (dict_merge (cx_snapshot c) (sp_updates (node c))) ''_cost_estimate'' (JFloat 0) = JFloat x)
      \<and> (\<exists>l. dict_get (dict_merge (cx_snapshot c) (sp_updates (node c))) ''_latency_estimate_ms'' (JInt 0) = JInt l)"
  shows "\<exists>u. context_node fs pf now name node s = Some u"
proof -
  have f: "from_state now s \<noteq> None" by (simp add: from_state_def assms(1-3) int_field_def str_of_def str_list_def)
  then obtain c0 where c0: "from_state now s = Some c0" by blast
  let ?c = "record_node name c0"
  have snap: "cx_snapshot ?c = filter (\<lambda>p. keep_field (fst p)) s"
    using from_state_snapshot [OF c0] by (simp add: record_node_def)
  have ok: "\<not> list_ex is_global_or_session_key (map fst (sp_updates (node ?c)) @ sp_removes (node ?c))"
    using assms(4,5) [of ?c] by (auto simp: list_ex_iff list_all_iff)
  obtain x l where "dict_get (patched_snapshot (node ?c) (cx_snapshot ?c)) ''_cost_estimate'' (JFloat 0) = JFloat x"
    "dict_get (patched_snapshot (node ?c) (cx_snapshot ?c)) ''_latency_estimate_ms'' (JInt 0) = JInt l"
    using assms(6) [OF snap] by (auto simp: patched_snapshot_def remove_keys_def assms(4))
  then have "apply_patch fs pf (node ?c) ?c \<noteq> None"
    by (simp add: apply_patch_def float_or_zero_def int_or_zero_def Let_def)
  then show ?thesis using ok by (auto simp: context_node_def c0 Let_def)
qed

lemma context_node_runs:
  assumes "dict_get s ''_context_version'' (JInt 1) = JInt v" and "dict_get s ''_routing_decision'' (JStr ''continue'') = JStr r"
    and "dict_get s ''_node_timeline'' (JList []) = JList []" and "dict_get s ''_cost_estimate'' (JFloat 0) = JFloat x"
    and "dict_get s ''_latency_estimate_ms'' (JInt 0) = JInt l"
    and "\<And>c. sp_removes (node c) = []"
    and "\<And>c. list_all (\<lambda>k. \<not> is_global_or_session_key k \<and> k \<noteq> ''_cost_estimate'' \<and> k \<noteq> ''_latency_estimate_ms'') (map fst (sp_updates (node c)))"
  shows "\<exists>u. context_node fs pf now name node s = Some u"
proof (rule context_node_total [OF assms(1-3,6)])
  show "list_all (\<lambda>k. \<not> is_global_or_session_key k) (map fst (sp_updates (node c)))" for c
    using assms(7) [of c] by (auto simp: list_all_iff)
  fix c :: exec_context
  assume snap: "cx_snapshot c = filter (\<lambda>p. keep_field (fst p)) s"
  have keep: "keep_field ''_cost_estimate''" "keep_field ''_latency_estimate_ms''"
    by (simp_all add: keep_field_def static_strip_fields_def starts_with_def lean_fields_def)
  have "''_cost_estimate'' \<notin> fst ` set (sp_updates (node c))" "''_latency_estimate_ms'' \<notin> fst ` set (sp_updates (node c))"
    using assms(7) [of c] by (auto simp: list_all_iff)
  then show "(\<exists>x. dict_get (dict_merge (cx_snapshot c) (sp_updates (node c))) ''_cost_estimate'' (JFloat 0) = JFloat x)
      \<and> (\<exists>l. dict_get (dict_merge (cx_snapshot c) (sp_updates (node c))) ''_latency_estimate_ms'' (JInt 0) = JInt l)"
    using assms(4,5) by (simp add: snap dict_get_merge_other filter_keep_get keep)
qed

section \<open>Properties\<close>

text \<open>
  C17: What a decorated node returns, exactly, for a patch that may depend on the context and does
  not write the snapshot itself: an entry its patch sets has that value; otherwise the five
  canonical entries are those of the new context; otherwise an entry the patch removes is left
  out, so that the state keeps its old value; otherwise a field that is stripped from the updates
  comes back through the snapshot, and the kept fields of the state are returned as they were.
\<close>

theorem context_node_exact:
  assumes "context_node fs pf now name node s = Some u" and "distinct (map fst s)"
    and "from_state now s = Some c" and "distinct (map fst (sp_updates (node (record_node name c))))"
    and "''_context_snapshot'' \<notin> fst ` set (sp_updates (node (record_node name c)))"
  shows "\<exists>c'. apply_patch fs pf (node (record_node name c)) (record_node name c) = Some c'
    \<and> (\<forall>k. map_of u k = (if k \<in> fst ` set (sp_updates (node (record_node name c))) \<and> k \<notin> set static_strip_fields
          then map_of (sp_updates (node (record_node name c))) k
        else if k \<in> canonical_keys then map_of (to_state_update c') k
        else if k \<in> set (sp_removes (node (record_node name c))) then None
        else case map_of (sp_updates (node (record_node name c))) k of Some v \<Rightarrow> Some v
          | None \<Rightarrow> if keep_field k then map_of s k else None))"
  using context_node_value [OF assms(1-3) refl assms(4,5)] by blast

theorem context_node_exact_witness:
  "\<exists>u. context_node (\<lambda>r. []) (\<lambda>t. None) ''0'' ''n''
      (\<lambda>c. \<lparr>sp_version = 2, sp_updates = [(''tool_results'', JInt 7)], sp_removes = [''_plan''], sp_ir = None\<rparr>)
      [(''_plan'', JInt 1)] = Some u
    \<and> map_of u ''_plan'' = None \<and> map_of u ''tool_results'' = Some (JInt 7)"
proof -
  let ?n = "\<lambda>c :: exec_context. \<lparr>sp_version = 2, sp_updates = [(''tool_results'', JInt 7)], sp_removes = [''_plan''], sp_ir = None\<rparr>"
  have "context_node (\<lambda>r. []) (\<lambda>t. None) ''0'' ''n'' ?n [(''_plan'', JInt 1)] \<noteq> None"
    by (simp add: context_node_def from_state_def apply_patch_def patched_snapshot_def remove_keys_def record_node_def
        dict_get_def dict_merge_def int_field_def str_of_def str_list_def empty_context_def keep_field_def
        is_global_or_session_key_def reserved_keys_def static_strip_fields_def lean_fields_def starts_with_def
        float_or_zero_def int_or_zero_def Let_def)
  then obtain u where u: "context_node (\<lambda>r. []) (\<lambda>t. None) ''0'' ''n'' ?n [(''_plan'', JInt 1)] = Some u" by auto
  have "from_state ''0'' [(''_plan'', JInt 1)] \<noteq> None"
    by (simp add: from_state_def dict_get_def int_field_def str_of_def str_list_def)
  then obtain c where c: "from_state ''0'' [(''_plan'', JInt 1)] = Some c" by auto
  from context_node_exact [OF u _ c] have "map_of u ''_plan'' = None" "map_of u ''tool_results'' = Some (JInt 7)"
    by (auto simp: canonical_keys_def static_strip_fields_def)
  with u show ?thesis by blast
qed

text \<open>
  A node can never write an entry that belongs to the global or the session context: the
  decorator rejects its patch.
\<close>

theorem reserved_keys_rejected:
  assumes "\<forall>c. sp_updates (node c) = us" and "list_ex is_global_or_session_key (map fst us)"
  shows "context_node fs pf now name node s = None"
  using assms by (auto simp: context_node_def Let_def split: option.split)

theorem reserved_keys_rejected_witness:
  "context_node (\<lambda>r. []) (\<lambda>t. None) ''0'' ''n''
      (\<lambda>c. \<lparr>sp_version = 2, sp_updates = [(''user_id'', JStr ''root'')], sp_removes = [], sp_ir = None\<rparr>) [] = None"
  by (rule reserved_keys_rejected [of _ "[(''user_id'', JStr ''root'')]"])
    (simp_all add: is_global_or_session_key_def reserved_keys_def)

text \<open>
  Replaying the log of patches over a context that already contains them changes nothing: time
  travel is idempotent, whatever the order of the versions in the log.
\<close>

theorem replay_idempotent:
  "replay fs pf ps c = Some c' \<Longrightarrow> replay fs pf ps c' = Some c'"
  using version_replay replay_old by blast

theorem replay_idempotent_witness:
  "\<exists>c'. replay (\<lambda>r. []) (\<lambda>t. None) [\<lparr>sp_version = 1, sp_updates = [(''_plan'', JInt 1)], sp_removes = [], sp_ir = None\<rparr>] empty_context = Some c'
    \<and> replay (\<lambda>r. []) (\<lambda>t. None) [\<lparr>sp_version = 1, sp_updates = [(''_plan'', JInt 1)], sp_removes = [], sp_ir = None\<rparr>] c' = Some c'"
proof -
  let ?p = "\<lparr>sp_version = 1, sp_updates = [(''_plan'', JInt 1)], sp_removes = [], sp_ir = None\<rparr>"
  have "\<exists>c'. replay (\<lambda>r. []) (\<lambda>t. None) [?p] empty_context = Some c'"
    by (simp add: empty_context_def apply_patch_def patched_snapshot_def remove_keys_def dict_merge_def dict_get_def
        float_or_zero_def int_or_zero_def Let_def)
  then obtain c' where c: "replay (\<lambda>r. []) (\<lambda>t. None) [?p] empty_context = Some c'" by auto
  from replay_idempotent [OF this] c show ?thesis by blast
qed

end
