(* ===== verification/Approval.thy ===== *)
theory Approval
  imports Agent_Context Codegen
begin

text \<open>
  \<open>agent/nodes/multi_approval_gate_node.py\<close> and
  \<open>agent/nodes/approval_checkpoint_resume_node.py\<close>: the choice of an approval policy, the
  approval chain, and the classified reply to an open approval.  Both nodes are functions from
  the state to the updates they return.  Parameters: SHA256 of a JSON value, Python's text of a
  float, the JSONPath test, the texts shown to the user, the clock, and the language model's
  classification of the reply.
\<close>

section \<open>Policies\<close>

record approval_step =
  st_id :: "string option"
  st_role :: string
  st_ttl :: rat
  st_escalation :: string
  st_freed :: string
  st_inputs :: "json dict"
  st_escalated :: bool

record approval_trigger =
  tg_risk :: string
  tg_capability :: string
  tg_max_amount :: "rat option"

record approval_policy =
  pol_id :: string
  pol_name :: string
  pol_trigger :: approval_trigger
  pol_steps :: "approval_step list"

text \<open>\<open>risk_order.get(r, 0)\<close> with \<open>settings.agent.risk_order\<close>.\<close>

definition risk_rank :: "(string \<times> int) list \<Rightarrow> string \<Rightarrow> int" where
  "risk_rank ro r = dict_get ro r 0"

text \<open>\<open>risks\<close> are the registry rows of the planned tools.\<close>

definition max_risk_level :: "(string \<times> int) list \<Rightarrow> (string \<times> string) list \<Rightarrow> string list \<Rightarrow> string" where
  "max_risk_level ro risks tools = foldl (\<lambda>mx n. let r = dict_get risks n ''low'' in
     if risk_rank ro mx < risk_rank ro r then r else mx) ''low'' tools"

text \<open>
  The score of one policy, \<open>None\<close> when a condition fails.  Every row read from the registry
  has \<open>cost_per_call\<close> zero, so the largest cost is zero.
\<close>

definition policy_score :: "string \<Rightarrow> string list \<Rightarrow> approval_policy \<Rightarrow> nat option" where
  "policy_score max_risk tools pol = (let t = pol_trigger pol in
     if tg_risk t \<noteq> [] \<and> max_risk \<noteq> tg_risk t then None
     else if tg_capability t \<noteq> [] \<and> tg_capability t \<noteq> ''*'' \<and> tg_capability t \<notin> set tools then None
     else if (case tg_max_amount t of None \<Rightarrow> False | Some a \<Rightarrow> a < 0) then None
     else Some ((if tg_risk t \<noteq> [] then 3 else 0)
       + (if tg_capability t \<noteq> [] \<and> tg_capability t \<noteq> ''*'' then 2 else 0)
       + (if tg_max_amount t \<noteq> None then 1 else 0)))"

definition best_step ::
  "string \<Rightarrow> string list \<Rightarrow> nat \<times> approval_policy option \<Rightarrow> approval_policy \<Rightarrow> nat \<times> approval_policy option" where
  "best_step max_risk tools b pol = (case policy_score max_risk tools pol of None \<Rightarrow> b
     | Some sc \<Rightarrow> if fst b < sc then (sc, Some pol) else b)"

text \<open>
  \<open>_resolve_policy\<close>: \<open>db\<close> holds the registry rows and the enabled policies, highest priority
  first; \<open>None\<close> is a failing database.
\<close>

definition resolve_policy ::
  "(string \<times> int) list \<Rightarrow> ((string \<times> string) list \<times> approval_policy list) option \<Rightarrow> string list \<Rightarrow> approval_policy option" where
  "resolve_policy ro db tools = (case db of None \<Rightarrow> None
     | Some (risks, pols) \<Rightarrow> snd (foldl (best_step (max_risk_level ro risks tools) tools) (0, None) pols))"

section \<open>The approval chain\<close>

record gate_env =
  ge_sha :: "json \<Rightarrow> string"
  ge_float :: "rat \<Rightarrow> string"
  ge_freed :: "string \<Rightarrow> string list \<Rightarrow> agent_state \<Rightarrow> bool"
  ge_message :: "approval_step \<Rightarrow> nat \<Rightarrow> approval_policy \<Rightarrow> string"
  ge_context :: "string list \<Rightarrow> json dict \<Rightarrow> string"
  ge_order :: "string list \<Rightarrow> string list"
  ge_risk_order :: "(string \<times> int) list"

definition dict_or_empty :: "json \<Rightarrow> json dict" where
  "dict_or_empty v = (case v of JDict d \<Rightarrow> d | _ \<Rightarrow> [])"

definition list_or_empty :: "json \<Rightarrow> json list" where
  "list_or_empty v = (case v of JList xs \<Rightarrow> xs | _ \<Rightarrow> [])"

definition clear_requested_at :: "json dict \<Rightarrow> json dict" where
  "clear_requested_at chain = filter (\<lambda>p. \<not> ends_with ''_requested_at'' (fst p)) chain"

text \<open>\<open>_approval_binding_ok\<close>: both hashes are truthy and equal.\<close>

definition approval_binding_ok :: "json dict \<Rightarrow> json \<Rightarrow> string \<Rightarrow> bool" where
  "approval_binding_ok chain pend sid = (let bound = dict_get chain (''step_'' @ sid @ ''_hash'') (JStr []);
       current = get_in pend ''operation_hash'' (JStr []) in
     truthy bound \<and> truthy current \<and> py_eq bound current)"

definition default_step :: "nat \<Rightarrow> string" where
  "default_step i = ''step_'' @ nat_str i"

definition step_name :: "nat \<Rightarrow> approval_step \<Rightarrow> string" where
  "step_name i st = (case st_id st of Some x \<Rightarrow> x | None \<Rightarrow> default_step i)"

definition requested_key :: "nat \<Rightarrow> string" where
  "requested_key i = ''step_'' @ nat_str i @ ''_requested_at''"

definition build_step_message :: "approval_step \<Rightarrow> nat \<Rightarrow> nat \<Rightarrow> json" where
  "build_step_message st done all_steps = JList [JDict
     [(''step_id'', JStr (case st_id st of Some x \<Rightarrow> x | None \<Rightarrow> [])), (''step_index'', JInt (int done)),
      (''step_total'', JInt (int all_steps)), (''required_role'', JStr (st_role st)),
      (''escalated'', JBool (st_escalated st)), (''ttl_seconds'', JFloat (st_ttl st))]]"

definition completed_entry :: "string \<Rightarrow> string \<Rightarrow> rat \<Rightarrow> json" where
  "completed_entry sid decision now = JDict [(''step_id'', JStr sid), (''decision'', JStr decision), (''timestamp'', JFloat now)]"

text \<open>\<open>{str(k): str(v) ...}\<close>.\<close>

definition str_values :: "(rat \<Rightarrow> string) \<Rightarrow> json dict \<Rightarrow> json" where
  "str_values fs d = JDict (map (\<lambda>p. (fst p, JStr (py_str fs (snd p)))) d)"

definition str_or_empty :: "(rat \<Rightarrow> string) \<Rightarrow> json \<Rightarrow> string" where
  "str_or_empty fs v = (if truthy v then py_str fs v else [])"

definition binding_payload :: "gate_env \<Rightarrow> agent_state \<Rightarrow> approval_policy \<Rightarrow> string \<Rightarrow> approval_step \<Rightarrow> string list \<Rightarrow> json dict \<Rightarrow> json" where
  "binding_payload env s pol sid st tools details =
    (let det = filter (\<lambda>p. case snd p of JDict _ \<Rightarrow> True | _ \<Rightarrow> False) details in JDict
     [(''policy'', JStr (pol_name pol)), (''policy_version'', JStr []), (''step'', JStr sid),
      (''tools'', JList (map JStr (sort tools))), (''step_inputs'', str_values (ge_float env) (st_inputs st)),
      (''resolved_inputs'', JDict (sort_key fst (map (\<lambda>p. (fst p, str_values (ge_float env) (dict_or_empty (get_in (snd p) ''inputs'' JNull)))) det))),
      (''capability_ids'', JList (map JStr (sort (map (\<lambda>p. str_or_empty (ge_float env)
          (let c = get_in (snd p) ''capability_id'' JNull in if truthy c then c else get_in (snd p) ''id'' JNull)) det)))),
      (''graph_version'', JStr (str_or_empty (ge_float env) (dict_get s ''_graph_version'' JNull)))])"

definition operation_hash :: "gate_env \<Rightarrow> agent_state \<Rightarrow> approval_policy \<Rightarrow> string \<Rightarrow> approval_step \<Rightarrow> string list \<Rightarrow> json dict \<Rightarrow> string" where
  "operation_hash env s pol sid st tools details = take 24 (ge_sha env (binding_payload env s pol sid st tools details))"

definition rejected_updates :: "json dict \<Rightarrow> agent_state" where
  "rejected_updates chain = [(''_approval_granted'', JBool False), (''_needs_approval'', JBool False),
     (''_pending_approval_tools'', JList []), (''_approval_chain_state'', JDict chain),
     (''_approval_pending'', JNull), (''_approval_checkpoint_context'', JNull)]"

text \<open>A step is approved: the next one is due, or the chain is complete.\<close>

definition step_approved :: "approval_step list \<Rightarrow> approval_step \<Rightarrow> json list \<Rightarrow> json dict \<Rightarrow> agent_state \<Rightarrow> agent_state" where
  "step_approved steps st completed chain used =
    (let chain' = AList.update ''completed_steps'' (JList completed) chain in
     if length steps \<le> length completed
     then [(''_approval_granted'', JBool True), (''_needs_approval'', JBool False), (''_pending_approval_tools'', JList []),
           (''_approval_chain_state'', JDict (clear_requested_at chain'))] @ used
          @ [(''_approval_pending'', JNull), (''_approval_checkpoint_context'', JNull)]
     else [(''_approval_chain_state'', JDict chain'), (''_needs_approval'', JBool True),
           (''_pending_approval_tools'', build_step_message st (length completed) (length steps))] @ used)"

definition escalate :: "json dict \<Rightarrow> nat \<Rightarrow> rat \<Rightarrow> approval_step \<Rightarrow> approval_step" where
  "escalate chain i now st = (case num_of (dict_get chain (requested_key i) JNull) of None \<Rightarrow> st
     | Some t \<Rightarrow> if st_ttl st < now - t \<and> st_escalation st \<noteq> []
         then st\<lparr>st_role := st_escalation st, st_escalated := True\<rparr> else st)"

definition request_approval ::
  "gate_env \<Rightarrow> rat \<Rightarrow> agent_state \<Rightarrow> approval_policy \<Rightarrow> string list \<Rightarrow> json dict \<Rightarrow> json dict \<Rightarrow> nat \<Rightarrow> approval_step \<Rightarrow> agent_state" where
  "request_approval env now s pol tools details chain i st =
    (let n = length (pol_steps pol); sid = step_name i st; msg = ge_message env st i pol; ctx = ge_context env tools details;
         chain' = dict_merge chain [(requested_key i, JFloat now), (''policy_id'', JStr (pol_id pol)), (''policy_name'', JStr (pol_name pol))] in
     [(''final_response'', JStr msg), (''_needs_approval'', JBool True),
      (''_pending_approval_tools'', build_step_message st i n), (''_approval_chain_state'', JDict chain'),
      (''_routing_decision'', JStr ''finalize''), (''_approval_requested_at'', JFloat now),
      (''_approval_pending'', JDict [(''policy'', JStr (pol_name pol)), (''step'', JStr sid), (''message'', JStr msg),
         (''context'', JStr ctx), (''tools'', JList (map JStr tools)), (''tool_details'', JDict details),
         (''requested_at'', JFloat now), (''operation_hash'', JStr (operation_hash env s pol sid st tools details))]),
      (''_approval_checkpoint_context'', JStr (if ctx \<noteq> [] then ctx else msg))])"

definition process_approval_chain ::
  "gate_env \<Rightarrow> rat \<Rightarrow> agent_state \<Rightarrow> approval_policy \<Rightarrow> string list \<Rightarrow> json dict \<Rightarrow> agent_state" where
  "process_approval_chain env now s pol tools details =
    (let chain = dict_or_empty (dict_get s ''_approval_chain_state'' JNull);
         pend = (let p = dict_get s ''_approval_pending'' JNull in if truthy p then p else JDict []);
         steps = pol_steps pol;
         completed = list_or_empty (dict_get chain ''completed_steps'' (JList []));
         i = length completed;
         decision = dict_get s ''_approval_decision'' JNull in
     if steps = [] then [(''_approval_granted'', JBool True)]
     else if length steps \<le> i then [(''_approval_granted'', JBool True), (''_approval_chain_state'', JDict (clear_requested_at chain))]
     else let st = steps ! i; sid = step_name i st; step_decision = dict_get chain (''step_'' @ sid @ ''_decision'') JNull in
     if decision = JStr ''approved'' then
       (if \<not> approval_binding_ok chain pend sid
        then [(''_approval_decision'', JNull), (''_approval_granted'', JBool False), (''_needs_approval'', JBool True),
              (''_pending_approval_tools'', build_step_message st i (length steps)), (''_approval_chain_state'', JDict chain)]
        else step_approved steps st (completed @ [completed_entry sid ''approved'' now]) chain [(''_approval_decision'', JNull)])
     else if decision = JStr ''rejected'' then rejected_updates chain
     else if step_decision = JStr ''approved'' \<and> approval_binding_ok chain pend sid
     then step_approved steps st (completed @ [completed_entry sid ''approved'' now]) chain []
     else if step_decision = JStr ''rejected'' then rejected_updates chain
     else if st_freed st \<noteq> [] \<and> ge_freed env (st_freed st) tools s
     then [(''_needs_approval'', JBool False), (''_pending_approval_tools'', JList []),
           (''_approval_chain_state'', JDict (AList.update ''completed_steps''
               (JList (completed @ [completed_entry sid ''auto_freed'' now])) chain))]
     else let st' = escalate chain i now st in
       if dict_get chain (requested_key i) JNull \<noteq> JNull
       then [(''_needs_approval'', JBool True), (''_pending_approval_tools'', build_step_message st' i (length steps))]
       else request_approval env now s pol tools details chain i st')"

section \<open>The gate\<close>

definition node_tool_name :: "json \<Rightarrow> string" where
  "node_tool_name n = (case get_in n ''tool_name'' JNull of JStr t \<Rightarrow> t | _ \<Rightarrow> [])"

definition planned_nodes :: "agent_state \<Rightarrow> json list" where
  "planned_nodes s = map snd (dict_or_empty (get_in (dict_get s ''_execution_graph'' JNull) ''nodes'' (JDict [])))"

definition planned_tools :: "agent_state \<Rightarrow> string list" where
  "planned_tools s = remdups (filter (\<lambda>t. t \<noteq> []) (map node_tool_name (planned_nodes s)))"

definition add_details :: "(rat \<Rightarrow> string) \<Rightarrow> json dict \<Rightarrow> json \<Rightarrow> json dict" where
  "add_details fs details n = (let t = node_tool_name n in if t = [] then details else
     let old = dict_get details t (JDict [(''inputs'', JDict []), (''method'', JStr [])]);
         ins = dict_merge (dict_or_empty (get_in old ''inputs'' JNull)) (dict_or_empty (get_in n ''inputs'' JNull));
         meth = (let m = get_in old ''method'' JNull in
           if truthy m then m else JStr (py_str fs (get_in n ''http_method'' (JStr ''GET'')))) in
     AList.update t (JDict [(''inputs'', JDict ins), (''method'', meth)]) details)"

definition multi_approval_gate_node ::
  "gate_env \<Rightarrow> ((string \<times> string) list \<times> approval_policy list) option \<Rightarrow> rat \<Rightarrow> agent_state \<Rightarrow> agent_state" where
  "multi_approval_gate_node env db now s =
    (if \<not> state_flag s ''_execution_graph'' \<or> planned_tools s = [] then [(''_approval_granted'', JBool True)]
     else let tools = ge_order env (planned_tools s) in
       case resolve_policy (ge_risk_order env) db tools of
         None \<Rightarrow> [(''_approval_granted'', JBool True)]
       | Some pol \<Rightarrow> process_approval_chain env now s pol tools (foldl (add_details (ge_float env)) [] (planned_nodes s)))"

section \<open>The reply\<close>

datatype approval_reply = Approve | Reject | Cancel | Modify string | Clarify string

definition approval_expired :: "rat option \<Rightarrow> rat \<Rightarrow> json \<Rightarrow> bool" where
  "approval_expired expiry now pend = (case num_of (get_in pend ''requested_at'' JNull) of None \<Rightarrow> False
     | Some t \<Rightarrow> 0 < t \<and> (case expiry of None \<Rightarrow> False | Some e \<Rightarrow> e < now - t))"

definition checkpoint_denied_tools :: "(rat \<Rightarrow> string) \<Rightarrow> agent_state \<Rightarrow> string list" where
  "checkpoint_denied_tools fs s =
    (let live = get_in (dict_get s ''_approval_pending'' JNull) ''tools'' JNull;
         old = get_in (dict_get s ''_approval_checkpoint'' JNull) ''tools'' JNull in
     remdups (map (py_str fs) (filter truthy (list_or_empty (if truthy live then live else old)))))"

text \<open>\<open>_denial_blocks_graph\<close>: a surviving node depends on a denied tool, by an edge or a reference.\<close>

definition denial_tool :: "(rat \<Rightarrow> string) \<Rightarrow> json \<Rightarrow> string" where
  "denial_tool fs n = (let t = get_in n ''tool_name'' JNull in
     str_or_empty fs (if truthy t then t else get_in n ''capability'' JNull))"

definition id_tool :: "(rat \<Rightarrow> string) \<Rightarrow> json dict \<Rightarrow> string \<Rightarrow> string" where
  "id_tool fs nodes r = (case map_of nodes r of Some n \<Rightarrow> denial_tool fs n | None \<Rightarrow> [])"

definition tool_of :: "(rat \<Rightarrow> string) \<Rightarrow> json dict \<Rightarrow> string \<Rightarrow> string" where
  "tool_of fs nodes r = (let t = id_tool fs nodes r in if t \<noteq> [] then t
     else denial_tool fs (case find (\<lambda>n. truthy (get_in n ''symbolic_ref'' JNull)
         \<and> py_str fs (get_in n ''symbolic_ref'' JNull) = r) (rev (map snd nodes)) of Some n \<Rightarrow> n | None \<Rightarrow> JNull))"

definition denial_blocks_graph :: "(rat \<Rightarrow> string) \<Rightarrow> json \<Rightarrow> string list \<Rightarrow> bool" where
  "denial_blocks_graph fs graph denied = (let nodes = filter (\<lambda>p. case snd p of JDict _ \<Rightarrow> True | _ \<Rightarrow> False)
        (dict_or_empty (get_in graph ''nodes'' (JDict []))) in
     truthy graph \<and> denied \<noteq> [] \<and>
     list_ex (\<lambda>p. id_tool fs nodes (fst p) \<notin> set denied \<and>
       (list_ex (\<lambda>d. tool_of fs nodes (py_str fs d) \<in> set denied) (list_or_empty (get_in (snd p) ''depends_on'' JNull))
        \<or> list_ex (\<lambda>q. list_ex (\<lambda>r. tool_of fs nodes r \<in> set denied) (find_refs (py_str fs (snd q))))
            (dict_or_empty (get_in (snd p) ''inputs'' JNull)))) nodes)"

definition decided :: "string \<Rightarrow> string \<Rightarrow> agent_state" where
  "decided decision routing = [(''_approval_decision'', JStr decision), (''_approval_pending'', JNull),
     (''_approval_checkpoint_context'', JNull), (''_approval_modification'', JNull),
     (''_needs_approval'', JBool False), (''_routing_decision'', JStr routing)]"

text \<open>The updates of the patch; \<open>answer\<close> texts to the user are abbreviated.\<close>

definition resume_updates ::
  "(rat \<Rightarrow> string) \<Rightarrow> rat option \<Rightarrow> rat \<Rightarrow> string \<Rightarrow> approval_reply \<Rightarrow> agent_state \<Rightarrow> agent_state" where
  "resume_updates fs expiry now user_msg reply s = (let pend = dict_get s ''_approval_pending'' JNull in
     if \<not> truthy pend \<or> user_msg = [] then []
     else if approval_expired expiry now pend
     then [(''_approval_pending'', JNull), (''_approval_checkpoint_context'', JNull), (''_approval_modification'', JNull),
           (''_needs_approval'', JBool False), (''_routing_decision'', JStr ''finalize''),
           (''final_response'', JStr ''expired''), (''response_type'', JStr ''cancellation'')]
     else case reply of
       Approve \<Rightarrow>
        (let chain = dict_or_empty (dict_get s ''_approval_chain_state'' JNull);
             sid = (let x = get_in pend ''step'' JNull in if truthy x then py_str fs x else ''step_0'');
             h = str_or_empty fs (get_in pend ''operation_hash'' JNull);
             c1 = AList.update (''step_'' @ sid @ ''_decision'') (JStr ''approved'') chain;
             c2 = (if h \<noteq> [] then AList.update (''step_'' @ sid @ ''_hash'') (JStr h) c1 else c1) in
         decided ''approved'' ''resume'' @ [(''_route_to_gate'', JBool True), (''_approval_chain_state'', JDict c2)])
     | Reject \<Rightarrow>
        (let denied = checkpoint_denied_tools fs s in
         if denied \<noteq> [] \<and> denial_blocks_graph fs (dict_get s ''_execution_graph'' JNull) denied
         then decided ''rejected'' ''replan'' @
           [(''_replan_context'', JDict [(''completed_tools'', JList []), (''unavailable_ops'', JList (map JStr (sort denied)))]),
            (''final_response'', JStr ''not approved''), (''response_type'', JStr ''replan'')]
         else decided ''rejected'' ''finalize'' @
           [(''final_response'', JStr ''not approved''), (''response_type'', JStr ''cancellation'')])
     | Cancel \<Rightarrow> decided ''rejected'' ''finalize'' @
           [(''final_response'', JStr ''cancelled''), (''response_type'', JStr ''cancellation'')] @
           (if state_flag s ''_active_workflow_id'' then [(''_active_workflow_id'', JNull)] else [])
     | Modify m \<Rightarrow> [(''_approval_modification'', JStr m), (''_approval_pending'', JNull), (''_approval_checkpoint_context'', JNull),
           (''_workflow_dynamic_intent'', JStr m), (''_route_to_planner'', JBool True), (''_bypass_workflow'', JBool True),
           (''_routing_decision'', JStr ''resume'')]
     | Clarify a \<Rightarrow> [(''final_response'', JStr a), (''_routing_decision'', JStr ''finalize''),
           (''response_type'', JStr ''clarification''), (''_approval_checkpoint_context'', get_in pend ''message'' (JStr []))])"

definition approval_resume_node ::
  "(rat \<Rightarrow> string) \<Rightarrow> (string \<Rightarrow> rat option) \<Rightarrow> rat option \<Rightarrow> rat \<Rightarrow> string \<Rightarrow> string \<Rightarrow> approval_reply \<Rightarrow> agent_state
     \<Rightarrow> agent_state option" where
  "approval_resume_node fs pf expiry now stamp user_msg reply s =
     context_node fs pf stamp ''approval_checkpoint_resume_node''
       (\<lambda>c. \<lparr>sp_version = cx_version c + 1, sp_updates = resume_updates fs expiry now user_msg reply (cx_snapshot c),
             sp_removes = [], sp_ir = None\<rparr>) s"

section \<open>Lemmas\<close>

definition chain_of :: "agent_state \<Rightarrow> json dict" where
  "chain_of s = dict_or_empty (dict_get s ''_approval_chain_state'' JNull)"

definition steps_done :: "agent_state \<Rightarrow> nat" where
  "steps_done s = length (list_or_empty (dict_get (chain_of s) ''completed_steps'' (JList [])))"

definition pending_of :: "agent_state \<Rightarrow> json" where
  "pending_of s = (let p = dict_get s ''_approval_pending'' JNull in if truthy p then p else JDict [])"

definition gate_policy ::
  "gate_env \<Rightarrow> ((string \<times> string) list \<times> approval_policy list) option \<Rightarrow> agent_state \<Rightarrow> approval_policy option" where
  "gate_policy env db s = (if \<not> state_flag s ''_execution_graph'' \<or> planned_tools s = [] then None
     else resolve_policy (ge_risk_order env) db (ge_order env (planned_tools s)))"

text \<open>What the gate leaves in the state of the two entries its routing reads.\<close>

lemma route_after_gate:
  "distinct (map fst u) \<Longrightarrow> route_after_approval (dict_merge s u) =
    (if (case map_of u ''_approval_decision'' of Some v \<Rightarrow> v | None \<Rightarrow> dict_get s ''_approval_decision'' JNull) = JStr ''rejected''
      \<or> (case map_of u ''_approval_granted'' of Some v \<Rightarrow> v | None \<Rightarrow> dict_get s ''_approval_granted'' (JBool True)) = JBool False
     then ResponseNode else ExecutorNode)"
  by (auto simp: route_after_approval_def dict_get_def map_of_dict_merge map_add_def split: option.split)

lemma gate_cases:
  "multi_approval_gate_node env db now s = (case gate_policy env db s of None \<Rightarrow> [(''_approval_granted'', JBool True)]
     | Some pol \<Rightarrow> process_approval_chain env now s pol (ge_order env (planned_tools s))
         (foldl (add_details (ge_float env)) [] (planned_nodes s)))"
  by (simp add: multi_approval_gate_node_def gate_policy_def Let_def)

lemma distinct_parts [simp]:
  "distinct (map fst (rejected_updates chain))"
  "distinct (map fst (request_approval env now s pol tools details chain i st))"
  "distinct (map fst (step_approved steps st completed chain []))"
  "distinct (map fst (step_approved steps st completed chain [(''_approval_decision'', v)]))"
  by (simp_all add: rejected_updates_def request_approval_def step_approved_def Let_def)

lemma granted_parts [simp]:
  "map_of (rejected_updates chain) ''_approval_granted'' = Some (JBool False)"
  "map_of (request_approval env now s pol tools details chain i st) ''_approval_granted'' = None"
  "map_of (step_approved steps st completed chain []) ''_approval_granted''
     = (if length steps \<le> length completed then Some (JBool True) else None)"
  "map_of (step_approved steps st completed chain [(''_approval_decision'', v)]) ''_approval_granted''
     = (if length steps \<le> length completed then Some (JBool True) else None)"
  by (simp_all add: rejected_updates_def request_approval_def step_approved_def Let_def)

definition step_decision :: "agent_state \<Rightarrow> approval_step \<Rightarrow> json" where
  "step_decision s st = dict_get (chain_of s) (''step_'' @ step_name (steps_done s) st @ ''_decision'') JNull"

definition step_bound :: "agent_state \<Rightarrow> approval_step \<Rightarrow> bool" where
  "step_bound s st = approval_binding_ok (chain_of s) (pending_of s) (step_name (steps_done s) st)"

lemma decision_parts [simp]:
  "map_of (rejected_updates chain) ''_approval_decision'' = None"
  "map_of (request_approval env now s pol tools details chain i st) ''_approval_decision'' = None"
  "map_of (step_approved steps st completed chain []) ''_approval_decision'' = None"
  "map_of (step_approved steps st completed chain [(''_approval_decision'', v)]) ''_approval_decision'' = Some v"
  by (simp_all add: rejected_updates_def request_approval_def step_approved_def Let_def)

lemma chain_decision:
  "map_of (process_approval_chain env now s pol tools details) ''_approval_decision'' =
    (if pol_steps pol = [] \<or> length (pol_steps pol) \<le> steps_done s \<or> dict_get s ''_approval_decision'' JNull \<noteq> JStr ''approved''
     then None else Some JNull)"
  unfolding process_approval_chain_def chain_of_def [symmetric] Let_def steps_done_def [symmetric]
  by (simp add: if_distrib [of "\<lambda>u. map_of u ''_approval_decision''"] cong: if_cong)

text \<open>What the gate writes to \<open>_approval_granted\<close> while a step is open.\<close>

lemma chain_granted:
  assumes "steps_done s < length (pol_steps pol)"
  defines "st \<equiv> pol_steps pol ! steps_done s"
  defines "ok \<equiv> if length (pol_steps pol) \<le> Suc (steps_done s) then Some (JBool True) else None"
  shows "map_of (process_approval_chain env now s pol tools details) ''_approval_granted'' =
    (if dict_get s ''_approval_decision'' JNull = JStr ''approved'' then (if step_bound s st then ok else Some (JBool False))
     else if dict_get s ''_approval_decision'' JNull = JStr ''rejected'' then Some (JBool False)
     else if step_decision s st = JStr ''approved'' \<and> step_bound s st then ok
     else if step_decision s st = JStr ''rejected'' then Some (JBool False) else None)"
proof -
  have ne: "pol_steps pol \<noteq> []" using assms(1) by auto
  have lt: "\<not> length (pol_steps pol) \<le> length (list_or_empty (dict_get (chain_of s) ''completed_steps'' (JList [])))"
    using assms(1) by (simp add: steps_done_def)
  show ?thesis
    unfolding process_approval_chain_def chain_of_def [symmetric] pending_of_def [symmetric]
    unfolding Let_def steps_done_def [symmetric] st_def [symmetric]
    using ne lt [folded steps_done_def]
    by (simp add: if_distrib [of "\<lambda>u. map_of u ''_approval_granted''"] step_bound_def step_decision_def ok_def
        chain_of_def [symmetric] steps_done_def [symmetric] st_def [symmetric] cong: if_cong)
qed

lemma chain_distinct: "distinct (map fst (process_approval_chain env now s pol tools details))"
  unfolding process_approval_chain_def Let_def by (simp split: if_split)

lemma gate_distinct: "distinct (map fst (multi_approval_gate_node env db now s))"
  by (simp add: gate_cases chain_distinct split: option.split)

lemma keep_approval [simp]: "keep_field (CHR ''_'' # k) \<longleftrightarrow>
    (CHR ''_'' # k) \<notin> set static_strip_fields \<and> (CHR ''_'' # k) \<noteq> ''_context_snapshot''"
  by (simp add: keep_field_def starts_with_def)

lemma snapshot_get:
  "keep_field k \<Longrightarrow> dict_get (filter (\<lambda>p. keep_field (fst p)) s) k d = dict_get s k d"
proof -
  assume "keep_field k"
  have "map_of (filter (\<lambda>p. keep_field (fst p)) s) k = (if keep_field k then map_of s k else None)"
    by (rule map_of_filter_keys)
  with \<open>keep_field k\<close> show ?thesis by (simp add: dict_get_def)
qed

text \<open>The resume node reads nothing but kept entries, so it sees the state itself.\<close>

lemma resume_reads:
  "resume_updates fs expiry now msg reply (filter (\<lambda>p. keep_field (fst p)) s) = resume_updates fs expiry now msg reply s"
proof -
  have "dict_get (filter (\<lambda>p. keep_field (fst p)) s) ''_approval_pending'' d = dict_get s ''_approval_pending'' d"
    "dict_get (filter (\<lambda>p. keep_field (fst p)) s) ''_approval_chain_state'' d = dict_get s ''_approval_chain_state'' d"
    "dict_get (filter (\<lambda>p. keep_field (fst p)) s) ''_approval_checkpoint'' d = dict_get s ''_approval_checkpoint'' d"
    "dict_get (filter (\<lambda>p. keep_field (fst p)) s) ''_execution_graph'' d = dict_get s ''_execution_graph'' d"
    "dict_get (filter (\<lambda>p. keep_field (fst p)) s) ''_active_workflow_id'' d = dict_get s ''_active_workflow_id'' d" for d
    by (rule snapshot_get, simp add: static_strip_fields_def)+
  then show ?thesis
    unfolding resume_updates_def checkpoint_denied_tools_def state_flag_def by (simp only:)
qed

lemma resume_distinct: "distinct (map fst (resume_updates fs expiry now msg reply s))"
  by (cases reply) (simp_all add: resume_updates_def decided_def Let_def)

lemma resume_no_snapshot:
  "''_context_snapshot'' \<notin> fst ` set (resume_updates fs expiry now msg reply s)"
  by (cases reply) (auto simp: resume_updates_def decided_def Let_def)

text \<open>The state after the decorated node: exactly the node's updates.\<close>

lemma resume_state:
  assumes "approval_resume_node fs pf expiry now stamp msg reply s = Some u" and "distinct (map fst s)"
    and "k \<in> canonical_keys \<longrightarrow> k \<in> fst ` set (resume_updates fs expiry now msg reply s)"
  shows "map_of (dict_merge s u) k
    = (case map_of (resume_updates fs expiry now msg reply s) k of Some v \<Rightarrow> Some v | None \<Rightarrow> map_of s k)"
proof -
  obtain c where c: "from_state stamp s = Some c"
    using assms(1) unfolding approval_resume_node_def by (rule context_node_parts)
  have us: "resume_updates fs expiry now msg reply (cx_snapshot (record_node n c)) = resume_updates fs expiry now msg reply s" for n
    using from_state_snapshot [OF c] by (simp add: record_node_def resume_reads)
  show ?thesis
    by (rule context_node_lookup [OF assms(1) [unfolded approval_resume_node_def] assms(2) c])
      (simp_all add: us resume_distinct resume_no_snapshot assms(3))
qed

lemma approve_state:
  assumes "approval_resume_node fs pf expiry now stamp msg Approve s = Some u" and "distinct (map fst s)"
    and "truthy (dict_get s ''_approval_pending'' JNull)" and "msg \<noteq> []"
    and "\<not> approval_expired expiry now (dict_get s ''_approval_pending'' JNull)"
  shows "dict_get (dict_merge s u) ''_approval_decision'' JNull = JStr ''approved''"
    and "dict_get (dict_merge s u) ''_approval_pending'' JNull = JNull"
  using assms(3-5)
  by (simp_all add: dict_get_def [of "dict_merge s u"] resume_state [OF assms(1,2)] canonical_keys_def)
    (simp_all add: resume_updates_def decided_def Let_def)

lemma unbound_without_pending: "\<not> approval_binding_ok chain (JDict []) sid"
  by (simp add: approval_binding_ok_def get_in_def dict_get_def)

section \<open>Properties: the gate\<close>

text \<open>
  C13: When the turn starts without a grant, the first visit of the gate leads to the executor only
  if nothing is to be approved (no graph, no tool, no matching policy), or all steps of the
  policy are done, or the last open step has an approval bound to the hash of the pending
  operation.
\<close>

theorem gate_requires_approval:
  assumes "dict_get s ''_approval_granted'' (JBool True) = JBool False"
    and "route_after_approval (dict_merge s (multi_approval_gate_node env db now s)) = ExecutorNode"
  shows "case gate_policy env db s of None \<Rightarrow> True
     | Some pol \<Rightarrow> length (pol_steps pol) \<le> steps_done s
         \<or> (length (pol_steps pol) = Suc (steps_done s)
            \<and> approval_binding_ok (chain_of s) (pending_of s) (step_name (steps_done s) (pol_steps pol ! steps_done s)))"
proof (cases "gate_policy env db s")
  case (Some pol)
  let ?u = "process_approval_chain env now s pol (ge_order env (planned_tools s))
         (foldl (add_details (ge_float env)) [] (planned_nodes s))"
  have "route_after_approval (dict_merge s ?u) = ExecutorNode" using assms(2) Some by (simp add: gate_cases)
  then have g: "\<exists>v. map_of ?u ''_approval_granted'' = Some v \<and> v \<noteq> JBool False"
    using assms(1) by (cases "map_of ?u ''_approval_granted''")
      (simp_all add: route_after_gate [OF chain_distinct] split: if_splits)
  show ?thesis
  proof (cases "length (pol_steps pol) \<le> steps_done s")
    case False
    then have lt: "steps_done s < length (pol_steps pol)" by simp
    from g lt Some show ?thesis
      by (auto simp: chain_granted [OF lt] step_bound_def split: if_splits)
  qed (simp add: Some)
qed simp

section \<open>A concrete plan\<close>

definition demo_step :: approval_step where
  "demo_step = \<lparr>st_id = Some ''a'', st_role = ''lead'', st_ttl = 60, st_escalation = [], st_freed = [],
     st_inputs = [], st_escalated = False\<rparr>"

definition demo_policy :: approval_policy where
  "demo_policy = \<lparr>pol_id = ''1'', pol_name = ''payments'',
     pol_trigger = \<lparr>tg_risk = ''high'', tg_capability = [], tg_max_amount = None\<rparr>, pol_steps = [demo_step]\<rparr>"

definition gate_demo_env :: gate_env where
  "gate_demo_env = \<lparr>ge_sha = (\<lambda>v. ''h''), ge_float = (\<lambda>r. []), ge_freed = (\<lambda>f t s. False), ge_message = (\<lambda>st i p. ''?''),
     ge_context = (\<lambda>t d. ''pay''), ge_order = (\<lambda>ts. ts), ge_risk_order = [(''low'', 0), (''medium'', 1), (''high'', 2)]\<rparr>"

definition demo_db :: "((string \<times> string) list \<times> approval_policy list) option" where
  "demo_db = Some ([(''pay'', ''high'')], [demo_policy])"

definition demo_plan :: "string \<times> json" where
  "demo_plan = (''_execution_graph'', JDict [(''nodes'', JDict [(''n1'', JDict [(''tool_name'', JStr ''pay'')])])])"

lemma demo_gate:
  "dict_get s ''_execution_graph'' JNull = snd demo_plan \<Longrightarrow> gate_policy gate_demo_env demo_db s = Some demo_policy"
  by (simp add: gate_policy_def state_flag_def planned_tools_def planned_nodes_def demo_plan_def get_in_def
      dict_or_empty_def node_tool_name_def gate_demo_env_def demo_db_def resolve_policy_def max_risk_level_def
      risk_rank_def best_step_def policy_score_def demo_policy_def dict_get_def)

definition demo_state :: agent_state where
  "demo_state = [demo_plan, (''_approval_granted'', JBool False), (''_approval_decision'', JStr ''approved''),
        (''_approval_chain_state'', JDict [(''step_a_hash'', JStr ''h'')]),
        (''_approval_pending'', JDict [(''operation_hash'', JStr ''h'')])]"

lemma demo_state_facts:
  "gate_policy gate_demo_env demo_db demo_state = Some demo_policy"
  "chain_of demo_state = [(''step_a_hash'', JStr ''h'')]" "steps_done demo_state = 0"
  "pending_of demo_state = JDict [(''operation_hash'', JStr ''h'')]"
  "dict_get demo_state ''_approval_decision'' JNull = JStr ''approved''"
  "dict_get demo_state ''_approval_granted'' (JBool True) = JBool False"
  by (rule demo_gate)
    (simp_all add: demo_state_def demo_plan_def chain_of_def steps_done_def pending_of_def dict_get_def dict_or_empty_def
      list_or_empty_def)

lemma demo_bound: "step_bound demo_state demo_step"
  by (simp add: step_bound_def demo_state_facts)
    (simp add: demo_step_def step_name_def approval_binding_ok_def dict_get_def get_in_def)

theorem gate_requires_approval_witness:
  "gate_policy gate_demo_env demo_db demo_state = Some demo_policy \<and> length (pol_steps demo_policy) = Suc (steps_done demo_state)
   \<and> approval_binding_ok (chain_of demo_state) (pending_of demo_state) (step_name 0 demo_step)"
proof -
  have lt: "steps_done demo_state < length (pol_steps demo_policy)" by (simp add: demo_state_facts demo_policy_def)
  have "route_after_approval (dict_merge demo_state (multi_approval_gate_node gate_demo_env demo_db 5 demo_state)) = ExecutorNode"
    unfolding gate_cases demo_state_facts(1) option.case route_after_gate [OF chain_distinct] chain_granted [OF lt]
    using chain_decision [of gate_demo_env 5 demo_state demo_policy "ge_order gate_demo_env (planned_tools demo_state)"
        "foldl (add_details (ge_float gate_demo_env)) [] (planned_nodes demo_state)"] demo_bound
    by (auto simp: demo_state_facts demo_policy_def)
  from gate_requires_approval [OF demo_state_facts(6) this] show ?thesis
    by (simp add: demo_state_facts) (simp add: demo_policy_def)
qed

text \<open>
  A failure of the database opens the gate: with the policies unreadable, every plan that has not
  been rejected goes to the executor.
\<close>

theorem gate_fails_open:
  "dict_get s ''_approval_decision'' JNull \<noteq> JStr ''rejected'' \<Longrightarrow>
   route_after_approval (dict_merge s (multi_approval_gate_node env None now s)) = ExecutorNode"
proof -
  assume "dict_get s ''_approval_decision'' JNull \<noteq> JStr ''rejected''"
  moreover have "multi_approval_gate_node env None now s = [(''_approval_granted'', JBool True)]"
    by (simp add: gate_cases gate_policy_def resolve_policy_def)
  ultimately show ?thesis using route_after_gate [OF gate_distinct [of env None now s], of s] by simp
qed

theorem gate_fails_open_witness:
  "route_after_approval (dict_merge [demo_plan] (multi_approval_gate_node gate_demo_env None 5 [demo_plan])) = ExecutorNode"
  by (rule gate_fails_open) (simp add: dict_get_def demo_plan_def)

text \<open>
  C20: An approval given in the conversation is never honoured: the resume node clears the pending
  operation, so the gate that runs next finds no hash to compare with, takes the approval for one
  of another operation and sends the turn to the response.
\<close>

theorem approval_never_honoured:
  assumes "approval_resume_node fs pf expiry now stamp msg Approve s = Some u" and "distinct (map fst s)"
    and "truthy (dict_get s ''_approval_pending'' JNull)" and "msg \<noteq> []"
    and "\<not> approval_expired expiry now (dict_get s ''_approval_pending'' JNull)"
    and "gate_policy env db (dict_merge s u) = Some pol" and "steps_done (dict_merge s u) < length (pol_steps pol)"
  shows "route_after_approval (dict_merge (dict_merge s u) (multi_approval_gate_node env db now' (dict_merge s u))) = ResponseNode"
proof -
  note st = approve_state [OF assms(1-5)]
  have "\<not> step_bound (dict_merge s u) x" for x
    by (simp add: step_bound_def pending_of_def st(2) unbound_without_pending)
  then show ?thesis
    unfolding gate_cases assms(6) option.case route_after_gate [OF chain_distinct] chain_granted [OF assms(7)]
    by (simp add: st(1))
qed

definition waiting_state :: agent_state where
  "waiting_state = [demo_plan, (''_approval_granted'', JBool False),
     (''_approval_pending'', JDict [(''step'', JStr ''a''), (''operation_hash'', JStr ''h''), (''requested_at'', JInt 1)])]"

lemma waiting_facts:
  "distinct (map fst waiting_state)" "truthy (dict_get waiting_state ''_approval_pending'' JNull)"
  "\<not> approval_expired (Some 60) 10 (dict_get waiting_state ''_approval_pending'' JNull)"
  "map_of waiting_state ''_execution_graph'' = Some (snd demo_plan)"
  "resume_updates fs (Some 60) 10 ''yes'' Approve waiting_state = decided ''approved'' ''resume'' @
     [(''_route_to_gate'', JBool True), (''_approval_chain_state'',
        JDict [(''step_a_decision'', JStr ''approved''), (''step_a_hash'', JStr ''h'')])]"
  by (simp_all add: waiting_state_def demo_plan_def dict_get_def approval_expired_def get_in_def resume_updates_def
      str_or_empty_def py_str_def dict_or_empty_def Let_def)

lemma waiting_resumes: "\<exists>u. approval_resume_node (\<lambda>r. []) (\<lambda>t. None) (Some 60) 10 ''0'' ''yes'' Approve waiting_state = Some u"
proof -
  have c: "from_state ''0'' waiting_state = Some (empty_context\<lparr>cx_version := 1, cx_parent := 0,
      cx_snapshot := filter (\<lambda>p. keep_field (fst p)) waiting_state, cx_created := ''0''\<rparr>)"
    by (simp add: from_state_def waiting_state_def demo_plan_def dict_get_def int_field_def str_of_def str_list_def empty_context_def)
  show ?thesis
    unfolding approval_resume_node_def context_node_def c option.case Let_def record_node_def
    by (simp add: resume_reads waiting_facts(5))
      (simp add: waiting_state_def demo_plan_def decided_def is_global_or_session_key_def reserved_keys_def
        apply_patch_def patched_snapshot_def remove_keys_def dict_merge_def dict_get_def float_or_zero_def
        int_or_zero_def static_strip_fields_def Let_def empty_context_def)
qed

theorem approval_never_honoured_witness:
  "\<exists>s'. dict_get s' ''_approval_decision'' JNull = JStr ''approved'' \<and> gate_policy gate_demo_env demo_db s' = Some demo_policy
     \<and> route_after_approval (dict_merge s' (multi_approval_gate_node gate_demo_env demo_db 11 s')) = ResponseNode"
proof -
  obtain u where u: "approval_resume_node (\<lambda>r. []) (\<lambda>t. None) (Some 60) 10 ''0'' ''yes'' Approve waiting_state = Some u"
    using waiting_resumes by auto
  let ?s = "dict_merge waiting_state u"
  note look = resume_state [OF u waiting_facts(1)]
  have pol: "gate_policy gate_demo_env demo_db ?s = Some demo_policy"
    by (rule demo_gate) (simp add: dict_get_def [of ?s] look canonical_keys_def waiting_facts decided_def)
  have "steps_done ?s = 0"
    by (simp add: steps_done_def chain_of_def dict_get_def [of ?s] look canonical_keys_def waiting_facts decided_def)
      (simp add: dict_or_empty_def dict_get_def list_or_empty_def)
  then have lt: "steps_done ?s < length (pol_steps demo_policy)" by (simp add: demo_policy_def)
  from approval_never_honoured [OF u waiting_facts(1,2) _ waiting_facts(3) pol lt] pol
    approve_state(1) [OF u waiting_facts(1,2) _ waiting_facts(3)] show ?thesis by auto
qed

text \<open>
  C21: A request for approval does not withdraw a grant: when the gate has let an earlier plan of the
  same turn pass (a plan before a replan, or an earlier workflow step), a later plan for which it
  only now asks for approval is executed at once.
\<close>

theorem request_after_grant_executes:
  assumes "dict_get s ''_approval_granted'' (JBool True) \<noteq> JBool False"
    and "dict_get s ''_approval_decision'' JNull = JNull"
    and "gate_policy env db s = Some pol" and "steps_done s < length (pol_steps pol)"
    and "step_decision s (pol_steps pol ! steps_done s) = JNull"
  shows "route_after_approval (dict_merge s (multi_approval_gate_node env db now s)) = ExecutorNode"
  unfolding gate_cases assms(3) option.case route_after_gate [OF chain_distinct] chain_granted [OF assms(4)]
  using assms(1,2,4,5) by (auto simp: chain_decision)

definition granted_state :: agent_state where
  "granted_state = [demo_plan, (''_approval_granted'', JBool True)]"

theorem request_after_grant_executes_witness:
  "gate_policy gate_demo_env demo_db granted_state = Some demo_policy
   \<and> route_after_approval (dict_merge granted_state (multi_approval_gate_node gate_demo_env demo_db 5 granted_state)) = ExecutorNode"
proof -
  have pol: "gate_policy gate_demo_env demo_db granted_state = Some demo_policy"
    by (rule demo_gate) (simp add: granted_state_def dict_get_def demo_plan_def)
  have st: "chain_of granted_state = []" "steps_done granted_state = 0"
    by (simp_all add: granted_state_def demo_plan_def chain_of_def steps_done_def dict_get_def dict_or_empty_def list_or_empty_def)
  have "route_after_approval (dict_merge granted_state (multi_approval_gate_node gate_demo_env demo_db 5 granted_state)) = ExecutorNode"
    by (rule request_after_grant_executes [OF _ _ pol])
      (simp_all add: st step_decision_def dict_get_def, simp_all add: granted_state_def demo_plan_def demo_policy_def)
  with pol show ?thesis by simp
qed

section \<open>Properties: replies and policies\<close>

text \<open>
  An expired approval is never honoured, whatever the reply says: the turn goes to the response,
  unless a routing flag of an earlier reply is still set.
\<close>

theorem expired_reply_not_honoured:
  assumes "approval_resume_node fs pf expiry now stamp msg reply s = Some u" and "distinct (map fst s)"
    and "approval_expired expiry now (dict_get s ''_approval_pending'' JNull)" and "msg \<noteq> []"
    and "\<not> state_flag s ''_route_to_gate''" and "\<not> state_flag s ''_route_to_planner''"
  shows "route_after_checkpoint (dict_merge s u) = ResponseNode"
proof -
  have "truthy (dict_get s ''_approval_pending'' JNull)"
    using assms(3) by (cases "dict_get s ''_approval_pending'' JNull") (auto simp: approval_expired_def get_in_def dict_get_def)
  with assms(3,4) have us: "resume_updates fs expiry now msg reply s =
      [(''_approval_pending'', JNull), (''_approval_checkpoint_context'', JNull), (''_approval_modification'', JNull),
       (''_needs_approval'', JBool False), (''_routing_decision'', JStr ''finalize''),
       (''final_response'', JStr ''expired''), (''response_type'', JStr ''cancellation'')]"
    by (simp add: resume_updates_def)
  note look = resume_state [OF assms(1,2)]
  show ?thesis
    using assms(5,6)
    by (simp add: route_after_checkpoint_def state_flag_def dict_get_def [of "dict_merge s u"] look us canonical_keys_def)
      (simp add: dict_get_def)
qed

lemma expired_state_facts:
  "resume_updates fs (Some 60) 100 ''yes'' Approve waiting_state =
      [(''_approval_pending'', JNull), (''_approval_checkpoint_context'', JNull), (''_approval_modification'', JNull),
       (''_needs_approval'', JBool False), (''_routing_decision'', JStr ''finalize''),
       (''final_response'', JStr ''expired''), (''response_type'', JStr ''cancellation'')]"
  "approval_expired (Some 60) 100 (dict_get waiting_state ''_approval_pending'' JNull)"
  by (simp_all add: waiting_state_def demo_plan_def dict_get_def approval_expired_def get_in_def resume_updates_def)

theorem expired_reply_not_honoured_witness:
  "\<exists>u. approval_resume_node (\<lambda>r. []) (\<lambda>t. None) (Some 60) 100 ''0'' ''yes'' Approve waiting_state = Some u
     \<and> route_after_checkpoint (dict_merge waiting_state u) = ResponseNode"
proof -
  have c: "from_state ''0'' waiting_state = Some (empty_context\<lparr>cx_version := 1, cx_parent := 0,
      cx_snapshot := filter (\<lambda>p. keep_field (fst p)) waiting_state, cx_created := ''0''\<rparr>)"
    by (simp add: from_state_def waiting_state_def demo_plan_def dict_get_def int_field_def str_of_def str_list_def empty_context_def)
  have "\<exists>u. approval_resume_node (\<lambda>r. []) (\<lambda>t. None) (Some 60) 100 ''0'' ''yes'' Approve waiting_state = Some u"
    unfolding approval_resume_node_def context_node_def c option.case Let_def record_node_def
    by (simp add: resume_reads expired_state_facts)
      (simp add: waiting_state_def demo_plan_def is_global_or_session_key_def reserved_keys_def
        apply_patch_def patched_snapshot_def remove_keys_def dict_merge_def dict_get_def float_or_zero_def
        int_or_zero_def static_strip_fields_def Let_def empty_context_def)
  then obtain u where u: "approval_resume_node (\<lambda>r. []) (\<lambda>t. None) (Some 60) 100 ''0'' ''yes'' Approve waiting_state = Some u" ..
  from expired_reply_not_honoured [OF u waiting_facts(1) expired_state_facts(2)] have
    "route_after_checkpoint (dict_merge waiting_state u) = ResponseNode"
    by (simp add: waiting_state_def demo_plan_def state_flag_def dict_get_def)
  with u show ?thesis by blast
qed

text \<open>
  The flag \<open>_route_to_gate\<close> that an approval sets is reset by no node: as long as it is in the
  state, every later reply (a rejection, a modification, an expired one) is routed to the gate.
\<close>

theorem stale_gate_flag_captures_replies:
  assumes "approval_resume_node fs pf expiry now stamp msg reply s = Some u" and "distinct (map fst s)"
    and "state_flag s ''_route_to_gate''"
  shows "route_after_checkpoint (dict_merge s u) = ApprovalGateNode"
proof -
  have "map_of (resume_updates fs expiry now msg reply s) ''_route_to_gate'' \<in> {None, Some (JBool True)}"
    by (cases reply) (auto simp: resume_updates_def decided_def Let_def)
  moreover have "map_of (dict_merge s u) ''_route_to_gate''
      = (case map_of (resume_updates fs expiry now msg reply s) ''_route_to_gate'' of Some v \<Rightarrow> Some v | None \<Rightarrow> map_of s ''_route_to_gate'')"
    by (rule resume_state [OF assms(1,2)]) (simp add: canonical_keys_def)
  ultimately have "state_flag (dict_merge s u) ''_route_to_gate''"
    using assms(3) by (auto simp: state_flag_def dict_get_def)
  then show ?thesis by (simp add: route_after_checkpoint_def)
qed

theorem stale_gate_flag_captures_replies_witness:
  "\<exists>u. approval_resume_node (\<lambda>r. []) (\<lambda>t. None) None 0 ''0'' ''no'' Reject [(''_route_to_gate'', JBool True)] = Some u
     \<and> route_after_checkpoint (dict_merge [(''_route_to_gate'', JBool True)] u) = ApprovalGateNode"
proof -
  let ?s = "[(''_route_to_gate'', JBool True)]"
  have c: "from_state ''0'' ?s = Some (empty_context\<lparr>cx_version := 1, cx_parent := 0,
      cx_snapshot := filter (\<lambda>p. keep_field (fst p)) ?s, cx_created := ''0''\<rparr>)"
    by (simp add: from_state_def dict_get_def int_field_def str_of_def str_list_def empty_context_def)
  have "\<exists>u. approval_resume_node (\<lambda>r. []) (\<lambda>t. None) None 0 ''0'' ''no'' Reject ?s = Some u"
    unfolding approval_resume_node_def context_node_def c option.case Let_def record_node_def
    by (simp add: resume_reads resume_updates_def apply_patch_def patched_snapshot_def remove_keys_def dict_merge_def
        dict_get_def float_or_zero_def int_or_zero_def Let_def empty_context_def keep_field_def static_strip_fields_def
        starts_with_def)
  then obtain u where u: "approval_resume_node (\<lambda>r. []) (\<lambda>t. None) None 0 ''0'' ''no'' Reject ?s = Some u" ..
  from stale_gate_flag_captures_replies [OF u] u show ?thesis by (simp add: state_flag_def dict_get_def)
qed

lemma best_fold:
  fixes sc :: "approval_policy \<Rightarrow> nat option"
  assumes "sc = policy_score mr tools"
  shows "case foldl (best_step mr tools) (0, None) pols of (n, o') \<Rightarrow> (case o' of
      None \<Rightarrow> n = 0 \<and> list_all (\<lambda>p. sc p = None \<or> sc p = Some 0) pols
    | Some pol \<Rightarrow> \<exists>as bs. pols = as @ pol # bs \<and> sc pol = Some n \<and> 0 < n
        \<and> list_all (\<lambda>p. case sc p of None \<Rightarrow> True | Some x \<Rightarrow> x < n) as
        \<and> list_all (\<lambda>p. case sc p of None \<Rightarrow> True | Some x \<Rightarrow> x \<le> n) bs)"
proof (induction pols rule: rev_induct)
  case (snoc p pols)
  obtain n o' where r: "foldl (best_step mr tools) (0, None) pols = (n, o')" by fastforce
  show ?case
  proof (cases "\<exists>x. sc p = Some x \<and> n < x")
    case True
    then obtain x where x: "sc p = Some x" "n < x" by blast
    have "list_all (\<lambda>p. case sc p of None \<Rightarrow> True | Some y \<Rightarrow> y < x) pols"
      using snoc r x by (fastforce simp: list_all_iff split: option.splits)
    moreover have "foldl (best_step mr tools) (0, None) (pols @ [p]) = (x, Some p)"
      using x r assms by (simp add: best_step_def)
    ultimately show ?thesis using x
      by (simp only: prod.case option.case) (rule exI [of _ pols], rule exI [of _ "[]"], simp)
  next
    case False
    then have same: "foldl (best_step mr tools) (0, None) (pols @ [p]) = (n, o')"
      using r assms by (cases "sc p") (auto simp add: best_step_def [of mr tools "(n, o')"])
    have p: "case sc p of None \<Rightarrow> True | Some x \<Rightarrow> x \<le> n" using False by (auto split: option.split)
    show ?thesis
    proof (cases o')
      case None
      with p same snoc r show ?thesis by (auto split: option.splits)
    next
      case (Some pol)
      with snoc r obtain as bs where d: "pols = as @ pol # bs" "sc pol = Some n" "0 < n"
        "list_all (\<lambda>p. case sc p of None \<Rightarrow> True | Some x \<Rightarrow> x < n) as"
        "list_all (\<lambda>p. case sc p of None \<Rightarrow> True | Some x \<Rightarrow> x \<le> n) bs" by auto
      from d(1) have "pols @ [p] = as @ pol # (bs @ [p])" by simp
      with d(2-5) p same Some show ?thesis by (intro case_prodI2) fastforce
    qed
  qed
qed simp

text \<open>
  The gate applies the policy with the highest score, the one of highest priority among equals;
  it applies none exactly when every enabled policy fails a condition or has none.
\<close>

theorem policy_choice:
  "case resolve_policy ro (Some (risks, pols)) tools of
      None \<Rightarrow> list_all (\<lambda>p. policy_score (max_risk_level ro risks tools) tools p \<in> {None, Some 0}) pols
    | Some pol \<Rightarrow> \<exists>as bs n. pols = as @ pol # bs \<and> policy_score (max_risk_level ro risks tools) tools pol = Some n \<and> 0 < n
        \<and> list_all (\<lambda>p. case policy_score (max_risk_level ro risks tools) tools p of None \<Rightarrow> True | Some x \<Rightarrow> x < n) as
        \<and> list_all (\<lambda>p. case policy_score (max_risk_level ro risks tools) tools p of None \<Rightarrow> True | Some x \<Rightarrow> x \<le> n) bs"
  using best_fold [OF refl, of "max_risk_level ro risks tools" tools pols]
  by (auto simp: resolve_policy_def list_all_iff split: option.splits prod.splits)

text \<open>
  A policy meant for every plan (no condition, or the wildcard as its capability) is never
  applied: its score is zero, and only positive scores are chosen.
\<close>

theorem wildcard_policy_never_applies:
  assumes "resolve_policy ro (Some (risks, pols)) tools = Some pol"
  shows "\<not> (tg_risk (pol_trigger pol) = [] \<and> tg_capability (pol_trigger pol) \<in> {[], ''*''} \<and> tg_max_amount (pol_trigger pol) = None)"
proof
  assume w: "tg_risk (pol_trigger pol) = [] \<and> tg_capability (pol_trigger pol) \<in> {[], ''*''} \<and> tg_max_amount (pol_trigger pol) = None"
  obtain n where "policy_score (max_risk_level ro risks tools) tools pol = Some n" "0 < n"
    using best_fold [OF refl, of "max_risk_level ro risks tools" tools pols] assms
    by (auto simp: resolve_policy_def split: option.splits prod.splits)
  with w show False by (auto simp: policy_score_def Let_def)
qed

theorem wildcard_policy_never_applies_witness:
  "resolve_policy [(''high'', 2)] (Some ([(''pay'', ''high'')], [demo_policy])) [''pay''] = Some demo_policy
   \<and> tg_risk (pol_trigger demo_policy) \<noteq> []"
proof -
  have r: "resolve_policy [(''high'', 2)] (Some ([(''pay'', ''high'')], [demo_policy])) [''pay''] = Some demo_policy"
    by (simp add: resolve_policy_def max_risk_level_def risk_rank_def best_step_def policy_score_def demo_policy_def dict_get_def)
  from wildcard_policy_never_applies [OF r] r show ?thesis by (simp add: demo_policy_def)
qed

end
