(* ===== verification/Executor_Node.thy ===== *)
theory Executor_Node
  imports Executor Routing Codegen
begin

text \<open>
  \<open>executor_node\<close> of \<open>agent/graph.py\<close> and its helpers: which graph is executed, the fan-out
  of map nodes over a collection, the schedule of a graph without waves, the tasks and the tool
  table handed to the \<open>ConcurrentExecutor\<close> (theory \<open>Executor\<close>), and what its results
  become in the state.  The graph is the dumped \<open>ExecutionGraph\<close>, a JSON value; \<open>fs\<close> is
  Python's text of a float; the registry rows and providers are parameters.
\<close>

section \<open>Item substitution\<close>

fun walk_item :: "string list \<Rightarrow> json \<Rightarrow> json option" where
  "walk_item [] v = Some v"
| "walk_item (p # ps) v = (case v of JDict d \<Rightarrow> (case map_of d p of Some w \<Rightarrow> walk_item ps w | None \<Rightarrow> None) | _ \<Rightarrow> None)"

text \<open>
  \<open>^\$\{item\.(.+)\}$\<close> (the dot excludes a newline, \<open>$\<close> accepts one at the end): the path.
\<close>

definition whole_item_path :: "string \<Rightarrow> string option" where
  "whole_item_path s = (let b = (if ends_with [CHR 0x0A] s then butlast s else s); path = drop 7 (butlast b) in
     if starts_with ''${item.'' b \<and> ends_with ''}'' b \<and> 8 < length b \<and> CHR 0x0A \<notin> set path then Some path else None)"

definition path_char :: "char \<Rightarrow> bool" where
  "path_char c \<longleftrightarrow> is_word c \<or> c = CHR ''.''"

text \<open>\<open>re.sub\<close> with \<open>\$\{item\.([a-zA-Z0-9_.]+)\}\<close>; the counter skips the matched text.\<close>

definition item_match :: "string \<Rightarrow> string option" where
  "item_match s = (let path = takeWhile path_char (drop 7 s) in
     if starts_with ''${item.'' s \<and> path \<noteq> [] \<and> starts_with ''}'' (dropWhile path_char (drop 7 s)) then Some path else None)"

definition inline_text :: "(rat \<Rightarrow> string) \<Rightarrow> json \<Rightarrow> string \<Rightarrow> string" where
  "inline_text fs item path = (case walk_item (py_split (CHR ''.'') path) item of
     Some v \<Rightarrow> if v = JNull then ''${item.'' @ path @ ''}'' else py_str fs v
   | None \<Rightarrow> ''${item.'' @ path @ ''}'')"

fun sub_inline :: "(rat \<Rightarrow> string) \<Rightarrow> json \<Rightarrow> nat \<Rightarrow> string \<Rightarrow> string" where
  "sub_inline fs item k [] = []"
| "sub_inline fs item (Suc k) (c # cs) = sub_inline fs item k cs"
| "sub_inline fs item 0 (c # cs) = (case item_match (c # cs) of
     Some path \<Rightarrow> inline_text fs item path @ sub_inline fs item (length path + 7) cs
   | None \<Rightarrow> c # sub_inline fs item 0 cs)"

definition substitute_string :: "(rat \<Rightarrow> string) \<Rightarrow> json \<Rightarrow> string \<Rightarrow> json" where
  "substitute_string fs item s = (if \<not> contains_str ''${item'' s then JStr s
     else if s = ''${item}'' then item
     else case whole_item_path s of
       Some path \<Rightarrow> (case walk_item (py_split (CHR ''.'') path) item of Some v \<Rightarrow> v | None \<Rightarrow> JStr s)
     | None \<Rightarrow> JStr (sub_inline fs item 0 s))"

function substitute_item :: "(rat \<Rightarrow> string) \<Rightarrow> json \<Rightarrow> json \<Rightarrow> json" where
  "substitute_item fs item (JDict d) = JDict (map (\<lambda>p. (fst p, substitute_item fs item (snd p))) d)"
| "substitute_item fs item (JList xs) = JList (map (substitute_item fs item) xs)"
| "substitute_item fs item (JStr s) = substitute_string fs item s"
| "substitute_item fs item JNull = JNull"
| "substitute_item fs item (JBool b) = JBool b"
| "substitute_item fs item (JInt i) = JInt i"
| "substitute_item fs item (JFloat r) = JFloat r"
  by pat_completeness auto
termination
  by (relation "measure (\<lambda>(fs, item, v). size v)") (auto simp: size_mem_list dest: size_mem_dict)

definition expand_map_inputs :: "(rat \<Rightarrow> string) \<Rightarrow> json dict \<Rightarrow> json \<Rightarrow> json dict" where
  "expand_map_inputs fs ins item = map (\<lambda>p. (fst p, substitute_item fs item (snd p))) ins"

section \<open>Waves of a patched graph\<close>

text \<open>\<open>deps.difference_update(done)\<close> for the nodes that remain.\<close>

definition discharge :: "string list \<Rightarrow> (string \<times> string list) list \<Rightarrow> (string \<times> string list) list" where
  "discharge ids rem = map (\<lambda>p. (fst p, filter (\<lambda>d. d \<notin> set ids) (snd p))) (filter (\<lambda>p. fst p \<notin> set ids) rem)"

definition ready_nodes :: "(string \<times> string list) list \<Rightarrow> string list" where
  "ready_nodes rem = map fst (filter (\<lambda>p. snd p = []) rem)"

definition next_wave :: "(string \<times> string list) list \<Rightarrow> string list" where
  "next_wave rem = (if ready_nodes rem = [] then [Min (set (map fst rem))] else sort (ready_nodes rem))"

lemma discharge_shrinks:
  "rem \<noteq> [] \<Longrightarrow> length (discharge (next_wave rem) rem) < length rem"
proof -
  assume ne: "rem \<noteq> []"
  have "\<exists>p \<in> set rem. fst p \<in> set (next_wave rem)"
  proof (cases "ready_nodes rem = []")
    case True
    have "Min (set (map fst rem)) \<in> set (map fst rem)" using ne by (intro Min_in) auto
    with True show ?thesis by (auto simp: next_wave_def) (metis fst_conv)
  next
    case False
    then obtain p where "p \<in> set rem" "snd p = []" by (auto simp: ready_nodes_def filter_empty_conv)
    then have "fst p \<in> set (ready_nodes rem)" by (auto simp: ready_nodes_def)
    with False \<open>p \<in> set rem\<close> show ?thesis by (auto simp: next_wave_def)
  qed
  then show ?thesis by (auto simp: discharge_def intro: length_filter_less)
qed

function wave_loop :: "(string \<times> string list) list \<Rightarrow> string list list" where
  "wave_loop rem = (if rem = [] then [] else next_wave rem # wave_loop (discharge (next_wave rem) rem))"
  by pat_completeness auto
termination by (relation "measure length") (simp_all add: discharge_shrinks)

declare wave_loop.simps [simp del]

definition dep_list :: "json \<Rightarrow> string list" where
  "dep_list n = (case get_in n ''depends_on'' JNull of JList xs \<Rightarrow> concat (map (\<lambda>x. case x of JStr t \<Rightarrow> [t] | _ \<Rightarrow> []) xs) | _ \<Rightarrow> [])"

definition rebuild_graph_waves :: "json dict \<Rightarrow> string list list" where
  "rebuild_graph_waves nodes = wave_loop (map (\<lambda>p. (fst p, filter (dict_has nodes) (dep_list (snd p)))) nodes)"

section \<open>Tasks\<close>

definition get_str :: "json \<Rightarrow> string \<Rightarrow> string \<Rightarrow> string" where
  "get_str n k d = (case get_in n k (JStr d) of JStr t \<Rightarrow> t | _ \<Rightarrow> [])"

definition get_dict :: "json \<Rightarrow> string \<Rightarrow> json dict" where
  "get_dict n k = (case get_in n k (JDict []) of JDict d \<Rightarrow> d | _ \<Rightarrow> [])"

definition get_list :: "json \<Rightarrow> string \<Rightarrow> json list" where
  "get_list n k = (case get_in n k (JList []) of JList xs \<Rightarrow> xs | _ \<Rightarrow> [])"

definition get_strs :: "json \<Rightarrow> string \<Rightarrow> string list" where
  "get_strs n k = concat (map (\<lambda>x. case x of JStr t \<Rightarrow> [t] | _ \<Rightarrow> []) (get_list n k))"

definition dict_items :: "json list \<Rightarrow> json dict list" where
  "dict_items xs = concat (map (\<lambda>x. case x of JDict d \<Rightarrow> [d] | _ \<Rightarrow> []) xs)"

text \<open>
  The \<open>ExecutionTask\<close> of a call: the call's own fields come from \<open>b\<close> (the node, or the body of
  a map node), the dependencies from the node.  Two retries are the default of the class.
\<close>

definition call_task :: "string \<Rightarrow> json \<Rightarrow> json dict \<Rightarrow> string list \<Rightarrow> exec_task" where
  "call_task tid b ins deps = \<lparr>et_id = tid, et_tool = get_str b ''tool_name'' (get_str b ''capability'' ''unknown''),
     et_inputs = ins, et_deps = deps, et_max_retries = 2, et_url = get_str b ''endpoint_url'' [],
     et_method = get_str b ''http_method'' ''GET'', et_candidates = dict_items (get_list b ''candidate_endpoints''),
     et_kind = ''tool'', et_condition = [], et_true = [], et_false = []\<rparr>"

definition gate_task :: "string \<Rightarrow> json \<Rightarrow> exec_task" where
  "gate_task tid n = \<lparr>et_id = tid, et_tool = ''__conditional__'', et_inputs = [], et_deps = dep_list n, et_max_retries = 2,
     et_url = [], et_method = ''GET'', et_candidates = [], et_kind = ''conditional'', et_condition = get_str n ''condition'' [],
     et_true = get_strs n ''branch_true'', et_false = get_strs n ''branch_false''\<rparr>"

record fan_state =
  fs_tasks :: "(string \<times> exec_task) list"
  fs_refs :: "(string \<times> string) list"
  fs_fan :: "(string \<times> string list) list"

definition item_id :: "string \<Rightarrow> nat \<Rightarrow> string" where
  "item_id nid i = nid @ ''_item_'' @ nat_str i"

definition add_item ::
  "(rat \<Rightarrow> string) \<Rightarrow> string \<Rightarrow> json \<Rightarrow> json \<Rightarrow> fan_state \<Rightarrow> nat \<times> json \<Rightarrow> fan_state" where
  "add_item fs nid n bd st p = (let tid = item_id nid (fst p) in
     st\<lparr>fs_tasks := AList.update tid (call_task tid bd (expand_map_inputs fs (get_dict bd ''inputs'') (snd p)) (dep_list n)) (fs_tasks st),
        fs_refs := AList.update tid tid (fs_refs st)\<rparr>)"

definition set_ref :: "string \<Rightarrow> string \<Rightarrow> fan_state \<Rightarrow> fan_state" where
  "set_ref r v st = (if r = [] then st else st\<lparr>fs_refs := AList.update r v (fs_refs st)\<rparr>)"

text \<open>
  The items a map node ranges over: a text is enumerated by character and a dictionary by key.
  Collections are typed as lists, and a number, which could not be enumerated, counts as empty.
\<close>

definition items_of :: "json dict \<Rightarrow> json \<Rightarrow> json list" where
  "items_of coll n = (case dict_get coll (get_str n ''iterate_over'' []) (JList []) of
     JList xs \<Rightarrow> xs | JStr t \<Rightarrow> map (\<lambda>c. JStr [c]) t | JDict d \<Rightarrow> map (\<lambda>p. JStr (fst p)) d | _ \<Rightarrow> [])"

definition expand_node ::
  "(rat \<Rightarrow> string) \<Rightarrow> json dict \<Rightarrow> fan_state \<Rightarrow> string \<times> json \<Rightarrow> fan_state" where
  "expand_node fs collections st p = (let nid = fst p; n = snd p; kind = get_str n ''kind'' [] in
     if kind = ''map'' then
       (let bd = get_in n ''body'' (JDict []);
            r = py_replace ''_map'' [] 0 (get_str n ''symbolic_ref'' []);
            st1 = set_ref r nid st;
            items = items_of collections n in
        if items \<noteq> [] then
          (let ids = map (item_id nid) [0..<length items];
               st2 = foldl (add_item fs nid n bd) st1 (enumerate 0 items) in
           (set_ref r (py_join '','' ids) st2)\<lparr>fs_fan := AList.update nid ids (fs_fan st2)\<rparr>)
        else st1\<lparr>fs_tasks := AList.update nid (call_task nid bd (get_dict bd ''inputs'') (dep_list n)) (fs_tasks st1)\<rparr>)
     else if kind = ''tool'' then
       (let st1 = set_ref (get_str n ''symbolic_ref'' []) nid st in
        st1\<lparr>fs_tasks := AList.update nid (call_task nid n (get_dict n ''inputs'') (dep_list n)) (fs_tasks st1)\<rparr>)
     else if kind = ''conditional'' then st\<lparr>fs_tasks := AList.update nid (gate_task nid n) (fs_tasks st)\<rparr>
     else st)"

definition expand_nodes :: "(rat \<Rightarrow> string) \<Rightarrow> json dict \<Rightarrow> json dict \<Rightarrow> fan_state" where
  "expand_nodes fs collections nodes =
     foldl (expand_node fs collections) \<lparr>fs_tasks = [], fs_refs = [], fs_fan = []\<rparr> nodes"

definition expand_wave :: "fan_state \<Rightarrow> string list \<Rightarrow> string list" where
  "expand_wave st w = concat (map (\<lambda>tid. case map_of (fs_fan st) tid of Some ids \<Rightarrow> ids
     | None \<Rightarrow> if dict_has (fs_tasks st) tid then [tid] else []) w)"

definition wave_objects :: "fan_state \<Rightarrow> string list list \<Rightarrow> exec_task list list" where
  "wave_objects st waves = map (\<lambda>w. concat (map (\<lambda>tid. case map_of (fs_tasks st) tid of Some t \<Rightarrow> [t] | None \<Rightarrow> [])
     (expand_wave st w))) waves"

section \<open>The node\<close>

definition executed_graph :: "agent_state \<Rightarrow> json" where
  "executed_graph s = (let p = dict_get s ''_graph_patch'' JNull in
     if truthy p then p else dict_get s ''_execution_graph'' JNull)"

definition graph_waves :: "json \<Rightarrow> string list list" where
  "graph_waves g = (let ws = map (\<lambda>w. case w of JList xs \<Rightarrow> concat (map (\<lambda>x. case x of JStr t \<Rightarrow> [t] | _ \<Rightarrow> []) xs) | _ \<Rightarrow> [])
       (get_list g ''waves'') in
     if ws = [] then rebuild_graph_waves (get_dict g ''nodes'') else ws)"

definition state_collections :: "agent_state \<Rightarrow> json dict" where
  "state_collections s = (let c = dict_get s ''_collections'' (JDict []) in
     if truthy c then (case c of JDict d \<Rightarrow> d | _ \<Rightarrow> []) else get_dict (dict_get s ''_logical_workflow'' JNull) ''collections'')"

definition node_tool :: "json \<Rightarrow> string" where
  "node_tool n = (let t = get_str n ''tool_name'' [] in if t \<noteq> [] then t else get_str n ''capability'' [])"

text \<open>The names are a set in the program; here without repetition, in the order of the nodes.\<close>

definition required_tools :: "json dict \<Rightarrow> string list" where
  "required_tools nodes = remdups (filter (\<lambda>t. t \<noteq> []) (concat (map (\<lambda>p.
     (if node_tool (snd p) \<noteq> ''__conditional__'' then [node_tool (snd p)] else []) @
     (if get_str (snd p) ''kind'' [] = ''map'' then [node_tool (get_in (snd p) ''body'' (JDict []))] else [])) nodes)))"

definition setdefault :: "string \<Rightarrow> json \<Rightarrow> json dict \<Rightarrow> json dict" where
  "setdefault k v d = (if dict_has d k then d else d @ [(k, v)])"

text \<open>One row of \<open>tool_map\<close>: \<open>meta\<close> is the registry's row, if any.\<close>

definition tool_map_row :: "(string \<times> json dict) list \<Rightarrow> global_context \<Rightarrow> string \<Rightarrow> json dict" where
  "tool_map_row meta gc tool =
    (let base = setdefault ''http_method'' (JStr ''GET'') (setdefault ''endpoint_url'' (JStr []) (setdefault ''auth_ref'' (JStr [])
         (setdefault ''auth_type'' (JStr ''none'') (setdefault ''name'' (JStr tool) (dict_get meta tool []))))) in
     case get_capability_providers gc tool of
       [] \<Rightarrow> base
     | prov # _ \<Rightarrow> setdefault ''auth_ref'' (get_in prov ''auth_ref'' (JStr [])) (setdefault ''auth_type'' (get_in prov ''auth_type'' (JStr ''none''))
         (setdefault ''http_method'' (get_in prov ''http_method'' (JStr ''GET''))
           (setdefault ''endpoint_url'' (get_in prov ''url'' (JStr [])) base))))"

definition tool_result_row :: "(rat \<Rightarrow> string) \<Rightarrow> exec_task list \<Rightarrow> exec_result \<Rightarrow> json" where
  "tool_result_row fs tasks r = JDict
     [(''tool_name'', JStr (case find (\<lambda>t. et_id t = er_task r) tasks of Some t \<Rightarrow> et_tool t | None \<Rightarrow> [])),
      (''status'', JStr (er_status r)), (''data'', er_data r),
      (''error'', (case er_error r of None \<Rightarrow> JNull | Some e \<Rightarrow> JStr e)), (''task_id'', JStr (er_task r)),
      (''cached'', JBool (er_cached r))]"

definition missing_artifact_row :: "string list \<Rightarrow> json" where
  "missing_artifact_row tools = JDict [(''tool_name'', JStr ''artifact_registry''), (''status'', JStr ''error''), (''data'', JNull),
     (''error'', JStr (''no artifact registered for successful tool(s): '' @ list_repr (sort (remdups tools)))),
     (''task_id'', JStr ''artifact_invariant''), (''cached'', JBool False)]"

text \<open>
  What the node returns, from the state after \<open>execute_plan\<close>: durations, events and the budget
  are left out.
\<close>

definition executor_results ::
  "(rat \<Rightarrow> string) \<Rightarrow> exec_task list \<Rightarrow> plan_state \<Rightarrow> agent_state" where
  "executor_results fs tasks ps = (case ps of (w, disabled, res, acc) \<Rightarrow>
    (let rs = map snd (by_task res);
         missing = filter (\<lambda>r. er_status r = ''success'' \<and> er_task r \<notin> fst ` set (x_artifacts w)) rs;
         tool_name = (\<lambda>r. case find (\<lambda>t. et_id t = er_task r) tasks of Some t \<Rightarrow> et_tool t | None \<Rightarrow> []) in
     [(''tool_results'', JList (map (tool_result_row fs tasks) rs @
         (if missing = [] then [] else [missing_artifact_row (map tool_name missing)]))),
      (''_executor_failed'', JList (map JStr (failed res @ timed_out res))),
      (''_executor_all_success'', JBool (all_successful res)),
      (''_tool_executed_in_turn'', JBool True)]))"

definition no_graph_updates :: agent_state where
  "no_graph_updates = [(''_executor_failed'', JList []), (''_executor_all_success'', JBool False),
     (''errors'', JList [JStr ''No execution graph available''])]"

definition execute_graph ::
  "(rat \<Rightarrow> string) \<Rightarrow> exec_cfg \<Rightarrow> exec_env \<Rightarrow> agent_state \<Rightarrow> exec_world \<Rightarrow> exec_world \<times> agent_state" where
  "execute_graph fs cfg env s w = (let g = executed_graph s; nodes = get_dict g ''nodes'' in
     if nodes = [] then (w, no_graph_updates)
     else let st = expand_nodes fs (state_collections s) nodes;
              ps = execute_plan (cfg\<lparr>cfg_refs := fs_refs st\<rparr>) env (wave_objects st (graph_waves g)) w in
       (fst ps, executor_results fs (map snd (fs_tasks st)) ps))"

section \<open>Lemmas: the rebuilt waves\<close>

lemma keys_discharge: "map fst (discharge ids rem) = filter (\<lambda>k. k \<notin> set ids) (map fst rem)"
  by (induction rem) (auto simp: discharge_def)

lemma next_wave_props:
  assumes "distinct (map fst rem)" and "rem \<noteq> []"
  shows "distinct (next_wave rem)" and "set (next_wave rem) \<subseteq> set (map fst rem)"
proof -
  have "Min (set (map fst rem)) \<in> set (map fst rem)" using assms(2) by (intro Min_in) auto
  then show "set (next_wave rem) \<subseteq> set (map fst rem)" by (auto simp: next_wave_def ready_nodes_def)
  show "distinct (next_wave rem)"
    using distinct_map_fst_filter [OF assms(1)] by (simp add: next_wave_def ready_nodes_def)
qed

lemma mset_split_distinct:
  assumes "distinct ks" and "distinct w" and "set w \<subseteq> set ks"
  shows "mset w + mset (filter (\<lambda>k. k \<notin> set w) ks) = mset ks"
proof -
  have "mset (filter (\<lambda>k. k \<in> set w) ks) = mset w"
    using assms by (intro set_eq_iff_mset_eq_distinct [THEN iffD1]) auto
  then show ?thesis by (metis mset_filter multiset_partition)
qed

lemma wave_loop_perm: "distinct (map fst rem) \<Longrightarrow> mset (concat (wave_loop rem)) = mset (map fst rem)"
proof (induction rem rule: wave_loop.induct)
  case (1 rem)
  show ?case
  proof (cases "rem = []")
    case False
    have "distinct (map fst (discharge (next_wave rem) rem))" using 1(2) by (simp add: keys_discharge)
    from 1(1) [OF False this] have "mset (concat (wave_loop rem))
        = mset (next_wave rem) + mset (filter (\<lambda>k. k \<notin> set (next_wave rem)) (map fst rem))"
      using False by (simp add: wave_loop.simps [of rem] keys_discharge del: map_eq_conv)
    with mset_split_distinct [OF 1(2) next_wave_props [OF 1(2) False]] show ?thesis by simp
  qed (simp add: wave_loop.simps)
qed

lemma ready_exists:
  fixes rank :: "string \<Rightarrow> nat"
  assumes "rem \<noteq> []" and "\<forall>p \<in> set rem. \<forall>d \<in> set (snd p). d \<in> fst ` set rem \<and> rank d < rank (fst p)"
  shows "ready_nodes rem \<noteq> []"
proof -
  obtain p where p: "p \<in> set rem" "\<forall>q \<in> set rem. rank (fst p) \<le> rank (fst q)"
    using ex_has_least_nat [of "\<lambda>p. p \<in> set rem" _ "\<lambda>p. rank (fst p)"] assms(1) by (metis list.set_intros(1) neq_Nil_conv)
  have "snd p = []"
  proof (rule ccontr)
    assume "snd p \<noteq> []"
    then obtain d where "d \<in> set (snd p)" by (cases "snd p") auto
    with assms(2) p(1) obtain q where "q \<in> set rem" "rank (fst q) < rank (fst p)" by fastforce
    with p(2) show False by fastforce
  qed
  with p(1) show ?thesis by (auto simp: ready_nodes_def filter_empty_conv)
qed

lemma wave_loop_order:
  fixes rank :: "string \<Rightarrow> nat"
  assumes "\<forall>p \<in> set rem. \<forall>d \<in> set (snd p). d \<in> fst ` set rem \<and> rank d < rank (fst p)"
    and "\<forall>p \<in> set rem. set (deps (fst p)) \<subseteq> set dn \<union> set (snd p)"
  shows "waves_ok deps dn (wave_loop rem)"
  using assms
proof (induction rem arbitrary: dn rule: wave_loop.induct)
  case (1 rem)
  show ?case
  proof (cases "rem = []")
    case False
    let ?w = "next_wave rem" and ?r = "discharge (next_wave rem) rem"
    have w: "set ?w = {fst p | p. p \<in> set rem \<and> snd p = []}"
      using ready_exists [OF False 1(2)] by (auto simp: next_wave_def ready_nodes_def image_iff)
    have "list_all (\<lambda>n. list_all (\<lambda>d. d \<in> set dn) (deps n)) ?w"
      using 1(3) w by (fastforce simp: list_all_iff)
    moreover have "\<forall>p \<in> set ?r. \<forall>d \<in> set (snd p). d \<in> fst ` set ?r \<and> rank d < rank (fst p)"
    proof (intro ballI)
      fix p d
      assume "p \<in> set ?r" "d \<in> set (snd p)"
      then obtain q where "q \<in> set rem" "fst q = fst p" "d \<in> set (snd q)" "d \<notin> set ?w" by (auto simp: discharge_def)
      moreover have "fst ` set ?r = fst ` set rem - set ?w"
        using arg_cong [OF keys_discharge [of ?w rem], of set] by auto
      ultimately show "d \<in> fst ` set ?r \<and> rank d < rank (fst p)" using 1(2) by force
    qed
    moreover have "\<forall>p \<in> set ?r. set (deps (fst p)) \<subseteq> set (dn @ ?w) \<union> set (snd p)"
      using 1(3) by (fastforce simp: discharge_def)
    ultimately show ?thesis using 1(1) [OF False, of "dn @ ?w"] False by (simp add: wave_loop.simps [of rem])
  qed (simp add: wave_loop.simps)
qed

lemma rebuilt_complete:
  "distinct (map fst nodes) \<Longrightarrow> mset (concat (rebuild_graph_waves nodes)) = mset (map fst nodes)"
  using wave_loop_perm [of "map (\<lambda>p. (fst p, filter (dict_has nodes) (dep_list (snd p)))) nodes"]
  by (simp add: rebuild_graph_waves_def o_def)

section \<open>Properties: the rebuilt waves\<close>

text \<open>
  A graph that carries no waves (the retry sub-graph) is scheduled completely: every node runs
  exactly once, cyclic dependencies and dependencies outside the sub-graph included.
\<close>

theorem rebuilt_waves_complete:
  "distinct (map fst nodes) \<Longrightarrow> mset (concat (rebuild_graph_waves nodes)) = mset (map fst nodes)"
  by (rule rebuilt_complete)

theorem rebuilt_waves_complete_witness:
  "mset (concat (rebuild_graph_waves [(''a'', JDict [(''depends_on'', JList [JStr ''b''])]), (''b'', JDict [(''depends_on'', JList [JStr ''a''])])]))
    = {#''a'', ''b''#}"
  by (subst rebuilt_waves_complete) simp_all

text \<open>
  C16: When its dependencies are acyclic, each node runs in a later wave than all dependencies that
  the sub-graph contains.
\<close>

theorem rebuilt_waves_ordered:
  fixes rank :: "string \<Rightarrow> nat"
  assumes "\<forall>p \<in> set nodes. \<forall>d \<in> set (dep_list (snd p)). dict_has nodes d \<longrightarrow> rank d < rank (fst p)"
    and "distinct (map fst nodes)"
  shows "waves_ok (\<lambda>n. filter (dict_has nodes) (dep_list (dict_get nodes n JNull))) [] (rebuild_graph_waves nodes)"
  unfolding rebuild_graph_waves_def
proof (rule wave_loop_order [where rank = rank])
  let ?rem = "map (\<lambda>p. (fst p, filter (dict_has nodes) (dep_list (snd p)))) nodes"
  have keys: "fst ` set ?rem = fst ` set nodes" by force
  show "\<forall>p \<in> set ?rem. \<forall>d \<in> set (snd p). d \<in> fst ` set ?rem \<and> rank d < rank (fst p)"
    unfolding keys using assms(1) by (auto simp: dict_has_iff)
  show "\<forall>p \<in> set ?rem. set (filter (dict_has nodes) (dep_list (dict_get nodes (fst p) JNull))) \<subseteq> set [] \<union> set (snd p)"
    using assms(2) by (auto simp: dict_get_def)
qed

theorem rebuilt_waves_ordered_witness:
  "waves_ok (\<lambda>n. filter (dict_has [(''a'', JDict [(''depends_on'', JList [JStr ''b''])]), (''b'', JDict [])])
      (dep_list (dict_get [(''a'', JDict [(''depends_on'', JList [JStr ''b''])]), (''b'', JDict [])] n JNull))) []
    (rebuild_graph_waves [(''a'', JDict [(''depends_on'', JList [JStr ''b''])]), (''b'', JDict [])])"
  by (rule rebuilt_waves_ordered [where rank = "\<lambda>n. if n = ''a'' then 1 else 0"])
    (simp_all add: dep_list_def get_in_def dict_get_def)

section \<open>Properties: items\<close>

lemma ends_with_append [simp]: "ends_with p (a @ p)"
  by (simp add: ends_with_def starts_with_def)

text \<open>
  A string that begins with one item placeholder and ends with another is left as it is, unless
  the item has a field of that odd name: the whole-string pattern takes both for one path, so
  the inline replacement is never tried.
\<close>

theorem two_item_placeholders_unresolved:
  assumes "s = ''${item.'' @ a @ ''}'' @ b @ ''${item.'' @ c @ ''}''" and "CHR 0x0A \<notin> set (a @ b @ c)"
    and "walk_item (py_split (CHR ''.'') (a @ ''}'' @ b @ ''${item.'' @ c)) item = None"
  shows "substitute_string fs item s = JStr s"
proof -
  have s: "s = ''${item.'' @ (a @ ''}'' @ b @ ''${item.'' @ c) @ ''}''" using assms(1) by simp
  have e: "\<not> ends_with [CHR 0x0A] s" unfolding s by (simp add: ends_with_def starts_with_def)
  have "s = (''${item.'' @ a @ ''}'' @ b @ ''${item.'' @ c) @ ''}''" using s by simp
  then have "ends_with ''}'' s" by (metis ends_with_append)
  moreover have "butlast s = ''${item.'' @ (a @ ''}'' @ b @ ''${item.'' @ c)"
    unfolding s by (simp add: butlast_append)
  moreover have "8 < length s" by (simp add: s)
  moreover have "starts_with ''${item.'' s" by (simp add: s starts_with_def)
  ultimately have "whole_item_path s = Some (a @ ''}'' @ b @ ''${item.'' @ c)"
    using e assms(2) by (simp add: whole_item_path_def Let_def)
  moreover have "s \<noteq> ''${item}''" by (simp add: s)
  ultimately show ?thesis using assms(3) by (simp add: substitute_string_def)
qed

theorem two_item_placeholders_unresolved_witness:
  "substitute_string (\<lambda>r. []) (JDict [(''x'', JStr ''1''), (''y'', JStr ''2'')]) ''${item.x}-${item.y}'' = JStr ''${item.x}-${item.y}''"
  by (rule two_item_placeholders_unresolved [of _ "''x''" "''-''" "''y''"]) simp_all

text \<open>
  A map node whose collection is there but empty is not skipped: its body runs once, with the
  item placeholders as literal text in its inputs.
\<close>

theorem empty_collection_runs_body:
  assumes "get_str n ''kind'' [] = ''map''" and "dict_get coll (get_str n ''iterate_over'' []) (JList []) = JList []"
  shows "map_of (fs_tasks (expand_node fs coll st (nid, n))) nid
    = Some (call_task nid (get_in n ''body'' (JDict [])) (get_dict (get_in n ''body'' (JDict [])) ''inputs'') (dep_list n))"
  using assms by (simp add: expand_node_def items_of_def Let_def map_of_update)

theorem empty_collection_runs_body_witness:
  "map_of (fs_tasks (expand_node (\<lambda>r. []) [(''users'', JList [])] \<lparr>fs_tasks = [], fs_refs = [], fs_fan = []\<rparr>
      (''n'', JDict [(''kind'', JStr ''map''), (''iterate_over'', JStr ''users''),
        (''body'', JDict [(''tool_name'', JStr ''mail''), (''inputs'', JDict [(''to'', JStr ''${item.mail}'')])])]))) ''n''
    = Some (call_task ''n'' (JDict [(''tool_name'', JStr ''mail''), (''inputs'', JDict [(''to'', JStr ''${item.mail}'')])])
        [(''to'', JStr ''${item.mail}'')] [])"
  by (subst empty_collection_runs_body) (simp_all add: get_str_def get_in_def dict_get_def get_dict_def dep_list_def)

text \<open>
  The provider's URL never reaches the tool table: the default for a missing URL is stored
  before the provider is looked at.
\<close>

theorem provider_url_ignored:
  "dict_get (tool_map_row meta gc tool) ''endpoint_url'' d
    = (case map_of (dict_get meta tool []) ''endpoint_url'' of Some v \<Rightarrow> v | None \<Rightarrow> JStr [])"
proof -
  have sd: "map_of (setdefault k v e) k' = (if k' = k \<and> map_of e k = None then Some v else map_of e k')" for k k' v e
    by (auto simp: setdefault_def dict_has_def map_add_def split: option.split)
  show ?thesis
    by (simp add: tool_map_row_def dict_get_def sd Let_def split: list.split option.split)
qed

lemma dict_get_merge_same:
  "(\<And>v. (k, v) \<in> set u \<Longrightarrow> v = dict_get s k d) \<Longrightarrow> dict_get (dict_merge s u) k d = dict_get s k d"
proof (induction u arbitrary: s)
  case (Cons p u)
  have "dict_get (AList.update (fst p) (snd p) s) k d = dict_get s k d"
    using Cons.prems [of "snd p"] by (cases p) (auto simp: dict_get_update)
  with Cons.IH [of "AList.update (fst p) (snd p) s"] Cons.prems show ?case
    by (simp add: dict_merge_def case_prod_unfold)
qed (simp add: dict_merge_def)

text \<open>
  Nothing but the reflection node writes \<open>_graph_patch\<close>, and it is never cleared: once a retry
  has stored a sub-graph, every later visit of the executor without a new reflection runs that
  sub-graph, whatever a replan has compiled in the meantime.
\<close>

theorem stale_patch_shadows_plan:
  assumes "graph_run upd m (n, s) ns (ExecutorNode, s')" and "truthy (dict_get s ''_graph_patch'' JNull)"
    and "ReflectionNode \<notin> set ns"
    and "\<forall>n s u v. upd n s u \<longrightarrow> n \<noteq> ReflectionNode \<longrightarrow> (''_graph_patch'', v) \<in> set u \<longrightarrow> v = dict_get s ''_graph_patch'' JNull"
  shows "executed_graph s' = executed_graph s"
proof -
  have "dict_get (snd d) ''_graph_patch'' JNull = dict_get (snd c) ''_graph_patch'' JNull"
    if "graph_run upd m c ns d" "ReflectionNode \<notin> set ns" for c d ns
    using that
  proof (induction rule: graph_run.induct)
    case (run_step c c' ns d)
    obtain k t u k' where st: "c = (k, t)" "c' = (k', dict_merge t u)" "upd k t u"
      using run_step(1) by (auto elim: graph_stepE)
    with run_step(4) assms(4) have "dict_get (dict_merge t u) ''_graph_patch'' JNull = dict_get t ''_graph_patch'' JNull"
      by (intro dict_get_merge_same) auto
    with run_step st show ?case by simp
  qed simp
  from this [OF assms(1,3)] assms(2) show ?thesis by (simp add: executed_graph_def Let_def)
qed

theorem stale_patch_shadows_plan_witness:
  "\<exists>s'. graph_run (\<lambda>n s u. u = (if n = CompilerNode then [(''_execution_graph'', JInt 2)] else [])) 3
      (ApprovalGateNode, [(''_graph_patch'', JInt 1)]) [ApprovalGateNode] (ExecutorNode, s')
    \<and> executed_graph s' = JInt 1"
proof -
  let ?u = "\<lambda>n s u :: agent_state. u = (if n = CompilerNode then [(''_execution_graph'', JInt 2)] else [])"
  have "graph_step ?u 3 (ApprovalGateNode, [(''_graph_patch'', JInt 1)]) (ExecutorNode, [(''_graph_patch'', JInt 1)])"
    by (simp add: graph_step_iff dict_merge_def route_after_approval_def dict_get_def)
  from run_step [OF this run_here]
  have r: "graph_run ?u 3 (ApprovalGateNode, [(''_graph_patch'', JInt 1)]) [ApprovalGateNode] (ExecutorNode, [(''_graph_patch'', JInt 1)])"
    by simp
  have "executed_graph [(''_graph_patch'', JInt 1)] = executed_graph [(''_graph_patch'', JInt 1)]"
    by (rule stale_patch_shadows_plan [OF r]) (auto simp: dict_get_def split: if_splits)
  with r show ?thesis by (auto simp: executed_graph_def dict_get_def Let_def)
qed

section \<open>Lemmas: the fan-out\<close>

definition digits_value :: "string \<Rightarrow> nat" where
  "digits_value s = foldl (\<lambda>a c. a * 10 + (of_char c - 48)) 0 s"

lemma nat_str_value: "digits_value (nat_str n) = n"
proof (induction n rule: nat_str.induct)
  case (1 n)
  show ?case
  proof (cases "n < 10")
    case True
    then show ?thesis by (simp add: digits_value_def nat_str.simps [of n] of_char_of)
  next
    case False
    with 1 have "digits_value (nat_str (n div 10)) = n div 10" by simp
    moreover have "48 + n mod 10 < 256" by (simp add: less_trans [OF mod_less_divisor])
    ultimately show ?thesis using False by (simp add: digits_value_def nat_str.simps [of n] of_char_of)
  qed
qed

lemma nat_str_digits: "list_all is_digit (nat_str n)"
proof (induction n rule: nat_str.induct)
  case (1 n)
  have "48 + n mod 10 < 256" by (simp add: less_trans [OF mod_less_divisor])
  moreover have "n mod 10 \<le> 9" using mod_less_divisor [of 10 n] by linarith
  ultimately show ?case using 1 by (cases "n < 10") (simp_all add: nat_str.simps [of n] is_digit_def of_char_of)
qed

lemma item_id_inj: "item_id a i = item_id b j \<longleftrightarrow> a = b \<and> i = j"
proof
  assume e: "item_id a i = item_id b j"
  have tw: "takeWhile is_digit (rev (item_id c k)) = rev (nat_str k)" for c k
  proof -
    have "rev (item_id c k) = rev (nat_str k) @ CHR ''_'' # rev (c @ ''_item'')" by (simp add: item_id_def)
    moreover have "\<forall>x \<in> set (rev (nat_str k)). is_digit x" using nat_str_digits [of k] by (simp add: list_all_iff)
    moreover have "\<not> is_digit (CHR ''_'')" by (simp add: is_digit_def)
    ultimately show ?thesis by (metis takeWhile_append2 takeWhile.simps(2) append.right_neutral)
  qed
  have "rev (nat_str i) = rev (nat_str j)" using tw [of a i] tw [of b j] e by simp
  then have "i = j" by (metis nat_str_value rev_is_rev_conv)
  with e show "a = b \<and> i = j" by (simp add: item_id_def)
qed simp

lemma item_id_marked: "contains_str ''_item_'' (item_id a i)"
  unfolding contains_str_iff item_id_def by blast

definition fans_out :: "json dict \<Rightarrow> json \<Rightarrow> bool" where
  "fans_out coll n \<longleftrightarrow> get_str n ''kind'' [] = ''map'' \<and> items_of coll n \<noteq> []"

text \<open>The task ids a node stands for.\<close>

definition node_ids :: "json dict \<Rightarrow> string \<times> json \<Rightarrow> string list" where
  "node_ids coll p = (if fans_out coll (snd p) then map (item_id (fst p)) [0..<length (items_of coll (snd p))]
     else if get_str (snd p) ''kind'' [] \<in> {''map'', ''tool'', ''conditional''} then [fst p] else [])"

lemma set_ref_frame [simp]: "fs_tasks (set_ref r v st) = fs_tasks st" "fs_fan (set_ref r v st) = fs_fan st"
  by (simp_all add: set_ref_def)

lemma add_item_frame [simp]: "fs_fan (foldl (add_item fs nid n bd) st ps) = fs_fan st"
  by (induction ps arbitrary: st) (simp_all add: add_item_def Let_def)

lemma add_items_keys:
  "distinct (map fst (fs_tasks st) @ map (item_id nid) [k..<k + length xs]) \<Longrightarrow>
   map fst (fs_tasks (foldl (add_item fs nid n bd) st (enumerate k xs))) = map fst (fs_tasks st) @ map (item_id nid) [k..<k + length xs]"
proof (induction xs arbitrary: k st)
  case (Cons x xs)
  let ?st = "add_item fs nid n bd st (k, x)"
  have u: "[k..<k + length (x # xs)] = k # [Suc k..<Suc k + length xs]" by (subst upt_conv_Cons) (simp_all del: upt_Suc)
  have new: "item_id nid k \<notin> fst ` set (fs_tasks st)" using Cons.prems unfolding u by auto
  then have keys: "map fst (fs_tasks ?st) = map fst (fs_tasks st) @ [item_id nid k]"
    by (simp add: add_item_def map_fst_update Let_def)
  have "distinct (map fst (fs_tasks ?st) @ map (item_id nid) [Suc k..<Suc k + length xs])"
    using Cons.prems unfolding keys u by simp
  from Cons.IH [OF this] show ?case unfolding u by (simp add: keys)
qed simp

lemma expand_node_keys:
  "distinct (map fst (fs_tasks st) @ node_ids coll p) \<Longrightarrow>
   map fst (fs_tasks (expand_node fs coll st p)) = map fst (fs_tasks st) @ node_ids coll p"
  using add_items_keys [of "set_ref (py_replace ''_map'' [] 0 (get_str (snd p) ''symbolic_ref'' [])) (fst p) st"
      "fst p" 0 "items_of coll (snd p)" fs "snd p" "get_in (snd p) ''body'' (JDict [])"]
  by (auto simp: expand_node_def node_ids_def fans_out_def Let_def map_fst_update)

lemma expand_nodes_keys:
  "distinct (map fst (fs_tasks st) @ concat (map (node_ids coll) nodes)) \<Longrightarrow>
   map fst (fs_tasks (foldl (expand_node fs coll) st nodes)) = map fst (fs_tasks st) @ concat (map (node_ids coll) nodes)"
proof (induction nodes arbitrary: st)
  case (Cons p nodes)
  have "map fst (fs_tasks (expand_node fs coll st p)) = map fst (fs_tasks st) @ node_ids coll p"
    by (rule expand_node_keys) (use Cons.prems in auto)
  with Cons.IH [of "expand_node fs coll st p"] Cons.prems show ?case by simp
qed simp

lemma call_task_id [simp]: "et_id (call_task tid b ins deps) = tid" "et_id (gate_task tid n) = tid"
  by (simp_all add: call_task_def gate_task_def)

definition names_itself :: "fan_state \<Rightarrow> bool" where
  "names_itself st \<longleftrightarrow> (\<forall>k t. map_of (fs_tasks st) k = Some t \<longrightarrow> et_id t = k)"

lemma names_update:
  "names_itself st \<Longrightarrow> et_id t = k \<Longrightarrow> names_itself (s\<lparr>fs_tasks := AList.update k t (fs_tasks st)\<rparr>)"
  by (auto simp: names_itself_def map_of_update)

lemma names_frame [simp]:
  "names_itself (set_ref r v st) = names_itself st" "names_itself (st\<lparr>fs_fan := f\<rparr>) = names_itself st"
  "names_itself (st\<lparr>fs_refs := rs\<rparr>) = names_itself st"
  by (simp_all add: names_itself_def)

lemma names_items: "names_itself st \<Longrightarrow> names_itself (foldl (add_item fs nid n bd) st ps)"
proof (induction ps arbitrary: st)
  case (Cons p ps)
  have "names_itself (add_item fs nid n bd st p)"
    using Cons.prems by (auto simp: add_item_def names_itself_def map_of_update Let_def)
  with Cons.IH show ?case by simp
qed simp

lemma names_expand: "names_itself st \<Longrightarrow> names_itself (foldl (expand_node fs coll) st nodes)"
proof (induction nodes arbitrary: st)
  case (Cons p nodes)
  have "names_itself (expand_node fs coll st p)"
    using Cons.prems by (simp add: expand_node_def Let_def names_items names_update)
  with Cons.IH show ?case by simp
qed simp

lemma fan_of_node:
  "fs_fan (expand_node fs coll st p) = (if fans_out coll (snd p)
     then AList.update (fst p) (node_ids coll p) (fs_fan st) else fs_fan st)"
  by (simp add: expand_node_def node_ids_def fans_out_def Let_def)

lemma fan_of_nodes:
  "distinct (map fst nodes) \<Longrightarrow> map_of (fs_fan (foldl (expand_node fs coll) st nodes)) nid
    = (case map_of nodes nid of Some n \<Rightarrow> if fans_out coll n then Some (node_ids coll (nid, n)) else map_of (fs_fan st) nid
       | None \<Rightarrow> map_of (fs_fan st) nid)"
proof (induction nodes arbitrary: st)
  case (Cons p nodes)
  obtain k n where p: "p = (k, n)" by (cases p)
  from Cons have "k \<notin> fst ` set nodes" by (simp add: p)
  then have "map_of nodes k = None" by (simp add: map_of_eq_None_iff)
  with Cons show ?case by (auto simp: p fan_of_node map_of_update split: option.splits)
qed simp

lemma node_ids_owner:
  "x \<in> set (node_ids coll p) \<Longrightarrow> x = fst p \<or> (\<exists>i. x = item_id (fst p) i)"
  by (auto simp: node_ids_def split: if_splits)

lemma distinct_node_ids:
  assumes "distinct (map fst nodes)" and "\<forall>p \<in> set nodes. \<not> contains_str ''_item_'' (fst p)"
  shows "distinct (concat (map (node_ids coll) nodes))"
  using assms
proof (induction nodes)
  case (Cons p nodes)
  have "distinct (node_ids coll p)"
    by (auto simp: node_ids_def distinct_map item_id_inj intro!: inj_onI)
  moreover have "x \<notin> set (node_ids coll q)" if "x \<in> set (node_ids coll p)" "q \<in> set nodes" for x q
  proof
    assume "x \<in> set (node_ids coll q)"
    moreover have "fst p \<noteq> fst q" using Cons.prems(1) that(2) by auto
    moreover have "\<not> contains_str ''_item_'' (fst p)" "\<not> contains_str ''_item_'' (fst q)" using Cons.prems(2) that(2) by auto
    ultimately show False
      using node_ids_owner [OF that(1)] node_ids_owner [of x coll q] item_id_inj item_id_marked by metis
  qed
  ultimately show ?case using Cons by auto
qed simp

lemma mset_concat_map: "mset (concat (map f xs)) = sum_mset (image_mset (\<lambda>x. mset (f x)) (mset xs))"
  by (induction xs) auto

text \<open>What the waves schedule for a node is what the node has become.\<close>

lemma expand_wave_node:
  assumes "distinct (map fst nodes)" and "\<forall>p \<in> set nodes. \<not> contains_str ''_item_'' (fst p)"
    and "map_of nodes nid = Some n"
  shows "expand_wave (expand_nodes fs coll nodes) [nid] = node_ids coll (nid, n)"
proof -
  let ?st = "expand_nodes fs coll nodes"
  have keys: "map fst (fs_tasks ?st) = concat (map (node_ids coll) nodes)"
    using expand_nodes_keys [of "\<lparr>fs_tasks = [], fs_refs = [], fs_fan = []\<rparr>" coll nodes fs]
      distinct_node_ids [OF assms(1,2)] by (simp add: expand_nodes_def)
  have fan: "map_of (fs_fan ?st) nid = (if fans_out coll n then Some (node_ids coll (nid, n)) else None)"
    using fan_of_nodes [OF assms(1), of fs coll "\<lparr>fs_tasks = [], fs_refs = [], fs_fan = []\<rparr>" nid] assms(3)
    by (simp add: expand_nodes_def)
  have "dict_has (fs_tasks ?st) nid \<longleftrightarrow> nid \<in> set (node_ids coll (nid, n))"
  proof -
    have mem: "(nid, n) \<in> set nodes" using assms(3) by (rule map_of_SomeD)
    have "q = (nid, n)" if "q \<in> set nodes" "nid \<in> set (node_ids coll q)" for q
    proof -
      have "\<not> contains_str ''_item_'' nid" using assms(2) mem by auto
      then have "fst q = nid" using node_ids_owner [OF that(2)] item_id_marked by metis
      with that(1) mem assms(1) show ?thesis by (metis eq_key_imp_eq_value prod.collapse)
    qed
    moreover have "dict_has (fs_tasks ?st) nid \<longleftrightarrow> nid \<in> set (map fst (fs_tasks ?st))" by (simp add: dict_has_iff)
    ultimately show ?thesis using mem unfolding keys by auto
  qed
  then show ?thesis using fan by (auto simp: expand_wave_def node_ids_def split: if_splits)
qed

lemma scheduled_once:
  assumes "distinct (map fst nodes)" and "\<forall>p \<in> set nodes. \<not> contains_str ''_item_'' (fst p)"
    and "mset (concat waves) = mset (map fst nodes)"
  shows "mset (map et_id (concat (wave_objects (expand_nodes fs coll nodes) waves)))
    = mset (map fst (fs_tasks (expand_nodes fs coll nodes)))"
proof -
  let ?st = "expand_nodes fs coll nodes"
  let ?ids = "\<lambda>nid. expand_wave ?st [nid]"
  have keys: "map fst (fs_tasks ?st) = concat (map (node_ids coll) nodes)"
    using expand_nodes_keys [of "\<lparr>fs_tasks = [], fs_refs = [], fs_fan = []\<rparr>" coll nodes fs]
      distinct_node_ids [OF assms(1,2)] by (simp add: expand_nodes_def)
  have ids: "concat (map ?ids (map fst nodes)) = concat (map (node_ids coll) nodes)"
    using expand_wave_node [OF assms(1,2)] assms(1)
    by (intro arg_cong [where f = concat]) (auto intro!: map_cong)
  have split: "expand_wave ?st w = concat (map ?ids w)" for w by (induction w) (simp_all add: expand_wave_def)
  have "set (?ids nid) \<subseteq> fst ` set (fs_tasks ?st)" if "nid \<in> set (concat waves)" for nid
  proof -
    have "nid \<in> set (map fst nodes)" using that assms(3) by (metis set_mset_mset)
    then have "set (?ids nid) \<subseteq> set (concat (map ?ids (map fst nodes)))" by auto
    also have "\<dots> = set (map fst (fs_tasks ?st))" using ids keys by simp
    finally show ?thesis by simp
  qed
  then have has: "map_of (fs_tasks ?st) x \<noteq> None" if "nid \<in> set (concat waves)" "x \<in> set (?ids nid)" for nid x
    using that unfolding map_of_eq_None_iff by blast
  have nm: "names_itself ?st" unfolding expand_nodes_def by (rule names_expand) (simp add: names_itself_def)
  have one: "map et_id (case map_of (fs_tasks ?st) x of Some t \<Rightarrow> [t] | None \<Rightarrow> []) = [x]"
    if "map_of (fs_tasks ?st) x \<noteq> None" for x
    using that nm by (auto simp: names_itself_def)
  have row: "map et_id (concat (map (\<lambda>x. case map_of (fs_tasks ?st) x of Some t \<Rightarrow> [t] | None \<Rightarrow> []) xs)) = xs"
    if "\<forall>x \<in> set xs. map_of (fs_tasks ?st) x \<noteq> None" for xs
    using that
  proof (induction xs)
    case (Cons x xs)
    with one [of x] show ?case by simp
  qed simp
  have "\<forall>w \<in> set waves. \<forall>x \<in> set (expand_wave ?st w). map_of (fs_tasks ?st) x \<noteq> None"
  proof (intro ballI)
    fix w x
    assume "w \<in> set waves" "x \<in> set (expand_wave ?st w)"
    then have "\<exists>nid \<in> set (concat waves). x \<in> set (?ids nid)" unfolding split [of w] by auto
    with has show "map_of (fs_tasks ?st) x \<noteq> None" by blast
  qed
  then have "map et_id (concat (wave_objects ?st waves)) = concat (map (expand_wave ?st) waves)"
    by (induction waves) (simp_all add: wave_objects_def row del: not_None_eq)
  moreover have "concat (map (expand_wave ?st) waves) = concat (map ?ids (concat waves))"
    by (induction waves) (simp_all add: expand_wave_def)
  ultimately have "map et_id (concat (wave_objects ?st waves)) = concat (map ?ids (concat waves))" by simp
  moreover have "mset (concat (map ?ids (concat waves))) = mset (concat (map ?ids (map fst nodes)))"
    unfolding mset_concat_map assms(3) ..
  ultimately show ?thesis by (simp only: ids keys)
qed

text \<open>
  C15: The fan-out loses and repeats nothing, provided that the waves contain every node of the graph
  once and that no node id contains the text of item ids: then the task lists handed to the
  executor contain every task that the nodes have been expanded to exactly once, items of map
  nodes included.
\<close>

theorem every_task_scheduled_once:
  assumes "distinct (map fst nodes)" and "\<forall>p \<in> set nodes. \<not> contains_str ''_item_'' (fst p)"
    and "mset (concat waves) = mset (map fst nodes)"
  shows "mset (map et_id (concat (wave_objects (expand_nodes fs coll nodes) waves)))
    = mset (map fst (fs_tasks (expand_nodes fs coll nodes)))"
  by (rule scheduled_once [OF assms])

definition demo_nodes :: "json dict" where
  "demo_nodes = [(''a'', JDict [(''kind'', JStr ''tool''), (''tool_name'', JStr ''list'')]),
     (''m'', JDict [(''kind'', JStr ''map''), (''iterate_over'', JStr ''users''), (''depends_on'', JList [JStr ''a'']),
        (''body'', JDict [(''tool_name'', JStr ''mail'')])]),
     (''r'', JDict [(''kind'', JStr ''reduce''), (''depends_on'', JList [JStr ''m''])])]"

theorem every_task_scheduled_once_witness:
  "mset (map et_id (concat (wave_objects (expand_nodes (\<lambda>r. []) [(''users'', JList [JInt 1, JInt 2])] demo_nodes) [[''a''], [''m''], [''r'']])))
    = mset (map fst (fs_tasks (expand_nodes (\<lambda>r. []) [(''users'', JList [JInt 1, JInt 2])] demo_nodes)))"
  by (rule every_task_scheduled_once) (simp_all add: demo_nodes_def starts_with_def)

text \<open>
  The proviso on the ids is needed: a node whose own id is that of an item of a map node replaces
  the item, and is handed to the executor twice.
\<close>

definition colliding_nodes :: "json dict" where
  "colliding_nodes = [(''m'', JDict [(''kind'', JStr ''map''), (''iterate_over'', JStr ''users''), (''body'', JDict [(''tool_name'', JStr ''mail'')])]),
     (''m_item_0'', JDict [(''kind'', JStr ''tool''), (''tool_name'', JStr ''pay'')])]"

theorem colliding_item_scheduled_twice:
  "map (\<lambda>t. (et_id t, et_tool t)) (concat (wave_objects (expand_nodes (\<lambda>r. []) [(''users'', JList [JInt 1])] colliding_nodes) [[''m''], [''m_item_0'']]))
    = [(''m_item_0'', ''pay''), (''m_item_0'', ''pay'')]"
  by code_simp

text \<open>
  The losing branch of a condition is not pruned when it is a map node with items: the node is
  disabled, but its items have ids of their own, are not among the disabled tasks and run.
\<close>

theorem pruned_map_items_run:
  assumes "get_strs gn ''branch_true'' = [nid]" and "get_strs gn ''branch_false'' = []"
    and "en_cond env (get_str gn ''condition'' []) acc = Some False"
    and "dep_list n = [gid]" and "gid \<noteq> nid"
  shows "nid \<in> set (fst (prune_conditional_tasks env acc [] [gate_task gid gn]))
    \<and> \<not> is_disabled (fst (prune_conditional_tasks env acc [] [gate_task gid gn])) (call_task (item_id nid i) bd ins (dep_list n))"
  using assms by (simp add: prune_conditional_tasks_def prune_step_def gate_task_def is_disabled_def call_task_def item_id_def)

theorem pruned_map_items_run_witness:
  "\<not> is_disabled (fst (prune_conditional_tasks
        \<lparr>en_now = (\<lambda>t. 0), en_fresh = (\<lambda>t. []), en_outs = (\<lambda>t n. Timed_out), en_cancelled = (\<lambda>t. False),
         en_cond = (\<lambda>c a. Some False), en_order = (\<lambda>ts. ts)\<rparr> [] []
        [gate_task ''g'' (JDict [(''branch_true'', JList [JStr ''m''])])]))
      (call_task (item_id ''m'' 0) JNull [] (dep_list (JDict [(''depends_on'', JList [JStr ''g''])])))"
  by (rule pruned_map_items_run [THEN conjunct2])
    (simp_all add: get_strs_def get_list_def get_in_def dict_get_def dep_list_def)

text \<open>
  A retry sub-graph without waves is executed completely: the executor is handed every task of
  the patch exactly once.
\<close>

theorem retry_graph_fully_scheduled:
  assumes "get_list g ''waves'' = []" and "distinct (map fst (get_dict g ''nodes''))"
    and "\<forall>p \<in> set (get_dict g ''nodes''). \<not> contains_str ''_item_'' (fst p)"
  shows "mset (map et_id (concat (wave_objects (expand_nodes fs coll (get_dict g ''nodes'')) (graph_waves g))))
    = mset (map fst (fs_tasks (expand_nodes fs coll (get_dict g ''nodes''))))"
proof (rule scheduled_once [OF assms(2,3)])
  show "mset (concat (graph_waves g)) = mset (map fst (get_dict g ''nodes''))"
    using assms(1) rebuilt_complete [OF assms(2)] by (simp add: graph_waves_def)
qed

theorem retry_graph_fully_scheduled_witness:
  "mset (map et_id (concat (wave_objects (expand_nodes (\<lambda>r. []) [] demo_nodes) (graph_waves (JDict [(''nodes'', JDict demo_nodes)])))))
    = mset (map fst (fs_tasks (expand_nodes (\<lambda>r. []) [] demo_nodes)))"
  using retry_graph_fully_scheduled [of "JDict [(''nodes'', JDict demo_nodes)]" "\<lambda>r. []" "[]"]
  by (simp add: get_list_def get_dict_def get_in_def dict_get_def) (simp add: demo_nodes_def starts_with_def)

end
