(* ===== verification/Reflection.thy ===== *)
theory Reflection
  imports Executor_Node Agent_Context
begin

text \<open>
  \<open>agent/nodes/validation_node.py\<close>, \<open>agent/nodes/reflection_node.py\<close> and
  \<open>sagas/compensation.py\<close>: the check before execution, the retry of a failed sub-graph, and
  the compensation of the other tools when too many tasks have failed.  Parameters: the limits
  from the settings, the order in which Python iterates over a set, the registry's compensating
  operations and the outcome of each compensating call.
\<close>

section \<open>Validation before execution\<close>

definition validation_missing :: "agent_state \<Rightarrow> string list" where
  "validation_missing s = (let w = dict_get s ''_logical_workflow'' JNull in
     if \<not> truthy w then [''workflow'']
     else if \<not> truthy (get_in w ''nodes'' (JList [])) then [''operations'']
     else if \<not> truthy (dict_get s ''_execution_graph'' JNull) then [''execution_graph'']
     else if \<not> truthy (dict_get s ''_within_budget'' (JBool True)) then [''budget''] else [])"

text \<open>The reason is a text for the user.\<close>

definition validation_node :: "(agent_state \<Rightarrow> string) \<Rightarrow> agent_state \<Rightarrow> agent_state" where
  "validation_node reason_text s = (let missing = validation_missing s; ready = (missing = []) in
     [(''_validation_result'', JDict [(''ready'', JBool ready), (''missing'', JList (map JStr missing)),
        (''reason'', JStr (if ready then [] else reason_text s))]),
      (''_ready_to_plan'', JBool ready), (''_needs_clarification'', JBool (\<not> ready))])"

section \<open>The retry sub-graph\<close>

record reflect_cfg =
  rf_max_retries :: int
  rf_quorum :: rat
  rf_order :: "string list \<Rightarrow> string list"   \<comment> \<open>iteration order of a set\<close>
  rf_graph_id :: string

definition direct_dependents :: "json dict \<Rightarrow> string list \<Rightarrow> string list" where
  "direct_dependents nodes failed_ids = map fst (filter (\<lambda>p. fst p \<notin> set failed_ids
     \<and> list_ex (\<lambda>d. d \<in> set failed_ids) (dep_list (snd p))) nodes)"

definition patched_nodes :: "reflect_cfg \<Rightarrow> json dict \<Rightarrow> string list \<Rightarrow> json dict" where
  "patched_nodes cfg nodes failed_ids = concat (map (\<lambda>nid. case map_of nodes nid of Some n \<Rightarrow> [(nid, n)] | None \<Rightarrow> [])
     (rf_order cfg (remdups (failed_ids @ direct_dependents nodes failed_ids))))"

definition build_graph_patch :: "reflect_cfg \<Rightarrow> json dict \<Rightarrow> string list \<Rightarrow> json" where
  "build_graph_patch cfg nodes failed_ids = (if failed_ids = [] \<or> patched_nodes cfg nodes failed_ids = [] then JNull
     else JDict [(''graph_id'', JStr (rf_graph_id cfg)), (''nodes'', JDict (patched_nodes cfg nodes failed_ids)), (''waves'', JList [])])"

definition state_strs :: "agent_state \<Rightarrow> string \<Rightarrow> string list" where
  "state_strs s k = get_strs (JDict s) k"

definition retry_count :: "agent_state \<Rightarrow> string \<Rightarrow> int" where
  "retry_count s tid = (case get_in (dict_get s ''_tool_retry_counts'' (JDict [])) tid (JInt 0) of JInt i \<Rightarrow> i | _ \<Rightarrow> 0)"

definition total_retries :: "agent_state \<Rightarrow> int" where
  "total_retries s = (case dict_get s ''_total_retry_count'' (JInt 0) of JInt i \<Rightarrow> i | _ \<Rightarrow> 0)"

definition tasks_to_retry :: "reflect_cfg \<Rightarrow> agent_state \<Rightarrow> string list" where
  "tasks_to_retry cfg s = filter (\<lambda>t. retry_count s t < rf_max_retries cfg) (state_strs s ''_executor_failed'')"

definition bump_counts :: "agent_state \<Rightarrow> string list \<Rightarrow> json dict" where
  "bump_counts s ts = foldl (\<lambda>d t. AList.update t (JInt ((case dict_get d t (JInt 0) of JInt i \<Rightarrow> i | _ \<Rightarrow> 0) + 1)) d)
     (get_dict (JDict s) ''_tool_retry_counts'') ts"

definition finalize_updates :: agent_state where
  "finalize_updates = [(''_routing_decision'', JStr ''finalize''), (''_recovery_available'', JBool True)]"

definition graph_node_dict :: "agent_state \<Rightarrow> json dict" where
  "graph_node_dict s = get_dict (dict_get s ''_execution_graph'' JNull) ''nodes''"

definition over_quorum :: "reflect_cfg \<Rightarrow> agent_state \<Rightarrow> bool" where
  "over_quorum cfg s \<longleftrightarrow> rf_quorum cfg < of_nat (length (state_strs s ''_executor_failed'')) / of_nat (max (length (graph_node_dict s)) 1)"

definition reflection_updates :: "reflect_cfg \<Rightarrow> agent_state \<Rightarrow> agent_state" where
  "reflection_updates cfg s = (let fl = state_strs s ''_executor_failed''; ts = tasks_to_retry cfg s; nodes = graph_node_dict s in
     if fl = [] then [(''_routing_decision'', JStr ''finalize'')]
     else if nodes = [] then finalize_updates
     else if rf_max_retries cfg \<le> total_retries s
     then finalize_updates @ [(''_recovery_failed_tasks'', JList (map JStr fl))]
     else if ts = [] then finalize_updates
     else if over_quorum cfg s
     then finalize_updates @ [(''_recovery_failed_tasks'', JList (map JStr fl)), (''errors'', JList (map JStr fl))]
     else [(''_routing_decision'', JStr ''retry''), (''_graph_patch'', build_graph_patch cfg nodes ts),
           (''_tool_retry_counts'', JDict (bump_counts s ts)), (''_pending_tasks'', JList (map JStr ts)),
           (''_total_retry_count'', JInt (total_retries s + 1))])"

definition reflection_node ::
  "(rat \<Rightarrow> string) \<Rightarrow> (string \<Rightarrow> rat option) \<Rightarrow> string \<Rightarrow> reflect_cfg \<Rightarrow> agent_state \<Rightarrow> agent_state option" where
  "reflection_node fs pf stamp cfg s = context_node fs pf stamp ''reflection_node''
     (\<lambda>c. \<lparr>sp_version = cx_version c + 1, sp_updates = reflection_updates cfg (cx_snapshot c), sp_removes = [], sp_ir = None\<rparr>) s"

section \<open>Compensation\<close>

record compensation_item =
  ci_tool :: string
  ci_inputs :: "json dict"

text \<open>\<open>_compensate_succeeded\<close>: every tool node that is not among the failed tasks.\<close>

definition compensated_tools :: "json dict \<Rightarrow> string list \<Rightarrow> compensation_item list" where
  "compensated_tools nodes failed_ids = map (\<lambda>p. \<lparr>ci_tool = get_str (snd p) ''tool_name'' [], ci_inputs = get_dict (snd p) ''inputs''\<rparr>)
     (filter (\<lambda>p. fst p \<notin> set failed_ids \<and> get_str (snd p) ''kind'' [] = ''tool'') nodes)"

text \<open>
  A row of \<open>compensation_log\<close> with its final status.  \<open>registered\<close> says whether the
  registry knows the operation; \<open>call\<close> is the outcome of its execution, \<open>None\<close> for an
  exception.  Before the call a context is built from the session and the run id; the class
  \<open>ExecutionContext\<close> of \<open>execution/context.py\<close> forbids arguments that are not its fields.
\<close>

record compensation_row =
  cr_tool :: string
  cr_operation :: string
  cr_inputs :: "json dict"
  cr_status :: string

definition context_fields :: "string list" where
  "context_fields = [''version'', ''parent_version'', ''snapshot'', ''ir_stack'', ''artifact_ids'', ''execution_ids'',
     ''routing_decision'', ''node_timeline'', ''budget'', ''strategy'', ''checkpoints'', ''artifacts'', ''idempotency_key'',
     ''user_roles'', ''created_at'']"

definition context_accepts :: "string list \<Rightarrow> bool" where
  "context_accepts args = list_all (\<lambda>a. a \<in> set context_fields) args"

definition run_compensation ::
  "(string \<Rightarrow> bool) \<Rightarrow> (string \<Rightarrow> json dict \<Rightarrow> string option) \<Rightarrow> string \<Rightarrow> compensation_item \<Rightarrow> compensation_row" where
  "run_compensation registered call op it =
    (let outcome = (if \<not> registered op then None
         else if \<not> context_accepts [''session_id'', ''agent_run_id''] then None else call op (ci_inputs it)) in
     \<lparr>cr_tool = ci_tool it, cr_operation = op, cr_inputs = ci_inputs it,
      cr_status = (if outcome = Some ''success'' then ''success'' else ''failed'')\<rparr>)"

definition compensate ::
  "(string \<Rightarrow> string option) \<Rightarrow> (string \<Rightarrow> bool) \<Rightarrow> (string \<Rightarrow> json dict \<Rightarrow> string option) \<Rightarrow> compensation_item list \<Rightarrow> compensation_row list" where
  "compensate lookup registered call items = concat (map (\<lambda>it. case lookup (ci_tool it) of None \<Rightarrow> []
     | Some op \<Rightarrow> if op = [] then [] else [run_compensation registered call op it]) items)"

definition reflection_compensation ::
  "(string \<Rightarrow> string option) \<Rightarrow> (string \<Rightarrow> bool) \<Rightarrow> (string \<Rightarrow> json dict \<Rightarrow> string option) \<Rightarrow> reflect_cfg \<Rightarrow> agent_state \<Rightarrow> compensation_row list" where
  "reflection_compensation lookup registered call cfg s = (let fl = state_strs s ''_executor_failed'' in
     if fl = [] \<or> graph_node_dict s = [] \<or> rf_max_retries cfg \<le> total_retries s \<or> tasks_to_retry cfg s = [] \<or> \<not> over_quorum cfg s
     then [] else compensate lookup registered call (compensated_tools (graph_node_dict s) fl))"

section \<open>Lemmas\<close>

lemma reflection_distinct: "distinct (map fst (reflection_updates cfg s))"
  by (simp add: reflection_updates_def finalize_updates_def Let_def)

lemma reflection_no_snapshot: "''_context_snapshot'' \<notin> fst ` set (reflection_updates cfg s)"
  by (simp add: reflection_updates_def finalize_updates_def Let_def)

lemma reflection_reads:
  "reflection_updates cfg (filter (\<lambda>p. keep_field (fst p)) s) = reflection_updates cfg s"
proof -
  have k: "keep_field ''_executor_failed''" "keep_field ''_execution_graph''" "keep_field ''_total_retry_count''"
    "keep_field ''_tool_retry_counts''"
    by (simp_all add: keep_field_def static_strip_fields_def starts_with_def)
  show ?thesis
    unfolding reflection_updates_def tasks_to_retry_def retry_count_def total_retries_def over_quorum_def bump_counts_def
      graph_node_dict_def state_strs_def get_strs_def get_list_def get_dict_def get_in_def
    by (simp only: json.case filter_keep_get [OF k(1)] filter_keep_get [OF k(2)] filter_keep_get [OF k(3)] filter_keep_get [OF k(4)])
qed

lemma reflection_state:
  assumes "reflection_node fs pf stamp cfg s = Some u" and "distinct (map fst s)"
    and "k \<in> canonical_keys \<longrightarrow> k \<in> fst ` set (reflection_updates cfg s)"
  shows "map_of (dict_merge s u) k
    = (case map_of (reflection_updates cfg s) k of Some v \<Rightarrow> Some v | None \<Rightarrow> map_of s k)"
proof -
  obtain c where c: "from_state stamp s = Some c"
    using assms(1) unfolding reflection_node_def by (rule context_node_parts)
  have us: "reflection_updates cfg (cx_snapshot (record_node n c)) = reflection_updates cfg s" for n
    using from_state_snapshot [OF c] by (simp add: record_node_def reflection_reads)
  show ?thesis
    by (rule context_node_lookup [OF assms(1) [unfolded reflection_node_def] assms(2) c])
      (simp_all add: us reflection_distinct reflection_no_snapshot assms(3))
qed

lemma reflection_routing:
  assumes "reflection_node fs pf stamp cfg s = Some u" and "distinct (map fst s)"
  shows "dict_get (dict_merge s u) ''_routing_decision'' d = JStr ''retry'' \<longleftrightarrow>
    state_strs s ''_executor_failed'' \<noteq> [] \<and> graph_node_dict s \<noteq> [] \<and> total_retries s < rf_max_retries cfg
    \<and> tasks_to_retry cfg s \<noteq> [] \<and> \<not> over_quorum cfg s"
proof -
  have "''_routing_decision'' \<in> fst ` set (reflection_updates cfg s)"
    by (simp add: reflection_updates_def finalize_updates_def Let_def)
  then have "map_of (dict_merge s u) ''_routing_decision'' = map_of (reflection_updates cfg s) ''_routing_decision''"
    using reflection_state [OF assms, of "''_routing_decision''"]
    by (auto simp: map_of_eq_None_iff split: option.splits)
  then show ?thesis
    by (auto simp: dict_get_def reflection_updates_def finalize_updates_def Let_def)
qed

lemma reflection_total:
  assumes "reflection_node fs pf stamp cfg s = Some u" and "distinct (map fst s)"
  shows "total_retries (dict_merge s u)
    = (if dict_get (dict_merge s u) ''_routing_decision'' JNull = JStr ''retry'' then total_retries s + 1 else total_retries s)"
proof -
  have "map_of (dict_merge s u) ''_total_retry_count''
      = (case map_of (reflection_updates cfg s) ''_total_retry_count'' of Some v \<Rightarrow> Some v | None \<Rightarrow> map_of s ''_total_retry_count'')"
    by (rule reflection_state [OF assms]) (simp add: canonical_keys_def)
  moreover have "map_of (reflection_updates cfg s) ''_total_retry_count''
      = (if dict_get (dict_merge s u) ''_routing_decision'' JNull = JStr ''retry'' then Some (JInt (total_retries s + 1)) else None)"
    unfolding reflection_routing [OF assms]
    by (simp add: reflection_updates_def finalize_updates_def Let_def)
  ultimately show ?thesis by (simp add: total_retries_def dict_get_def [of _ "''_total_retry_count''"])
qed

section \<open>Properties\<close>

text \<open>
  Validation lets a plan through to the approval gate exactly when it has nodes, a compiled graph
  and an estimate within the budget.
\<close>

theorem validation_passes_iff:
  "route_after_validation (dict_merge s (validation_node rt s)) = Some ApprovalGateNode \<longleftrightarrow>
    validation_missing s = [] \<and> (\<exists>n. py_len (get_in (dict_get s ''_logical_workflow'' (JDict [])) ''nodes'' (JList [])) = Some n)"
proof -
  let ?s = "dict_merge s (validation_node rt s)"
  have d: "distinct (map fst (validation_node rt s))" by (simp add: validation_node_def Let_def)
  have get: "dict_get ?s k dv = (case map_of (validation_node rt s) k of Some v \<Rightarrow> v | None \<Rightarrow> dict_get s k dv)" for k dv
    by (simp add: dict_get_def map_of_dict_merge [OF d] map_add_def split: option.split)
  have keys: "dict_get ?s ''_logical_workflow'' dv = dict_get s ''_logical_workflow'' dv"
    "state_flag ?s ''_needs_clarification'' = (validation_missing s \<noteq> [])"
    "get_in (dict_get ?s ''_validation_result'' dv) ''ready'' JNull = JBool (validation_missing s = [])"
    "dict_get ?s ''_ready_to_plan'' JNull = JBool (validation_missing s = [])" for dv
    by (simp_all add: get state_flag_def, simp_all add: validation_node_def Let_def get_in_def dict_get_def)
  have w: "validation_missing s = [] \<Longrightarrow> truthy (dict_get s ''_logical_workflow'' (JDict []))
      \<and> (\<forall>n. py_len (get_in (dict_get s ''_logical_workflow'' (JDict [])) ''nodes'' (JList [])) = Some n \<longrightarrow> n \<noteq> 0)"
    by (cases "map_of s ''_logical_workflow''")
      (auto simp: validation_missing_def dict_get_def Let_def py_len_def split: if_splits json.splits)
  show ?thesis
    using w unfolding route_after_validation_def keys Let_def
    by (auto split: option.splits if_splits)
qed

definition keeps_retry_count :: "(node_name \<Rightarrow> agent_state \<Rightarrow> agent_state \<Rightarrow> bool) \<Rightarrow> bool" where
  "keeps_retry_count upd \<longleftrightarrow> (\<forall>n s u. upd n s u \<longrightarrow> distinct (map fst (dict_merge s u))
     \<and> (n \<noteq> ReflectionNode \<longrightarrow> total_retries s \<le> total_retries (dict_merge s u)))"

lemma response_ends:
  assumes "graph_run upd m c ns d" and "fst c \<in> {ResponseNode, MemoryHelperNode, Graph_END}"
  shows "ReflectionNode \<notin> set ns"
proof -
  let ?P = "\<lambda>c. fst c \<in> {ResponseNode, MemoryHelperNode, Graph_END}"
  have "?P c'" if "?P c" "graph_step upd m c c'" for c c'
    using that by (auto elim!: graph_stepE)
  with run_from_set [OF assms(1), of ?P] assms(2) show ?thesis by auto
qed

text \<open>
  C18: Reflection sends the turn back to the executor at most as often as the settings allow: in any
  run of the graph in which no other node lowers the counter, the number of reflections is at
  most the retries that are left, plus one.
\<close>

theorem reflections_bounded:
  assumes "graph_run upd m (n, s) ns d" and "keeps_retry_count upd" and "distinct (map fst s)"
    and "\<forall>s u. upd ReflectionNode s u \<longrightarrow> reflection_node fs pf stamp cfg s = Some u"
  shows "int (count_list ns ReflectionNode) \<le> max 0 (rf_max_retries cfg - total_retries s) + 1"
proof -
  have "int (count_list ns ReflectionNode) \<le> max 0 (rf_max_retries cfg - total_retries (snd c)) + 1"
    if "graph_run upd m c ns d" "distinct (map fst (snd c))" for c d ns
    using that
  proof (induction rule: graph_run.induct)
    case (run_step c c' ns d)
    obtain k t u k' where st: "c = (k, t)" "c' = (k', dict_merge t u)" "upd k t u" "next_node m k (dict_merge t u) = Some k'"
      using run_step(1) by (auto elim: graph_stepE)
    have d: "distinct (map fst (dict_merge t u))" using assms(2) st(3) by (auto simp: keeps_retry_count_def)
    with run_step.IH st have IH: "int (count_list ns ReflectionNode) \<le> max 0 (rf_max_retries cfg - total_retries (dict_merge t u)) + 1"
      by simp
    show ?case
    proof (cases "k = ReflectionNode")
      case False
      with assms(2) st(3) have "total_retries t \<le> total_retries (dict_merge t u)" by (auto simp: keeps_retry_count_def)
      with IH False st show ?thesis by simp
    next
      case True
      have r: "reflection_node fs pf stamp cfg t = Some u" using assms(4) st(3) True by simp
      have dt: "distinct (map fst t)" using run_step.prems st by simp
      show ?thesis
      proof (cases "dict_get (dict_merge t u) ''_routing_decision'' JNull = JStr ''retry''")
        case retry: True
        then have "total_retries t < rf_max_retries cfg" using reflection_routing [OF r dt] by simp
        with IH retry reflection_total [OF r dt] True st show ?thesis by simp
      next
        case False
        then have "dict_get (dict_merge t u) ''_routing_decision'' (JStr ''finalize'') \<noteq> JStr ''retry''"
          using reflection_routing [OF r dt] by blast
        then have "k' = ResponseNode" using st(4) True by (simp add: route_after_reflection_def)
        then have "ReflectionNode \<notin> set ns" using response_ends [OF run_step(2)] st by simp
        with True st show ?thesis by (simp add: count_notin)
      qed
    qed
  qed simp
  from this [OF assms(1)] assms(3) show ?thesis by simp
qed

theorem reflections_bounded_witness:
  "int (count_list [ReflectionNode] ReflectionNode) \<le> max 0 (2 - 0) + 1"
proof -
  let ?cfg = "\<lparr>rf_max_retries = 2, rf_quorum = 1, rf_order = (\<lambda>ks. ks), rf_graph_id = []\<rparr>"
  let ?upd = "\<lambda>n s u. distinct (map fst (dict_merge s u)) \<and> n = ReflectionNode
    \<and> reflection_node (\<lambda>r. []) (\<lambda>t. None) [] ?cfg s = Some u"
  have us: "reflection_updates ?cfg [] = [(''_routing_decision'', JStr ''finalize'')]"
    by (simp add: reflection_updates_def state_strs_def get_strs_def get_list_def get_in_def dict_get_def)
  have "\<exists>u. reflection_node (\<lambda>r. []) (\<lambda>t. None) [] ?cfg [] = Some u"
    unfolding reflection_node_def context_node_def
    by (simp add: from_state_def dict_get_def int_field_def str_of_def str_list_def empty_context_def record_node_def us
        is_global_or_session_key_def reserved_keys_def apply_patch_def patched_snapshot_def remove_keys_def dict_merge_def
        float_or_zero_def int_or_zero_def Let_def)
  then obtain u where u: "reflection_node (\<lambda>r. []) (\<lambda>t. None) [] ?cfg [] = Some u" ..
  have d: "distinct (map fst (dict_merge ([] :: agent_state) u))" by (rule distinct_dict_merge) simp
  have "dict_get (dict_merge [] u) ''_routing_decision'' (JStr ''finalize'') \<noteq> JStr ''retry''"
    using reflection_routing [OF u] by (simp add: state_strs_def get_strs_def get_list_def get_in_def dict_get_def)
  then have "graph_step ?upd 3 (ReflectionNode, []) (ResponseNode, dict_merge [] u)"
    using u d by (simp add: graph_step_iff route_after_reflection_def)
  from run_step [OF this run_here] have r: "graph_run ?upd 3 (ReflectionNode, []) [ReflectionNode] (ResponseNode, dict_merge [] u)"
    by simp
  have "int (count_list [ReflectionNode] ReflectionNode) \<le> max 0 (rf_max_retries ?cfg - total_retries []) + 1"
    by (rule reflections_bounded [OF r]) (auto simp: keeps_retry_count_def)
  then show ?thesis by (simp add: total_retries_def dict_get_def)
qed

text \<open>
  The retry sub-graph, exactly: the failed nodes the graph has and the nodes that depend directly
  on one of them, each as it was.
\<close>

theorem patch_exact:
  assumes "set (rf_order cfg (remdups (fl @ direct_dependents nodes fl))) = set (fl @ direct_dependents nodes fl)"
    and "distinct (map fst nodes)"
  shows "(nid, n) \<in> set (patched_nodes cfg nodes fl) \<longleftrightarrow>
    (nid, n) \<in> set nodes \<and> (nid \<in> set fl \<or> list_ex (\<lambda>d. d \<in> set fl) (dep_list n))"
proof -
  have "(nid, n) \<in> set (patched_nodes cfg nodes fl) \<longleftrightarrow>
      nid \<in> set fl \<union> set (direct_dependents nodes fl) \<and> map_of nodes nid = Some n"
    using assms(1) by (auto simp: patched_nodes_def split: option.splits)
  moreover have "map_of nodes nid = Some n \<longleftrightarrow> (nid, n) \<in> set nodes" using assms(2) by simp
  moreover have "(nid, n) \<in> set nodes \<Longrightarrow> nid \<in> set (direct_dependents nodes fl) \<longleftrightarrow>
      nid \<notin> set fl \<and> list_ex (\<lambda>d. d \<in> set fl) (dep_list n)"
    using assms(2) by (auto simp: direct_dependents_def image_iff) (metis eq_key_imp_eq_value)
  ultimately show ?thesis by auto
qed

theorem patch_exact_witness:
  "(''b'', JDict [(''depends_on'', JList [JStr ''a''])]) \<in> set (patched_nodes
      \<lparr>rf_max_retries = 2, rf_quorum = 1, rf_order = (\<lambda>ks. ks), rf_graph_id = []\<rparr>
      [(''a'', JDict []), (''b'', JDict [(''depends_on'', JList [JStr ''a''])])] [''a''])"
  by (subst patch_exact) (simp_all add: dep_list_def get_in_def dict_get_def insert_absorb)

text \<open>
  When only items of a map node have failed, the sub-graph is empty, because items are no nodes
  of the graph: the retry stores no patch, and the executor runs the whole graph again.
\<close>

theorem failed_items_rerun_whole_graph:
  assumes "reflection_node fs pf stamp cfg s = Some u" and "distinct (map fst s)"
    and "dict_get (dict_merge s u) ''_routing_decision'' JNull = JStr ''retry''"
    and "\<forall>t \<in> set (state_strs s ''_executor_failed''). \<exists>nid i. t = item_id nid i"
    and "\<forall>p \<in> set (graph_node_dict s). \<not> contains_str ''_item_'' (fst p)
        \<and> list_all (\<lambda>d. \<not> contains_str ''_item_'' d) (dep_list (snd p))"
    and "set (rf_order cfg (remdups (tasks_to_retry cfg s))) = set (tasks_to_retry cfg s)"
  shows "executed_graph (dict_merge s u) = dict_get s ''_execution_graph'' JNull"
proof -
  let ?ts = "tasks_to_retry cfg s" and ?nodes = "graph_node_dict s"
  have items: "contains_str ''_item_'' t" if "t \<in> set ?ts" for t
    using that assms(4) item_id_marked by (auto simp: tasks_to_retry_def)
  have none: "direct_dependents ?nodes ?ts = []"
    using assms(5) items by (fastforce simp: direct_dependents_def filter_empty_conv list_ex_iff list_all_iff)
  have "map_of ?nodes t = None" if "t \<in> set ?ts" for t
    using items [OF that] assms(5) by (auto simp: map_of_eq_None_iff)
  then have "patched_nodes cfg ?nodes ?ts = []"
    using assms(6) by (auto simp: patched_nodes_def none)
  then have p: "build_graph_patch cfg ?nodes ?ts = JNull" by (simp add: build_graph_patch_def)
  have us: "reflection_updates cfg s = [(''_routing_decision'', JStr ''retry''), (''_graph_patch'', JNull),
           (''_tool_retry_counts'', JDict (bump_counts s ?ts)), (''_pending_tasks'', JList (map JStr ?ts)),
           (''_total_retry_count'', JInt (total_retries s + 1))]"
    using assms(3) unfolding reflection_routing [OF assms(1,2)] by (simp add: reflection_updates_def p Let_def)
  have look: "map_of (dict_merge s u) k = (case map_of (reflection_updates cfg s) k of Some v \<Rightarrow> Some v | None \<Rightarrow> map_of s k)"
    if "k \<in> {''_graph_patch'', ''_execution_graph''}" for k
    by (rule reflection_state [OF assms(1,2)]) (use that in \<open>auto simp: canonical_keys_def\<close>)
  show ?thesis
    by (simp add: executed_graph_def dict_get_def look us Let_def)
qed

definition failed_item_state :: agent_state where
  "failed_item_state = [(''_executor_failed'', JList [JStr ''m_item_0'']),
     (''_execution_graph'', JDict [(''nodes'', JDict [(''m'', JDict [(''kind'', JStr ''map'')])])])]"

definition demo_reflect :: reflect_cfg where
  "demo_reflect = \<lparr>rf_max_retries = 2, rf_quorum = 1, rf_order = (\<lambda>ks. ks), rf_graph_id = []\<rparr>"

lemma failed_item_facts:
  "state_strs failed_item_state ''_executor_failed'' = [''m_item_0'']"
  "graph_node_dict failed_item_state = [(''m'', JDict [(''kind'', JStr ''map'')])]"
  "total_retries failed_item_state = 0" "tasks_to_retry demo_reflect failed_item_state = [''m_item_0'']"
  "\<not> over_quorum demo_reflect failed_item_state" "distinct (map fst failed_item_state)"
  by (simp_all add: failed_item_state_def demo_reflect_def state_strs_def get_strs_def get_list_def get_in_def dict_get_def
      graph_node_dict_def get_dict_def total_retries_def tasks_to_retry_def retry_count_def over_quorum_def)

lemma failed_item_item: "''m_item_0'' = item_id ''m'' 0"
  by (simp add: item_id_def nat_str.simps char_of_def bit_0 bit_Suc)

theorem failed_items_rerun_whole_graph_witness:
  "\<exists>u. reflection_node (\<lambda>r. []) (\<lambda>t. None) [] demo_reflect failed_item_state = Some u
     \<and> executed_graph (dict_merge failed_item_state u) = dict_get failed_item_state ''_execution_graph'' JNull"
proof -
  have "\<exists>u. reflection_node (\<lambda>r. []) (\<lambda>t. None) [] demo_reflect failed_item_state = Some u"
  proof -
    have c: "from_state [] failed_item_state = Some (empty_context\<lparr>cx_version := 1, cx_parent := 0,
      cx_snapshot := filter (\<lambda>p. keep_field (fst p)) failed_item_state\<rparr>)"
      by (simp add: from_state_def failed_item_state_def dict_get_def int_field_def str_of_def str_list_def empty_context_def)
    have keep: "filter (\<lambda>p. keep_field (fst p)) failed_item_state = failed_item_state"
      by (simp add: failed_item_state_def keep_field_def static_strip_fields_def starts_with_def)
    have us: "reflection_updates demo_reflect failed_item_state = [(''_routing_decision'', JStr ''retry''),
        (''_graph_patch'', build_graph_patch demo_reflect (graph_node_dict failed_item_state) [''m_item_0'']),
        (''_tool_retry_counts'', JDict (bump_counts failed_item_state [''m_item_0''])), (''_pending_tasks'', JList [JStr ''m_item_0'']),
        (''_total_retry_count'', JInt 1)]"
      by (simp add: reflection_updates_def failed_item_facts Let_def) (simp add: demo_reflect_def)
    show ?thesis
      unfolding reflection_node_def context_node_def c option.case Let_def record_node_def
      by (simp add: us keep)
        (simp add: failed_item_state_def is_global_or_session_key_def reserved_keys_def apply_patch_def patched_snapshot_def
          remove_keys_def dict_merge_def dict_get_def float_or_zero_def int_or_zero_def Let_def empty_context_def)
  qed
  then obtain u where u: "reflection_node (\<lambda>r. []) (\<lambda>t. None) [] demo_reflect failed_item_state = Some u" ..
  have "executed_graph (dict_merge failed_item_state u) = dict_get failed_item_state ''_execution_graph'' JNull"
  proof (rule failed_items_rerun_whole_graph [OF u failed_item_facts(6)])
    show "dict_get (dict_merge failed_item_state u) ''_routing_decision'' JNull = JStr ''retry''"
      using reflection_routing [OF u failed_item_facts(6)] failed_item_facts by (simp add: demo_reflect_def)
    show "\<forall>t \<in> set (state_strs failed_item_state ''_executor_failed''). \<exists>nid i. t = item_id nid i"
      using failed_item_item by (auto simp: failed_item_facts)
  qed (simp_all add: failed_item_facts demo_reflect_def starts_with_def dep_list_def get_in_def dict_get_def)
  with u show ?thesis by blast
qed

text \<open>
  Compensation undoes calls that never took place: when the quorum is exceeded, every tool node
  outside the failed tasks is compensated, a node that was skipped included.
\<close>

theorem skipped_tool_compensated:
  assumes "(nid, n) \<in> set (graph_node_dict s)" and "get_str n ''kind'' [] = ''tool''"
    and "nid \<notin> set (state_strs s ''_executor_failed'')" and "lookup (get_str n ''tool_name'' []) = Some op" and "op \<noteq> []"
    and "state_strs s ''_executor_failed'' \<noteq> []" and "total_retries s < rf_max_retries cfg"
    and "tasks_to_retry cfg s \<noteq> []" and "over_quorum cfg s"
  shows "run_compensation registered call op \<lparr>ci_tool = get_str n ''tool_name'' [], ci_inputs = get_dict n ''inputs''\<rparr>
    \<in> set (reflection_compensation lookup registered call cfg s)"
proof -
  let ?it = "\<lparr>ci_tool = get_str n ''tool_name'' [], ci_inputs = get_dict n ''inputs''\<rparr>"
  have "?it \<in> set (compensated_tools (graph_node_dict s) (state_strs s ''_executor_failed''))"
    using assms(1-3) by (force simp: compensated_tools_def)
  moreover have "graph_node_dict s \<noteq> []" using assms(1) by auto
  ultimately show ?thesis
    using assms(4-9) by (force simp: reflection_compensation_def compensate_def Let_def)
qed

theorem skipped_tool_compensated_witness:
  "reflection_compensation (\<lambda>t. Some ''undo'') (\<lambda>op. True) (\<lambda>op ins. Some ''success'') (demo_reflect\<lparr>rf_quorum := 1 / 4\<rparr>)
      [(''_executor_failed'', JList [JStr ''a'']),
       (''_execution_graph'', JDict [(''nodes'', JDict [(''a'', JDict []), (''b'', JDict [(''kind'', JStr ''tool''), (''tool_name'', JStr ''pay'')])])])]
    \<noteq> []"
proof -
  let ?s = "[(''_executor_failed'', JList [JStr ''a'']),
       (''_execution_graph'', JDict [(''nodes'', JDict [(''a'', JDict []), (''b'', JDict [(''kind'', JStr ''tool''), (''tool_name'', JStr ''pay'')])])])]"
  have f: "state_strs ?s ''_executor_failed'' = [''a'']" "total_retries ?s = 0"
    "graph_node_dict ?s = [(''a'', JDict []), (''b'', JDict [(''kind'', JStr ''tool''), (''tool_name'', JStr ''pay'')])]"
    "retry_count ?s ''a'' = 0"
    by (simp_all add: state_strs_def get_strs_def get_list_def get_in_def dict_get_def total_retries_def graph_node_dict_def
        get_dict_def retry_count_def)
  have "run_compensation (\<lambda>op. True) (\<lambda>op ins. Some ''success'') ''undo''
      \<lparr>ci_tool = get_str (JDict [(''kind'', JStr ''tool''), (''tool_name'', JStr ''pay'')]) ''tool_name'' [],
       ci_inputs = get_dict (JDict [(''kind'', JStr ''tool''), (''tool_name'', JStr ''pay'')]) ''inputs''\<rparr>
    \<in> set (reflection_compensation (\<lambda>t. Some ''undo'') (\<lambda>op. True) (\<lambda>op ins. Some ''success'') (demo_reflect\<lparr>rf_quorum := 1 / 4\<rparr>) ?s)"
    by (rule skipped_tool_compensated [of "''b''"])
      (simp_all add: f tasks_to_retry_def over_quorum_def demo_reflect_def get_str_def get_in_def dict_get_def)
  then show ?thesis by (metis empty_iff empty_set)
qed

text \<open>
  Every compensated tool with a compensating operation gets exactly one row, in the order of the
  plan.  But no compensating operation is ever executed: building its context fails, and every row
  ends as failed whatever the operation would have done.
\<close>

theorem compensation_never_executes:
  "map (\<lambda>r. (cr_tool r, cr_operation r, cr_inputs r, cr_status r)) (compensate lookup registered call items)
     = concat (map (\<lambda>it. case lookup (ci_tool it) of None \<Rightarrow> []
         | Some op \<Rightarrow> if op = [] then [] else [(ci_tool it, op, ci_inputs it, ''failed'')]) items)"
  by (induction items)
    (auto simp: compensate_def run_compensation_def context_accepts_def context_fields_def split: option.splits)

end
