(* ===== verification/Turn.thy ===== *)
theory Turn
  imports Reflection Approval
begin

text \<open>
  How a turn starts: \<open>AgentRunner.invoke\<close> (\<open>agent/runner.py\<close>) and the message reducer of
  \<open>agent/state_schema.py\<close>.  The checkpoint of a session holds the value of every channel; the
  graph merges the initial state of the turn into it, messages through their reducer.  The run lock
  is the Redis key of the session with its token and expiry.  Fresh message ids, the invocation id,
  the compatibility contract and the budget are parameters.
\<close>

section \<open>Messages\<close>

definition msg_id :: "json \<Rightarrow> string" where
  "msg_id m = (case get_in m ''id'' (JStr []) of JStr t \<Rightarrow> t | _ \<Rightarrow> [])"

definition is_milestone :: "json \<Rightarrow> bool" where
  "is_milestone m = (truthy (get_in m ''_milestone'' (JBool False)) \<or> truthy (get_in m ''milestone'' (JBool False)))"

text \<open>\<open>m.setdefault("id", str(uuid.uuid4()))\<close>; \<open>fresh i\<close> is the id drawn for position \<open>i\<close>.\<close>

definition ensure_id :: "(nat \<Rightarrow> string) \<Rightarrow> nat \<Rightarrow> json \<Rightarrow> json" where
  "ensure_id fresh i m = (case m of
      JDict d \<Rightarrow> if dict_has d ''id'' then m else JDict (AList.update ''id'' (JStr (fresh i)) d)
    | _ \<Rightarrow> m)"

text \<open>A message replaces the one with its id and is appended otherwise.\<close>

fun put_message :: "json list \<Rightarrow> json \<Rightarrow> json list" where
  "put_message [] m = [m]"
| "put_message (x # xs) m = (if msg_id m \<noteq> [] \<and> msg_id x = msg_id m then m # xs else x # put_message xs m)"

text \<open>The last ten messages, and the milestones among the older ones.\<close>

definition message_window :: "json list \<Rightarrow> json list" where
  "message_window ms = filter is_milestone (take (length ms - 10) ms) @ drop (length ms - 10) ms"

definition messages_reducer :: "(nat \<Rightarrow> string) \<Rightarrow> json list \<Rightarrow> json list \<Rightarrow> json list" where
  "messages_reducer fresh cur upd =
    (let full = cur @ upd in
     message_window (foldl put_message [] (map (\<lambda>(i, m). ensure_id fresh i m) (enumerate 0 full))))"

section \<open>The initial state of a turn\<close>

record turn_env =
  te_session :: string
  te_message :: string
  te_invocation :: string
  te_contract :: "json dict"
  te_budget :: json
  te_user :: "json dict"

definition ephemeral_fields :: "string list" where
  "ephemeral_fields = [''_routing_decision'', ''_tool_executed_in_turn'', ''_safety_result'', ''tool_results'', ''errors'',
     ''_invocation_id'', ''_query_type'', ''_force_query_type'', ''_goals'', ''_needs_requirements'', ''_preferred_tools'',
     ''_plan_validator_report'', ''_plan_validator_action'', ''_plan_validator_errors'', ''_plan_validator_rounds'',
     ''_compile_errors'', ''_compile_retry_count'', ''_invocation_budget'', ''_invocation_status'', ''_response_coverage'',
     ''_execution_strategy'', ''_execution_strategy_reasons'', ''_background_execution'', ''_background_task_id'',
     ''_execution_plan'', ''_needs_replan'', ''_replan_rounds'', ''_replan_context'', ''_recovery_decision'',
     ''_recovery_action'', ''_approval_denied_blocking'', ''_executor_failed'', ''_executor_all_success'',
     ''_tool_retry_counts'', ''_pending_tasks'', ''_context_snapshot'', ''_extraction_result'', ''_validation_result'',
     ''_binding_report'', ''_detected_intents'', ''_response_status'', ''_map_degradations'', ''_planner_latency_ms'',
     ''_planner_chunk_timing'', ''_resolution_suppressions'', ''_ready_to_plan'', ''_needs_clarification'',
     ''_clarification_asked'', ''_needs_approval'', ''_pending_approval_tools'', ''_approval_granted'',
     ''_recovery_available'', ''_recovery_failed_tasks'', ''_total_retry_count'', ''_total_tokens'', ''_cost_breakdown'',
     ''_approval_decision'', ''_approval_requested_at'', ''_approval_chain_state'', ''_clarification_slots'',
     ''_clarification_rounds'', ''_clarification_history'', ''_clarification_consumed_msgs'', ''_route_to_planner'',
     ''_route_to_compiler'', ''_bypass_workflow'', ''_route_to_router'', ''_route_to_gate'', ''_domain_hint'',
     ''_structured_payload'', ''_synthesis_failed'', ''_stage_metrics'', ''_execution_events'', ''_budget_exceeded'']"

text \<open>\<open>checkpoint_contract_ok\<close>: whether the checkpoint may be resumed.\<close>

definition contract_ok :: "json dict \<Rightarrow> agent_state \<Rightarrow> bool" where
  "contract_ok cur s = (case dict_get s ''_contract_meta'' JNull of
      JDict m \<Rightarrow> m \<noteq> [] \<and> dict_get m ''arch_fp'' JNull = dict_get cur ''arch_fp'' JNull
        \<and> dict_get m ''state_schema'' JNull = dict_get cur ''state_schema'' JNull
    | _ \<Rightarrow> False)"

text \<open>The literal part of the initial state; \<open>prior\<close> is \<open>prior_state.values\<close> without its ephemeral fields.\<close>

definition reset_fields :: "turn_env \<Rightarrow> agent_state \<Rightarrow> agent_state" where
  "reset_fields env prior =
    [(''session_id'', JStr (te_session env)), (''gathered_requirements'', dict_get prior ''gathered_requirements'' (JDict [])),
     (''_tool_executed_in_turn'', JBool False), (''iteration_count'', JInt 0), (''tool_results'', JList []),
     (''final_response'', JNull), (''intent'', JNull), (''errors'', JList []), (''intent_analysis'', JNull),
     (''response_type'', JStr ''tool''), (''reflection_feedback'', JStr []),
     (''working_memory'', dict_get prior ''working_memory'' (JDict [(''entries'', JList [])])),
     (''total_cost_usd'', JFloat 0), (''_cost_breakdown'', JDict []), (''_total_tokens'', JInt 0),
     (''_routing_decision'', JStr ''continue''),
     (''_safety_result'', JDict [(''passed'', JBool True), (''action'', JStr ''allow''), (''reason'', JStr [])]),
     (''_query_type'', JStr ''action''), (''_goals'', JList [JStr ''action'']), (''_needs_requirements'', JBool False),
     (''_force_query_type'', JStr []), (''_preferred_tools'', JList []), (''_executor_failed'', JList []),
     (''_executor_all_success'', JBool True), (''_tool_retry_counts'', JDict []), (''_pending_tasks'', JList []),
     (''_approval_granted'', JBool False), (''_approval_decision'', JNull), (''_needs_approval'', JBool False),
     (''_approval_chain_state'', JNull), (''_pending_approval_tools'', JList []), (''_approval_requested_at'', JNull),
     (''_approval_pending'', JNull), (''_approval_checkpoint_context'', JNull), (''_approval_modification'', JNull),
     (''_bypass_workflow'', JBool False), (''_route_to_compiler'', JBool False), (''_route_to_planner'', JBool False),
     (''_domain_hint'', JNull), (''_invocation_id'', JStr (te_invocation env)), (''_contract_meta'', JDict (te_contract env)),
     (''_invocation_budget'', te_budget env), (''_invocation_status'', JStr ''RUNNING'')]"

definition approval_keys :: "string list" where
  "approval_keys = [''_approval_pending'', ''_approval_checkpoint_context'', ''_approval_modification'']"

text \<open>What is carried over explicitly: an open approval, and the context of a workflow.\<close>

definition carried_fields :: "agent_state \<Rightarrow> agent_state" where
  "carried_fields prior = filter (\<lambda>p. (fst p \<in> set approval_keys \<and> snd p \<noteq> JNull)
      \<or> ((fst p = ''_active_workflow_id'' \<or> starts_with ''_workflow_'' (fst p)) \<and> fst p \<notin> set ephemeral_fields)) prior"

definition user_context_field :: "turn_env \<Rightarrow> agent_state" where
  "user_context_field env = (if te_user env = [] then [] else [(''user_context'', JDict (te_user env))])"

definition initial_fields :: "turn_env \<Rightarrow> agent_state \<Rightarrow> agent_state" where
  "initial_fields env prior = dict_merge (dict_merge (reset_fields env prior) (user_context_field env)) (carried_fields prior)"

definition user_message :: "turn_env \<Rightarrow> json list \<Rightarrow> json" where
  "user_message env prior_msgs = JDict ([(''role'', JStr ''user''), (''content'', JStr (te_message env))] @
     (if prior_msgs = [] then [(''_milestone'', JBool True)] else []))"

text \<open>
  The channels when the graph is entered, from the checkpoint \<open>cp\<close> (empty for a new session).
  A refused checkpoint is treated as absent, after its messages channel was updated with no message.
\<close>

definition terminal_reset_needed :: "agent_state \<Rightarrow> bool" where
  "terminal_reset_needed s = (dict_get s ''_invocation_status'' JNull \<in>
     JStr ` set [''CANCELLED'', ''TIMED_OUT'', ''INTERRUPTED'', ''FAILED''])"

definition reset_checkpoint :: "turn_env \<Rightarrow> (nat \<Rightarrow> string) \<Rightarrow> agent_state \<Rightarrow> agent_state" where
  "reset_checkpoint env fresh cp = (if cp = [] then cp
     else if \<not> contract_ok (te_contract env) cp
     then dict_merge cp [(''messages'', JList (messages_reducer fresh (get_list (JDict cp) ''messages'') [])),
            (''_contract_meta'', JDict (te_contract env))]
     else if terminal_reset_needed cp then dict_merge cp [(''_invocation_status'', JStr ''COMPLETED'')]
     else cp)"

text \<open>\<open>prior_state.values\<close> once its ephemeral fields were removed; nothing for a refused checkpoint.\<close>

definition prior_fields :: "turn_env \<Rightarrow> agent_state \<Rightarrow> agent_state" where
  "prior_fields env cp = (if cp \<noteq> [] \<and> contract_ok (te_contract env) cp
     then filter (\<lambda>p. fst p \<notin> set ephemeral_fields) cp else [])"

definition turn_start :: "turn_env \<Rightarrow> (nat \<Rightarrow> string) \<Rightarrow> agent_state \<Rightarrow> agent_state" where
  "turn_start env fresh cp =
    (let resumed = cp \<noteq> [] \<and> contract_ok (te_contract env) cp;
         msgs = (if resumed then get_list (JDict cp) ''messages'' else []);
         cp' = reset_checkpoint env fresh cp in
     dict_merge (dict_merge cp' (initial_fields env (prior_fields env cp)))
       [(''messages'', JList (messages_reducer fresh (get_list (JDict cp') ''messages'') (msgs @ [user_message env msgs])))])"

section \<open>The run lock\<close>

text \<open>The key \<open>lock:agent_run:<session>\<close>: its token and the second at which it expires.\<close>

type_synonym lock_key = "(string \<times> int) option"

definition lock_live :: "int \<Rightarrow> lock_key \<Rightarrow> bool" where
  "lock_live now k = (case k of None \<Rightarrow> False | Some (t, e) \<Rightarrow> now < e)"

text \<open>The flag \<open>up\<close> tells whether Redis answers; when it does not, the run proceeds without lock.\<close>

definition try_acquire_lock :: "bool \<Rightarrow> string \<Rightarrow> int \<Rightarrow> int \<Rightarrow> lock_key \<Rightarrow> bool \<times> lock_key" where
  "try_acquire_lock up token ttl now k = (if \<not> up then (True, k)
     else if lock_live now k then (False, k) else (True, Some (token, now + ttl)))"

definition owns_lock :: "string \<Rightarrow> int \<Rightarrow> lock_key \<Rightarrow> bool" where
  "owns_lock token now k = (lock_live now k \<and> map_option fst k = Some token)"

text \<open>One tick of the renewal, and whether the loop goes on.\<close>

definition renew_lock :: "bool \<Rightarrow> string \<Rightarrow> int \<Rightarrow> int \<Rightarrow> lock_key \<Rightarrow> bool \<times> lock_key" where
  "renew_lock up token ttl now k = (if \<not> up then (True, k) else if owns_lock token now k then (True, Some (token, now + ttl)) else (False, k))"

definition release_lock :: "bool \<Rightarrow> string \<Rightarrow> int \<Rightarrow> lock_key \<Rightarrow> lock_key" where
  "release_lock up token now k = (if up \<and> owns_lock token now k then None else k)"

text \<open>The operations of several runs on the key, each with its time.\<close>

datatype lock_op = Acquire bool string int | Renew bool string int | Release bool string int

fun lock_step :: "int \<Rightarrow> lock_key \<Rightarrow> lock_op \<Rightarrow> lock_key" where
  "lock_step ttl k (Acquire up t now) = snd (try_acquire_lock up t ttl now k)"
| "lock_step ttl k (Renew up t now) = snd (renew_lock up t ttl now k)"
| "lock_step ttl k (Release up t now) = release_lock up t now k"

fun op_time :: "lock_op \<Rightarrow> int" where
  "op_time (Acquire up t now) = now" | "op_time (Renew up t now) = now" | "op_time (Release up t now) = now"

section \<open>Lemmas: messages\<close>

definition distinct_ids :: "json list \<Rightarrow> bool" where
  "distinct_ids ms = distinct (map msg_id (filter (\<lambda>m. msg_id m \<noteq> []) ms))"

lemma ids_put: "msg_id ` set (put_message xs m) = insert (msg_id m) (msg_id ` set xs)"
  by (induction xs m rule: put_message.induct) auto

lemma put_append: "msg_id m = [] \<or> msg_id m \<notin> msg_id ` set xs \<Longrightarrow> put_message xs m = xs @ [m]"
  by (induction xs m rule: put_message.induct) auto

lemma put_present: "m \<in> set xs \<Longrightarrow> msg_id m \<noteq> [] \<Longrightarrow> distinct_ids xs \<Longrightarrow> put_message xs m = xs"
proof (induction xs m rule: put_message.induct)
  case (2 x xs m)
  then show ?case by (fastforce simp: distinct_ids_def split: if_splits)
qed simp

lemma distinct_ids_Cons:
  "distinct_ids (x # xs) \<longleftrightarrow> distinct_ids xs \<and> (msg_id x = [] \<or> msg_id x \<notin> msg_id ` set xs)"
  by (force simp: distinct_ids_def)

lemma distinct_ids_Nil [simp]: "distinct_ids []"
  by (simp add: distinct_ids_def)

lemma distinct_ids_put: "distinct_ids xs \<Longrightarrow> distinct_ids (put_message xs m)"
  by (induction xs m rule: put_message.induct) (simp_all add: distinct_ids_Cons ids_put, auto)

lemma distinct_ids_append:
  "distinct_ids (xs @ ys) \<longleftrightarrow> distinct_ids xs \<and> distinct_ids ys \<and> (\<forall>x \<in> set xs. msg_id x = [] \<or> msg_id x \<notin> msg_id ` set ys)"
  by (induction xs) (auto simp: distinct_ids_Cons)

lemma distinct_ids_filter: "distinct_ids xs \<Longrightarrow> distinct_ids (filter P xs)"
  by (induction xs) (auto simp: distinct_ids_Cons)

lemma distinct_ids_foldl: "distinct_ids xs \<Longrightarrow> distinct_ids (foldl put_message xs ms)"
  by (induction ms arbitrary: xs) (simp_all add: distinct_ids_put)

lemma foldl_put_distinct: "distinct_ids (xs @ ms) \<Longrightarrow> foldl put_message xs ms = xs @ ms"
proof (induction ms arbitrary: xs)
  case (Cons m ms)
  then have "put_message xs m = xs @ [m]" by (intro put_append) (auto simp: distinct_ids_append distinct_ids_Cons)
  with Cons show ?case by simp
qed simp

lemma foldl_put_present:
  "distinct_ids xs \<Longrightarrow> set ms \<subseteq> set xs \<Longrightarrow> list_all (\<lambda>m. msg_id m \<noteq> []) ms \<Longrightarrow> foldl put_message xs ms = xs"
  by (induction ms) (simp_all add: put_present)

lemma set_put: "set (put_message xs m) \<subseteq> insert m (set xs)"
  by (induction xs m rule: put_message.induct) auto

lemma set_foldl_put: "set (foldl put_message xs ms) \<subseteq> set xs \<union> set ms"
proof (induction ms arbitrary: xs)
  case (Cons m ms)
  from Cons.IH [of "put_message xs m"] set_put [of xs m] show ?case by auto
qed simp

lemma window_parts:
  "distinct_ids ms \<Longrightarrow> distinct_ids (message_window ms)" "set (message_window ms) \<subseteq> set ms"
proof -
  assume "distinct_ids ms"
  then have "distinct_ids (take (length ms - 10) ms @ drop (length ms - 10) ms)" by simp
  then show "distinct_ids (message_window ms)"
    unfolding message_window_def distinct_ids_append by (auto simp: distinct_ids_filter)
qed (auto simp: message_window_def dest: in_set_takeD in_set_dropD)

lemma window_idem: "message_window (message_window ms) = message_window ms"
proof (cases "length ms \<le> 10")
  case False
  let ?a = "filter is_milestone (take (length ms - 10) ms)" and ?b = "drop (length ms - 10) ms"
  have w: "message_window ms = ?a @ ?b" "length (?a @ ?b) - 10 = length ?a"
    using False by (simp_all add: message_window_def)
  show ?thesis unfolding w(1) by (subst message_window_def) (simp add: w(2) del: length_append)
qed (simp add: message_window_def)

text \<open>Messages that already carry an id are taken as they are.\<close>

definition has_id_key :: "json \<Rightarrow> bool" where
  "has_id_key m = (case m of JDict d \<Rightarrow> dict_has d ''id'' | _ \<Rightarrow> True)"

lemma ensure_has_id [simp]: "has_id_key (ensure_id f i m)"
  by (auto simp: has_id_key_def ensure_id_def dict_has_iff keys_update split: json.splits)

lemma ensure_same: "has_id_key m \<Longrightarrow> ensure_id f i m = m"
  by (auto simp: has_id_key_def ensure_id_def split: json.splits)

lemma map_ensure_same:
  "list_all has_id_key ms \<Longrightarrow> map (\<lambda>(i, m). ensure_id f i m) (enumerate n ms) = ms"
  by (induction ms arbitrary: n) (simp_all add: ensure_same)

lemma reducer_has_ids: "list_all has_id_key (messages_reducer f cur upd)" "distinct_ids (messages_reducer f cur upd)"
proof -
  let ?ms = "map (\<lambda>(i, m). ensure_id f i m) (enumerate 0 (cur @ upd))"
  have "set (messages_reducer f cur upd) \<subseteq> set ?ms"
    using window_parts(2) set_foldl_put [of "[]" ?ms] unfolding messages_reducer_def Let_def by fastforce
  then show "list_all has_id_key (messages_reducer f cur upd)" by (auto simp: list_all_iff)
  show "distinct_ids (messages_reducer f cur upd)"
    unfolding messages_reducer_def Let_def by (intro window_parts distinct_ids_foldl) (simp add: distinct_ids_def)
qed

text \<open>A history as the reducer leaves it, each message with an id.\<close>

definition history :: "json list \<Rightarrow> bool" where
  "history ms = (list_all (\<lambda>m. has_id_key m \<and> msg_id m \<noteq> []) ms \<and> distinct_ids ms \<and> message_window ms = ms)"

lemma reduce_append:
  assumes "history ms" and "msg_id m' \<noteq> []" and "msg_id m' \<notin> msg_id ` set ms"
    and "m' = ensure_id f (length ms + length us) m" and "us = [] \<or> us = ms"
  shows "messages_reducer f ms (us @ [m]) = message_window (ms @ [m'])"
proof -
  have k: "list_all has_id_key ms" "list_all (\<lambda>m. msg_id m \<noteq> []) ms" "distinct_ids ms"
    using assms(1) by (auto simp: history_def list_all_iff)
  have "map (\<lambda>(i, m). ensure_id f i m) (enumerate 0 ((ms @ us) @ [m])) = (ms @ us) @ [m']"
    using map_ensure_same [of "ms @ us" f 0] k(1) assms(4,5) by (auto simp: enumerate_append_eq)
  moreover have "foldl put_message [] (ms @ us) = ms"
    using foldl_put_distinct [of "[]" ms] foldl_put_present [of ms us] k assms(5) by auto
  moreover have "put_message ms m' = ms @ [m']" using assms(3) by (intro put_append) simp
  ultimately show ?thesis by (simp add: messages_reducer_def)
qed


section \<open>Lemmas: the start of a turn\<close>

lemma start_messages:
  "get_list (JDict (turn_start env f cp)) ''messages'' =
    (let resumed = cp \<noteq> [] \<and> contract_ok (te_contract env) cp;
         msgs = (if resumed then get_list (JDict cp) ''messages'' else []) in
     messages_reducer f (get_list (JDict (reset_checkpoint env f cp)) ''messages'') (msgs @ [user_message env msgs]))"
  by (simp add: turn_start_def Let_def get_list_def get_in_def dict_get_def map_of_dict_merge)

lemma approval_keys_in: "k \<in> set approval_keys \<Longrightarrow> k \<in> fst ` set (reset_fields env prior)"
  by (auto simp: approval_keys_def reset_fields_def)

lemma reset_keys: "fst ` set (reset_fields env prior) = fst ` set (reset_fields env [])"
  by (simp add: reset_fields_def)

lemma map_of_merge_other: "k \<notin> fst ` set u \<Longrightarrow> map_of (dict_merge s u) k = map_of s k"
  by (induction u arbitrary: s) (auto simp: dict_merge_def map_of_update)

lemma initial_keys:
  "fst ` set (initial_fields env prior) \<subseteq>
    fst ` set (reset_fields env prior) \<union> {''user_context'', ''_active_workflow_id''} \<union> {k. starts_with ''_workflow_'' k}"
  by (auto simp: initial_fields_def keys_dict_merge user_context_field_def carried_fields_def approval_keys_in)

lemma start_lookup:
  assumes "k \<notin> fst ` set (initial_fields env (prior_fields env cp))"
    and "k \<notin> {''messages'', ''_contract_meta'', ''_invocation_status''}"
  shows "dict_get (turn_start env f cp) k d = dict_get cp k d"
proof -
  have "dict_get (reset_checkpoint env f cp) k d = dict_get cp k d"
    using assms(2) by (simp add: reset_checkpoint_def dict_get_merge_other)
  with assms show ?thesis by (simp add: turn_start_def Let_def dict_get_merge_other)
qed

lemma start_unreset:
  assumes "k \<notin> fst ` set (reset_fields env [])" and "k \<noteq> ''user_context''" and "k \<noteq> ''_active_workflow_id''"
    and "\<not> starts_with ''_workflow_'' k" and "k \<noteq> ''messages''"
  shows "dict_get (turn_start env f cp) k d = dict_get cp k d"
proof (rule start_lookup)
  have "k \<notin> fst ` set (reset_fields env (prior_fields env cp))"
    using assms(1) unfolding reset_keys [of env "prior_fields env cp"] .
  with assms(2-4) initial_keys [of env "prior_fields env cp"]
  show "k \<notin> fst ` set (initial_fields env (prior_fields env cp))" by auto
  have "''_contract_meta'' \<in> fst ` set (reset_fields env [])" "''_invocation_status'' \<in> fst ` set (reset_fields env [])"
    by (simp_all add: reset_fields_def)
  with assms(1,5) show "k \<notin> {''messages'', ''_contract_meta'', ''_invocation_status''}" by (metis insertE emptyE)
qed

lemma start_distinct: "distinct (map fst cp) \<Longrightarrow> distinct (map fst (turn_start env f cp))"
  by (simp add: turn_start_def Let_def distinct_dict_merge reset_checkpoint_def)

lemma reset_lookup:
  "k \<noteq> ''gathered_requirements'' \<Longrightarrow> k \<noteq> ''working_memory'' \<Longrightarrow>
    map_of (reset_fields env prior) k = map_of (reset_fields env []) k"
  by (simp add: reset_fields_def)

text \<open>A field that is reset, approvals and the two carried records apart, has its literal value.\<close>

lemma start_reset:
  assumes "map_of (reset_fields env []) k = Some v" and "k \<notin> set approval_keys"
    and "k \<noteq> ''gathered_requirements''" and "k \<noteq> ''working_memory''" and "k \<noteq> ''messages''" and "k \<noteq> ''user_context''"
    and "k \<noteq> ''_active_workflow_id''" and "\<not> starts_with ''_workflow_'' k"
  shows "dict_get (turn_start env f cp) k d = v"
proof -
  let ?prior = "prior_fields env cp"
  have "k \<notin> fst ` set (carried_fields ?prior)" using assms by (auto simp: carried_fields_def)
  moreover have "k \<notin> fst ` set (user_context_field env)" using assms by (auto simp: user_context_field_def)
  moreover have "map_of (reset_fields env ?prior) k = Some v"
    using trans [OF reset_lookup [OF assms(3,4), of env ?prior] assms(1)] .
  ultimately have i: "map_of (initial_fields env ?prior) k = Some v"
    by (simp add: initial_fields_def map_of_merge_other)
  have "distinct (map fst (reset_fields env ?prior))" by (simp add: reset_fields_def)
  then have "distinct (map fst (initial_fields env ?prior))" by (simp add: initial_fields_def distinct_dict_merge)
  then have "map_of (dict_merge (reset_checkpoint env f cp) (initial_fields env ?prior)) k = Some v"
    by (simp add: map_of_dict_merge i)
  with assms(5) show ?thesis
    by (simp add: turn_start_def Let_def dict_get_merge_other dict_get_Some)
qed

lemma reducer_nil: "history ms \<Longrightarrow> messages_reducer f ms [] = ms"
  using map_ensure_same [of ms f 0] foldl_put_distinct [of "[]" ms]
  by (simp add: messages_reducer_def history_def list_all_iff)

lemma user_message_id: "msg_id (ensure_id f i (user_message env ms)) = f i"
  by (simp add: user_message_def ensure_id_def msg_id_def get_in_def dict_get_def dict_has_def)

section \<open>Properties\<close>

text \<open>
  The message reducer is idempotent: merging nothing into what it returned changes nothing, ids
  stay unique, and neither the window of ten nor the milestones before it are lost by repetition.
\<close>

theorem reducer_idempotent:
  "messages_reducer f (messages_reducer g cur upd) [] = messages_reducer g cur upd"
proof -
  let ?h = "messages_reducer g cur upd"
  have "messages_reducer f ?h [] = message_window ?h"
    using map_ensure_same [OF reducer_has_ids(1) [of g cur upd], of f 0] foldl_put_distinct [of "[]" ?h]
      reducer_has_ids(2) [of g cur upd]
    by (simp add: messages_reducer_def [of f])
  moreover have "message_window ?h = ?h"
    by (simp add: messages_reducer_def Let_def window_idem)
  ultimately show ?thesis by simp
qed

text \<open>
  C40: A checkpoint refused by the compatibility contract is meant to start the conversation clean, but
  the messages channel is updated with no message, which its reducer merges into the old ones: the
  turn starts with the same history as a resumed one.
\<close>

theorem refused_checkpoint_keeps_history:
  assumes "history ms" and "ms = get_list (JDict cp) ''messages''" and "ms \<noteq> []"
    and "f (length ms) = uid" and "f (2 * length ms) = uid" and "uid \<noteq> []" and "uid \<notin> msg_id ` set ms"
  shows "\<exists>m. msg_id m = uid \<and> get_list (JDict (turn_start env f cp)) ''messages'' = message_window (ms @ [m])"
proof -
  have cp: "cp \<noteq> []" using assms(2,3) by (auto simp: get_list_def get_in_def dict_get_def)
  show ?thesis
  proof (cases "contract_ok (te_contract env) cp")
    case True
    let ?m = "ensure_id f (2 * length ms) (user_message env ms)"
    have "get_list (JDict (reset_checkpoint env f cp)) ''messages'' = ms"
      using assms(2) cp True by (simp add: reset_checkpoint_def get_list_def get_in_def dict_get_merge_other)
    then have "get_list (JDict (turn_start env f cp)) ''messages'' = messages_reducer f ms (ms @ [user_message env ms])"
      using assms(2) cp True by (simp add: start_messages Let_def)
    also have "\<dots> = message_window (ms @ [?m])"
      using assms by (intro reduce_append) (simp_all add: user_message_id mult_2)
    finally show ?thesis using assms(5) user_message_id by metis
  next
    case False
    let ?m = "ensure_id f (length ms) (user_message env [])"
    have "get_list (JDict (reset_checkpoint env f cp)) ''messages'' = ms"
      using assms(1,2) cp False
      by (simp add: reset_checkpoint_def get_list_def get_in_def dict_get_def map_of_dict_merge)
        (metis reducer_nil)
    then have "get_list (JDict (turn_start env f cp)) ''messages'' = messages_reducer f ms ([] @ [user_message env []])"
      using cp False by (simp add: start_messages Let_def)
    also have "\<dots> = message_window (ms @ [?m])"
      using assms by (intro reduce_append) (simp_all add: user_message_id)
    finally show ?thesis using assms(4) user_message_id by metis
  qed
qed

theorem refused_checkpoint_keeps_history_witness:
  "let env = \<lparr>te_session = ''s'', te_message = ''hi'', te_invocation = ''i'', te_contract = [(''arch_fp'', JStr ''a'')],
       te_budget = JNull, te_user = []\<rparr>;
       ms = [JDict [(''id'', JStr ''1''), (''role'', JStr ''user'')]] in
   \<exists>m. msg_id m = ''u'' \<and> get_list (JDict (turn_start env (\<lambda>i. ''u'') [(''messages'', JList ms)])) ''messages'' = message_window (ms @ [m])"
  unfolding Let_def
  by (rule refused_checkpoint_keeps_history)
    (simp_all add: history_def has_id_key_def dict_has_def msg_id_def get_in_def dict_get_def distinct_ids_def
      message_window_def get_list_def)

text \<open>
  What a new turn inherits: retry, replan and validation counters, the retry sub-graph, the
  routing flag of the approval gate and the background flag keep the values of the previous
  turn, although the state schema documents them as cleared between turns.
\<close>

theorem turn_inherits_control_state:
  "list_all (\<lambda>k. dict_get (turn_start env f cp) k d = dict_get cp k d)
    [''_total_retry_count'', ''_replan_rounds'', ''_plan_validator_rounds'', ''_graph_patch'', ''_route_to_gate'',
     ''_background_execution'', ''_execution_graph'', ''_ready_to_plan'', ''_compile_retry_count'']"
  by (simp add: start_unreset reset_fields_def starts_with_def)

text \<open>
  C24: So the global retry cap counts over the life of the session: once it is reached, every
  reflection of every later turn gives up.
\<close>

theorem retry_cap_outlives_turn:
  assumes "rf_max_retries cfg \<le> total_retries cp" and "distinct (map fst cp)"
    and "graph_run upd m (n, turn_start env f cp) ns (ReflectionNode, s)"
    and "keeps_retry_count upd" and "\<forall>s u. upd ReflectionNode s u \<longrightarrow> reflection_node fs pf stamp cfg s = Some u"
    and "upd ReflectionNode s u"
  shows "route_after_reflection (dict_merge s u) = ResponseNode"
proof -
  let ?P = "\<lambda>c. rf_max_retries cfg \<le> total_retries (snd c) \<and> distinct (map fst (snd c))"
  have "dict_get (turn_start env f cp) ''_total_retry_count'' (JInt 0) = dict_get cp ''_total_retry_count'' (JInt 0)"
    by (rule start_unreset) (simp_all add: reset_fields_def starts_with_def)
  then have start: "?P (n, turn_start env f cp)"
    using assms(1,2) by (simp add: total_retries_def start_distinct)
  have "?P c'" if P: "?P c" and st: "graph_step upd m c c'" for c c'
  proof -
    obtain j t u' j' where c: "c = (j, t)" "c' = (j', dict_merge t u')" "upd j t u'" using st by (auto elim: graph_stepE)
    with assms(4) have d: "distinct (map fst (dict_merge t u'))" by (auto simp: keeps_retry_count_def)
    have "total_retries t \<le> total_retries (dict_merge t u')"
    proof (cases "j = ReflectionNode")
      case True
      with assms(5) c have "reflection_node fs pf stamp cfg t = Some u'" by simp
      from reflection_total [OF this] P c show ?thesis by simp
    qed (use assms(4) c in \<open>auto simp: keeps_retry_count_def\<close>)
    with P c d show ?thesis by simp
  qed
  then have "?P (ReflectionNode, s)" using run_from_set [OF assms(3), of ?P] start by blast
  moreover have "reflection_node fs pf stamp cfg s = Some u" using assms(5,6) by simp
  ultimately have "dict_get (dict_merge s u) ''_routing_decision'' (JStr ''finalize'') \<noteq> JStr ''retry''"
    by (simp add: reflection_routing)
  then show ?thesis by (simp add: route_after_reflection_def)
qed

theorem retry_cap_outlives_turn_witness:
  "\<exists>s u. dict_get s ''_total_retry_count'' JNull = JInt 2 \<and> route_after_reflection (dict_merge s u) = ResponseNode"
proof -
  let ?env = "\<lparr>te_session = [], te_message = [], te_invocation = [], te_contract = [], te_budget = JNull, te_user = []\<rparr>"
  let ?s = "turn_start ?env (\<lambda>i. []) [(''_total_retry_count'', JInt 2)]"
  let ?refl = "reflection_node (\<lambda>r. []) (\<lambda>t. Some 0) [] demo_reflect"
  let ?upd = "\<lambda>n s u. distinct (map fst (dict_merge s u)) \<and> n = ReflectionNode \<and> ?refl s = Some u"
  have c: "dict_get ?s ''_total_retry_count'' JNull = JInt 2"
    by (subst start_unreset) (simp_all add: reset_fields_def starts_with_def dict_get_def)
  have no_keys: "list_all (\<lambda>k. \<not> is_global_or_session_key k \<and> k \<noteq> ''_cost_estimate'' \<and> k \<noteq> ''_latency_estimate_ms'')
      (map fst (reflection_updates demo_reflect t))" for t
    by (simp add: reflection_updates_def finalize_updates_def is_global_or_session_key_def reserved_keys_def Let_def)
  have "\<exists>u. ?refl ?s = Some u"
    unfolding reflection_node_def
    by (rule context_node_runs)
      (simp_all add: start_unreset start_reset reset_fields_def approval_keys_def starts_with_def no_keys,
        simp_all add: dict_get_def)
  then have "\<exists>u. ?upd ReflectionNode ?s u" by (simp add: distinct_dict_merge start_distinct)
  then obtain u where u: "?upd ReflectionNode ?s u" ..
  have "route_after_reflection (dict_merge ?s u) = ResponseNode"
  proof (rule retry_cap_outlives_turn [OF _ _ run_here [of ?upd 0 "(ReflectionNode, ?s)"]])
    show "rf_max_retries demo_reflect \<le> total_retries [(''_total_retry_count'', JInt 2)]"
      by (simp add: demo_reflect_def total_retries_def dict_get_def)
    show "\<forall>s u. ?upd ReflectionNode s u \<longrightarrow> ?refl s = Some u" by blast
    show "?upd ReflectionNode ?s u" by (rule u)
  qed (auto simp: keeps_retry_count_def)
  with c show ?thesis by blast
qed

text \<open>
  C25: No approval outlives its turn: a new turn starts without grant, decision or completed steps, so
  that every step of a policy is open again.  Only the pending request is carried over.
\<close>

theorem turn_starts_unapproved:
  "dict_get (turn_start env f cp) ''_approval_granted'' (JBool True) = JBool False
   \<and> dict_get (turn_start env f cp) ''_approval_decision'' JNull = JNull
   \<and> steps_done (turn_start env f cp) = 0"
proof -
  have "dict_get (turn_start env f cp) ''_approval_granted'' (JBool True) = JBool False"
    "dict_get (turn_start env f cp) ''_approval_decision'' JNull = JNull"
    and c: "dict_get (turn_start env f cp) ''_approval_chain_state'' JNull = JNull"
    by (rule start_reset; simp add: reset_fields_def approval_keys_def starts_with_def)+
  moreover have "steps_done (turn_start env f cp) = 0"
    unfolding steps_done_def chain_of_def c by (simp add: dict_or_empty_def list_or_empty_def dict_get_def)
  ultimately show ?thesis by simp
qed

text \<open>
  C26: The run lock excludes as far as Redis answers: while the holder's lease runs and the holder
  does not release it, whatever acquisitions, renewals and releases are interleaved, and whichever
  of them find Redis down, the key stays the holder's, and another run is let in exactly when its
  own attempt finds Redis down.
\<close>

theorem run_lock_exclusive:
  assumes "k = Some (t, start + ttl)"
    and "list_all (\<lambda>p. start \<le> op_time p \<and> op_time p < start + ttl \<and> (\<forall>up now. p \<noteq> Release up t now)) ops"
  shows "\<exists>e. foldl (lock_step ttl) k ops = Some (t, e) \<and> start + ttl \<le> e
     \<and> (\<forall>up t' now. now < start + ttl \<longrightarrow> fst (try_acquire_lock up t' ttl now (foldl (lock_step ttl) k ops)) = (\<not> up))"
proof -
  have "\<exists>e. foldl (lock_step ttl) k ops = Some (t, e) \<and> start + ttl \<le> e"
    if "k = Some (t, e)" "start + ttl \<le> e" for e
    using assms(2) that
  proof (induction ops arbitrary: k e)
    case (Cons p ops)
    then have p: "start \<le> op_time p" "op_time p < start + ttl" "\<forall>up now. p \<noteq> Release up t now" by simp_all
    have "\<exists>e'. lock_step ttl k p = Some (t, e') \<and> start + ttl \<le> e'"
      using p Cons.prems
      by (cases p) (auto simp: try_acquire_lock_def renew_lock_def release_lock_def owns_lock_def lock_live_def)
    with Cons show ?case by auto
  qed simp
  from this [OF assms(1)] obtain e where "foldl (lock_step ttl) k ops = Some (t, e)" "start + ttl \<le> e" by auto
  then show ?thesis by (auto simp: try_acquire_lock_def lock_live_def)
qed

theorem run_lock_exclusive_witness:
  "\<exists>e. foldl (lock_step 30) (Some (''a'', 0 + 30)) [Acquire True ''b'' 5, Renew True ''a'' 10, Release True ''b'' 12, Acquire False ''c'' 13]
       = Some (''a'', e) \<and> 0 + 30 \<le> e"
  using run_lock_exclusive [of "Some (''a'', 0 + 30)" "''a''" 0 30
      "[Acquire True ''b'' 5, Renew True ''a'' 10, Release True ''b'' 12, Acquire False ''c'' 13]"]
  by auto

end
