(* ===== verification/Background.thy ===== *)
theory Background
  imports Turn Tasks
begin

text \<open>
  The estimator (\<open>agent/nodes/estimator_node.py\<close>, \<open>execution/strategy.py\<close>), the hand-over
  of a plan to the background in \<open>executor_node\<close> (\<open>agent/graph.py\<close>) and the executor the
  worker calls for such a task (\<open>tasks/executors.py\<close>).  The graph is a dumped
  \<open>ExecutionGraph\<close>.  Texts with formatted numbers, ids and the failure of the task table or
  of the queue are parameters.
\<close>

section \<open>The execution strategy\<close>

datatype execution_strategy = SEQUENTIAL | PARALLEL | MAP_STRATEGY | REDUCE_STRATEGY | RETRY_STRATEGY | BACKGROUND | STREAMING

definition strategy_value :: "execution_strategy \<Rightarrow> string" where
  "strategy_value x = (case x of SEQUENTIAL \<Rightarrow> ''sequential'' | PARALLEL \<Rightarrow> ''parallel'' | MAP_STRATEGY \<Rightarrow> ''map''
     | REDUCE_STRATEGY \<Rightarrow> ''reduce'' | RETRY_STRATEGY \<Rightarrow> ''retry'' | BACKGROUND \<Rightarrow> ''background'' | STREAMING \<Rightarrow> ''streaming'')"

record strategy_decision =
  sd_strategy :: execution_strategy
  sd_reasons :: "string list"
  sd_background :: bool

text \<open>\<open>str(n.get("kind") or "")\<close> is compared with two texts only.\<close>

definition is_aggregate :: "json \<Rightarrow> bool" where
  "is_aggregate n = (get_in n ''kind'' JNull \<in> {JStr ''reduce'', JStr ''aggregate''} \<or> truthy (get_in n ''aggregate'' JNull))"

text \<open>The waves are lists of ids; \<open>latency_text\<close> is the formatted reason.\<close>

definition plan_shape :: "json list \<Rightarrow> string list list \<Rightarrow> execution_strategy \<times> string list" where
  "plan_shape nodes waves =
    (let has_map = list_ex (\<lambda>n. truthy (get_in n ''iterate_over'' JNull)) nodes; has_reduce = list_ex is_aggregate nodes in
     if has_map then (if has_reduce then (REDUCE_STRATEGY, [''iterate_over present'', ''aggregate present''])
       else (MAP_STRATEGY, [''iterate_over present'']))
     else if has_reduce then (REDUCE_STRATEGY, [''aggregate present''])
     else if 1 < length waves then (SEQUENTIAL, [nat_str (length waves) @ '' dependency waves''])
     else if waves \<noteq> [] \<and> 1 < length (hd waves) then (PARALLEL, [nat_str (length (hd waves)) @ '' independent nodes''])
     else (SEQUENTIAL, [''single step'']))"

definition select_strategy ::
  "(rat \<Rightarrow> rat \<Rightarrow> string) \<Rightarrow> json list \<Rightarrow> string list list \<Rightarrow> rat option \<Rightarrow> rat option \<Rightarrow> strategy_decision" where
  "select_strategy latency_text nodes waves latency threshold =
    (let shape = plan_shape nodes waves;
         bg = (case (threshold, latency) of (Some t, Some l) \<Rightarrow> t \<le> l | _ \<Rightarrow> False) in
     \<lparr>sd_strategy = fst shape,
      sd_reasons = snd shape @ (if bg then [latency_text (the latency) (the threshold)] else []),
      sd_background = bg\<rparr>)"

section \<open>The estimator\<close>

record estimator_cfg =
  es_budget_cap :: rat
  es_latency_cap :: int
  es_default_latency :: int
  es_threshold :: "rat option"
  es_cost_warning :: "rat \<Rightarrow> string"
  es_latency_warning :: "int \<Rightarrow> string"
  es_latency_text :: "rat \<Rightarrow> rat \<Rightarrow> string"

definition graph_tool_nodes :: "json \<Rightarrow> json list" where
  "graph_tool_nodes g = filter (\<lambda>n. get_str n ''kind'' [] = ''tool'') (map snd (get_dict g ''nodes''))"

definition node_cost :: "json \<Rightarrow> rat" where
  "node_cost n = (case num_of (get_in n ''cost_estimate'' JNull) of Some r \<Rightarrow> r | None \<Rightarrow> 0)"

text \<open>A latency of zero counts as the default.\<close>

definition node_latency :: "estimator_cfg \<Rightarrow> json \<Rightarrow> int" where
  "node_latency cfg n = (case get_in n ''latency_estimate_ms'' JNull of
      JInt i \<Rightarrow> if i = 0 then es_default_latency cfg else i | _ \<Rightarrow> es_default_latency cfg)"

definition total_cost :: "json \<Rightarrow> rat" where
  "total_cost g = foldl (\<lambda>a n. a + node_cost n) 0 (graph_tool_nodes g)"

definition max_latency :: "estimator_cfg \<Rightarrow> json \<Rightarrow> int" where
  "max_latency cfg g = foldl (\<lambda>m n. max m (node_latency cfg n)) 0 (graph_tool_nodes g)"

definition total_latency :: "estimator_cfg \<Rightarrow> json \<Rightarrow> int" where
  "total_latency cfg g = max_latency cfg g * (let w = length (get_list g ''waves'') in if 1 < w then int w else 1)"

definition estimate_decision :: "estimator_cfg \<Rightarrow> json \<Rightarrow> json \<Rightarrow> strategy_decision" where
  "estimate_decision cfg g plan = select_strategy (es_latency_text cfg) (get_list plan ''nodes'')
     (map (\<lambda>w. case w of JList xs \<Rightarrow> concat (map (\<lambda>x. case x of JStr t \<Rightarrow> [t] | _ \<Rightarrow> []) xs) | _ \<Rightarrow> []) (get_list g ''waves''))
     (Some (of_int (total_latency cfg g))) (es_threshold cfg)"

definition enriched_plan :: "estimator_cfg \<Rightarrow> agent_state \<Rightarrow> json \<Rightarrow> json" where
  "enriched_plan cfg s g = (let plan = dict_get s ''_logical_workflow'' JNull; d = estimate_decision cfg g plan in JDict
     [(''goal'', (let v = dict_get s ''_goals'' JNull in if truthy v then v else JList [dict_get s ''_query_type'' (JStr [])])),
      (''strategy'', JStr (strategy_value (sd_strategy d))), (''strategy_reasons'', JList (map JStr (sd_reasons d))),
      (''background'', JBool (sd_background d)), (''node_count'', JInt (int (length (get_list plan ''nodes'')))),
      (''tool_count'', JInt (int (length (graph_tool_nodes g)))), (''estimated_cost_usd'', JFloat (round4 (total_cost g))),
      (''estimated_latency_ms'', JInt (total_latency cfg g)),
      (''within_budget'', JBool (total_cost g \<le> es_budget_cap cfg \<and> total_latency cfg g \<le> es_latency_cap cfg)),
      (''dependencies'', JList []),
      (''expected_outputs'', JList (take 20 (map (\<lambda>n. JStr (get_str n ''tool_name'' [])) (graph_tool_nodes g)))),
      (''recovery'', JStr ''reflection'')])"

definition estimator_updates :: "estimator_cfg \<Rightarrow> agent_state \<Rightarrow> agent_state" where
  "estimator_updates cfg s = (case dict_get s ''_execution_graph'' JNull of
      JNull \<Rightarrow> [(''_cost_estimate'', JFloat 0), (''_latency_estimate_ms'', JInt 0), (''_within_budget'', JBool True)]
    | g \<Rightarrow> (let cost = total_cost g; lat = total_latency cfg g; d = estimate_decision cfg g (dict_get s ''_logical_workflow'' JNull) in
        [(''_cost_estimate'', JFloat cost), (''_latency_estimate_ms'', JInt lat),
         (''_within_budget'', JBool (cost \<le> es_budget_cap cfg \<and> lat \<le> es_latency_cap cfg)),
         (''_estimate_warnings'', JList (map JStr
            ((if es_budget_cap cfg < cost then [es_cost_warning cfg cost] else [])
             @ (if es_latency_cap cfg < lat then [es_latency_warning cfg lat] else [])))),
         (''_execution_strategy'', JStr (strategy_value (sd_strategy d))),
         (''_execution_strategy_reasons'', JList (map JStr (sd_reasons d))),
         (''_background_execution'', JBool (sd_background d)), (''_execution_plan'', enriched_plan cfg s g)]))"

definition estimator_node ::
  "(rat \<Rightarrow> string) \<Rightarrow> (string \<Rightarrow> rat option) \<Rightarrow> string \<Rightarrow> estimator_cfg \<Rightarrow> agent_state \<Rightarrow> agent_state option" where
  "estimator_node fs pf stamp cfg s = context_node fs pf stamp ''estimator_node''
     (\<lambda>c. \<lparr>sp_version = cx_version c + 1, sp_updates = estimator_updates cfg (cx_snapshot c), sp_removes = [], sp_ir = None\<rparr>) s"

section \<open>The hand-over to the background\<close>

text \<open>
  The task table and the stream of the queue; the result of a hand-over that fails is the text of
  the exception.  \<open>bg_create\<close> and \<open>bg_enqueue\<close> are \<open>Some\<close> exception when the
  database or Redis fails.
\<close>

record bg_env =
  bg_execution_id :: string
  bg_task_id :: string
  bg_registry_version :: int
  bg_created_at :: string
  bg_create :: "string option"
  bg_enqueue :: "string option"

record bg_state =
  bg_tasks :: task_table
  bg_queue :: "(string \<times> json dict) list"

text \<open>The last user message: the newest message with role \<open>user\<close>.\<close>

definition last_user_message :: "(rat \<Rightarrow> string) \<Rightarrow> agent_state \<Rightarrow> string" where
  "last_user_message fs s = (case find (\<lambda>m. get_in m ''role'' (JStr []) = JStr ''user'') (rev (get_list (JDict s) ''messages'')) of
      None \<Rightarrow> [] | Some m \<Rightarrow> py_str fs (get_in m ''content'' (JStr [])))"

definition execution_request :: "(rat \<Rightarrow> string) \<Rightarrow> bg_env \<Rightarrow> agent_state \<Rightarrow> json dict" where
  "execution_request fs env s = (let sid = py_str fs (dict_get s ''session_id'' (JStr [])) in
     [(''execution_id'', JStr (bg_execution_id env)), (''session_id'', JStr sid),
      (''thread_id'', if sid = [] then JNull else JStr sid), (''message'', JStr (last_user_message fs s)),
      (''execution_plan_version'', JInt 1), (''resolver_version'', JInt 1), (''planner_version'', JInt 3),
      (''compiler_version'', JInt 2), (''registry_version'', JInt (bg_registry_version env)),
      (''created_at'', JStr (bg_created_at env))])"

definition handoff_failed :: "string \<Rightarrow> agent_state" where
  "handoff_failed e = [(''_executor_failed'', JList []), (''_executor_all_success'', JBool False),
     (''errors'', JList [JStr (''Background enqueue failed: '' @ take 120 e)])]"

definition background_handoff :: "(rat \<Rightarrow> string) \<Rightarrow> bg_env \<Rightarrow> agent_state \<Rightarrow> bg_state \<Rightarrow> bg_state \<times> agent_state" where
  "background_handoff fs env s b = (let req = execution_request fs env s in
     case bg_create env of Some e \<Rightarrow> (b, handoff_failed e)
     | None \<Rightarrow>
       (let b1 = b\<lparr>bg_tasks := bg_tasks b @ [(bg_task_id env, new_task ''workflow_run'' req 3 None None)]\<rparr> in
        case bg_enqueue env of Some e \<Rightarrow> (b1, handoff_failed e)
        | None \<Rightarrow> (b1\<lparr>bg_queue := bg_queue b1 @ [(bg_task_id env, req)]\<rparr>,
            [(''_background_task_id'', JStr (bg_task_id env)), (''response_type'', JStr ''background''),
             (''final_response'', JStr (''I've started this in the background (task '' @ take 8 (bg_task_id env)
                @ ''). You can check its progress on the Tasks page.'')),
             (''_executor_failed'', JList []), (''_executor_all_success'', JBool True)])))"

text \<open>\<open>executor_node\<close>: the empty plan, the hand-over, or the execution of the graph.\<close>

definition executor_node ::
  "(rat \<Rightarrow> string) \<Rightarrow> exec_cfg \<Rightarrow> exec_env \<Rightarrow> bg_env \<Rightarrow> agent_state \<Rightarrow> exec_world \<times> bg_state
     \<Rightarrow> (exec_world \<times> bg_state) \<times> agent_state" where
  "executor_node fs cfg env benv s st = (case st of (w, b) \<Rightarrow>
     if get_dict (executed_graph s) ''nodes'' = [] then ((w, b), no_graph_updates)
     else if state_flag s ''_background_execution''
     then (case background_handoff fs benv s b of (b', u) \<Rightarrow> ((w, b'), u))
     else (case execute_graph fs cfg env s w of (w', u) \<Rightarrow> ((w', b), u)))"

section \<open>Lemmas\<close>

lemma estimator_reads:
  "estimator_updates cfg (filter (\<lambda>p. keep_field (fst p)) s) = estimator_updates cfg s"
proof -
  have k: "keep_field ''_execution_graph''" "keep_field ''_logical_workflow''" "keep_field ''_goals''" "keep_field ''_query_type''"
    by (simp_all add: keep_field_def static_strip_fields_def starts_with_def)
  show ?thesis
    unfolding estimator_updates_def enriched_plan_def
    by (simp only: filter_keep_get [OF k(1)] filter_keep_get [OF k(2)] filter_keep_get [OF k(3)] filter_keep_get [OF k(4)])
qed

lemma estimator_keys:
  "distinct (map fst (estimator_updates cfg s))" "''_context_snapshot'' \<notin> fst ` set (estimator_updates cfg s)"
  by (simp_all add: estimator_updates_def Let_def split: json.split)

lemma estimator_state:
  assumes "estimator_node fs pf stamp cfg s = Some u" and "distinct (map fst s)" and "k \<notin> canonical_keys"
  shows "map_of (dict_merge s u) k = (case map_of (estimator_updates cfg s) k of Some v \<Rightarrow> Some v | None \<Rightarrow> map_of s k)"
proof -
  obtain c where c: "from_state stamp s = Some c"
    using assms(1) unfolding estimator_node_def by (rule context_node_parts)
  have us: "estimator_updates cfg (cx_snapshot (record_node n c)) = estimator_updates cfg s" for n
    using from_state_snapshot [OF c] by (simp add: record_node_def estimator_reads)
  show ?thesis
    by (rule context_node_lookup [OF assms(1) [unfolded estimator_node_def] assms(2) c])
      (simp_all add: us estimator_keys assms(3))
qed

section \<open>Properties\<close>

text \<open>
  C19: A plan over the cost or latency cap is never executed: after the estimator and the validation
  node the turn does not go to the approval gate.
\<close>

theorem over_budget_plan_stopped:
  assumes "estimator_node fs pf stamp cfg s = Some u" and "distinct (map fst s)"
    and "dict_get s ''_execution_graph'' JNull = JDict g"
    and "es_budget_cap cfg < total_cost (JDict g) \<or> es_latency_cap cfg < total_latency cfg (JDict g)"
  shows "route_after_validation (dict_merge (dict_merge s u) (validation_node txt (dict_merge s u))) \<noteq> Some ApprovalGateNode"
proof -
  let ?s = "dict_merge s u" and ?t = "dict_merge (dict_merge s u) (validation_node txt (dict_merge s u))"
  have "map_of ?s ''_within_budget'' = Some (JBool False)"
    using assms(4) by (auto simp: estimator_state [OF assms(1,2)] canonical_keys_def estimator_updates_def assms(3) Let_def)
  then have "validation_missing ?s \<noteq> []" by (simp add: validation_missing_def dict_get_def Let_def)
  then have "dict_get ?t ''_needs_clarification'' JNull = JBool True"
    by (simp add: validation_node_def Let_def dict_get_def map_of_dict_merge)
  then show ?thesis
    by (simp add: route_after_validation_def state_flag_def Let_def split: option.split)
qed

text \<open>
  Whether a plan is handed to the background depends on its estimated latency alone, not on who
  runs the turn.
\<close>

theorem background_decision_exact:
  assumes "estimator_node fs pf stamp cfg s = Some u" and "distinct (map fst s)"
    and "dict_get s ''_execution_graph'' JNull = JDict g"
  shows "state_flag (dict_merge s u) ''_background_execution'' \<longleftrightarrow>
    (\<exists>t. es_threshold cfg = Some t \<and> t \<le> of_int (total_latency cfg (JDict g)))"
proof -
  have "map_of (dict_merge s u) ''_background_execution''
      = Some (JBool (sd_background (estimate_decision cfg (JDict g) (dict_get s ''_logical_workflow'' JNull))))"
    by (simp add: estimator_state [OF assms(1,2)] canonical_keys_def estimator_updates_def assms(3) Let_def)
  then show ?thesis
    by (simp add: state_flag_def dict_get_def estimate_decision_def select_strategy_def Let_def split: option.split)
qed

text \<open>
  When the queue fails after the task was created, the task stays in the table as pending without
  a queue entry: no worker will claim it, while the user is told that nothing was started.
\<close>

theorem failed_enqueue_leaves_task:
  assumes "state_flag s ''_background_execution''" and "get_dict (executed_graph s) ''nodes'' \<noteq> []"
    and "bg_create benv = None" and "bg_enqueue benv = Some e" and "map_of (bg_tasks b) (bg_task_id benv) = None"
  shows "case executor_node fs cfg env benv s (w, b) of ((w', b'), u) \<Rightarrow>
     w' = w \<and> bg_queue b' = bg_queue b \<and> map_option task_state (map_of (bg_tasks b') (bg_task_id benv)) = Some PENDING
     \<and> bg_task_id benv \<notin> fst ` set (due_tasks now (bg_tasks b')) \<and> dict_get u ''_executor_all_success'' JNull = JBool False"
proof -
  let ?row = "new_task ''workflow_run'' (execution_request fs benv s) 3 None None"
  let ?tbl = "bg_tasks b @ [(bg_task_id benv, ?row)]"
  have r: "map_of ?tbl (bg_task_id benv) = Some ?row" using assms(5) by (simp add: map_add_def)
  have "\<not> is_due now ?row" by (simp add: is_due_def new_task_def)
  moreover have "bg_task_id benv \<notin> fst ` set (bg_tasks b)" using assms(5) by (simp add: map_of_eq_None_iff)
  ultimately have "bg_task_id benv \<notin> fst ` set (due_tasks now ?tbl)"
    by (auto simp: due_tasks_def image_iff dest!: in_set_takeD)
  moreover have "task_state ?row = PENDING" by (simp add: new_task_def)
  ultimately show ?thesis
    using assms r by (simp add: executor_node_def background_handoff_def handoff_failed_def Let_def dict_get_def)
qed

text \<open>Witnesses: a one-tool plan that takes longer than the threshold.\<close>

definition slow_graph :: "json dict" where
  "slow_graph = [(''nodes'', JDict [(''t'', JDict [(''kind'', JStr ''tool''), (''latency_estimate_ms'', JInt 20000)])]),
     (''waves'', JList [JList [JStr ''t'']])]"

definition slow_state :: agent_state where
  "slow_state = [(''_execution_graph'', JDict slow_graph), (''_background_execution'', JBool True)]"

definition demo_estimator :: estimator_cfg where
  "demo_estimator = \<lparr>es_budget_cap = 1, es_latency_cap = 10000, es_default_latency = 500, es_threshold = Some 15000,
     es_cost_warning = (\<lambda>r. []), es_latency_warning = (\<lambda>i. []), es_latency_text = (\<lambda>a b. [])\<rparr>"

lemma slow_facts:
  "distinct (map fst slow_state)" "dict_get slow_state ''_execution_graph'' JNull = JDict slow_graph"
  "total_latency demo_estimator (JDict slow_graph) = 20000" "state_flag slow_state ''_background_execution''"
  "get_dict (executed_graph slow_state) ''nodes'' \<noteq> []"
  by (simp_all add: slow_state_def slow_graph_def total_latency_def max_latency_def node_latency_def graph_tool_nodes_def
      demo_estimator_def get_str_def get_in_def get_dict_def get_list_def dict_get_def state_flag_def executed_graph_def)

lemma demo_estimator_sel: "es_latency_cap demo_estimator = 10000" "es_threshold demo_estimator = Some 15000"
  by (simp_all add: demo_estimator_def)

lemma slow_estimator: "\<exists>u. estimator_node (\<lambda>r. []) (\<lambda>t. Some 0) [] demo_estimator slow_state = Some u"
  unfolding estimator_node_def
proof (rule context_node_total)
  fix c :: exec_context
  assume snap: "cx_snapshot c = filter (\<lambda>p. keep_field (fst p)) slow_state"
  have us: "estimator_updates demo_estimator (cx_snapshot c) = estimator_updates demo_estimator slow_state"
    by (simp add: snap estimator_reads)
  show "(\<exists>x. dict_get (dict_merge (cx_snapshot c) (sp_updates \<lparr>sp_version = cx_version c + 1,
        sp_updates = estimator_updates demo_estimator (cx_snapshot c), sp_removes = [], sp_ir = None\<rparr>)) ''_cost_estimate'' (JFloat 0) = JFloat x)
    \<and> (\<exists>l. dict_get (dict_merge (cx_snapshot c) (sp_updates \<lparr>sp_version = cx_version c + 1,
        sp_updates = estimator_updates demo_estimator (cx_snapshot c), sp_removes = [], sp_ir = None\<rparr>)) ''_latency_estimate_ms'' (JInt 0) = JInt l)"
    by (simp add: us dict_get_def map_of_dict_merge estimator_keys)
      (simp add: estimator_updates_def slow_facts Let_def)
qed (auto simp: slow_state_def dict_get_def estimator_updates_def is_global_or_session_key_def reserved_keys_def Let_def
    split: json.split)

theorem over_budget_plan_stopped_witness:
  "\<exists>u. route_after_validation (dict_merge (dict_merge slow_state u) (validation_node (\<lambda>s. []) (dict_merge slow_state u)))
     \<noteq> Some ApprovalGateNode"
proof -
  obtain u where "estimator_node (\<lambda>r. []) (\<lambda>t. Some 0) [] demo_estimator slow_state = Some u" using slow_estimator by blast
  from over_budget_plan_stopped [OF this slow_facts(1,2)] show ?thesis
    by (auto simp: slow_facts(3) demo_estimator_sel)
qed

theorem background_decision_exact_witness:
  "\<exists>u. state_flag (dict_merge slow_state u) ''_background_execution''"
proof -
  obtain u where "estimator_node (\<lambda>r. []) (\<lambda>t. Some 0) [] demo_estimator slow_state = Some u" using slow_estimator by blast
  from background_decision_exact [OF this slow_facts(1,2)] show ?thesis
    by (auto simp: slow_facts(3) demo_estimator_sel)
qed

definition idle_world :: exec_world where
  "idle_world = \<lparr>completed_keys = [], x_ledger = [], x_cache = [], x_budget = None, x_trace = [], x_artifacts = []\<rparr>"

definition demo_background :: bg_env where
  "demo_background = \<lparr>bg_execution_id = ''e'', bg_task_id = ''t1'', bg_registry_version = 0, bg_created_at = [],
     bg_create = None, bg_enqueue = None\<rparr>"

theorem failed_enqueue_leaves_task_witness:
  "case executor_node (\<lambda>r. []) (demo_cfg False) demo_env (demo_background\<lparr>bg_enqueue := Some ''down''\<rparr>) slow_state
      (idle_world, \<lparr>bg_tasks = [], bg_queue = []\<rparr>)
     of ((w', b'), u) \<Rightarrow> ''t1'' \<notin> fst ` set (due_tasks 0 (bg_tasks b'))"
  using failed_enqueue_leaves_task [OF slow_facts(4,5), of "demo_background\<lparr>bg_enqueue := Some ''down''\<rparr>" "''down''"
      "\<lparr>bg_tasks = [], bg_queue = []\<rparr>" idle_world 0 "\<lambda>r. []" "demo_cfg False" demo_env]
  by (simp add: demo_background_def split: prod.splits)

end
