(* ===== verification/Aggregation.thy ===== *)
theory Aggregation
  imports Executor_Node Agent_Context Artifacts Recovery
begin

text \<open>
  \<open>agent/nodes/aggregator_node.py\<close>: the reductions of reduce nodes and the node that runs
  them.  A node of the graph is its dumped JSON; \<open>pf\<close> is \<open>float(text)\<close> and \<open>fs\<close> the text
  of a float.  An exception of the code is \<open>None\<close>: sorting compares numbers with numbers and
  texts with texts, anything else raises.  A path segment of superscript digits is not modelled.
\<close>

section \<open>Paths\<close>

definition deep_val_step :: "json \<Rightarrow> string \<Rightarrow> json" where
  "deep_val_step v part = (case v of
      JDict d \<Rightarrow> dict_get d part JNull
    | JList xs \<Rightarrow> if part \<noteq> [] \<and> list_all is_digit part \<and> nat_of_digits part < length xs
        then xs ! nat_of_digits part else JNull
    | _ \<Rightarrow> JNull)"

definition deep_val :: "json \<Rightarrow> string \<Rightarrow> json" where
  "deep_val v path = (if path = [] then v else foldl deep_val_step v (py_split CHR ''.'' path))"

text \<open>\<open>_deep_val(x, key) or d\<close>.\<close>

definition deep_or :: "json \<Rightarrow> string \<Rightarrow> json \<Rightarrow> json" where
  "deep_or v path d = (let x = deep_val v path in if truthy x then x else d)"

text \<open>\<open>xs[:k]\<close>.\<close>

definition py_take :: "int \<Rightarrow> 'a list \<Rightarrow> 'a list" where
  "py_take k xs = (if 0 \<le> k then take (nat k) xs else take (length xs - nat (- k)) xs)"

definition limited :: "int option \<Rightarrow> 'a list \<Rightarrow> 'a list" where
  "limited l xs = (case l of None \<Rightarrow> xs | Some k \<Rightarrow> if k = 0 then xs else py_take k xs)"

section \<open>Reductions\<close>

text \<open>The keys of a sort are compared when there are two items or more.\<close>

definition str_key :: "json \<Rightarrow> string option" where
  "str_key v = (case v of JStr t \<Rightarrow> Some t | _ \<Rightarrow> None)"

definition sort_by :: "string \<Rightarrow> json list \<Rightarrow> json list option" where
  "sort_by key xs = (let k = (\<lambda>x. deep_or x key (JStr [])) in
     if length xs < 2 then Some xs
     else if list_all (\<lambda>x. num_of (k x) \<noteq> None) xs then Some (sort_key (\<lambda>x. the (num_of (k x))) xs)
     else if list_all (\<lambda>x. str_key (k x) \<noteq> None) xs then Some (sort_key (\<lambda>x. the (str_key (k x))) xs)
     else None)"

definition reduce_sort :: "json list \<Rightarrow> string \<Rightarrow> int option \<Rightarrow> json list option" where
  "reduce_sort xs key l = (if key = [] then Some (limited l xs) else map_option (limited l) (sort_by key xs))"

definition group_key :: "(rat \<Rightarrow> string) \<Rightarrow> string \<Rightarrow> json \<Rightarrow> string" where
  "group_key fs key x = py_str fs (deep_or x key (JStr ''unknown''))"

definition reduce_group_by :: "(rat \<Rightarrow> string) \<Rightarrow> json list \<Rightarrow> string \<Rightarrow> (string \<times> json list) list" where
  "reduce_group_by fs xs key = group_by (group_key fs key) xs"

text \<open>\<open>float(v)\<close> where it is defined.\<close>

definition py_float :: "(string \<Rightarrow> rat option) \<Rightarrow> json \<Rightarrow> rat option" where
  "py_float pf v = (case v of JStr t \<Rightarrow> pf t | _ \<Rightarrow> num_of v)"

definition reduce_average :: "(string \<Rightarrow> rat option) \<Rightarrow> json list \<Rightarrow> string \<Rightarrow> rat" where
  "reduce_average pf xs key = (let vs = List.map_filter (\<lambda>x. py_float pf (deep_val x key)) xs in
     if vs = [] then 0 else sum_list vs / of_nat (length vs))"

definition score_of :: "(string \<Rightarrow> rat option) \<Rightarrow> string \<Rightarrow> json \<Rightarrow> rat" where
  "score_of pf key x = (case py_float pf (deep_val x key) of Some r \<Rightarrow> r | None \<Rightarrow> 0)"

text \<open>A reversed sort is stable, so it is a sort by the negated score.\<close>

definition reduce_top_k :: "(string \<Rightarrow> rat option) \<Rightarrow> json list \<Rightarrow> string \<Rightarrow> int \<Rightarrow> json list" where
  "reduce_top_k pf xs key k = (if key = [] then py_take k xs else py_take k (sort_key (\<lambda>x. - score_of pf key x) xs))"

text \<open>\<open>predicate.split("=", 1)\<close> with both sides stripped; a trailing \<open>!\<close> negates.\<close>

definition parse_predicate :: "string \<Rightarrow> (string \<times> bool \<times> string) option" where
  "parse_predicate p = (if CHR ''='' \<notin> set p then None else
     let field = py_strip (takeWhile (\<lambda>c. c \<noteq> CHR ''='') p); expected = py_strip (tl (dropWhile (\<lambda>c. c \<noteq> CHR ''='') p)) in
     if ends_with ''!'' field then Some (py_strip (butlast field), True, expected) else Some (field, False, expected))"

definition reduce_filter :: "(rat \<Rightarrow> string) \<Rightarrow> json list \<Rightarrow> string \<Rightarrow> json list" where
  "reduce_filter fs xs p = (if p = [] then xs else case parse_predicate p of None \<Rightarrow> xs
     | Some (field, negate, expected) \<Rightarrow> filter (\<lambda>x. (py_str fs (deep_or x field (JStr [])) = expected) \<noteq> negate) xs)"

definition reduce_summary :: "json list \<Rightarrow> json" where
  "reduce_summary xs = (case xs of
      [] \<Rightarrow> JDict [(''count'', JInt 0), (''keys'', JList []), (''sample'', JNull)]
    | x # _ \<Rightarrow> JDict [(''count'', JInt (int (length xs))),
        (''keys'', JList (case x of JDict d \<Rightarrow> map (JStr \<circ> fst) d | _ \<Rightarrow> [])), (''sample'', x)])"

definition limit_of :: "json \<Rightarrow> int option" where
  "limit_of n = (case get_in n ''limit'' JNull of JInt i \<Rightarrow> Some i | _ \<Rightarrow> None)"

definition execute_reduce :: "(rat \<Rightarrow> string) \<Rightarrow> (string \<Rightarrow> rat option) \<Rightarrow> json \<Rightarrow> json list \<Rightarrow> json option" where
  "execute_reduce fs pf n xs = (let kind = get_str n ''aggregate_kind'' []; key = get_str n ''key_path'' [] in
     if xs = [] then Some (JList [])
     else if kind = ''sort'' then map_option JList (reduce_sort xs key (limit_of n))
     else if kind = ''group_by'' then Some (JDict (map (\<lambda>p. (fst p, JList (snd p))) (reduce_group_by fs xs key)))
     else if kind = ''average'' then Some (JFloat (reduce_average pf xs key))
     else if kind = ''top_k'' then Some (JList (reduce_top_k pf xs key
        (case limit_of n of None \<Rightarrow> 5 | Some k \<Rightarrow> if k = 0 then 5 else k)))
     else if kind = ''filter'' then Some (JList (reduce_filter fs xs (get_str n ''predicate'' [])))
     else if kind = ''summary'' then Some (reduce_summary xs)
     else Some (JList xs))"

section \<open>The node\<close>

definition as_items :: "json \<Rightarrow> json list" where
  "as_items v = (case v of JList xs \<Rightarrow> xs | _ \<Rightarrow> [v])"

text \<open>The results by task id, later ones overwriting earlier ones.\<close>

definition results_by_task :: "json list \<Rightarrow> json dict" where
  "results_by_task rs = foldl (\<lambda>d r. case r of JDict m \<Rightarrow> AList.update (get_str r ''task_id'' []) r d | _ \<Rightarrow> d) [] rs"

definition field_of_result :: "string \<Rightarrow> json \<Rightarrow> json option" where
  "field_of_result ref r = (case get_in r ''data'' (JDict []) of JDict d \<Rightarrow> map_of d ref | _ \<Rightarrow> None)"

definition resolve_source :: "string \<Rightarrow> json dict \<Rightarrow> json dict \<Rightarrow> json list" where
  "resolve_source ref collections results = (case map_of collections ref of Some v \<Rightarrow> as_items v
     | None \<Rightarrow> (case map_of results ref of Some r \<Rightarrow> as_items (get_in r ''data'' (JList []))
     | None \<Rightarrow> (case List.map_filter (\<lambda>p. field_of_result ref (snd p)) results of v # _ \<Rightarrow> as_items v | [] \<Rightarrow> [])))"

fun aggregate :: "(rat \<Rightarrow> string) \<Rightarrow> (string \<Rightarrow> rat option) \<Rightarrow> json dict \<Rightarrow> json dict \<Rightarrow> json dict \<Rightarrow> json dict option" where
  "aggregate fs pf cs rs [] = Some []"
| "aggregate fs pf cs rs ((nid, n) # ns) =
    (let src = resolve_source (get_str n ''source_ref'' []) cs rs in
     if \<not> is_reduce n \<or> src = [] then aggregate fs pf cs rs ns
     else case execute_reduce fs pf n src of None \<Rightarrow> None
       | Some v \<Rightarrow> map_option ((#) (nid, v)) (aggregate fs pf cs rs ns))"

definition aggregator_updates :: "(rat \<Rightarrow> string) \<Rightarrow> (string \<Rightarrow> rat option) \<Rightarrow> agent_state \<Rightarrow> json dict option" where
  "aggregator_updates fs pf s = (case dict_get s ''_execution_graph'' JNull of
      JNull \<Rightarrow> Some []
    | g \<Rightarrow> aggregate fs pf (get_dict (JDict s) ''_collections'') (results_by_task (get_list (JDict s) ''tool_results'')) (get_dict g ''nodes''))"

text \<open>The node sees the snapshot of its context; \<open>None\<close> when a reduction raises.\<close>

definition aggregator_node ::
  "(rat \<Rightarrow> string) \<Rightarrow> (string \<Rightarrow> rat option) \<Rightarrow> string \<Rightarrow> agent_state \<Rightarrow> agent_state option" where
  "aggregator_node fs pf stamp s = (case from_state stamp s of None \<Rightarrow> None | Some c \<Rightarrow>
     (case aggregator_updates fs pf (cx_snapshot c) of None \<Rightarrow> None
      | Some d \<Rightarrow> context_node fs pf stamp ''aggregator_node''
          (\<lambda>c. \<lparr>sp_version = cx_version c + 1, sp_updates = [(''_aggregated_results'', JDict d)], sp_removes = [], sp_ir = None\<rparr>) s))"

section \<open>Lemmas\<close>

lemma sorted_by:
  "sort_by key xs = Some ys \<Longrightarrow> mset ys = mset xs"
  by (auto simp: sort_by_def Let_def split: if_splits)

lemma take_sorted_bound:
  assumes "sorted (map f xs)" and "y \<in> set (take n xs)" and "z \<in> set (drop n xs)"
  shows "(f y :: 'b :: linorder) \<le> f z"
proof -
  have "sorted (map f (take n xs) @ map f (drop n xs))"
    using assms(1) by (metis append_take_drop_id map_append)
  with assms(2,3) show ?thesis by (auto simp: sorted_append)
qed

section \<open>Properties\<close>

text \<open>The order of two items under a sort key: numbers by value, texts alphabetically.\<close>

definition key_le :: "string \<Rightarrow> json \<Rightarrow> json \<Rightarrow> bool" where
  "key_le key x y = (case (num_of (deep_or x key (JStr [])), num_of (deep_or y key (JStr []))) of
      (Some a, Some b) \<Rightarrow> a \<le> b
    | _ \<Rightarrow> (case (str_key (deep_or x key (JStr [])), str_key (deep_or y key (JStr []))) of
        (Some a, Some b) \<Rightarrow> a \<le> b | _ \<Rightarrow> False))"

lemma str_not_num: "str_key v \<noteq> None \<Longrightarrow> num_of v = None"
  by (cases v) (auto simp: str_key_def)

lemma key_le_num:
  "num_of (deep_or x key (JStr [])) = Some a \<Longrightarrow> num_of (deep_or y key (JStr [])) = Some b \<Longrightarrow> key_le key x y \<longleftrightarrow> a \<le> b"
  by (simp add: key_le_def)

lemma key_le_str:
  "str_key (deep_or x key (JStr [])) = Some a \<Longrightarrow> str_key (deep_or y key (JStr [])) = Some b \<Longrightarrow> key_le key x y \<longleftrightarrow> a \<le> b"
  using str_not_num [of "deep_or x key (JStr [])"] by (simp add: key_le_def)

lemma sort_by_sorted:
  assumes "sort_by key xs = Some ys" shows "sorted_wrt (key_le key) ys"
proof (cases "length xs < 2")
  case True
  with assms have "ys = xs" by (simp add: sort_by_def)
  with True show ?thesis by (cases xs; cases "tl xs") auto
next
  case long: False
  let ?k = "\<lambda>x. deep_or x key (JStr [])"
  show ?thesis
  proof (cases "list_all (\<lambda>x. num_of (?k x) \<noteq> None) xs")
    case True
    with assms long have ys: "ys = sort_key (\<lambda>x. the (num_of (?k x))) xs" by (simp add: sort_by_def Let_def)
    have "sorted_wrt (\<lambda>x y. the (num_of (?k x)) \<le> the (num_of (?k y))) ys"
      using sorted_sort_key [of "\<lambda>x. the (num_of (?k x))" xs] by (simp add: ys sorted_wrt_map)
    then show ?thesis
    proof (rule sorted_wrt_mono_rel [rotated])
      fix x y assume "x \<in> set ys" "y \<in> set ys" and le: "the (num_of (?k x)) \<le> the (num_of (?k y))"
      with True obtain a b where "num_of (?k x) = Some a" "num_of (?k y) = Some b" by (fastforce simp: ys list_all_iff)
      with le show "key_le key x y" by (simp add: key_le_num)
    qed
  next
    case False
    with assms long have s: "list_all (\<lambda>x. str_key (?k x) \<noteq> None) xs" and ys: "ys = sort_key (\<lambda>x. the (str_key (?k x))) xs"
      by (auto simp: sort_by_def Let_def split: if_splits)
    have "sorted_wrt (\<lambda>x y. the (str_key (?k x)) \<le> the (str_key (?k y))) ys"
      using sorted_sort_key [of "\<lambda>x. the (str_key (?k x))" xs] by (simp add: ys sorted_wrt_map)
    then show ?thesis
    proof (rule sorted_wrt_mono_rel [rotated])
      fix x y assume "x \<in> set ys" "y \<in> set ys" and le: "the (str_key (?k x)) \<le> the (str_key (?k y))"
      with s obtain a b where "str_key (?k x) = Some a" "str_key (?k y) = Some b" by (fastforce simp: ys list_all_iff)
      with le show "key_le key x y" by (simp add: key_le_str)
    qed
  qed
qed

section \<open>Properties\<close>

text \<open>
  A sort that does not raise returns all items, in the order of their keys.
\<close>

theorem reduce_sort_orders:
  assumes "reduce_sort xs key None = Some ys" and "key \<noteq> []"
  shows "mset ys = mset xs \<and> sorted_wrt (key_le key) ys"
  using assms by (auto simp: reduce_sort_def limited_def dest: sorted_by sort_by_sorted)

theorem reduce_sort_orders_witness:
  "sorted_wrt (key_le ''n'') [JDict [(''n'', JInt 1)], JDict [(''n'', JInt 2)]]"
  using reduce_sort_orders [of "[JDict [(''n'', JInt 2)], JDict [(''n'', JInt 1)]]" "''n''"
      "[JDict [(''n'', JInt 1)], JDict [(''n'', JInt 2)]]"]
  by (simp add: reduce_sort_def sort_by_def limited_def deep_or_def deep_val_def deep_val_step_def dict_get_def)

text \<open>
  Falsy keys are replaced by the empty text before they are compared: one item with the value
  zero, or without the key, among numbers makes the sort raise.
\<close>

theorem sort_with_zero_raises:
  assumes "x \<in> set xs" and "y \<in> set xs" and "key \<noteq> []"
    and "num_of (deep_val x key) = Some r" and "r \<noteq> 0" and "\<not> truthy (deep_val y key)"
  shows "reduce_sort xs key l = None"
proof -
  have "x \<noteq> y" using assms(4-6) by (cases "deep_val x key") auto
  with assms(1,2) have "\<not> length xs < 2"
    by (cases xs; cases "tl xs") auto
  moreover have tx: "truthy (deep_val x key)" using assms(4,5) by (cases "deep_val x key") (auto split: if_splits)
  then have "str_key (deep_or x key (JStr [])) = None"
    using assms(4) by (cases "deep_val x key") (auto simp: deep_or_def str_key_def)
  moreover have "num_of (deep_or y key (JStr [])) = None" using assms(6) by (simp add: deep_or_def)
  ultimately show ?thesis
    using assms(1-3) by (auto simp: reduce_sort_def sort_by_def list_all_iff Let_def)
qed

theorem sort_with_zero_raises_witness:
  "reduce_sort [JDict [(''price'', JInt 3)], JDict [(''price'', JInt 0)]] ''price'' None = None"
  by (rule sort_with_zero_raises [of "JDict [(''price'', JInt 3)]" _ "JDict [(''price'', JInt 0)]" _ 3])
    (simp_all add: deep_val_def deep_val_step_def dict_get_def)

text \<open>
  Grouping partitions the items: every item is in exactly one group, under the text of its key.
\<close>

theorem grouping_partitions:
  "mset (concat (map snd (reduce_group_by fs xs key))) = mset xs
   \<and> distinct (map fst (reduce_group_by fs xs key))
   \<and> list_all (\<lambda>p. snd p \<noteq> [] \<and> list_all (\<lambda>x. group_key fs key x = fst p) (snd p)) (reduce_group_by fs xs key)"
proof -
  have "list_all (\<lambda>p. snd p \<noteq> [] \<and> list_all (\<lambda>x. group_key fs key x = fst p) (snd p)) (reduce_group_by fs xs key)"
    using group_by_mem by (fastforce simp: list_all_iff reduce_group_by_def)
  then show ?thesis by (simp add: reduce_group_by_def mset_group_by distinct_group_by)
qed

text \<open>
  The top k are the k best: no item that is left out has a higher score than one that is returned.
\<close>

theorem top_k_best:
  assumes "0 < k" and "key \<noteq> []"
  shows "\<exists>rest. mset (reduce_top_k pf xs key k @ rest) = mset xs
    \<and> length (reduce_top_k pf xs key k) = min (nat k) (length xs)
    \<and> list_all (\<lambda>y. list_all (\<lambda>z. score_of pf key z \<le> score_of pf key y) rest) (reduce_top_k pf xs key k)"
proof -
  let ?s = "sort_key (\<lambda>x. - score_of pf key x) xs"
  have t: "reduce_top_k pf xs key k = take (nat k) ?s" using assms by (simp add: reduce_top_k_def py_take_def)
  have "mset (take (nat k) ?s @ drop (nat k) ?s) = mset xs" by simp
  moreover have "list_all (\<lambda>y. list_all (\<lambda>z. score_of pf key z \<le> score_of pf key y) (drop (nat k) ?s)) (take (nat k) ?s)"
    using take_sorted_bound [of "\<lambda>x. - score_of pf key x" ?s] by (fastforce simp: list_all_iff)
  ultimately show ?thesis unfolding t by (intro exI [of _ "drop (nat k) ?s"]) simp
qed

theorem top_k_best_witness:
  "length (reduce_top_k (\<lambda>t. None) [JDict [(''n'', JInt 1)], JDict [(''n'', JInt 2)]] ''n'' 1) = 1"
  using top_k_best [of 1 "''n''" "\<lambda>t. None" "[JDict [(''n'', JInt 1)], JDict [(''n'', JInt 2)]]"] by auto

lemma strip_snoc: "\<not> is_space c \<Longrightarrow> py_strip (f @ [c]) = dropWhile is_space f @ [c]"
  by (simp add: py_strip_def dropWhile_append)

lemma strip_dropWhile: "py_strip (dropWhile is_space f) = py_strip f"
  by (simp add: py_strip_def dropWhile_idem)

lemma split_at_equals:
  "CHR ''='' \<notin> set f \<Longrightarrow> takeWhile (\<lambda>c. c \<noteq> CHR ''='') (f @ CHR ''='' # e) = f"
  "CHR ''='' \<notin> set f \<Longrightarrow> dropWhile (\<lambda>c. c \<noteq> CHR ''='') (f @ CHR ''='' # e) = CHR ''='' # e"
  by (induction f) auto

lemma parse_plain:
  "CHR ''='' \<notin> set f \<Longrightarrow> \<not> ends_with ''!'' (py_strip f) \<Longrightarrow> parse_predicate (f @ ''='' @ e) = Some (py_strip f, False, py_strip e)"
  by (simp add: parse_predicate_def split_at_equals Let_def)

lemma parse_negated:
  assumes "CHR ''='' \<notin> set f" shows "parse_predicate (f @ ''!='' @ e) = Some (py_strip f, True, py_strip e)"
proof -
  have p: "takeWhile (\<lambda>c. c \<noteq> CHR ''='') (f @ ''!='' @ e) = f @ ''!''" "dropWhile (\<lambda>c. c \<noteq> CHR ''='') (f @ ''!='' @ e) = ''='' @ e"
    using split_at_equals [of "f @ ''!''" e] assms by simp_all
  have "py_strip (f @ ''!'') = dropWhile is_space f @ ''!''" by (rule strip_snoc) (simp add: is_space_def)
  then show ?thesis
    unfolding parse_predicate_def p Let_def by (simp add: ends_with_def starts_with_def strip_dropWhile)
qed

text \<open>
  A predicate and its negation split the items between them.
\<close>

theorem filter_and_negation_partition:
  assumes "CHR ''='' \<notin> set f" and "\<not> ends_with ''!'' (py_strip f)"
  shows "mset (reduce_filter fs xs (f @ ''='' @ e)) + mset (reduce_filter fs xs (f @ ''!='' @ e)) = mset xs"
  using assms parse_plain [OF assms] parse_negated [OF assms(1)] multiset_partition
  by (simp add: reduce_filter_def)

theorem filter_and_negation_partition_witness:
  "mset (reduce_filter (\<lambda>r. []) [JDict [(''s'', JStr ''on'')], JDict []] (''s'' @ ''='' @ ''on''))
    + mset (reduce_filter (\<lambda>r. []) [JDict [(''s'', JStr ''on'')], JDict []] (''s'' @ ''!='' @ ''on'')) = {# JDict [(''s'', JStr ''on'')], JDict [] #}"
  by (subst filter_and_negation_partition) (simp_all add: py_strip_def is_space_def ends_with_def starts_with_def)

lemma aggregate_nothing: "aggregate fs pf [] [] ns = Some []"
  by (induction ns) (auto simp: resolve_source_def)

text \<open>
  The aggregator reads the results of the tools from the snapshot of its context, from which
  exactly that field is stripped; and no node writes \<open>_collections\<close>.  So it never aggregates
  anything: whatever the tools returned, its result is empty.
\<close>

theorem aggregator_sees_no_results:
  assumes "aggregator_node fs pf stamp s = Some u" and "distinct (map fst s)"
    and "map_of s ''_collections'' = None"
  shows "dict_get (dict_merge s u) ''_aggregated_results'' JNull = JDict []"
proof -
  obtain c where c: "from_state stamp s = Some c" using assms(1) by (auto simp: aggregator_node_def split: option.splits)
  have snap: "map_of (cx_snapshot c) k = (if keep_field k then map_of s k else None)" for k
    using from_state_snapshot [OF c] by (simp add: map_of_filter_keys)
  have "\<not> keep_field ''tool_results''" by (simp add: keep_field_def static_strip_fields_def)
  then have "get_list (JDict (cx_snapshot c)) ''tool_results'' = []" "get_dict (JDict (cx_snapshot c)) ''_collections'' = []"
    by (simp_all add: get_list_def get_dict_def get_in_def dict_get_def snap assms(3))
  then have "aggregator_updates fs pf (cx_snapshot c) = Some []"
    by (simp add: aggregator_updates_def results_by_task_def aggregate_nothing split: json.split)
  then have n: "context_node fs pf stamp ''aggregator_node''
      (\<lambda>c. \<lparr>sp_version = cx_version c + 1, sp_updates = [(''_aggregated_results'', JDict [])], sp_removes = [], sp_ir = None\<rparr>) s = Some u"
    using assms(1) by (simp add: aggregator_node_def c)
  have "map_of (dict_merge s u) ''_aggregated_results'' = Some (JDict [])"
    by (subst context_node_lookup [OF n assms(2) c refl]) (simp_all add: canonical_keys_def static_strip_fields_def)
  then show ?thesis by (simp add: dict_get_def)
qed

definition reduce_state :: agent_state where
  "reduce_state = [(''tool_results'', JList [JDict [(''task_id'', JStr ''t''), (''data'', JList [JInt 1])]]),
     (''_execution_graph'', JDict [(''nodes'', JDict [(''r'', JDict [(''kind'', JStr ''reduce''), (''source_ref'', JStr ''t'')])])])]"

theorem aggregator_sees_no_results_witness:
  "\<exists>u. aggregator_node (\<lambda>r. []) (\<lambda>t. None) [] reduce_state = Some u
    \<and> dict_get (dict_merge reduce_state u) ''_aggregated_results'' JNull = JDict []"
proof -
  have c: "from_state [] reduce_state = Some (empty_context\<lparr>cx_version := 1, cx_parent := 0,
      cx_snapshot := filter (\<lambda>p. keep_field (fst p)) reduce_state\<rparr>)"
    by (simp add: from_state_def reduce_state_def dict_get_def int_field_def str_of_def str_list_def empty_context_def)
  have snap: "filter (\<lambda>p. keep_field (fst p)) reduce_state = tl reduce_state"
    by (simp add: reduce_state_def keep_field_def static_strip_fields_def starts_with_def)
  have up: "aggregator_updates (\<lambda>r. []) (\<lambda>t. None) (tl reduce_state) = Some []"
    by (simp add: aggregator_updates_def, simp add: reduce_state_def dict_get_def get_dict_def get_list_def get_in_def
        results_by_task_def aggregate_nothing del: aggregate.simps)
  have "\<exists>u. context_node (\<lambda>r. []) (\<lambda>t. None) [] ''aggregator_node''
      (\<lambda>c. \<lparr>sp_version = cx_version c + 1, sp_updates = [(''_aggregated_results'', JDict [])], sp_removes = [], sp_ir = None\<rparr>) reduce_state = Some u"
    by (rule context_node_runs) (simp_all add: reduce_state_def dict_get_def is_global_or_session_key_def reserved_keys_def)
  then have "\<exists>u. aggregator_node (\<lambda>r. []) (\<lambda>t. None) [] reduce_state = Some u"
    by (simp add: aggregator_node_def c snap up)
  then obtain u where u: "aggregator_node (\<lambda>r. []) (\<lambda>t. None) [] reduce_state = Some u" ..
  have "distinct (map fst reduce_state)" "map_of reduce_state ''_collections'' = None" by (simp_all add: reduce_state_def)
  from u aggregator_sees_no_results [OF u this] show ?thesis by blast
qed

end
