(* ===== verification/Tool_Inputs.thy ===== *)
theory Tool_Inputs
  imports Recovery Pass_Fusion
begin

text \<open>
  The preparation of a tool call in \<open>tools/executor.py\<close>: the rejection of tools with code
  fields, defaults, coercion and renaming of the inputs by the declared schema, the repair of inputs
  after a schema error, the check of outputs, and the masking of secrets in \<open>tools/sandbox.py\<close>.
  JSON Schema validation is the parameter \<open>valid\<close> and the fuzzy matcher the parameter
  \<open>fuzzy\<close>; \<open>pf\<close> is \<open>float(text)\<close> and \<open>fs\<close> the text of a float.
  The wording of messages is left out.
\<close>

section \<open>Definitions\<close>

text \<open>What ends a call other than by a result.\<close>

datatype tool_exc =
    Sandbox_blocked string
  | Value_error
  | Type_error
  | Schema_error
  | Result_invalid

datatype verdict = Valid | Invalid string | Bad_schema

text \<open>The keyword found and the place where it is; \<open>None\<close> accepts the tool.\<close>

definition code_key :: "string list \<Rightarrow> json dict \<Rightarrow> string option" where
  "code_key keywords d = find (\<lambda>k. py_lower k \<in> set keywords) (map fst d)"

definition check_code_schema :: "string list \<Rightarrow> string \<times> json dict \<Rightarrow> (string \<times> string) option" where
  "check_code_schema keywords p = (case code_key keywords (snd p) of
      Some k \<Rightarrow> Some (k, fst p)
    | None \<Rightarrow> (case dict_get (snd p) ''properties'' (JDict []) of
        JDict props \<Rightarrow> map_option (\<lambda>k. (k, fst p @ ''.properties'')) (code_key keywords props) | _ \<Rightarrow> None))"

definition check_python_code_fields ::
  "string list \<Rightarrow> json dict \<Rightarrow> json dict \<Rightarrow> json dict \<Rightarrow> (string \<times> string) option" where
  "check_python_code_fields keywords inp outp rules = (case List.map_filter (check_code_schema keywords)
      [(''input_schema'', inp), (''output_schema'', outp), (''validation_rules'', rules)] of
      [] \<Rightarrow> None | m # _ \<Rightarrow> Some m)"

definition fix_step :: "(string \<times> string) list \<Rightarrow> json dict \<Rightarrow> string \<Rightarrow> json dict" where
  "fix_step field_map d field = (case map_of field_map (py_lower field) of
      None \<Rightarrow> d
    | Some other \<Rightarrow> (case map_of d other of None \<Rightarrow> d | Some v \<Rightarrow> AList.update field v (AList.delete other d)))"

definition semantic_fix_inputs :: "(string \<times> string) list \<Rightarrow> json dict \<Rightarrow> string list \<Rightarrow> json dict" where
  "semantic_fix_inputs field_map inp names = foldl (fix_step field_map) inp names"

definition effective_max_attempts :: "bool \<Rightarrow> int \<Rightarrow> int" where
  "effective_max_attempts idempotent max_retries = (if idempotent then max_retries + 1 else 1)"

definition output_candidate :: "json dict \<Rightarrow> json dict \<Rightarrow> json" where
  "output_candidate data schema = (case dict_get data ''results'' JNull of
      JList xs \<Rightarrow> if dict_get schema ''type'' JNull = JStr ''array'' then JList xs else JDict data
    | _ \<Rightarrow> JDict data)"

definition output_validation_error ::
  "(json \<Rightarrow> json dict \<Rightarrow> verdict) \<Rightarrow> json dict \<Rightarrow> json dict \<Rightarrow> tool_exc + string option" where
  "output_validation_error valid data schema = (case valid (output_candidate data schema) schema of
      Valid \<Rightarrow> Inr None | Invalid m \<Rightarrow> Inr (Some m) | Bad_schema \<Rightarrow> Inl Schema_error)"

definition fill_default :: "json dict \<Rightarrow> string \<times> json \<Rightarrow> json dict" where
  "fill_default filled p = (case snd p of
      JDict prop \<Rightarrow> (case dict_get prop ''default'' JNull of JNull \<Rightarrow> filled
        | v \<Rightarrow> if dict_has filled (fst p) then filled else AList.update (fst p) v filled)
    | _ \<Rightarrow> filled)"

definition schema_props :: "json dict \<Rightarrow> json dict option" where
  "schema_props schema = (case dict_get schema ''properties'' JNull of JDict props \<Rightarrow> Some props | _ \<Rightarrow> None)"

definition apply_schema_defaults :: "json dict \<Rightarrow> json dict \<Rightarrow> json dict" where
  "apply_schema_defaults inp schema = (case schema_props schema of
      None \<Rightarrow> inp | Some props \<Rightarrow> foldl fill_default inp props)"

text \<open>A value and whether it was converted.\<close>

definition integral :: "rat \<Rightarrow> bool" where
  "integral r = (of_int \<lfloor>r\<rfloor> = r)"

fun coerce_value_to_type ::
  "(rat \<Rightarrow> string) \<Rightarrow> (string \<Rightarrow> rat option) \<Rightarrow> json \<Rightarrow> json \<Rightarrow> json \<times> bool" where
  "coerce_value_to_type fs pf (JStr t) (JBool b) =
     (if t = ''string'' then (JStr (if b then ''true'' else ''false''), True) else (JBool b, False))"
| "coerce_value_to_type fs pf (JStr t) (JInt i) =
     (if t = ''string'' then (JStr (int_str i), True)
      else if t = ''number'' then (JFloat (of_int i), True) else (JInt i, False))"
| "coerce_value_to_type fs pf (JStr t) (JFloat r) =
     (if t = ''string'' then (JStr (fs r), True)
      else if t = ''integer'' \<and> integral r then (JInt \<lfloor>r\<rfloor>, True) else (JFloat r, False))"
| "coerce_value_to_type fs pf (JStr t) (JStr s) =
     (if t = ''number'' \<and> py_strip s \<noteq> [] then (case pf s of Some r \<Rightarrow> (JFloat r, True) | None \<Rightarrow> (JStr s, False))
      else if t = ''integer'' \<and> py_strip s \<noteq> [] then (case py_int s of Some i \<Rightarrow> (JInt i, True) | None \<Rightarrow> (JStr s, False))
      else if t = ''boolean'' then
        (if py_lower (py_strip s) \<in> {''true'', ''1'', ''yes''} then (JBool True, True)
         else if py_lower (py_strip s) \<in> {''false'', ''0'', ''no''} then (JBool False, True) else (JStr s, False))
      else (JStr s, False))"
| "coerce_value_to_type fs pf _ v = (v, False)"

definition coerce_step ::
  "(rat \<Rightarrow> string) \<Rightarrow> (string \<Rightarrow> rat option) \<Rightarrow> json dict \<times> bool \<Rightarrow> string \<times> json \<Rightarrow> json dict \<times> bool" where
  "coerce_step fs pf s p = (case (snd p, map_of (fst s) (fst p)) of
      (JDict prop, Some v) \<Rightarrow> (case coerce_value_to_type fs pf (dict_get prop ''type'' JNull) v of
          (w, True) \<Rightarrow> (AList.update (fst p) w (fst s), True) | (w, False) \<Rightarrow> s)
    | _ \<Rightarrow> s)"

definition coerce_declared_values ::
  "(rat \<Rightarrow> string) \<Rightarrow> (string \<Rightarrow> rat option) \<Rightarrow> json dict \<Rightarrow> json dict \<Rightarrow> json dict \<times> bool" where
  "coerce_declared_values fs pf coerced props = foldl (coerce_step fs pf) (coerced, False) props"

text \<open>\<open>prop.get("x-aliases") or []\<close>, iterated; \<open>None\<close> is a \<open>TypeError\<close>.\<close>

definition alias_items :: "json dict \<Rightarrow> json list option" where
  "alias_items prop = (let v = dict_get prop ''x-aliases'' JNull in if truthy v then py_iter v else Some [])"

definition add_alias :: "string \<Rightarrow> (string \<times> string) list \<Rightarrow> json \<Rightarrow> (string \<times> string) list" where
  "add_alias name m a = (case a of
      JStr t \<Rightarrow> if py_strip t = [] then m else AList.update (py_lower (py_strip t)) name m | _ \<Rightarrow> m)"

definition alias_step ::
  "(string \<times> string) list \<Rightarrow> string \<times> json \<Rightarrow> tool_exc + (string \<times> string) list" where
  "alias_step m p = (case snd p of
      JDict prop \<Rightarrow> (case alias_items prop of None \<Rightarrow> Inl Type_error
        | Some xs \<Rightarrow> Inr (foldl (add_alias (fst p)) m xs))
    | _ \<Rightarrow> Inr m)"

definition remap_target ::
  "(string \<Rightarrow> string list \<Rightarrow> string option) \<Rightarrow> string list \<Rightarrow> (string \<times> string) list \<Rightarrow> string \<Rightarrow> string option" where
  "remap_target fuzzy declared aliases key = (if key \<in> set declared then None else
     (let m = (case map_of aliases (py_lower key) of Some n \<Rightarrow> Some n | None \<Rightarrow> fuzzy key declared) in
      case m of Some n \<Rightarrow> if n \<in> set declared \<and> n \<noteq> key then Some n else None | None \<Rightarrow> None))"

definition remap_step ::
  "(string \<Rightarrow> string list \<Rightarrow> string option) \<Rightarrow> string list \<Rightarrow> (string \<times> string) list
     \<Rightarrow> json dict \<times> bool \<Rightarrow> string \<Rightarrow> json dict \<times> bool" where
  "remap_step fuzzy declared aliases s key = (case remap_target fuzzy declared aliases key of
      None \<Rightarrow> s
    | Some n \<Rightarrow> (AList.update n (dict_get (fst s) key JNull) (AList.delete key (fst s)), True))"

definition coerce_inputs_to_schema ::
  "(string \<Rightarrow> string list \<Rightarrow> string option) \<Rightarrow> (rat \<Rightarrow> string) \<Rightarrow> (string \<Rightarrow> rat option)
     \<Rightarrow> json dict \<Rightarrow> json dict \<Rightarrow> tool_exc + json dict option" where
  "coerce_inputs_to_schema fuzzy fs pf inp schema = (case schema_props schema of
      None \<Rightarrow> Inr None
    | Some props \<Rightarrow> (case fold_err alias_step [] props of
        Inl e \<Rightarrow> Inl e
      | Inr aliases \<Rightarrow>
         (let r = foldl (remap_step fuzzy (map fst props) aliases) (inp, False) (map fst inp);
              c = coerce_declared_values fs pf (fst r) props in
          Inr (if snd r \<or> snd c then Some (fst c) else None))))"

text \<open>Step 2 of \<open>execute\<close>: defaults, validation, one attempt at coercion.\<close>

definition prepare_inputs ::
  "(json \<Rightarrow> json dict \<Rightarrow> verdict) \<Rightarrow> (string \<Rightarrow> string list \<Rightarrow> string option) \<Rightarrow> (rat \<Rightarrow> string)
     \<Rightarrow> (string \<Rightarrow> rat option) \<Rightarrow> json dict \<Rightarrow> json dict \<Rightarrow> tool_exc + json dict option" where
  "prepare_inputs valid fuzzy fs pf schema inp = (if schema = [] then Inr (Some inp) else
     (let filled = apply_schema_defaults inp schema in
      case valid (JDict filled) schema of
        Valid \<Rightarrow> Inr (Some filled)
      | Bad_schema \<Rightarrow> Inl Schema_error
      | Invalid _ \<Rightarrow> (case coerce_inputs_to_schema fuzzy fs pf filled schema of
          Inl e \<Rightarrow> Inl e
        | Inr None \<Rightarrow> Inr None
        | Inr (Some c) \<Rightarrow> (case valid (JDict c) schema of
            Valid \<Rightarrow> Inr (Some c) | Invalid _ \<Rightarrow> Inr None | Bad_schema \<Rightarrow> Inl Schema_error))))"

section \<open>Masking\<close>

fun mask_sensitive :: "string list \<Rightarrow> json \<Rightarrow> json" where
  "mask_sensitive sens (JDict d) =
     JDict (map (\<lambda>p. (fst p, if py_lower (fst p) \<in> set sens then JStr ''***'' else mask_sensitive sens (snd p))) d)"
| "mask_sensitive sens (JList xs) = JList (map (mask_sensitive sens) xs)"
| "mask_sensitive sens v = v"

text \<open>Equality up to the values of sensitive fields.\<close>

fun public_equal :: "string list \<Rightarrow> json \<Rightarrow> json \<Rightarrow> bool" where
  "public_equal sens (JDict d) w = (case w of
      JDict e \<Rightarrow> list_all2 (\<lambda>p q. fst p = fst q \<and> (py_lower (fst p) \<in> set sens \<or> public_equal sens (snd p) (snd q))) d e
    | _ \<Rightarrow> False)"
| "public_equal sens (JList xs) w = (case w of JList ys \<Rightarrow> list_all2 (public_equal sens) xs ys | _ \<Rightarrow> False)"
| "public_equal sens v w = (v = w)"

section \<open>Defaults\<close>

definition declared_default :: "json \<Rightarrow> json option" where
  "declared_default p = (case p of
      JDict prop \<Rightarrow> (case dict_get prop ''default'' JNull of JNull \<Rightarrow> None | v \<Rightarrow> Some v) | _ \<Rightarrow> None)"

lemma fill_default_lookup:
  "map_of (fill_default d (n, p)) k = (case map_of d k of Some v \<Rightarrow> Some v
     | None \<Rightarrow> if k = n then declared_default p else None)"
  by (auto simp: fill_default_def declared_default_def dict_has_def map_of_update split: json.splits option.splits)

lemma defaults_lookup:
  "distinct (map fst props) \<Longrightarrow> map_of (foldl fill_default d props) k = (case map_of d k of Some v \<Rightarrow> Some v
     | None \<Rightarrow> Option.bind (map_of props k) declared_default)"
proof (induction props arbitrary: d)
  case (Cons np props)
  obtain n p where np: "np = (n, p)" by (cases np)
  from Cons.prems np have "n \<notin> fst ` set props" "distinct (map fst props)" by auto
  then have "map_of props n = None" by (simp add: map_of_eq_None_iff)
  with Cons.IH [OF \<open>distinct (map fst props)\<close>] show ?case
    by (auto simp: np fill_default_lookup split: option.splits)
qed (simp split: option.splits)

text \<open>
  Filling defaults keeps every given input and adds exactly the missing properties that declare
  a default, each with its declared value.
\<close>

theorem defaults_only_fill:
  assumes "schema_props schema = Some props" and "distinct (map fst props)"
  shows "map_of (apply_schema_defaults inp schema) k = (case map_of inp k of Some v \<Rightarrow> Some v
     | None \<Rightarrow> Option.bind (map_of props k) declared_default)"
  using assms defaults_lookup by (simp add: apply_schema_defaults_def)

theorem defaults_only_fill_witness:
  "map_of (apply_schema_defaults [(''q'', JStr ''x'')]
     [(''properties'', JDict [(''q'', JDict [(''default'', JStr ''y'')]), (''n'', JDict [(''default'', JInt 5)])])]) ''n''
   = Some (JInt 5)"
  by (subst defaults_only_fill [where props = "[(''q'', JDict [(''default'', JStr ''y'')]), (''n'', JDict [(''default'', JInt 5)])]"])
    (simp_all add: schema_props_def dict_get_def declared_default_def)

section \<open>Coercion\<close>

fun has_declared_type :: "string \<Rightarrow> json \<Rightarrow> bool" where
  "has_declared_type t (JStr s) = (t = ''string'')"
| "has_declared_type t (JInt i) = (t = ''integer'')"
| "has_declared_type t (JFloat r) = (t = ''number'')"
| "has_declared_type t (JBool b) = (t = ''boolean'')"
| "has_declared_type t _ = False"

text \<open>
  A converted value has the declared type, and converting it again changes nothing.
\<close>

theorem coerced_value_typed:
  assumes "coerce_value_to_type fs pf (JStr t) v = (w, True)"
  shows "has_declared_type t w \<and> coerce_value_to_type fs pf (JStr t) w = (w, False)"
  using assms by (cases v) (auto split: if_splits option.splits)

theorem coerced_value_typed_witness:
  "has_declared_type ''integer'' (JInt 42) \<and>
   coerce_value_to_type (\<lambda>r. []) (\<lambda>s. None) (JStr ''integer'') (JInt 42) = (JInt 42, False)"
  by (rule coerced_value_typed [where v = "JFloat 42"]) (simp add: integral_def)

text \<open>Inputs that are sent passed the schema, before or after coercion.\<close>

lemma prepared_valid:
  "prepare_inputs valid fuzzy fs pf schema inp = Inr (Some c) \<Longrightarrow> schema = [] \<or> valid (JDict c) schema = Valid"
  by (auto simp: prepare_inputs_def Let_def split: if_splits verdict.splits sum.splits option.splits)

text \<open>
  A renamed key replaces the value that was given for the declared parameter itself.
\<close>

theorem rename_overwrites_given:
  assumes "remap_target fuzzy declared aliases key = Some n" and "map_of inp key = Some w"
  shows "map_of (fst (remap_step fuzzy declared aliases (inp, c) key)) = (map_of inp)(key := None, n \<mapsto> w)"
proof -
  have "n \<noteq> key" using assms(1) by (auto simp: remap_target_def Let_def split: if_splits option.splits)
  with assms show ?thesis by (simp add: remap_step_def map_of_update map_of_delete dict_get_def)
qed

theorem rename_overwrites_given_witness:
  "map_of (fst (remap_step (\<lambda>k ds. None) [''city''] [(''town'', ''city'')]
     ([(''city'', JStr ''Oslo''), (''Town'', JStr ''Rome'')], False) ''Town'')) ''city'' = Some (JStr ''Rome'')"
  by (subst rename_overwrites_given [where n = "''city''" and w = "JStr ''Rome''"])
    (simp_all add: remap_target_def py_lower_def lower_char_def char_of_def bit_0 bit_Suc)

section \<open>Masking hides exactly the sensitive values\<close>

lemma map_eq_list_all2: "map f xs = map g ys \<longleftrightarrow> list_all2 (\<lambda>x y. f x = g y) xs ys"
  by (auto simp: list_eq_iff_nth_eq list_all2_conv_all_nth)

lemma mask_leaf:
  "JNull = mask_sensitive sens w \<longleftrightarrow> JNull = w" "JBool b = mask_sensitive sens w \<longleftrightarrow> JBool b = w"
  "JInt i = mask_sensitive sens w \<longleftrightarrow> JInt i = w" "JFloat r = mask_sensitive sens w \<longleftrightarrow> JFloat r = w"
  "JStr t = mask_sensitive sens w \<longleftrightarrow> JStr t = w"
  by (cases w; simp)+

text \<open>
  Two payloads look the same in the log exactly when they differ at most in the values of
  sensitive fields, at any depth: nothing secret leaks and nothing public is lost.
\<close>

theorem mask_hides_exactly_secrets:
  "mask_sensitive sens v = mask_sensitive sens w \<longleftrightarrow> public_equal sens v w"
proof (induction sens v w rule: public_equal.induct)
  case (1 sens d w)
  show ?case
  proof (cases w)
    case (JDict e)
    have "list_all2 (\<lambda>p q. (fst p, if py_lower (fst p) \<in> set sens then JStr ''***'' else mask_sensitive sens (snd p))
        = (fst q, if py_lower (fst q) \<in> set sens then JStr ''***'' else mask_sensitive sens (snd q))) d e
      = list_all2 (\<lambda>p q. fst p = fst q \<and> (py_lower (fst p) \<in> set sens \<or> public_equal sens (snd p) (snd q))) d e"
    proof (rule list.rel_cong [OF refl refl])
      fix p q assume "p \<in> set d" "q \<in> set e"
      with 1 JDict have "mask_sensitive sens (snd p) = mask_sensitive sens (snd q) \<longleftrightarrow> public_equal sens (snd p) (snd q)"
        by (metis prod.collapse)
      then show "((fst p, if py_lower (fst p) \<in> set sens then JStr ''***'' else mask_sensitive sens (snd p))
          = (fst q, if py_lower (fst q) \<in> set sens then JStr ''***'' else mask_sensitive sens (snd q)))
        = (fst p = fst q \<and> (py_lower (fst p) \<in> set sens \<or> public_equal sens (snd p) (snd q)))" by auto
    qed
    then show ?thesis by (simp add: JDict map_eq_list_all2)
  qed simp_all
next
  case (2 sens xs w)
  show ?case
  proof (cases w)
    case (JList ys)
    have "list_all2 (\<lambda>x y. mask_sensitive sens x = mask_sensitive sens y) xs ys = list_all2 (public_equal sens) xs ys"
      by (rule list.rel_cong [OF refl refl]) (use 2 JList in blast)
    then show ?thesis by (simp add: JList map_eq_list_all2)
  qed simp_all
qed (simp_all add: mask_leaf)

end
