(* ===== verification/Tool_Sandbox.thy ===== *)
theory Tool_Sandbox
  imports Tool_Inputs
begin

text \<open>
  The host sandbox of \<open>tools/sandbox.py\<close>, with what it uses of the standard library:
  \<open>urlparse\<close> up to the host name, and \<open>fnmatch\<close>.  Name resolution, the properties
  of an address and the check of bracketed hosts are the parameters of \<open>net_env\<close>.
  Host names outside ASCII are not modelled.
\<close>

section \<open>Host names\<close>

definition is_alpha :: "char \<Rightarrow> bool" where
  "is_alpha c = (let n = of_char c :: nat in (65 \<le> n \<and> n \<le> 90) \<or> (97 \<le> n \<and> n \<le> 122))"

definition scheme_char :: "char \<Rightarrow> bool" where
  "scheme_char c = (is_alpha c \<or> is_digit c \<or> c \<in> set ''+-.'')"

definition clean_url :: "string \<Rightarrow> string" where
  "clean_url u = filter (\<lambda>c. (of_char c :: nat) \<notin> {9, 10, 13}) (dropWhile (\<lambda>c. (of_char c :: nat) \<le> 32) u)"

text \<open>The scheme, in lower case, and what follows it.\<close>

definition split_scheme :: "string \<Rightarrow> string \<times> string" where
  "split_scheme u = (let s = takeWhile (\<lambda>c. c \<noteq> CHR '':'') u in
     if CHR '':'' \<in> set u \<and> s \<noteq> [] \<and> is_alpha (hd s) \<and> list_all scheme_char s
     then (py_lower s, drop (length s + 1) u) else ([], u))"

definition split_netloc :: "string \<Rightarrow> string" where
  "split_netloc u = (if starts_with ''//'' u then takeWhile (\<lambda>c. c \<notin> set ''/?#'') (drop 2 u) else [])"

definition after_last :: "char \<Rightarrow> string \<Rightarrow> string" where
  "after_last c s = rev (takeWhile (\<lambda>x. x \<noteq> c) (rev s))"

text \<open>\<open>parsed.hostname\<close>; the empty string is its \<open>None\<close>.\<close>

definition netloc_host :: "string \<Rightarrow> string" where
  "netloc_host netloc = (let h = after_last (CHR ''@'') netloc in
     let name = (if CHR ''['' \<in> set h
        then takeWhile (\<lambda>c. c \<noteq> CHR '']'') (tl (dropWhile (\<lambda>c. c \<noteq> CHR ''['') h))
        else takeWhile (\<lambda>c. c \<noteq> CHR '':'') h) in
     py_lower (takeWhile (\<lambda>c. c \<noteq> CHR ''%'') name) @ dropWhile (\<lambda>c. c \<noteq> CHR ''%'') name)"

datatype ip_info = Ip (ip_private: bool) (ip_loopback: bool) (ip_link_local: bool) (ip_reserved: bool)
  (ip_unspecified: bool) (ip_mapped: "ip_info option")

record net_env =
  ne_addresses :: "string \<Rightarrow> string list"   \<comment> \<open>\<open>getaddrinfo\<close>; none when it raises\<close>
  ne_ip :: "string \<Rightarrow> ip_info option"        \<comment> \<open>\<open>ipaddress.ip_address\<close>\<close>
  ne_bracketed :: "string \<Rightarrow> bool"           \<comment> \<open>whether a bracketed host is accepted\<close>

definition url_parse :: "net_env \<Rightarrow> string \<Rightarrow> tool_exc + string \<times> string" where
  "url_parse env url = (let su = split_scheme (clean_url url); netloc = split_netloc (snd su) in
     if (CHR ''['' \<in> set netloc) \<noteq> (CHR '']'' \<in> set netloc) then Inl Value_error
     else if CHR ''['' \<in> set netloc \<and> \<not> ne_bracketed env netloc then Inl Value_error
     else Inr (fst su, netloc_host netloc))"

section \<open>Patterns\<close>

datatype class_item = One char | Range char char

datatype glob_token = Star | Any_char | Class bool "class_item list" | Literal char

fun class_items :: "string \<Rightarrow> class_item list" where
  "class_items (a # d # b # cs) = (if d = CHR ''-'' then Range a b # class_items cs else One a # class_items (d # b # cs))"
| "class_items (a # cs) = One a # class_items cs"
| "class_items [] = []"

text \<open>The text of a set after its opening bracket: negation, members, rest; \<open>None\<close> when it is not closed.\<close>

definition class_body :: "string \<Rightarrow> (bool \<times> string \<times> string) option" where
  "class_body cs = (let neg = starts_with ''!'' cs; b = (if neg then tl cs else cs);
       lead = (if starts_with '']'' b then '']'' else []); r = drop (length lead) b in
     if CHR '']'' \<in> set r then Some (neg, lead @ takeWhile (\<lambda>c. c \<noteq> CHR '']'') r, tl (dropWhile (\<lambda>c. c \<noteq> CHR '']'') r))
     else None)"

lemma class_body_shorter: "class_body cs = Some (neg, members, rest) \<Longrightarrow> length rest < Suc (length cs)"
proof -
  assume a: "class_body cs = Some (neg, members, rest)"
  define b where "b = (if starts_with ''!'' cs then tl cs else cs)"
  define r where "r = drop (length (if starts_with '']'' b then '']'' else [])) b"
  have "rest = tl (dropWhile (\<lambda>c. c \<noteq> CHR '']'') r)"
    using a by (auto simp: class_body_def Let_def b_def r_def split: if_splits)
  moreover have "length (tl (dropWhile (\<lambda>c. c \<noteq> CHR '']'') r)) \<le> length r"
    using length_dropWhile_le [of "\<lambda>c. c \<noteq> CHR '']''" r] by simp
  moreover have "length r \<le> length b" by (simp add: r_def)
  moreover have "length b \<le> length cs" by (simp add: b_def)
  ultimately show ?thesis by simp
qed

function glob_tokens :: "string \<Rightarrow> glob_token list" where
  "glob_tokens [] = []"
| "glob_tokens (c # cs) =
     (if c = CHR ''*'' then Star # glob_tokens cs
      else if c = CHR ''?'' then Any_char # glob_tokens cs
      else if c = CHR ''['' then (case class_body cs of
          None \<Rightarrow> Literal c # glob_tokens cs
        | Some (neg, members, rest) \<Rightarrow> Class neg (class_items members) # glob_tokens rest)
      else Literal c # glob_tokens cs)"
  by pat_completeness auto
termination by (relation "measure length") (auto dest: class_body_shorter)

fun in_item :: "char \<Rightarrow> class_item \<Rightarrow> bool" where
  "in_item c (One a) = (c = a)"
| "in_item c (Range a b) = (a \<le> c \<and> c \<le> b)"

fun token_char :: "glob_token \<Rightarrow> char \<Rightarrow> bool" where
  "token_char Star c = True"
| "token_char Any_char c = True"
| "token_char (Class neg items) c = (list_ex (in_item c) items \<noteq> neg)"
| "token_char (Literal a) c = (c = a)"

fun glob_match :: "glob_token list \<Rightarrow> string \<Rightarrow> bool" where
  "glob_match [] s = (s = [])"
| "glob_match (Star # ps) [] = glob_match ps []"
| "glob_match (Star # ps) (c # cs) = (glob_match ps (c # cs) \<or> glob_match (Star # ps) cs)"
| "glob_match (p # ps) [] = False"
| "glob_match (p # ps) (c # cs) = (token_char p c \<and> glob_match ps cs)"

definition fnmatch :: "string \<Rightarrow> string \<Rightarrow> bool" where
  "fnmatch name pattern = glob_match (glob_tokens pattern) name"

section \<open>The checks\<close>

fun internal_ip :: "ip_info \<Rightarrow> bool" where
  "internal_ip (Ip p l k r u m) = (p \<or> l \<or> k \<or> r \<or> u \<or>
     (case m of None \<Rightarrow> False | Some i \<Rightarrow> ip_private i \<or> ip_loopback i \<or> ip_link_local i \<or> ip_reserved i \<or> ip_unspecified i))"

definition block_private_addresses :: "net_env \<Rightarrow> string \<Rightarrow> tool_exc + unit" where
  "block_private_addresses env host =
     (if list_ex (\<lambda>a. case ne_ip env a of None \<Rightarrow> False | Some i \<Rightarrow> internal_ip i) (host # ne_addresses env host)
      then Inl (Sandbox_blocked host) else Inr ())"

definition check_allowed_host :: "net_env \<Rightarrow> string \<Rightarrow> string list \<Rightarrow> bool \<Rightarrow> tool_exc + unit" where
  "check_allowed_host env url allowed enforce = (case url_parse env url of Inl e \<Rightarrow> Inl e
     | Inr (scheme, name) \<Rightarrow>
        (let host = (if name = [] then url else name) in
         if enforce \<and> scheme \<notin> {''http'', ''https''} then Inl (Sandbox_blocked host)
         else if allowed = [] then Inl (Sandbox_blocked host)
         else if ''*'' \<notin> set allowed \<and> \<not> list_ex (fnmatch host) allowed then Inl (Sandbox_blocked host)
         else if enforce then block_private_addresses env host else Inr ()))"

text \<open>\<open>_validate_final_url\<close>: the strict check when the host moved or an input holds a URL.\<close>

definition url_input :: "json dict \<Rightarrow> bool" where
  "url_input inp = list_ex (\<lambda>p. case snd p of JStr t \<Rightarrow> contains_str ''://'' t | _ \<Rightarrow> False) inp"

definition validate_final_url ::
  "net_env \<Rightarrow> string list \<Rightarrow> string \<Rightarrow> string \<Rightarrow> json dict \<Rightarrow> tool_exc + unit" where
  "validate_final_url env allowed url registered inp = (case url_parse env registered of Inl e \<Rightarrow> Inl e
     | Inr (s1, reg) \<Rightarrow> (case url_parse env url of Inl e \<Rightarrow> Inl e
     | Inr (s2, final) \<Rightarrow> check_allowed_host env url allowed (py_lower final \<noteq> py_lower reg \<or> url_input inp)))"

section \<open>Patterns mean what they say\<close>

definition piece :: "glob_token \<Rightarrow> string \<Rightarrow> bool" where
  "piece p w = (p = Star \<or> length w = 1 \<and> token_char p (hd w))"

lemma star_cases: "(\<exists>ws. list_all2 piece (Star # ps) ws \<and> concat ws = s) \<longleftrightarrow>
    (\<exists>w r. s = w @ r \<and> (\<exists>ws. list_all2 piece ps ws \<and> concat ws = r))"
proof safe
  fix ws assume "list_all2 piece (Star # ps) ws" "s = concat ws"
  then show "\<exists>w r. concat ws = w @ r \<and> (\<exists>ws. list_all2 piece ps ws \<and> concat ws = r)"
    by (metis concat.simps(2) list_all2_Cons1)
next
  fix w ws assume "list_all2 piece ps ws"
  then show "\<exists>ws'. list_all2 piece (Star # ps) ws' \<and> concat ws' = w @ concat ws"
    by (intro exI [of _ "w # ws"]) (simp add: piece_def)
qed

lemma one_cases: "p \<noteq> Star \<Longrightarrow> (\<exists>ws. list_all2 piece (p # ps) ws \<and> concat ws = s) \<longleftrightarrow>
    (\<exists>c r. s = c # r \<and> token_char p c \<and> (\<exists>ws. list_all2 piece ps ws \<and> concat ws = r))"
  by (fastforce simp: list_all2_Cons1 piece_def length_Suc_conv)

text \<open>
  The matcher accepts exactly the texts that fall into one piece per token: any text for
  a star, one fitting character for every other token.
\<close>

theorem glob_match_exact:
  "glob_match ps s \<longleftrightarrow> (\<exists>ws. list_all2 piece ps ws \<and> concat ws = s)"
proof (induction ps s rule: glob_match.induct)
  case (1 s)
  then show ?case by auto
next
  case (2 ps)
  then show ?case by (simp add: star_cases del: concat_eq_Nil_conv)
next
  case (3 ps c cs)
  have "(\<exists>w r. c # cs = w @ r \<and> P r) \<longleftrightarrow> P (c # cs) \<or> (\<exists>w r. cs = w @ r \<and> P r)" for P :: "string \<Rightarrow> bool"
    by (auto simp: Cons_eq_append_conv)
  with 3 show ?case by (simp add: star_cases)
qed (simp_all add: one_cases del: concat_eq_Nil_conv)

lemma glob_literals: "glob_match (map Literal t) s \<longleftrightarrow> s = t"
  by (induction t arbitrary: s) (case_tac s; force)+

lemma glob_star: "glob_match (Star # ps) s \<longleftrightarrow> (\<exists>w r. s = w @ r \<and> glob_match ps r)"
proof (induction s)
  case (Cons c cs)
  then show ?case by (auto simp: Cons_eq_append_conv)
qed simp

definition plain_char :: "char \<Rightarrow> bool" where
  "plain_char c = (c \<notin> set ''*?['')"

lemma tokens_plain: "list_all plain_char t \<Longrightarrow> glob_tokens t = map Literal t"
  by (induction t) (auto simp: plain_char_def)

lemma ends_with_iff: "ends_with t s \<longleftrightarrow> (\<exists>w. s = w @ t)"
  by (metis append_take_drop_id ends_with_def rev_append rev_rev_ident starts_with_def
      append_eq_conv_conj length_rev)

text \<open>
  The usual entries of a whitelist: a plain name admits that host only, and a star followed
  by a plain suffix admits exactly the hosts with that suffix.
\<close>

theorem whitelist_entries_exact:
  assumes "list_all plain_char t"
  shows "(fnmatch host t \<longleftrightarrow> host = t) \<and> (fnmatch host (CHR ''*'' # t) \<longleftrightarrow> ends_with t host)"
  using assms by (simp add: fnmatch_def tokens_plain glob_literals glob_star ends_with_iff)

theorem whitelist_entries_exact_witness:
  "(fnmatch ''api.example.com'' ''.example.com'' \<longleftrightarrow> ''api.example.com'' = ''.example.com'') \<and>
   (fnmatch ''api.example.com'' ''*.example.com'' \<longleftrightarrow> ends_with ''.example.com'' ''api.example.com'')"
  by (rule whitelist_entries_exact) (simp add: plain_char_def)

section \<open>What a check guarantees\<close>

definition whitelisted :: "string list \<Rightarrow> string \<Rightarrow> bool" where
  "whitelisted allowed host = (''*'' \<in> set allowed \<or> (\<exists>p \<in> set allowed. fnmatch host p))"

definition resolves_internal :: "net_env \<Rightarrow> string \<Rightarrow> bool" where
  "resolves_internal env host = (\<exists>a \<in> set (host # ne_addresses env host). \<exists>i. ne_ip env a = Some i \<and> internal_ip i)"

definition url_target :: "string \<Rightarrow> string \<Rightarrow> string" where
  "url_target url name = (if name = [] then url else name)"

lemma check_allowed_host_iff:
  "check_allowed_host env url allowed enforce = Inr () \<longleftrightarrow>
   (\<exists>scheme name. url_parse env url = Inr (scheme, name) \<and> whitelisted allowed (url_target url name) \<and>
      (enforce \<longrightarrow> scheme \<in> {''http'', ''https''} \<and> \<not> resolves_internal env (url_target url name)))"
proof (cases "url_parse env url")
  case (Inr sn)
  obtain scheme name where sn: "sn = (scheme, name)" by (cases sn)
  have block: "block_private_addresses env h = Inr () \<longleftrightarrow> \<not> resolves_internal env h" for h
    by (auto simp: block_private_addresses_def resolves_internal_def list_ex_iff split: option.splits)
  have white: "whitelisted allowed h \<longleftrightarrow> allowed \<noteq> [] \<and> (''*'' \<in> set allowed \<or> list_ex (fnmatch h) allowed)" for h
    by (auto simp: whitelisted_def list_ex_iff)
  show ?thesis
    by (simp add: check_allowed_host_def Inr sn Let_def white url_target_def [symmetric] block)
qed (simp add: check_allowed_host_def)

text \<open>
  A destination that is accepted is whitelisted, and if it is not the registered host, or an
  input carried a URL, it is reached by HTTP and none of its addresses is internal.
\<close>

theorem final_url_sandboxed:
  assumes "validate_final_url env allowed url registered inp = Inr ()"
    and "url_parse env url = Inr (scheme, name)" and "url_parse env registered = Inr (scheme', name')"
  shows "whitelisted allowed (url_target url name) \<and>
    (py_lower name \<noteq> py_lower name' \<or> url_input inp \<longrightarrow>
       scheme \<in> {''http'', ''https''} \<and> \<not> resolves_internal env (url_target url name))"
  using assms by (simp add: validate_final_url_def check_allowed_host_iff)

text \<open>The metadata address behind an input URL is refused, a static registered host is trusted.\<close>

definition demo_net :: net_env where
  "demo_net = \<lparr>ne_addresses = (\<lambda>h. if h = ''intranet'' then [''10.0.0.7''] else []),
     ne_ip = (\<lambda>a. if a = ''10.0.0.7'' then Some (Ip True False False False False None) else None),
     ne_bracketed = (\<lambda>n. True)\<rparr>"

lemmas url_eval = url_parse_def split_scheme_def split_netloc_def clean_url_def netloc_host_def after_last_def
  is_alpha_def scheme_char_def is_digit_def starts_with_def py_lower_def lower_char_def Let_def char_of_def bit_0 bit_Suc

lemma parse_intranet: "url_parse demo_net ''http://intranet/x'' = Inr (''http'', ''intranet'')"
  by (simp add: url_eval)

lemma parse_api: "url_parse demo_net ''https://api/x'' = Inr (''https'', ''api'')"
  by (simp add: url_eval)

lemma api_public: "\<not> resolves_internal demo_net ''api''"
  by (simp add: resolves_internal_def demo_net_def)

theorem final_url_sandboxed_witness:
  "whitelisted [''*''] (url_target ''https://api/x'' ''api'') \<and>
    (py_lower ''api'' \<noteq> py_lower ''intranet'' \<or> url_input [] \<longrightarrow>
       ''https'' \<in> {''http'', ''https''} \<and> \<not> resolves_internal demo_net (url_target ''https://api/x'' ''api''))"
proof (rule final_url_sandboxed [OF _ parse_api parse_intranet])
  have "check_allowed_host demo_net ''https://api/x'' [''*''] e = Inr ()" for e
    by (simp add: check_allowed_host_iff parse_api whitelisted_def url_target_def api_public)
  then show "validate_final_url demo_net [''*''] ''https://api/x'' ''http://intranet/x'' [] = Inr ()"
    by (simp add: validate_final_url_def parse_api parse_intranet)
qed

end
