(* ===== verification/Tool_Request.thy ===== *)
theory Tool_Request
  imports Tool_Sandbox Codegen
begin

text \<open>
  The URL of a tool call, as \<open>_execute_http\<close> of \<open>tools/executor.py\<close> builds it: template
  substitution, missing path segments, and the query string, with the part of \<open>urlencode\<close>
  that it uses.
\<close>

section \<open>Templates\<close>

text \<open>\<open>\w\<close> among the 8-bit characters.\<close>

definition word_char :: "char \<Rightarrow> bool" where
  "word_char c = (is_word c \<or> (let n = of_char c :: nat in n \<in> {170, 178, 179, 181, 185, 186} \<or>
     (188 \<le> n \<and> n \<le> 190) \<or> (192 \<le> n \<and> n \<noteq> 215 \<and> n \<noteq> 247)))"

text \<open>\<open>finditer(r"\{(\w+)\}", url)\<close>: start and name of every match.\<close>

fun find_params :: "nat \<Rightarrow> string \<Rightarrow> (nat \<times> string) list" where
  "find_params i [] = []"
| "find_params i (c # cs) = (let w = takeWhile word_char cs in
     if c = CHR 0x7B \<and> w \<noteq> [] \<and> starts_with [CHR 0x7D] (drop (length w) cs)
     then (i, w) # find_params (i + length w + 2) (drop (length w + 1) cs) else find_params (i + 1) cs)"

definition braced :: "string \<Rightarrow> string" where
  "braced w = CHR 0x7B # w @ [CHR 0x7D]"

text \<open>The text of a value in a path; \<open>None\<close> when it counts as absent.\<close>

definition param_text :: "(rat \<Rightarrow> string) \<Rightarrow> json \<Rightarrow> string option" where
  "param_text fs v = (case v of
      JNull \<Rightarrow> None
    | JBool b \<Rightarrow> Some (if b then ''true'' else ''false'')
    | JStr t \<Rightarrow> if py_strip t = [] \<or> py_lower (py_strip t) = ''none'' \<or> starts_with ''${'' t then None else Some t
    | _ \<Rightarrow> Some (py_str fs v))"

definition fill_step :: "(rat \<Rightarrow> string) \<Rightarrow> json dict \<Rightarrow> string \<times> json dict \<Rightarrow> string \<Rightarrow> string \<times> json dict" where
  "fill_step fs inp s p = (case map_of inp p of
      None \<Rightarrow> s
    | Some v \<Rightarrow> (case param_text fs v of
        Some t \<Rightarrow> (py_replace (braced p) t 0 (fst s), AList.delete p (snd s))
      | None \<Rightarrow> (fst s, AList.delete p (snd s))))"

definition fill_template :: "(rat \<Rightarrow> string) \<Rightarrow> json dict \<Rightarrow> string \<Rightarrow> string \<times> json dict" where
  "fill_template fs inp url = foldl (fill_step fs inp) (url, inp) (map snd (find_params 0 url))"

definition required_params :: "json dict \<Rightarrow> tool_exc + json list" where
  "required_params schema = (let r = dict_get schema ''required'' JNull in
     if truthy r then (case py_iter r of None \<Rightarrow> Inl Type_error
       | Some xs \<Rightarrow> if list_ex (\<lambda>x. case x of JList _ \<Rightarrow> True | JDict _ \<Rightarrow> True | _ \<Rightarrow> False) xs then Inl Type_error else Inr xs)
     else Inr [])"

definition rstrip_chars :: "string \<Rightarrow> string \<Rightarrow> string" where
  "rstrip_chars chars s = rev (dropWhile (\<lambda>c. c \<in> set chars) (rev s))"

text \<open>One unfilled placeholder: a segment that is required, or not the last one, is an error.\<close>

definition strip_step :: "json list \<Rightarrow> nat option \<Rightarrow> string \<Rightarrow> nat \<times> string \<Rightarrow> tool_exc + string" where
  "strip_step required path_len url m = (let start = fst m; rest = drop (start + length (snd m) + 2) url in
     if \<not> start < (case path_len of Some n \<Rightarrow> n | None \<Rightarrow> length url) then Inr url
     else if JStr (snd m) \<in> set required \<or> rest \<notin> {[], ''/''} then Inl Value_error
     else Inr (rstrip_chars ''/'' (take start url)))"

text \<open>\<open>finditer(r"[?&]\{(\w+)\}", query)\<close>: the matched texts.\<close>

fun find_query_params :: "string \<Rightarrow> string list" where
  "find_query_params [] = []"
| "find_query_params (c # cs) = (let w = takeWhile word_char (tl cs) in
     if c \<in> set ''?&'' \<and> starts_with [CHR 0x7B] cs \<and> w \<noteq> [] \<and> starts_with [CHR 0x7D] (drop (length w + 1) cs)
     then (c # braced w) # find_query_params (drop (length w + 2) cs) else find_query_params cs)"

definition strip_unfilled :: "json dict \<Rightarrow> string \<Rightarrow> tool_exc + string" where
  "strip_unfilled schema url = (case required_params schema of Inl e \<Rightarrow> Inl e | Inr required \<Rightarrow>
     (let path = takeWhile (\<lambda>c. c \<noteq> CHR ''?'') url; sep = (CHR ''?'' \<in> set url); query = tl (dropWhile (\<lambda>c. c \<noteq> CHR ''?'') url) in
      case fold_err (strip_step required (if sep then Some (length path) else None)) url (find_params 0 url) of
        Inl e \<Rightarrow> Inl e
      | Inr u \<Rightarrow> Inr (if sep then rstrip_chars ''?&'' (foldl (\<lambda>v g. py_replace g [] 0 v) u (find_query_params query)) else u)))"

section \<open>The query string\<close>

definition upper_hex :: "nat \<Rightarrow> char" where
  "upper_hex n = (if n < 10 then char_of (48 + n) else char_of (55 + n))"

definition percent :: "nat \<Rightarrow> string" where
  "percent b = [CHR 0x25, upper_hex (b div 16), upper_hex (b mod 16)]"

definition quote_char :: "char \<Rightarrow> string" where
  "quote_char c = (let n = of_char c :: nat in
     if is_alpha c \<or> is_digit c \<or> c \<in> set ''_.-~'' then [c]
     else if n = 32 then ''+''
     else if n < 128 then percent n
     else percent (192 + n div 64) @ percent (128 + n mod 64))"

definition quote_plus :: "string \<Rightarrow> string" where
  "quote_plus s = concat (map quote_char s)"

definition urlencode :: "(string \<times> string) list \<Rightarrow> string" where
  "urlencode ps = py_join ''&'' (map (\<lambda>p. quote_plus (fst p) @ ''='' @ quote_plus (snd p)) ps)"

definition merge_query :: "(rat \<Rightarrow> string) \<Rightarrow> string \<Rightarrow> json dict \<Rightarrow> string" where
  "merge_query fs url params = (let e = urlencode (map (\<lambda>p. (fst p, py_str fs (snd p))) params) in
     if params = [] \<or> e = [] then url else url @ (if CHR ''?'' \<in> set url then ''&'' else ''?'') @ e)"

text \<open>The URL and the parameters that are left for the body.\<close>

definition build_url :: "(rat \<Rightarrow> string) \<Rightarrow> json dict \<Rightarrow> string \<Rightarrow> json dict \<Rightarrow> tool_exc + string \<times> json dict" where
  "build_url fs schema endpoint inp = (if CHR 0x7B \<in> set endpoint
     then (let r = fill_template fs inp endpoint in case strip_unfilled schema (fst r) of
        Inl e \<Rightarrow> Inl e | Inr url \<Rightarrow> Inr (merge_query fs url (snd r), snd r))
     else Inr (merge_query fs endpoint inp, inp))"

definition graphql_query :: "json dict \<Rightarrow> string option" where
  "graphql_query schema = (case dict_get schema ''x-graphql-query'' JNull of
      JStr t \<Rightarrow> if py_strip t = [] then None else Some (py_strip t) | _ \<Rightarrow> None)"

section \<open>Placeholders of a URL\<close>

definition has_param :: "string \<Rightarrow> bool" where
  "has_param s = (\<exists>u w v. s = u @ braced w @ v \<and> w \<noteq> [] \<and> list_all word_char w)"

lemma takeWhile_word: "list_all word_char w \<Longrightarrow> takeWhile word_char (w @ CHR 0x7D # v) = w"
  by (induction w) (simp_all add: word_char_def is_word_def)

definition at_param :: "char \<Rightarrow> string \<Rightarrow> bool" where
  "at_param c cs = (c = CHR 0x7B \<and> takeWhile word_char cs \<noteq> [] \<and>
     starts_with [CHR 0x7D] (drop (length (takeWhile word_char cs)) cs))"

lemma at_param_iff: "at_param c cs \<longleftrightarrow> (\<exists>w v. c # cs = braced w @ v \<and> w \<noteq> [] \<and> list_all word_char w)"
proof
  assume a: "at_param c cs"
  let ?w = "takeWhile word_char cs"
  from a obtain v where "drop (length ?w) cs = CHR 0x7D # v"
    by (cases "drop (length ?w) cs") (auto simp: at_param_def starts_with_def)
  then have "cs = ?w @ CHR 0x7D # v"
    by (metis append_take_drop_id takeWhile_eq_take)
  moreover have "list_all word_char ?w" by (auto simp: list_all_iff dest: set_takeWhileD)
  ultimately show "\<exists>w v. c # cs = braced w @ v \<and> w \<noteq> [] \<and> list_all word_char w"
    using a unfolding at_param_def braced_def by (intro exI [of _ ?w] exI [of _ v]) simp
next
  assume "\<exists>w v. c # cs = braced w @ v \<and> w \<noteq> [] \<and> list_all word_char w"
  then show "at_param c cs" by (auto simp: at_param_def braced_def takeWhile_word starts_with_def)
qed

lemma has_param_Cons: "has_param (c # cs) \<longleftrightarrow> at_param c cs \<or> has_param cs"
proof
  assume "has_param (c # cs)"
  then obtain u w v where "c # cs = u @ braced w @ v" "w \<noteq> []" "list_all word_char w" by (auto simp: has_param_def)
  then show "at_param c cs \<or> has_param cs"
    by (cases u; simp; metis at_param_iff has_param_def)
next
  have "has_param cs \<Longrightarrow> has_param (c # cs)" unfolding has_param_def by (metis append_Cons)
  moreover have "at_param c cs \<Longrightarrow> has_param (c # cs)" unfolding at_param_iff has_param_def by (metis append_Nil)
  ultimately show "at_param c cs \<or> has_param cs \<Longrightarrow> has_param (c # cs)" by blast
qed

lemma at_param_prefix: "at_param c u \<Longrightarrow> at_param c (u @ v)"
  unfolding at_param_iff by (metis append_Cons append_assoc)

lemma no_param_Nil [simp]: "\<not> has_param []"
  by (simp add: has_param_def braced_def)

lemma find_params_Cons:
  "find_params i (c # cs) = (if at_param c cs then let w = takeWhile word_char cs in
     (i, w) # find_params (i + length w + 2) (drop (length w + 1) cs) else find_params (i + 1) cs)"
  by (simp add: at_param_def Let_def)

lemma first_param:
  "find_params i s = (st, w) # ms \<Longrightarrow>
    \<exists>u v. s = u @ braced w @ v \<and> st = i + length u \<and> w \<noteq> [] \<and> list_all word_char w
      \<and> \<not> has_param u \<and> ms = find_params (st + length w + 2) v"
proof (induction s arbitrary: i)
  case (Cons c cs)
  show ?case
  proof (cases "at_param c cs")
    case True
    then obtain w' v where w': "c # cs = braced w' @ v" "w' \<noteq> []" "list_all word_char w'" by (auto simp: at_param_iff)
    then have "takeWhile word_char cs = w'" "drop (length w' + 1) cs = v" by (auto simp: braced_def takeWhile_word)
    with Cons.prems True have "st = i" "w' = w" "ms = find_params (st + length w + 2) v"
      by (auto simp: find_params_Cons Let_def simp del: find_params.simps)
    with w' show ?thesis by (intro exI [of _ "[]"] exI [of _ v]) simp
  next
    case False
    with Cons.prems have "find_params (i + 1) cs = (st, w) # ms" by (simp add: find_params_Cons del: find_params.simps)
    from Cons.IH [OF this] obtain u v where uv: "cs = u @ braced w @ v" "st = i + 1 + length u" "w \<noteq> []"
      "list_all word_char w" "\<not> has_param u" "ms = find_params (st + length w + 2) v" by blast
    with False have "\<not> has_param (c # u)" using at_param_prefix by (auto simp: has_param_Cons)
    with uv show ?thesis by (intro exI [of _ "c # u"] exI [of _ v]) simp
  qed
qed simp

lemma no_params_iff: "find_params i s = [] \<longleftrightarrow> \<not> has_param s"
proof (induction s arbitrary: i)
  case (Cons c cs)
  then show ?case by (auto simp: find_params_Cons has_param_Cons Let_def simp del: find_params.simps)
qed simp

lemma has_param_append: "has_param u \<Longrightarrow> has_param (u @ v)" "has_param v \<Longrightarrow> has_param (u @ v)"
  by (induction u) (auto simp: has_param_Cons intro: at_param_prefix)

lemma no_brace_no_param: "CHR 0x7B \<notin> set s \<Longrightarrow> \<not> has_param s"
  by (auto simp: has_param_def braced_def)

lemma no_param_append: "\<lbrakk>\<not> has_param u; CHR 0x7B \<notin> set v; CHR 0x7D \<notin> set v\<rbrakk> \<Longrightarrow> \<not> has_param (u @ v)"
proof (induction u)
  case (Cons c u)
  have "at_param c (u @ v) \<Longrightarrow> at_param c u"
  proof -
    assume "at_param c (u @ v)"
    then obtain w x where wx: "c # u @ v = braced w @ x" "w \<noteq> []" "list_all word_char w" by (auto simp: at_param_iff)
    then have "u @ v = (w @ [CHR 0x7D]) @ x" by (simp add: braced_def)
    then have "\<exists>us. (u = (w @ [CHR 0x7D]) @ us \<and> us @ v = x) \<or> (u @ us = w @ [CHR 0x7D] \<and> v = us @ x)"
      unfolding append_eq_append_conv2 .
    then show ?thesis
    proof (elim exE disjE conjE)
      fix us assume "u = (w @ [CHR 0x7D]) @ us"
      with wx show ?thesis unfolding at_param_iff by (fastforce simp: braced_def)
    next
      fix us assume us: "u @ us = w @ [CHR 0x7D]" "v = us @ x"
      with Cons.prems(3) have "us = []" by (cases us rule: rev_cases) auto
      with us wx show ?thesis unfolding at_param_iff by (fastforce simp: braced_def)
    qed
  qed
  with Cons show ?case by (auto simp: has_param_Cons)
qed (simp add: no_brace_no_param)

text \<open>What the loop over unfilled segments leaves when it raises nothing.\<close>

lemma strip_path_no_param:
  assumes "fold_err (strip_step required None) url (find_params 0 url) = Inr u"
  shows "\<not> has_param u"
proof (cases "find_params 0 url")
  case Nil
  with assms show ?thesis by (simp add: no_params_iff)
next
  case (Cons m ms)
  obtain st w where m: "m = (st, w)" by (cases m)
  from first_param Cons [unfolded m] obtain x v where
    x: "url = x @ braced w @ v" "st = length x" "\<not> has_param x" "ms = find_params (st + length w + 2) v"
    by fastforce
  have rest: "drop (st + length w + 2) url = v" by (simp add: x braced_def)
  have inside: "st < length url" by (simp add: x braced_def)
  from assms Cons m have step: "strip_step required None url (st, w) = Inr (rstrip_chars ''/'' (take st url))"
    and v: "v = [] \<or> v = ''/''"
    using inside rest by (auto simp: strip_step_def Let_def split: if_splits)
  from v have "\<not> has_param v" using no_brace_no_param by fastforce
  then have "ms = []" using x(4) no_params_iff by simp
  with assms Cons m step have "u = rstrip_chars ''/'' x" by (simp add: x)
  moreover have "\<exists>t. x = rstrip_chars ''/'' x @ t"
    unfolding rstrip_chars_def by (metis rev_append rev_rev_ident takeWhile_dropWhile_id)
  ultimately show ?thesis using x(3) has_param_append(1) by metis
qed

lemma hex_no_brace: "n < 16 \<Longrightarrow> upper_hex n \<noteq> CHR 0x7B \<and> upper_hex n \<noteq> CHR 0x7D \<and> upper_hex n \<notin> set ''&=?#''"
proof -
  assume "n < 16"
  then have "n \<in> set [0..<16]" by simp
  then show ?thesis by (simp add: upt_rec) (elim disjE; simp add: upper_hex_def char_of_def bit_0 bit_Suc)
qed

definition inert :: "char \<Rightarrow> bool" where
  "inert c = (c \<notin> set ''&=?#'' \<and> c \<noteq> CHR 0x7B \<and> c \<noteq> CHR 0x7D)"

lemma percent_inert: "b < 256 \<Longrightarrow> list_all inert (percent b)"
  using hex_no_brace [of "b div 16"] hex_no_brace [of "b mod 16"]
  by (auto simp: percent_def inert_def)

lemma kept_inert: "is_alpha c \<or> is_digit c \<or> c \<in> set ''_.-~'' \<Longrightarrow> inert c"
  by (auto simp: inert_def is_alpha_def is_digit_def)

lemma quote_char_inert: "list_all inert (quote_char c)"
proof -
  let ?n = "of_char c :: nat"
  have n: "?n < 256" "?n div 64 < 4" by simp (use nat_of_char_less_256 [of c] in linarith)
  show ?thesis
  proof (cases "is_alpha c \<or> is_digit c \<or> c \<in> set ''_.-~''")
    case True
    then show ?thesis using kept_inert by (simp add: quote_char_def)
  next
    case False
    have "list_all inert (percent (192 + ?n div 64))" "list_all inert (percent (128 + ?n mod 64))" "list_all inert (percent ?n)"
      using n by (auto intro!: percent_inert)
    moreover have "inert (CHR ''+'')" by (simp add: inert_def)
    ultimately show ?thesis using False by (simp add: quote_char_def Let_def)
  qed
qed

lemma quote_plus_inert: "list_all inert (quote_plus s)"
  unfolding quote_plus_def by (induction s) (use quote_char_inert in simp_all)

lemma split_no_sep: "c \<notin> set s \<Longrightarrow> py_split c s = [s]"
  by (induction s) auto

lemma split_sep: "c \<notin> set s \<Longrightarrow> py_split c (s @ c # t) = s # py_split c t"
  by (induction s) auto

lemma split_join:
  "\<lbrakk>xs \<noteq> []; list_all (\<lambda>x. c \<notin> set x) xs\<rbrakk> \<Longrightarrow> py_split c (py_join [c] xs) = xs"
proof (induction xs rule: list_nonempty_induct)
  case (cons x xs)
  then show ?case by (cases xs) (simp_all add: split_sep)
qed (simp_all add: split_no_sep)

text \<open>
  Splitting the query at its separators gives back one quoted pair per parameter, and neither
  half of a pair contains a separator: a value cannot introduce or change another parameter.
\<close>

theorem query_parameters_separate:
  assumes "ps \<noteq> []"
  shows "py_split (CHR ''&'') (urlencode ps) = map (\<lambda>p. quote_plus (fst p) @ ''='' @ quote_plus (snd p)) ps
    \<and> list_all (\<lambda>p. list_all inert (quote_plus (fst p)) \<and> list_all inert (quote_plus (snd p))) ps"
proof
  have "CHR ''&'' \<notin> set (quote_plus s)" for s
    using quote_plus_inert [of s] by (auto simp: list_all_iff inert_def)
  then show "py_split (CHR ''&'') (urlencode ps) = map (\<lambda>p. quote_plus (fst p) @ ''='' @ quote_plus (snd p)) ps"
    unfolding urlencode_def using assms by (intro split_join) (auto simp: list_all_iff)
  show "list_all (\<lambda>p. list_all inert (quote_plus (fst p)) \<and> list_all inert (quote_plus (snd p))) ps"
    by (simp add: list_all_iff quote_plus_inert [unfolded list_all_iff])
qed

theorem query_parameters_separate_witness:
  "py_split (CHR ''&'') (urlencode [(''q'', ''a&b=c''), (''n'', ''1'')]) =
     map (\<lambda>p. quote_plus (fst p) @ ''='' @ quote_plus (snd p)) [(''q'', ''a&b=c''), (''n'', ''1'')]"
  by (rule query_parameters_separate [THEN conjunct1]) simp

lemma urlencode_chars: "c \<in> set (urlencode ps) \<Longrightarrow> inert c \<or> c \<in> set ''&=''"
proof -
  have "set (py_join sep xs) \<subseteq> set sep \<union> \<Union> (set ` set xs)" for sep xs
    by (induction sep xs rule: py_join.induct) auto
  then have "set (urlencode ps) \<subseteq> set ''&'' \<union> \<Union> (set ` set (map (\<lambda>p. quote_plus (fst p) @ ''='' @ quote_plus (snd p)) ps))"
    unfolding urlencode_def by blast
  moreover assume "c \<in> set (urlencode ps)"
  moreover have "inert x" if "x \<in> set (quote_plus t)" for x t
    using that quote_plus_inert by (auto simp: list_all_iff)
  ultimately show ?thesis by (auto split: if_splits)
qed

lemma merge_query_form: "\<exists>v. merge_query fs url params = url @ v \<and> CHR 0x7B \<notin> set v \<and> CHR 0x7D \<notin> set v"
proof -
  let ?e = "urlencode (map (\<lambda>p. (fst p, py_str fs (snd p))) params)"
  have "CHR 0x7B \<notin> set ?e" "CHR 0x7D \<notin> set ?e" using urlencode_chars by (fastforce simp: inert_def)+
  then show ?thesis
    by (intro exI [of _ "drop (length url) (merge_query fs url params)"]) (simp add: merge_query_def Let_def)
qed

text \<open>
  An unfilled placeholder in the path is never sent: when the filled endpoint has no query
  part and a URL is built at all, no placeholder is left in it.
\<close>

theorem path_placeholders_never_sent:
  assumes "build_url fs schema endpoint inp = Inr (url, params)"
    and "CHR ''?'' \<notin> set (fst (fill_template fs inp endpoint))"
  shows "find_params 0 url = []"
proof -
  have base: "\<exists>u. url = merge_query fs u params \<and> \<not> has_param u"
  proof (cases "CHR 0x7B \<in> set endpoint")
    case True
    with assms obtain u where u: "strip_unfilled schema (fst (fill_template fs inp endpoint)) = Inr u"
      "url = merge_query fs u params"
      by (auto simp: build_url_def Let_def split: sum.splits)
    from u(1) assms(2) obtain required where "fold_err (strip_step required None)
        (fst (fill_template fs inp endpoint)) (find_params 0 (fst (fill_template fs inp endpoint))) = Inr u"
      by (auto simp: strip_unfilled_def Let_def split: sum.splits)
    with u(2) strip_path_no_param show ?thesis by blast
  next
    case False
    with assms(1) no_brace_no_param show ?thesis by (fastforce simp: build_url_def)
  qed
  then obtain u where u: "url = merge_query fs u params" "\<not> has_param u" by blast
  with merge_query_form [of fs u params] no_param_append show ?thesis by (auto simp: no_params_iff)
qed

theorem path_placeholders_never_sent_witness:
  "find_params 0 ''http://a/p'' = []"
proof (rule path_placeholders_never_sent)
  show "build_url (\<lambda>r. []) [] ''http://a/p/{id}'' [] = Inr (''http://a/p'', [])"
    by (simp add: build_url_def fill_template_def fill_step_def word_char_def is_word_def starts_with_def
        strip_unfilled_def required_params_def dict_get_def strip_step_def rstrip_chars_def merge_query_def Let_def)
  show "CHR ''?'' \<notin> set (fst (fill_template (\<lambda>r. []) [] ''http://a/p/{id}''))"
    by (simp add: fill_template_def fill_step_def word_char_def is_word_def starts_with_def Let_def)
qed

lemma no_query_params: "CHR 0x7B \<notin> set s \<Longrightarrow> find_query_params s = []"
proof (induction s)
  case (Cons c s)
  then have "\<not> starts_with [CHR 0x7B] s" by (cases s) (auto simp: starts_with_def)
  with Cons show ?case by (simp add: Let_def)
qed simp

lemma no_query_params_value:
  "\<lbrakk>CHR 0x7B \<notin> set u; CHR 0x7B \<notin> set p\<rbrakk> \<Longrightarrow> find_query_params (u @ CHR ''='' # CHR 0x7B # p) = []"
proof (induction u)
  case (Cons c u)
  then have "\<not> starts_with [CHR 0x7B] (u @ CHR ''='' # CHR 0x7B # p)" by (cases u) (auto simp: starts_with_def)
  with Cons show ?case by (simp add: Let_def)
qed (simp add: no_query_params Let_def)

lemma find_params_skip: "CHR 0x7B \<notin> set u \<Longrightarrow> find_params i (u @ v) = find_params (i + length u) v"
  by (induction u arbitrary: i) (auto simp: Let_def)

text \<open>
  In the query the guarantee fails: an unfilled parameter of the form \<open>key={name}\<close> is sent
  with its braces.
\<close>

theorem query_placeholder_sent_literally:
  assumes "CHR 0x7B \<notin> set base" "CHR ''?'' \<notin> set base" "CHR 0x7B \<notin> set key" "p \<noteq> []" "list_all word_char p"
  shows "build_url fs [] (base @ ''?'' @ key @ ''='' @ braced p) [] = Inr (base @ ''?'' @ key @ ''='' @ braced p, [])"
proof -
  let ?url = "base @ ''?'' @ key @ ''='' @ braced p"
  have brace: "CHR 0x7B \<notin> set (p @ [CHR 0x7D])" using assms(5) by (auto simp: list_all_iff word_char_def is_word_def)
  have tw: "takeWhile word_char (p @ [CHR 0x7D]) = p" using takeWhile_word [OF assms(5), of "[]"] .
  have "find_params 0 ?url = find_params (length (base @ ''?'' @ key @ ''='')) (braced p)"
    using find_params_skip [of "base @ ''?'' @ key @ ''=''" 0 "braced p"] assms(1,3) by simp
  also have "\<dots> = [(length (base @ ''?'' @ key @ ''=''), p)]"
    unfolding braced_def using assms(4) tw by (simp add: Let_def starts_with_def)
  finally have fp: "find_params 0 ?url = [(length (base @ ''?'' @ key @ ''=''), p)]" .
  have fill: "fill_template fs [] ?url = (?url, [])" unfolding fill_template_def fp by (simp add: fill_step_def)
  have path: "takeWhile (\<lambda>c. c \<noteq> CHR ''?'') ?url = base" "dropWhile (\<lambda>c. c \<noteq> CHR ''?'') ?url = ''?'' @ key @ ''='' @ braced p"
    using assms(2) by (auto simp: takeWhile_append dropWhile_append)
  have fq: "find_query_params (key @ ''='' @ braced p) = []"
    using no_query_params_value [OF assms(3) brace] by (simp add: braced_def)
  have strip: "rstrip_chars ''?&'' ?url = ?url" by (simp add: rstrip_chars_def braced_def)
  have "strip_step [] (Some (length base)) ?url (length (base @ ''?'' @ key @ ''=''), p) = Inr ?url"
    by (simp add: strip_step_def Let_def)
  with fp path fq strip have "strip_unfilled [] ?url = Inr ?url"
    by (simp add: strip_unfilled_def required_params_def dict_get_def Let_def)
  moreover have "CHR 0x7B \<in> set ?url" by (simp add: braced_def)
  moreover have "\<lbrakk>CHR 0x7B \<in> set url; fill_template fs [] url = (url, []); strip_unfilled [] url = Inr url\<rbrakk>
      \<Longrightarrow> build_url fs [] url [] = Inr (url, [])" for url
    by (simp add: build_url_def merge_query_def Let_def)
  ultimately show ?thesis using fill by blast
qed

theorem query_placeholder_sent_literally_witness:
  "build_url (\<lambda>r. []) [] (''http://a'' @ ''?'' @ ''q'' @ ''='' @ braced ''q'') []
    = Inr (''http://a'' @ ''?'' @ ''q'' @ ''='' @ braced ''q'', [])"
  by (rule query_placeholder_sent_literally) (simp_all add: word_char_def is_word_def)

end
