(* ===== verification/Tool_Executor.thy ===== *)
theory Tool_Executor
  imports Tool_Request Circuit_Breaker Rate_Limit
begin

text \<open>
  \<open>ToolExecutor\<close> of \<open>tools/executor.py\<close>: authentication, one HTTP exchange with its
  redirects, the attempts, and \<open>execute\<close> with its gates in the order of the code.  The
  network is the parameter \<open>te_http\<close>, an arbitrary answer to the n-th request; MCP servers are
  \<open>te_mcp\<close>.  The world holds the log of what was sent, the breakers, the rate buckets and the
  rows written.  Delays, events, tracing and performance metrics are left out; the
  wording of errors is a datatype.
\<close>

section \<open>Data\<close>

record http_request =
  rq_method :: string
  rq_url :: string
  rq_headers :: "(string \<times> string) list"
  rq_json :: "json option"

record http_response =
  rs_status :: int
  rs_text :: string
  rs_json :: "json option"    \<comment> \<open>\<open>None\<close> when the text is not JSON\<close>
  rs_location :: string

datatype http_reply = Reply http_response | No_reply_in_time | No_connection

datatype call_error =
    Bad_input
  | Circuit_is_open
  | Code_field string string
  | Host_blocked string
  | Roles_missing "string list"
  | Body_too_large int
  | Rate_exceeded
  | Http_error string
  | Request_timed_out
  | Request_failed
  | Unknown_error
  | Output_invalid "call_error option" string

text \<open>\<open>ToolResult\<close>; the identifiers are those of the tool, the duration is left out.\<close>

record tool_call_result =
  cr_status :: string
  cr_http :: "int option"
  cr_data :: "json dict option"
  cr_error :: "call_error option"
  cr_retried :: bool
  cr_excerpt :: string

record tool_row =
  tl_id :: string
  tl_name :: string
  tl_type :: string
  tl_endpoint :: string
  tl_mcp :: string
  tl_method :: string
  tl_auth_type :: string
  tl_auth_ref :: string
  tl_input_schema :: "json dict"
  tl_output_schema :: "json dict"
  tl_rules :: "json dict"
  tl_idempotent :: bool
  tl_rate :: "int option"

record caller =
  cl_roles :: "json list"
  cl_idem :: string
  cl_key :: string

record exec_row =
  xr_tool :: string
  xr_key :: string
  xr_payload :: "json dict"
  xr_response :: "json dict option"
  xr_status :: string
  xr_retried :: bool

record tool_world =
  tw_requests :: "http_request list"
  tw_mcp :: "(string \<times> string \<times> json dict) list"
  tw_breakers :: breakers
  tw_buckets :: "(string \<times> bucket) list"
  tw_rows :: "exec_row list"
  tw_now :: rat

record tool_env =
  te_net :: net_env
  te_allowed :: "string list"
  te_sandbox :: bool
  te_max_bytes :: int
  te_body_size :: "json dict \<Rightarrow> int"
  te_keywords :: "string list"
  te_field_map :: "(string \<times> string) list"
  te_auth_map :: "(string \<times> string) list"
  te_auth_allow :: "string list"
  te_secret :: "string \<Rightarrow> string"
  te_agent :: string
  te_redis :: bool
  te_retries :: "string \<Rightarrow> int"             \<comment> \<open>\<open>policy_for_capability(name).retries\<close>\<close>
  te_codes :: "int list"                     \<comment> \<open>\<open>retryable_status_codes\<close>\<close>
  te_error_fields :: "http_response \<Rightarrow> string list"  \<comment> \<open>the fields named by a schema error\<close>
  te_valid :: "json \<Rightarrow> json dict \<Rightarrow> verdict"
  te_fuzzy :: "string \<Rightarrow> string list \<Rightarrow> string option"
  te_fs :: "rat \<Rightarrow> string"
  te_pf :: "string \<Rightarrow> rat option"
  te_join :: "string \<Rightarrow> string \<Rightarrow> string"     \<comment> \<open>\<open>httpx.URL(url).join(location)\<close>\<close>
  te_http :: "nat \<Rightarrow> http_request \<Rightarrow> http_reply"
  te_mcp :: "nat \<Rightarrow> json dict \<Rightarrow> tool_call_result"
  te_db :: bool

section \<open>Results\<close>

definition result_statuses :: "string list" where
  "result_statuses = [''success'', ''error'', ''timeout'', ''validation_error'', ''interrupted'']"

text \<open>The constructor validates the status.\<close>

definition tool_result :: "tool_call_result \<Rightarrow> tool_exc + tool_call_result" where
  "tool_result r = (if cr_status r \<in> set result_statuses then Inr r else Inl Result_invalid)"

definition failed_result :: "string \<Rightarrow> call_error \<Rightarrow> tool_exc + tool_call_result" where
  "failed_result status e = tool_result \<lparr>cr_status = status, cr_http = None, cr_data = None,
     cr_error = Some e, cr_retried = False, cr_excerpt = []\<rparr>"

definition response_data :: "http_response \<Rightarrow> json dict" where
  "response_data r = (let raw = [(''raw'', JStr (take 2000 (rs_text r)))] in
     if rs_text r = [] then []
     else if py_strip (rs_text r) = [] then raw
     else (case rs_json r of Some (JDict d) \<Rightarrow> d | Some (JList xs) \<Rightarrow> [(''results'', JList xs)] | _ \<Rightarrow> raw))"

definition is_success :: "http_response \<Rightarrow> bool" where
  "is_success r = (200 \<le> rs_status r \<and> rs_status r < 300)"

definition http_message :: "http_response \<Rightarrow> string" where
  "http_message r = ''HTTP '' @ int_str (rs_status r) @ (if rs_text r = [] then [] else '': '' @ take 200 (rs_text r))"

definition excerpt :: "string \<Rightarrow> string" where
  "excerpt t = (if length t > 2000 then take 2000 t @ ''...'' else t)"

definition build_result :: "http_response option \<Rightarrow> call_error option \<Rightarrow> bool \<Rightarrow> tool_call_result" where
  "build_result response err retried = (case response of
      Some r \<Rightarrow> \<lparr>cr_status = (if is_success r then ''success'' else ''error''), cr_http = Some (rs_status r),
         cr_data = Some (if is_success r then response_data r else [(''error'', JStr (http_message r))]),
         cr_error = (if is_success r then None else Some (Http_error (http_message r))),
         cr_retried = retried, cr_excerpt = excerpt (rs_text r)\<rparr>
    | None \<Rightarrow> \<lparr>cr_status = (if err = Some Request_timed_out then ''timeout'' else ''error''), cr_http = None,
         cr_data = None, cr_error = Some (case err of Some e \<Rightarrow> e | None \<Rightarrow> Unknown_error),
         cr_retried = retried, cr_excerpt = []\<rparr>)"

section \<open>Headers and roles\<close>

definition resolve_auth :: "tool_env \<Rightarrow> tool_row \<Rightarrow> (string \<times> string) list" where
  "resolve_auth env tool = (let ty = tl_auth_type tool in
     if ty = ''none'' \<or> ty = [] then []
     else (case map_of (te_auth_map env) ty of None \<Rightarrow> []
       | Some header \<Rightarrow>
          (let ref = (if tl_auth_ref tool \<noteq> [] then tl_auth_ref tool else ty) in
           if tl_auth_ref tool \<noteq> [] \<and> ref \<notin> set (te_auth_allow env) then []
           else (let secret = te_secret env ref in
             if secret = [] then []
             else if ty = ''api_key'' then [(header, secret)]
             else [(''Authorization'', header @ '' '' @ secret)]))))"

definition request_headers :: "tool_env \<Rightarrow> tool_row \<Rightarrow> caller \<Rightarrow> (string \<times> string) list" where
  "request_headers env tool cl =
    (let auth = resolve_auth env tool;
         h = (if dict_has auth ''User-Agent'' then auth else AList.update ''User-Agent'' (te_agent env) auth) in
     case dict_get (tl_rules tool) ''idempotency_header'' JNull of
       JStr name \<Rightarrow> if name \<noteq> [] \<and> cl_idem cl \<noteq> [] \<and> \<not> dict_has h name then AList.update name (cl_idem cl) h else h
     | _ \<Rightarrow> h)"

definition hashable :: "json \<Rightarrow> bool" where
  "hashable v = (case v of JList _ \<Rightarrow> False | JDict _ \<Rightarrow> False | _ \<Rightarrow> True)"

definition sortable :: "json list \<Rightarrow> bool" where
  "sortable xs = (length xs < 2 \<or> list_all (\<lambda>x. case x of JStr _ \<Rightarrow> True | _ \<Rightarrow> False) xs
     \<or> list_all (\<lambda>x. num_of x \<noteq> None) xs)"

text \<open>
  The authorization gate.  Every exception inside it is swallowed: roles that are no sequence,
  caller roles that cannot be hashed, and, in the warning of a denial, caller roles that cannot
  be sorted.
\<close>

definition role_denied :: "(rat \<Rightarrow> string) \<Rightarrow> json dict \<Rightarrow> json list \<Rightarrow> string list option" where
  "role_denied fs rules roles = (let allowed = dict_get rules ''allowed_roles'' JNull in
     if \<not> truthy allowed then None
     else (case py_iter allowed of None \<Rightarrow> None
       | Some xs \<Rightarrow> (let names = map (py_str fs) xs in
          if \<not> list_all hashable roles then None
          else if list_ex (\<lambda>n. JStr n \<in> set roles) names then None
          else if \<not> sortable roles then None
          else Some (sort (remdups names)))))"

section \<open>One exchange\<close>

definition send_request ::
  "tool_env \<Rightarrow> (string \<times> string) list \<Rightarrow> string option \<Rightarrow> json dict \<Rightarrow> string \<Rightarrow> string \<Rightarrow> tool_world
     \<Rightarrow> http_reply \<times> tool_world" where
  "send_request env headers graphql params method url w =
    (let rq = \<lparr>rq_method = method, rq_url = url, rq_headers = headers,
           rq_json = (if method = ''get'' then None
             else Some (case graphql of Some q \<Rightarrow> JDict [(''query'', JStr q), (''variables'', JDict params)] | None \<Rightarrow> JDict params))\<rparr> in
     (te_http env (length (tw_requests w)) rq, w\<lparr>tw_requests := tw_requests w @ [rq]\<rparr>))"

datatype exchange = Final http_response | Timed_out_exchange | Broken_exchange | Refused tool_exc

definition redirect_codes :: "int list" where
  "redirect_codes = [301, 302, 303, 307, 308]"

text \<open>The replies are followed for the given number of hops, every target is validated first.\<close>

fun follow_redirects ::
  "nat \<Rightarrow> tool_env \<Rightarrow> tool_row \<Rightarrow> (string \<times> string) list \<Rightarrow> string option \<Rightarrow> json dict \<Rightarrow> json dict
     \<Rightarrow> string \<Rightarrow> string \<Rightarrow> http_reply \<times> tool_world \<Rightarrow> exchange \<times> tool_world" where
  "follow_redirects n env tool headers graphql params inp method url (No_reply_in_time, w) = (Timed_out_exchange, w)"
| "follow_redirects n env tool headers graphql params inp method url (No_connection, w) = (Broken_exchange, w)"
| "follow_redirects 0 env tool headers graphql params inp method url (Reply r, w) = (Final r, w)"
| "follow_redirects (Suc n) env tool headers graphql params inp method url (Reply r, w) =
    (if rs_status r \<notin> set redirect_codes \<or> rs_location r = [] then (Final r, w)
     else (let next = te_join env url (rs_location r) in
       case validate_final_url (te_net env) (te_allowed env) next (tl_endpoint tool) inp of
         Inl e \<Rightarrow> (Refused e, w)
       | Inr _ \<Rightarrow> (let m = (if rs_status r \<in> {301, 302, 303} then ''get'' else method) in
           follow_redirects n env tool headers graphql params inp m next
             (send_request env headers graphql params m next w))))"

definition execute_http ::
  "tool_env \<Rightarrow> tool_row \<Rightarrow> json dict \<Rightarrow> (string \<times> string) list \<Rightarrow> tool_world \<Rightarrow> exchange \<times> tool_world" where
  "execute_http env tool inp headers w =
    (case build_url (te_fs env) (tl_input_schema tool) (tl_endpoint tool) inp of
       Inl e \<Rightarrow> (Refused e, w)
     | Inr (url, params) \<Rightarrow>
        (case validate_final_url (te_net env) (te_allowed env) url (tl_endpoint tool) inp of
           Inl e \<Rightarrow> (Refused e, w)
         | Inr _ \<Rightarrow> (let graphql = graphql_query (tl_input_schema tool); method = py_lower (tl_method tool) in
             follow_redirects 5 env tool headers graphql params inp method url
               (send_request env headers graphql params method url w))))"

section \<open>The attempts\<close>

text \<open>What the loop leaves: the last response, the last exception, the attempts made, the inputs.\<close>

type_synonym attempts_result = "http_response option \<times> call_error option \<times> nat \<times> json dict"

text \<open>The counter is the number of attempts that may still follow the present one.\<close>

fun run_attempts ::
  "nat \<Rightarrow> tool_env \<Rightarrow> tool_row \<Rightarrow> (string \<times> string) list \<Rightarrow> json dict \<Rightarrow> http_response option
     \<Rightarrow> call_error option \<Rightarrow> nat \<Rightarrow> tool_world \<Rightarrow> (tool_exc + attempts_result) \<times> tool_world" where
  "run_attempts n env tool headers inp resp err made w =
    (let next = (\<lambda>inp' resp' err' w'. case n of 0 \<Rightarrow> (Inr (resp', err', made + 1, inp'), w')
         | Suc m \<Rightarrow> run_attempts m env tool headers inp' resp' err' (made + 1) w') in
     case execute_http env tool inp headers w of
       (Final r, w') \<Rightarrow>
         (if rs_status r < 400 then (Inr (Some r, err, made + 1, inp), w')
          else if rs_status r \<notin> set (te_codes env) then (Inr (Some r, Some (Http_error (http_message r)), made + 1, inp), w')
          else next (semantic_fix_inputs (te_field_map env) inp (te_error_fields env r)) (Some r) err w')
     | (Timed_out_exchange, w') \<Rightarrow> next inp resp (Some Request_timed_out) w'
     | (Broken_exchange, w') \<Rightarrow> next inp resp (Some Request_failed) w'
     | (Refused (Sandbox_blocked h), w') \<Rightarrow> (Inr (resp, Some (Host_blocked h), made + 1, inp), w')
     | (Refused e, w') \<Rightarrow> (Inl e, w'))"

declare run_attempts.simps [simp del]

definition further_attempts :: "tool_env \<Rightarrow> tool_row \<Rightarrow> nat" where
  "further_attempts env tool = nat (effective_max_attempts (tl_idempotent tool) (te_retries env (tl_name tool)) - 1)"

section \<open>After the call\<close>

definition zero_uuid :: string where
  "zero_uuid = ''00000000-0000-0000-0000-000000000000''"

definition persist_execution :: "tool_env \<Rightarrow> tool_row \<Rightarrow> caller \<Rightarrow> json dict \<Rightarrow> tool_call_result \<Rightarrow> tool_world \<Rightarrow> tool_world" where
  "persist_execution env tool cl inp r w = (if tl_id tool = zero_uuid \<or> \<not> te_db env then w
     else w\<lparr>tw_rows := tw_rows w @ [\<lparr>xr_tool = tl_id tool, xr_key = cl_key cl, xr_payload = inp,
        xr_response = cr_data r, xr_status = cr_status r, xr_retried = cr_retried r\<rparr>]\<rparr>)"

definition check_output :: "tool_env \<Rightarrow> tool_row \<Rightarrow> tool_call_result \<Rightarrow> tool_exc + tool_call_result" where
  "check_output env tool r = (case cr_data r of
      Some d \<Rightarrow> if tl_output_schema tool = [] then Inr r
        else (case output_validation_error (te_valid env) d (tl_output_schema tool) of
           Inl e \<Rightarrow> Inl e
         | Inr (Some m) \<Rightarrow> Inr (r\<lparr>cr_status := ''validation_error'', cr_error := Some (Output_invalid (cr_error r) m)\<rparr>)
         | Inr None \<Rightarrow> Inr r)
    | None \<Rightarrow> Inr r)"

definition note_outcome :: "string \<Rightarrow> string \<Rightarrow> tool_world \<Rightarrow> tool_world" where
  "note_outcome name status w = w\<lparr>tw_breakers := (if status = ''success'' then record_success name (tw_breakers w)
     else if status = ''error'' \<or> status = ''timeout'' then record_failure (tw_now w) name (tw_breakers w) else tw_breakers w)\<rparr>"

definition execute_mcp ::
  "tool_env \<Rightarrow> tool_row \<Rightarrow> caller \<Rightarrow> json dict \<Rightarrow> tool_world \<Rightarrow> (tool_exc + tool_call_result) \<times> tool_world" where
  "execute_mcp env tool cl inp w = (case check_allowed_host (te_net env) (tl_mcp tool) (te_allowed env) True of
      Inl (Sandbox_blocked h) \<Rightarrow> (failed_result ''error'' (Host_blocked h), w)
    | Inl e \<Rightarrow> (Inl e, w)
    | Inr _ \<Rightarrow>
       (let w' = w\<lparr>tw_mcp := tw_mcp w @ [(tl_mcp tool, tl_name tool, inp)]\<rparr> in
        case check_output env tool (te_mcp env (length (tw_mcp w)) inp) of
          Inl e \<Rightarrow> (Inl e, w')
        | Inr r \<Rightarrow> (Inr r, persist_execution env tool cl inp r w')))"

section \<open>Execution\<close>

text \<open>The token bucket of the tool; the flag tells whether the call may go on.\<close>

definition rate_gate :: "tool_env \<Rightarrow> tool_row \<Rightarrow> tool_world \<Rightarrow> bool \<times> tool_world" where
  "rate_gate env tool w = (case tl_rate tool of
      Some n \<Rightarrow> if 0 < n \<and> te_redis env
        then (case bucket_acquire (tw_now w) (of_int n / 60) (of_int n) 1 True
                (Option.bind (map_of (tw_buckets w) (tl_id tool)) (\<lambda>b. b)) of
            (b, a) \<Rightarrow> (a = Allowed, w\<lparr>tw_buckets := AList.update (tl_id tool) b (tw_buckets w)\<rparr>))
        else (True, w)
    | None \<Rightarrow> (True, w))"

definition finish_http ::
  "tool_env \<Rightarrow> tool_row \<Rightarrow> caller \<Rightarrow> (tool_exc + attempts_result) \<times> tool_world \<Rightarrow> (tool_exc + tool_call_result) \<times> tool_world" where
  "finish_http env tool cl a = (case a of
      (Inl e, w) \<Rightarrow> (Inl e, w)
    | (Inr (resp, err, made, inp), w) \<Rightarrow>
       (let r = build_result resp err (1 < made); w' = note_outcome (tl_name tool) (cr_status r) w in
        case (if cr_status r = ''success'' then check_output env tool r else Inr r) of
          Inl e \<Rightarrow> (Inl e, w')
        | Inr r' \<Rightarrow> (Inr r', persist_execution env tool cl inp r' w')))"

text \<open>Steps 5 to 9 for an HTTP tool with prepared inputs.\<close>

definition call_http ::
  "tool_env \<Rightarrow> tool_row \<Rightarrow> caller \<Rightarrow> json dict \<Rightarrow> tool_world \<Rightarrow> (tool_exc + tool_call_result) \<times> tool_world" where
  "call_http env tool cl inp w =
    (case check_allowed_host (te_net env) (tl_endpoint tool) (te_allowed env) (url_input inp) of
       Inl (Sandbox_blocked h) \<Rightarrow> (failed_result ''error'' (Host_blocked h), w)
     | Inl e \<Rightarrow> (Inl e, w)
     | Inr _ \<Rightarrow>
        (case role_denied (te_fs env) (tl_rules tool) (cl_roles cl) of
           Some names \<Rightarrow> (failed_result ''error'' (Roles_missing names), w)
         | None \<Rightarrow>
            (if te_sandbox env \<and> te_max_bytes env < te_body_size env inp
             then (failed_result ''validation_error'' (Body_too_large (te_body_size env inp)), w)
             else (case rate_gate env tool w of
                 (False, w') \<Rightarrow> (failed_result ''rate_limited'' Rate_exceeded, w')
               | (True, w') \<Rightarrow> finish_http env tool cl (run_attempts (further_attempts env tool) env tool
                   (request_headers env tool cl) inp None None 0 w')))))"

definition execute_tool ::
  "tool_env \<Rightarrow> tool_row \<Rightarrow> caller \<Rightarrow> json dict \<Rightarrow> tool_world \<Rightarrow> (tool_exc + tool_call_result) \<times> tool_world" where
  "execute_tool env tool cl inp w =
    (case prepare_inputs (te_valid env) (te_fuzzy env) (te_fs env) (te_pf env) (tl_input_schema tool) inp of
       Inl e \<Rightarrow> (Inl e, w)
     | Inr None \<Rightarrow> (failed_result ''validation_error'' Bad_input, w)
     | Inr (Some c) \<Rightarrow>
        (if tool_is_open (tl_name tool) (tw_breakers w) then (failed_result ''unavailable'' Circuit_is_open, w)
         else (case check_python_code_fields (te_keywords env) (tl_input_schema tool) (tl_output_schema tool) (tl_rules tool) of
             Some (k, place) \<Rightarrow> (failed_result ''validation_error'' (Code_field k place), w)
           | None \<Rightarrow> if tl_type tool = ''mcp'' then execute_mcp env tool cl c w else call_http env tool cl c w)))"

section \<open>Only what passed the gates is sent\<close>

lemma failed_result_world [simp]: "(failed_result s e, w) = (x, w') \<longleftrightarrow> x = failed_result s e \<and> w' = w"
  by auto

lemma persist_requests [simp]: "tw_requests (persist_execution env tool cl inp r w) = tw_requests w"
  "tw_mcp (persist_execution env tool cl inp r w) = tw_mcp w"
  by (simp_all add: persist_execution_def)




text \<open>The requests added between two worlds: at most \<open>k\<close>, each of them with property \<open>P\<close>.\<close>

definition adds_requests :: "nat \<Rightarrow> (http_request \<Rightarrow> bool) \<Rightarrow> tool_world \<Rightarrow> tool_world \<Rightarrow> bool" where
  "adds_requests k P w w' = (\<exists>rs. tw_requests w' = tw_requests w @ rs \<and> length rs \<le> k \<and> list_all P rs \<and> tw_mcp w' = tw_mcp w)"

lemma adds_refl [simp]: "adds_requests k P w w"
  by (simp add: adds_requests_def)
















text \<open>
  The status \<open>unavailable\<close> of an open breaker is none of the statuses of a tool result: building
  the result raises, and no result is returned.
\<close>

theorem open_breaker_raises:
  assumes "tool_is_open (tl_name tool) (tw_breakers w)"
    and "prepare_inputs (te_valid env) (te_fuzzy env) (te_fs env) (te_pf env) (tl_input_schema tool) inp = Inr (Some c)"
  shows "execute_tool env tool cl inp w = (Inl Result_invalid, w)"
  using assms by (simp add: execute_tool_def failed_result_def tool_result_def result_statuses_def)

text \<open>The same holds for a call over the rate limit.\<close>

theorem rate_limited_raises:
  assumes "check_allowed_host (te_net env) (tl_endpoint tool) (te_allowed env) (url_input inp) = Inr ()"
    and "role_denied (te_fs env) (tl_rules tool) (cl_roles cl) = None"
    and "te_body_size env inp \<le> te_max_bytes env" and "rate_gate env tool w = (False, w')"
  shows "call_http env tool cl inp w = (Inl Result_invalid, w')"
  using assms by (simp add: call_http_def failed_result_def tool_result_def result_statuses_def)

text \<open>
  MCP tools are called before the authorization gate: a caller who is denied by the roles of
  the tool still has it executed.
\<close>

theorem mcp_skips_authorization:
  assumes "tl_type tool = ''mcp''" and "role_denied (te_fs env) (tl_rules tool) (cl_roles cl) = Some names"
    and "prepare_inputs (te_valid env) (te_fuzzy env) (te_fs env) (te_pf env) (tl_input_schema tool) inp = Inr (Some c)"
    and "\<not> tool_is_open (tl_name tool) (tw_breakers w)"
    and "check_python_code_fields (te_keywords env) (tl_input_schema tool) (tl_output_schema tool) (tl_rules tool) = None"
    and "check_allowed_host (te_net env) (tl_mcp tool) (te_allowed env) True = Inr ()"
  shows "tw_mcp (snd (execute_tool env tool cl inp w)) = tw_mcp w @ [(tl_mcp tool, tl_name tool, c)]"
  using assms by (simp add: execute_tool_def execute_mcp_def Let_def split: sum.splits)

text \<open>
  A caller without any of the required roles passes the gate when the caller's roles are of
  mixed types: sorting them for the log message raises, and the exception is swallowed.
\<close>

theorem role_gate_fails_open:
  assumes "\<not> sortable roles"
  shows "role_denied fs rules roles = None"
  using assms by (simp add: role_denied_def Let_def split: option.splits)

text \<open>
  A successful result of an HTTP tool comes from a 2xx response whose data passed the declared
  output schema.
\<close>

theorem success_is_checked:
  assumes "execute_tool env tool cl inp w = (Inr r, w')" and "cr_status r = ''success''" and "tl_type tool \<noteq> ''mcp''"
  shows "(\<exists>code. cr_http r = Some code \<and> 200 \<le> code \<and> code < 300)
    \<and> (\<exists>d. cr_data r = Some d \<and> (tl_output_schema tool = []
          \<or> te_valid env (output_candidate d (tl_output_schema tool)) (tl_output_schema tool) = Valid))"
proof -
  obtain c where "call_http env tool cl c w = (Inr r, w')"
    using assms by (auto simp: execute_tool_def failed_result_def tool_result_def split: sum.splits option.splits if_splits)
  with assms(2) obtain a where a: "finish_http env tool cl a = (Inr r, w')"
    by (auto simp: call_http_def failed_result_def tool_result_def
        split: sum.splits option.splits if_splits tool_exc.splits prod.splits bool.splits)
  then obtain resp err made c' v where parts: "a = (Inr (resp, err, made, c'), v)" by (auto simp: finish_http_def split: sum.splits prod.splits)
  let ?r = "build_result resp err (1 < made)"
  have r: "(if cr_status ?r = ''success'' then check_output env tool ?r else Inr ?r) = Inr r"
    using a by (auto simp: parts finish_http_def Let_def split: sum.splits)
  then have ok: "cr_status ?r = ''success''" using assms(2) by (auto split: if_splits)
  with r have out: "check_output env tool ?r = Inr r" by simp
  from ok obtain x where x: "resp = Some x" "is_success x" by (auto simp: build_result_def split: option.splits if_splits)
  from out assms(2) x show ?thesis
    by (auto simp: check_output_def build_result_def output_validation_error_def is_success_def
        split: if_splits sum.splits option.splits verdict.splits)
qed

section \<open>A concrete tool\<close>

definition weather_tool :: tool_row where
  "weather_tool = \<lparr>tl_id = ''t1'', tl_name = ''weather'', tl_type = ''http_api'', tl_endpoint = ''https://api/x'', tl_mcp = ''https://api/x'',
     tl_method = ''GET'', tl_auth_type = ''none'', tl_auth_ref = [], tl_input_schema = [], tl_output_schema = [],
     tl_rules = [], tl_idempotent = False, tl_rate = Some 1\<rparr>"

definition admin_tool :: tool_row where
  "admin_tool = weather_tool\<lparr>tl_type := ''mcp'', tl_rules := [(''allowed_roles'', JList [JStr ''admin''])]\<rparr>"

definition weather_env :: tool_env where
  "weather_env = \<lparr>te_net = demo_net, te_allowed = [''*''], te_sandbox = True, te_max_bytes = 100, te_body_size = (\<lambda>d. 2),
     te_keywords = [''code''], te_field_map = [], te_auth_map = [], te_auth_allow = [], te_secret = (\<lambda>r. []),
     te_agent = ''nexus'', te_redis = True, te_retries = (\<lambda>n. 2), te_codes = [503], te_error_fields = (\<lambda>r. []),
     te_valid = (\<lambda>v s. Valid), te_fuzzy = (\<lambda>k ds. None), te_fs = (\<lambda>r. []), te_pf = (\<lambda>s. None), te_join = (\<lambda>u l. l),
     te_http = (\<lambda>n rq. Reply \<lparr>rs_status = 200, rs_text = ''{}'', rs_json = Some (JDict []), rs_location = []\<rparr>),
     te_mcp = (\<lambda>n d. \<lparr>cr_status = ''success'', cr_http = None, cr_data = None, cr_error = None, cr_retried = False, cr_excerpt = []\<rparr>),
     te_db = True\<rparr>"

definition plain_caller :: caller where
  "plain_caller = \<lparr>cl_roles = [JStr ''user''], cl_idem = [], cl_key = []\<rparr>"

definition start_world :: tool_world where
  "start_world = \<lparr>tw_requests = [], tw_mcp = [], tw_breakers = [], tw_buckets = [], tw_rows = [], tw_now = 0\<rparr>"

definition spent_world :: tool_world where
  "spent_world = start_world\<lparr>tw_buckets := [(''t1'', Some (0, 0, 60))]\<rparr>"

definition open_world :: tool_world where
  "open_world = start_world\<lparr>tw_breakers := [(''weather'', (new_breaker 5 2 30)\<lparr>cb_state := OPEN\<rparr>)]\<rparr>"

lemmas weather_defs = weather_tool_def weather_env_def plain_caller_def start_world_def

lemma weather_prepared: "prepare_inputs (te_valid weather_env) (te_fuzzy weather_env) (te_fs weather_env) (te_pf weather_env)
    (tl_input_schema weather_tool) [] = Inr (Some [])"
  by (simp add: weather_defs prepare_inputs_def)

lemma weather_allowed: "check_allowed_host demo_net ''https://api/x'' [''*''] enforce = Inr ()"
  by (simp add: check_allowed_host_iff parse_api whitelisted_def url_target_def api_public)

lemma weather_final: "validate_final_url demo_net [''*''] ''https://api/x'' ''https://api/x'' [] = Inr ()"
  by (simp add: validate_final_url_def parse_api weather_allowed)

lemma follow_final:
  "rs_status r \<notin> set redirect_codes \<Longrightarrow> follow_redirects n env tool headers g params inp m url (Reply r, w) = (Final r, w)"
  by (cases n) simp_all

lemma lower_get: "py_lower ''GET'' = ''get''"
  by (simp add: py_lower_def lower_char_def char_of_def bit_0 bit_Suc)

definition ok_reply :: http_response where
  "ok_reply = \<lparr>rs_status = 200, rs_text = ''{}'', rs_json = Some (JDict []), rs_location = []\<rparr>"

lemma weather_url: "build_url fs [] ''https://api/x'' [] = Inr (''https://api/x'', [])"
  by (simp add: build_url_def merge_query_def Let_def)

lemma weather_fields [simp]:
  "tl_input_schema weather_tool = []" "tl_output_schema weather_tool = []" "tl_endpoint weather_tool = ''https://api/x''"
  "tl_mcp weather_tool = ''https://api/x''" "tl_method weather_tool = ''GET''" "tl_rules weather_tool = []" "tl_type weather_tool = ''http_api''"
  "tl_name weather_tool = ''weather''" "tl_id weather_tool = ''t1''" "tl_rate weather_tool = Some 1" "tl_idempotent weather_tool = False"
  "te_net weather_env = demo_net" "te_allowed weather_env = [''*'']" "te_http weather_env n rq = Reply ok_reply"
  "te_keywords weather_env = [''code'']" "te_body_size weather_env d = 2" "te_max_bytes weather_env = 100" "te_redis weather_env"
  by (simp_all add: weather_tool_def weather_env_def ok_reply_def)

lemma weather_exchange:
  "execute_http weather_env weather_tool [] h w =
    (Final ok_reply, w\<lparr>tw_requests := tw_requests w @
       [\<lparr>rq_method = ''get'', rq_url = ''https://api/x'', rq_headers = h, rq_json = None\<rparr>]\<rparr>)"
proof -
  have "rs_status ok_reply \<notin> set redirect_codes" by (simp add: ok_reply_def redirect_codes_def)
  then show ?thesis
    by (simp add: execute_http_def weather_url weather_final lower_get send_request_def Let_def follow_final)
qed

lemma no_code: "check_python_code_fields [''code''] [] [] [] = None"
  by (simp add: check_python_code_fields_def check_code_schema_def code_key_def dict_get_def map_filter_simps)

lemma weather_rate: "rate_gate weather_env weather_tool start_world =
    (True, start_world\<lparr>tw_buckets := [(''t1'', Some (0, 0, 60))]\<rparr>)"
  by (simp add: rate_gate_def start_world_def bucket_acquire_def token_bucket_script_def bucket_level_def live_bucket_def
      redis_int_def Let_def)

lemma weather_attempts: "run_attempts 0 weather_env weather_tool h [] None None 0 w =
    (Inr (Some ok_reply, None, 1, []), w\<lparr>tw_requests := tw_requests w @
       [\<lparr>rq_method = ''get'', rq_url = ''https://api/x'', rq_headers = h, rq_json = None\<rparr>]\<rparr>)"
  by (subst run_attempts.simps) (simp add: weather_exchange ok_reply_def)

lemma ok_result: "build_result (Some ok_reply) e b = \<lparr>cr_status = ''success'', cr_http = Some 200, cr_data = Some [],
    cr_error = None, cr_retried = b, cr_excerpt = ''{}''\<rparr>"
  by (simp add: build_result_def is_success_def ok_reply_def response_data_def py_strip_def is_space_def excerpt_def)

lemma weather_finish: "finish_http weather_env weather_tool cl (Inr (Some ok_reply, None, 1, []), w) =
   (Inr \<lparr>cr_status = ''success'', cr_http = Some 200, cr_data = Some [], cr_error = None, cr_retried = False, cr_excerpt = ''{}''\<rparr>,
    persist_execution weather_env weather_tool cl []
      \<lparr>cr_status = ''success'', cr_http = Some 200, cr_data = Some [], cr_error = None, cr_retried = False, cr_excerpt = ''{}''\<rparr>
      (note_outcome ''weather'' ''success'' w))"
  by (simp add: finish_http_def ok_result check_output_def Let_def)

lemma weather_single: "further_attempts weather_env weather_tool = 0"
  by (simp add: further_attempts_def effective_max_attempts_def)

lemma weather_call:
  "\<exists>r. execute_tool weather_env weather_tool plain_caller [] start_world = (Inr r, persist_execution weather_env weather_tool plain_caller [] r
      (note_outcome ''weather'' ''success'' (start_world\<lparr>tw_buckets := [(''t1'', Some (0, 0, 60))], tw_requests :=
        [\<lparr>rq_method = ''get'', rq_url = ''https://api/x'', rq_headers = request_headers weather_env weather_tool plain_caller,
           rq_json = None\<rparr>]\<rparr>)))
    \<and> cr_status r = ''success'' \<and> cr_http r = Some 200 \<and> cr_data r = Some []"
proof -
  have "role_denied (te_fs weather_env) [] (cl_roles plain_caller) = None" by (simp add: role_denied_def dict_get_def)
  moreover have "url_input [] = False" by (simp add: url_input_def)
  moreover have "tw_requests (start_world\<lparr>tw_buckets := b\<rparr>) = []" for b by (simp add: start_world_def)
  moreover have "tool_is_open ''weather'' (tw_breakers start_world) = False" by (simp add: tool_is_open_def start_world_def)
  ultimately show ?thesis
    using weather_prepared
    by (simp add: execute_tool_def no_code call_http_def weather_allowed weather_rate weather_single weather_attempts
        weather_finish [unfolded One_nat_def])
qed


theorem open_breaker_raises_witness:
  "execute_tool weather_env weather_tool plain_caller [] open_world = (Inl Result_invalid, open_world)"
  by (rule open_breaker_raises [OF _ weather_prepared]) (simp add: open_world_def start_world_def tool_is_open_def)

theorem rate_limited_raises_witness:
  "\<exists>w'. call_http weather_env weather_tool plain_caller [] spent_world = (Inl Result_invalid, w')"
proof -
  obtain w' where "rate_gate weather_env weather_tool spent_world = (False, w')"
    by (auto simp: rate_gate_def spent_world_def start_world_def bucket_acquire_def token_bucket_script_def bucket_level_def
        live_bucket_def redis_int_def Let_def)
  then show ?thesis
    using rate_limited_raises [of weather_env weather_tool "[]" plain_caller spent_world w']
    by (simp add: weather_allowed role_denied_def dict_get_def)
qed

theorem mcp_skips_authorization_witness:
  "tw_mcp (snd (execute_tool weather_env admin_tool plain_caller [] start_world)) = [(''https://api/x'', ''weather'', [])]"
proof -
  have f: "tl_type admin_tool = ''mcp''" "tl_input_schema admin_tool = []" "tl_output_schema admin_tool = []" "tl_name admin_tool = ''weather''"
    "tl_mcp admin_tool = ''https://api/x''" "tl_rules admin_tool = [(''allowed_roles'', JList [JStr ''admin''])]"
    by (simp_all add: admin_tool_def weather_tool_def)
  have "role_denied (te_fs weather_env) (tl_rules admin_tool) (cl_roles plain_caller) = Some [''admin'']"
    by (simp add: f role_denied_def plain_caller_def dict_get_def py_str_def hashable_def sortable_def)
  moreover have "check_python_code_fields [''code''] [] [] [(''allowed_roles'', JList [JStr ''admin''])] = None"
    by (simp add: check_python_code_fields_def check_code_schema_def code_key_def dict_get_def map_filter_simps
        py_lower_def lower_char_def char_of_def bit_0 bit_Suc)
  moreover have "\<not> tool_is_open ''weather'' (tw_breakers start_world)" by (simp add: tool_is_open_def start_world_def)
  moreover have "tw_mcp start_world = []" by (simp add: start_world_def)
  ultimately show ?thesis
    using mcp_skips_authorization [of admin_tool weather_env plain_caller "[''admin'']" "[]" "[]" start_world] weather_prepared
    by (simp add: f weather_allowed)
qed

theorem role_gate_fails_open_witness:
  "role_denied (\<lambda>r. []) [(''allowed_roles'', JList [JStr ''admin''])] [JStr ''user'', JInt 1] = None"
  by (rule role_gate_fails_open) (simp add: sortable_def)

theorem success_is_checked_witness:
  "\<exists>r w'. execute_tool weather_env weather_tool plain_caller [] start_world = (Inr r, w') \<and> (\<exists>code. cr_http r = Some code \<and> 200 \<le> code \<and> code < 300)"
proof -
  obtain r w' where "execute_tool weather_env weather_tool plain_caller [] start_world = (Inr r, w')" "cr_status r = ''success''"
    using weather_call by blast
  with success_is_checked [OF this] show ?thesis by simp
qed

end
