(* ===== verification/Plan_Cycle.thy ===== *)
theory Plan_Cycle
  imports Codegen
begin

text \<open>
  The search for dependency cycles of a logical plan before it is compiled
  (\<open>\_find\_cycle\<close> of \<open>agent/nodes/plan\_validator\_node.py\<close>).  The edges are the declared
  dependencies and the references of the inputs, the search is depth first.  The dictionary
  \<open>state\<close> of the source is kept as two lists: the nodes being visited, which are those of
  \<open>path\<close>, and the finished ones.  The recursion has fuel; \<open>visit_enough_fuel\<close> shows that
  the number of nodes is enough.
\<close>

section \<open>Definitions\<close>

definition plan_node_name :: "logical_node \<Rightarrow> string" where
  "plan_node_name nd = (if l_ref nd \<noteq> [] then l_ref nd else l_op nd)"

definition index_step :: "(string \<times> nat) list \<Rightarrow> nat \<times> logical_node \<Rightarrow> (string \<times> nat) list" where
  "index_step d p = (let d' = AList.update (plan_node_name (snd p)) (fst p) d in
     if l_ref (snd p) \<noteq> [] \<and> l_op (snd p) \<noteq> [] then AList.update (l_op (snd p)) (fst p) d' else d')"

definition name_index :: "logical_node list \<Rightarrow> (string \<times> nat) list" where
  "name_index nodes = foldl index_step [] (enumerate 0 nodes)"

definition plan_node_deps :: "logical_node list \<Rightarrow> logical_node \<Rightarrow> string list" where
  "plan_node_deps nodes nd = sort (remdups (List.map_filter
     (\<lambda>r. map_option (\<lambda>i. plan_node_name (nodes ! i)) (map_of (name_index nodes) r))
     (l_depends_on nd @ scan_placeholders (JDict (l_inputs nd)))))"

definition plan_adj :: "logical_node list \<Rightarrow> string \<Rightarrow> string list" where
  "plan_adj nodes n = concat (map (plan_node_deps nodes) (filter (\<lambda>nd. plan_node_name nd = n) nodes))"

datatype dfs_result = Cycle "string list" | Finished "string list" | Out_of_fuel

fun visit :: "(string \<Rightarrow> string list) \<Rightarrow> nat \<Rightarrow> string list \<Rightarrow> string list \<Rightarrow> string list \<Rightarrow> dfs_result" where
  "visit adj k path don [] = Finished don"
| "visit adj k path don (m # ms) =
    (if m \<notin> set path \<and> m \<notin> set don then
       (case k of 0 \<Rightarrow> Out_of_fuel
        | Suc k' \<Rightarrow> (case visit adj k' (path @ [m]) don (adj m) of
            Finished d \<Rightarrow> visit adj k path (m # d) ms | r \<Rightarrow> r))
     else if m \<in> set path then Cycle (dropWhile (\<lambda>x. x \<noteq> m) path @ [m])
     else visit adj k path don ms)"

definition find_cycle :: "logical_node list \<Rightarrow> string list" where
  "find_cycle nodes = (case visit (plan_adj nodes) (length nodes) [] [] (map plan_node_name nodes) of
     Cycle c \<Rightarrow> c | _ \<Rightarrow> [])"

section \<open>The search\<close>

text \<open>Every list of finished nodes is in topological order: successors come later.\<close>

fun topo :: "(string \<Rightarrow> string list) \<Rightarrow> string list \<Rightarrow> bool" where
  "topo adj [] = True"
| "topo adj (n # d) = (set (adj n) \<subseteq> set d \<and> n \<notin> set d \<and> topo adj d)"

definition edges :: "(string \<Rightarrow> string list) \<Rightarrow> (string \<times> string) set" where
  "edges adj = {(a, b). b \<in> set (adj a)}"

lemma topo_closed:
  assumes "(a, b) \<in> (edges adj)\<^sup>+" and "topo adj d" and "a \<in> set d"
  shows "b \<in> set d"
  using assms
proof (induction rule: trancl_induct)
  case (base y)
  have "a \<in> set d \<Longrightarrow> topo adj d \<Longrightarrow> set (adj a) \<subseteq> set d" for a by (induction d) auto
  with base show ?case by (auto simp: edges_def)
next
  case (step y z)
  have "y \<in> set d \<Longrightarrow> topo adj d \<Longrightarrow> set (adj y) \<subseteq> set d" for y by (induction d) auto
  with step show ?case by (auto simp: edges_def)
qed

lemma topo_no_cycle: "topo adj d \<Longrightarrow> a \<in> set d \<Longrightarrow> (a, a) \<notin> (edges adj)\<^sup>+"
proof (induction d)
  case (Cons n d)
  show ?case
  proof (cases "a = n")
    case True
    have "(n, n) \<notin> (edges adj)\<^sup>+"
    proof
      assume "(n, n) \<in> (edges adj)\<^sup>+"
      then obtain m where m: "(n, m) \<in> edges adj" "(m, n) \<in> (edges adj)\<^sup>*" by (metis tranclD)
      from m(1) Cons.prems(1) have "m \<in> set d" by (auto simp: edges_def)
      with m(2) Cons.prems(1) show False
        by (metis rtranclD topo.simps(2) topo_closed)
    qed
    with True show ?thesis by simp
  qed (use Cons in auto)
qed simp

lemma visit_finished:
  assumes "visit adj k path d ms = Finished d'" and "topo adj d" and "set d \<inter> set path = {}"
  shows "topo adj d' \<and> set d' \<inter> set path = {} \<and> set d \<union> set ms \<subseteq> set d'"
  using assms
proof (induction adj k path d ms arbitrary: d' rule: visit.induct)
  case (2 adj k path d m ms)
  show ?case
  proof (cases "m \<notin> set path \<and> m \<notin> set d")
    case True
    then obtain k' e where k: "k = Suc k'" and e: "visit adj k' (path @ [m]) d (adj m) = Finished e"
      and r: "visit adj k path (m # e) ms = Finished d'"
      using 2(4) by (auto split: nat.splits dfs_result.splits)
    have e': "topo adj e \<and> set e \<inter> set (path @ [m]) = {} \<and> set d \<union> set (adj m) \<subseteq> set e"
      by (rule 2(1) [OF True k e]) (use 2(5,6) True in auto)
    have "topo adj d' \<and> set d' \<inter> set path = {} \<and> set (m # e) \<union> set ms \<subseteq> set d'"
      by (rule 2(2) [OF True k e r]) (use e' True in auto)
    with e' show ?thesis by auto
  next
    case False
    with 2(4) have m: "m \<notin> set path" "m \<in> set d" by (auto split: if_splits)
    with 2(4) have "visit adj k path d ms = Finished d'" by simp
    with 2(3) [OF False] m 2(5,6) show ?thesis by auto
  qed
qed auto

lemma visit_enough_fuel:
  assumes "finite N" and "\<And>n. n \<in> N \<Longrightarrow> set (adj n) \<subseteq> N" and "distinct path" and "set path \<subseteq> N"
    and "set ms \<subseteq> N" and "card N \<le> k + length path"
  shows "visit adj k path d ms \<noteq> Out_of_fuel"
  using assms
proof (induction adj k path d ms rule: visit.induct)
  case (2 adj k path d m ms)
  show ?case
  proof (cases "m \<notin> set path \<and> m \<notin> set d")
    case True
    have "set (path @ [m]) \<subseteq> N" using 2(7,8) by auto
    then have "card (set (path @ [m])) \<le> card N" by (rule card_mono [OF 2(4)])
    moreover have "card (set (path @ [m])) = Suc (length path)"
      using 2(6) True distinct_card [of "path @ [m]"] by simp
    ultimately obtain k' where k: "k = Suc k'" using 2(9) by (cases k) auto
    have "visit adj k' (path @ [m]) d (adj m) \<noteq> Out_of_fuel"
      by (rule 2(1) [OF True k]) (use 2(4-9) True k in auto)
    moreover have "visit adj k path (m # e) ms \<noteq> Out_of_fuel"
      if "visit adj k' (path @ [m]) d (adj m) = Finished e" for e
      by (rule 2(2) [OF True k that]) (use 2(4-9) in auto)
    ultimately show ?thesis using True k by (auto split: dfs_result.splits)
  qed (use 2 in auto)
qed simp

definition walk :: "(string \<Rightarrow> string list) \<Rightarrow> string list \<Rightarrow> bool" where
  "walk adj c = successively (\<lambda>a b. b \<in> set (adj a)) c"

lemma walk_snoc: "walk adj (xs @ [m]) \<longleftrightarrow> walk adj xs \<and> (xs = [] \<or> m \<in> set (adj (last xs)))"
  by (auto simp: walk_def successively_append_iff)

lemma visit_cycle:
  assumes "visit adj k path d ms = Cycle c" and "walk adj path"
    and "path = [] \<or> set ms \<subseteq> set (adj (last path))"
  shows "walk adj c \<and> 2 \<le> length c \<and> hd c = last c"
  using assms
proof (induction adj k path d ms arbitrary: c rule: visit.induct)
  case (2 adj k path d m ms)
  show ?case
  proof (cases "m \<notin> set path \<and> m \<notin> set d")
    case True
    then obtain k' where k: "k = Suc k'" using 2(4) by (auto split: nat.splits)
    have w: "walk adj (path @ [m])" using 2(5,6) by (auto simp: walk_snoc)
    show ?thesis
    proof (cases "visit adj k' (path @ [m]) d (adj m)")
      case (Cycle c')
      with 2(4) True k have "c' = c" by simp
      with Cycle have "visit adj k' (path @ [m]) d (adj m) = Cycle c" by simp
      then show ?thesis by (rule 2(1) [OF True k]) (use w in auto)
    next
      case (Finished e)
      with 2(4) True k have "visit adj k path (m # e) ms = Cycle c" by simp
      then show ?thesis by (rule 2(2) [OF True k Finished]) (use 2(5,6) in auto)
    next
      case Out_of_fuel
      with 2(4) True k show ?thesis by simp
    qed
  next
    case False
    show ?thesis
    proof (cases "m \<in> set path")
      case True
      then obtain ys zs where p: "path = ys @ m # zs" "m \<notin> set ys" by (metis split_list_first)
      then have "dropWhile (\<lambda>x. x \<noteq> m) path = m # zs" by (induction ys arbitrary: path) auto
      with 2(4) True have c: "c = (m # zs) @ [m]" by simp
      have "walk adj (m # zs)" using 2(5) by (auto simp: p walk_def successively_append_iff)
      moreover have "m \<in> set (adj (last (m # zs)))" using 2(6) by (auto simp: p)
      ultimately show ?thesis by (simp add: c walk_snoc del: append_Cons)
    next
      case m: False
      with 2(4) False have "visit adj k path d ms = Cycle c" by simp
      then show ?thesis by (rule 2(3) [OF False m]) (use 2(5,6) in auto)
    qed
  qed
qed simp

section \<open>Exactness\<close>

lemma walk_trancl: "walk adj (a # c) \<Longrightarrow> c \<noteq> [] \<Longrightarrow> (a, last c) \<in> (edges adj)\<^sup>+"
proof (induction c arbitrary: a)
  case (Cons b c)
  then have e: "(a, b) \<in> edges adj" "walk adj (b # c)" by (auto simp: walk_def edges_def)
  show ?case
  proof (cases "c = []")
    case False
    with Cons.IH [OF e(2)] e(1) show ?thesis by (simp add: trancl_into_trancl2)
  qed (use e(1) in auto)
qed simp

lemma name_index_bound:
  "map_of (name_index nodes) r = Some i \<Longrightarrow> i < length nodes"
proof -
  have "map_of (foldl index_step [] (enumerate 0 xs)) r = Some i \<Longrightarrow> i < length xs" for xs
  proof (induction xs rule: rev_induct)
    case (snoc x xs)
    then show ?case
      by (auto simp: enumerate_append_eq index_step_def Let_def map_of_update less_Suc_eq split: if_splits)
  qed simp
  then show "map_of (name_index nodes) r = Some i \<Longrightarrow> i < length nodes" by (simp add: name_index_def)
qed

lemma plan_node_deps_iff:
  "n \<in> set (plan_node_deps nodes nd) \<longleftrightarrow> (\<exists>r i. r \<in> set (l_depends_on nd) \<union> set (scan_placeholders (JDict (l_inputs nd)))
     \<and> map_of (name_index nodes) r = Some i \<and> n = plan_node_name (nodes ! i))"
  unfolding plan_node_deps_def by (auto simp: List.map_filter_def image_iff split: option.splits)

lemma plan_adj_names: "set (plan_adj nodes n) \<subseteq> set (map plan_node_name nodes)"
  unfolding plan_adj_def by (auto simp: plan_node_deps_iff) (auto intro!: imageI nth_mem dest: name_index_bound)

lemma find_cycle_cases:
  "find_cycle nodes = [] \<and> (\<exists>d. topo (plan_adj nodes) d \<and> set (map plan_node_name nodes) \<subseteq> set d)
   \<or> walk (plan_adj nodes) (find_cycle nodes) \<and> 2 \<le> length (find_cycle nodes)
      \<and> hd (find_cycle nodes) = last (find_cycle nodes)"
proof (cases "visit (plan_adj nodes) (length nodes) [] [] (map plan_node_name nodes)")
  case (Cycle c)
  have "walk (plan_adj nodes) c \<and> 2 \<le> length c \<and> hd c = last c"
    by (rule visit_cycle [OF Cycle]) (auto simp: walk_def)
  with Cycle show ?thesis by (simp add: find_cycle_def)
next
  case (Finished d)
  have "topo (plan_adj nodes) d \<and> set d \<inter> set [] = {} \<and> set [] \<union> set (map plan_node_name nodes) \<subseteq> set d"
    by (rule visit_finished [OF Finished]) auto
  with Finished show ?thesis by (auto simp: find_cycle_def)
next
  case Out_of_fuel
  have "visit (plan_adj nodes) (length nodes) [] [] (map plan_node_name nodes) \<noteq> Out_of_fuel"
    by (rule visit_enough_fuel [of "set (map plan_node_name nodes)"])
      (use plan_adj_names card_length [of "map plan_node_name nodes"] in auto)
  with Out_of_fuel show ?thesis by contradiction
qed

lemma edge_source_planned: "(a, b) \<in> edges (plan_adj nodes) \<Longrightarrow> a \<in> set (map plan_node_name nodes)"
  by (auto simp: edges_def plan_adj_def)

lemma find_cycle_acyclic:
  "find_cycle nodes = [] \<longleftrightarrow> acyclic {(a, b). b \<in> set (plan_adj nodes a)}"
proof -
  let ?E = "edges (plan_adj nodes)"
  have E: "{(a, b). b \<in> set (plan_adj nodes a)} = ?E" by (simp add: edges_def)
  show ?thesis
  proof
    assume "find_cycle nodes = []"
    then have "\<not> 2 \<le> length (find_cycle nodes)" by simp
    with find_cycle_cases [of nodes] obtain d where d: "topo (plan_adj nodes) d" "set (map plan_node_name nodes) \<subseteq> set d"
      by blast
    have "(a, a) \<notin> ?E\<^sup>+" for a
    proof
      assume a: "(a, a) \<in> ?E\<^sup>+"
      then obtain b where "(a, b) \<in> ?E" by (metis tranclD)
      then have "a \<in> set d" using d(2) edge_source_planned by blast
      with topo_no_cycle [OF d(1)] a show False by blast
    qed
    then show "acyclic {(a, b). b \<in> set (plan_adj nodes a)}" by (simp add: E acyclic_def)
  next
    assume ac: "acyclic {(a, b). b \<in> set (plan_adj nodes a)}"
    show "find_cycle nodes = []"
    proof (rule ccontr)
      assume "find_cycle nodes \<noteq> []"
      with find_cycle_cases [of nodes] have w: "walk (plan_adj nodes) (find_cycle nodes)" "2 \<le> length (find_cycle nodes)"
        "hd (find_cycle nodes) = last (find_cycle nodes)" by blast+
      then obtain a b c where c: "find_cycle nodes = a # b # c"
        by (cases "find_cycle nodes"; cases "tl (find_cycle nodes)") auto
      from walk_trancl [of "plan_adj nodes" a "b # c"] w have "(a, a) \<in> ?E\<^sup>+" by (simp add: c)
      with ac show False by (simp add: E acyclic_def)
    qed
  qed
qed

text \<open>
  C29: The search is exact: it reports nothing exactly when the plan's dependencies, declared and
  implied by references, have no cycle.
\<close>

theorem find_cycle_exact:
  "find_cycle nodes = [] \<longleftrightarrow> acyclic {(a, b). b \<in> set (plan_adj nodes a)}"
  by (rule find_cycle_acyclic)

text \<open>What is reported is a cycle: a closed walk along dependencies of the plan.\<close>

theorem reported_cycle_is_closed:
  assumes "find_cycle nodes \<noteq> []"
  shows "walk (plan_adj nodes) (find_cycle nodes) \<and> 2 \<le> length (find_cycle nodes)
    \<and> hd (find_cycle nodes) = last (find_cycle nodes)"
  using find_cycle_cases [of nodes] assms by blast

definition step_on :: "string \<Rightarrow> string \<Rightarrow> json dict \<Rightarrow> string list \<Rightarrow> logical_node" where
  "step_on name r inp deps = \<lparr>l_op = name, l_ref = r, l_inputs = inp, l_depends_on = deps,
     l_condition = None, l_branch_true = [], l_branch_false = [], l_iterate_over = None,
     l_domain = None, l_action = None\<rparr>"

definition mutual_plan :: "logical_node list" where
  "mutual_plan = [step_on ''geo'' ''g'' [(''w'', JStr ''${w.result.x}'')] [],
     step_on ''weather'' ''w'' [] [''geo'']]"

lemma mutual_plan_cycle: "find_cycle mutual_plan = [''g'', ''w'', ''g'']"
  unfolding mutual_plan_def by code_simp

theorem reported_cycle_is_closed_witness:
  "walk (plan_adj mutual_plan) [''g'', ''w'', ''g'']"
  using reported_cycle_is_closed [of mutual_plan] by (simp add: mutual_plan_cycle)

end
