(* ===== verification/Conditions.thy ===== *)
theory Conditions
  imports Executor Codegen
begin

text \<open>
  The conditions of conditional nodes, \<open>execution/condition_evaluator.py\<close>: placeholders are
  replaced by the text of their value, the text is parsed (\<open>ast.parse\<close>, a parameter) and the
  tree is evaluated.  The tree is a datatype with the node classes the evaluator admits; constants
  are \<open>None\<close>, booleans, numbers and strings.  Powers that are not rational, string formatting
  and the identity of objects other than \<open>None\<close> and booleans are parameters of \<open>cond_env\<close>.
  An exception is \<open>None\<close>; every one of them reaches the caller as \<open>ConditionSyntaxError\<close>.
\<close>

section \<open>Values\<close>

datatype py = PyNone | PyBool bool | PyInt int | PyFloat rat | PyStr string | PyList "py list" | PyTuple "py list"

fun py_truthy :: "py \<Rightarrow> bool" where
  "py_truthy PyNone = False"
| "py_truthy (PyBool b) = b"
| "py_truthy (PyInt i) = (i \<noteq> 0)"
| "py_truthy (PyFloat r) = (r \<noteq> 0)"
| "py_truthy (PyStr s) = (s \<noteq> [])"
| "py_truthy (PyList xs) = (xs \<noteq> [])"
| "py_truthy (PyTuple xs) = (xs \<noteq> [])"

fun py_num :: "py \<Rightarrow> rat option" where
  "py_num (PyBool b) = Some (if b then 1 else 0)"
| "py_num (PyInt i) = Some (of_int i)"
| "py_num (PyFloat r) = Some r"
| "py_num _ = None"

fun is_float :: "py \<Rightarrow> bool" where
  "is_float (PyFloat r) = True"
| "is_float _ = False"

definition mk_num :: "bool \<Rightarrow> rat \<Rightarrow> py" where
  "mk_num f r = (if f then PyFloat r else PyInt \<lfloor>r\<rfloor>)"

fun c_eq :: "py \<Rightarrow> py \<Rightarrow> bool" and c_eq_list :: "py list \<Rightarrow> py list \<Rightarrow> bool" where
  "c_eq PyNone w = (w = PyNone)"
| "c_eq (PyStr s) w = (w = PyStr s)"
| "c_eq (PyList xs) w = (case w of PyList ys \<Rightarrow> c_eq_list xs ys | _ \<Rightarrow> False)"
| "c_eq (PyTuple xs) w = (case w of PyTuple ys \<Rightarrow> c_eq_list xs ys | _ \<Rightarrow> False)"
| "c_eq (PyBool b) w = (py_num w = Some (if b then 1 else 0))"
| "c_eq (PyInt i) w = (py_num w = Some (of_int i))"
| "c_eq (PyFloat r) w = (py_num w = Some r)"
| "c_eq_list [] ys = (ys = [])"
| "c_eq_list (x # xs) ys = (case ys of [] \<Rightarrow> False | y # ys' \<Rightarrow> c_eq x y \<and> c_eq_list xs ys')"

text \<open>\<open>a < b\<close>; sequences compare by their first unequal elements.\<close>

fun c_lt :: "py \<Rightarrow> py \<Rightarrow> bool option" and c_lt_list :: "py list \<Rightarrow> py list \<Rightarrow> bool option" where
  "c_lt (PyStr s) w = (case w of PyStr t \<Rightarrow> Some (s < t) | _ \<Rightarrow> None)"
| "c_lt (PyList xs) w = (case w of PyList ys \<Rightarrow> c_lt_list xs ys | _ \<Rightarrow> None)"
| "c_lt (PyTuple xs) w = (case w of PyTuple ys \<Rightarrow> c_lt_list xs ys | _ \<Rightarrow> None)"
| "c_lt v w = (case (py_num v, py_num w) of (Some x, Some y) \<Rightarrow> Some (x < y) | _ \<Rightarrow> None)"
| "c_lt_list [] ys = Some (ys \<noteq> [])"
| "c_lt_list (x # xs) ys = (case ys of [] \<Rightarrow> Some False
     | y # ys' \<Rightarrow> if c_eq x y then c_lt_list xs ys' else c_lt x y)"

definition c_le :: "py \<Rightarrow> py \<Rightarrow> bool option" where
  "c_le v w = map_option (\<lambda>b. b \<or> c_eq v w) (c_lt v w)"

definition c_in :: "py \<Rightarrow> py \<Rightarrow> bool option" where
  "c_in v w = (case w of
      PyList xs \<Rightarrow> Some (list_ex (c_eq v) xs) | PyTuple xs \<Rightarrow> Some (list_ex (c_eq v) xs)
    | PyStr t \<Rightarrow> (case v of PyStr s \<Rightarrow> Some (contains_str s t) | _ \<Rightarrow> None)
    | _ \<Rightarrow> None)"

section \<open>Expressions\<close>

datatype bin_op = Add | Sub | Mult | Div | Modulo | Power | Other_bin

datatype cmp_op = EqOp | NotEqOp | LtOp | LtEOp | GtOp | GtEOp | InOp | NotInOp | IsOp | IsNotOp

datatype un_op = NotOp | USub | UAdd | Invert

datatype cexpr =
    Constant py
  | Identifier string
  | AndExpr "cexpr list"
  | OrExpr "cexpr list"
  | UnaryExpr un_op cexpr
  | BinExpr bin_op cexpr cexpr
  | CompareExpr cexpr "(cmp_op \<times> cexpr) list"
  | ListExpr "cexpr list"
  | TupleExpr "cexpr list"
  | Unsupported

record cond_env =
  ce_pow :: "rat \<Rightarrow> rat \<Rightarrow> py option"     \<comment> \<open>a float power whose exponent is no integer\<close>
  ce_format :: "string \<Rightarrow> py \<Rightarrow> string option"
  ce_same :: "py \<Rightarrow> py \<Rightarrow> bool"
  ce_parse :: "string \<Rightarrow> cexpr option"
  ce_repr :: "rat \<Rightarrow> string"               \<comment> \<open>the text of a float\<close>

definition num_op :: "(bool \<Rightarrow> rat \<Rightarrow> rat \<Rightarrow> py option) \<Rightarrow> py \<Rightarrow> py \<Rightarrow> py option" where
  "num_op f v w = (case (py_num v, py_num w) of
      (Some x, Some y) \<Rightarrow> f (is_float v \<or> is_float w) x y | _ \<Rightarrow> None)"

definition repeat_list :: "py \<Rightarrow> 'a list \<Rightarrow> 'a list option" where
  "repeat_list n xs = (case n of
      PyInt i \<Rightarrow> Some (concat (replicate (nat i) xs)) | PyBool b \<Rightarrow> Some (if b then xs else []) | _ \<Rightarrow> None)"

definition py_add :: "py \<Rightarrow> py \<Rightarrow> py option" where
  "py_add v w = (case (v, w) of
      (PyStr s, PyStr t) \<Rightarrow> Some (PyStr (s @ t))
    | (PyList xs, PyList ys) \<Rightarrow> Some (PyList (xs @ ys))
    | (PyTuple xs, PyTuple ys) \<Rightarrow> Some (PyTuple (xs @ ys))
    | _ \<Rightarrow> num_op (\<lambda>f x y. Some (mk_num f (x + y))) v w)"

definition py_mult :: "py \<Rightarrow> py \<Rightarrow> py option" where
  "py_mult v w = (case (v, w) of
      (PyStr s, n) \<Rightarrow> map_option PyStr (repeat_list n s)
    | (n, PyStr s) \<Rightarrow> map_option PyStr (repeat_list n s)
    | (PyList xs, n) \<Rightarrow> map_option PyList (repeat_list n xs)
    | (n, PyList xs) \<Rightarrow> map_option PyList (repeat_list n xs)
    | (PyTuple xs, n) \<Rightarrow> map_option PyTuple (repeat_list n xs)
    | (n, PyTuple xs) \<Rightarrow> map_option PyTuple (repeat_list n xs)
    | _ \<Rightarrow> num_op (\<lambda>f x y. Some (mk_num f (x * y))) v w)"

definition py_mod :: "cond_env \<Rightarrow> py \<Rightarrow> py \<Rightarrow> py option" where
  "py_mod env v w = (case v of
      PyStr s \<Rightarrow> map_option PyStr (ce_format env s w)
    | _ \<Rightarrow> num_op (\<lambda>f x y. if y = 0 then None else Some (mk_num f (x - y * of_int \<lfloor>x / y\<rfloor>))) v w)"

definition py_pow :: "cond_env \<Rightarrow> py \<Rightarrow> py \<Rightarrow> py option" where
  "py_pow env = num_op (\<lambda>f x y.
     if y \<noteq> of_int \<lfloor>y\<rfloor> then ce_pow env x y
     else if 0 \<le> y then Some (mk_num f (x ^ nat \<lfloor>y\<rfloor>))
     else if x = 0 then None else Some (PyFloat (1 / x ^ nat \<lfloor>- y\<rfloor>)))"

fun bin_value :: "cond_env \<Rightarrow> bin_op \<Rightarrow> py \<Rightarrow> py \<Rightarrow> py option" where
  "bin_value env Add v w = py_add v w"
| "bin_value env Sub v w = num_op (\<lambda>f x y. Some (mk_num f (x - y))) v w"
| "bin_value env Mult v w = py_mult v w"
| "bin_value env Div v w = num_op (\<lambda>f x y. if y = 0 then None else Some (PyFloat (x / y))) v w"
| "bin_value env Modulo v w = py_mod env v w"
| "bin_value env Power v w = py_pow env v w"
| "bin_value env Other_bin v w = None"

definition same_object :: "cond_env \<Rightarrow> py \<Rightarrow> py \<Rightarrow> bool" where
  "same_object env v w = (case (v, w) of
      (PyNone, _) \<Rightarrow> w = PyNone | (_, PyNone) \<Rightarrow> False
    | (PyBool b, _) \<Rightarrow> w = PyBool b | (_, PyBool b) \<Rightarrow> False
    | _ \<Rightarrow> ce_same env v w)"

fun cmp_value :: "cond_env \<Rightarrow> cmp_op \<Rightarrow> py \<Rightarrow> py \<Rightarrow> bool option" where
  "cmp_value env EqOp v w = Some (c_eq v w)"
| "cmp_value env NotEqOp v w = Some (\<not> c_eq v w)"
| "cmp_value env LtOp v w = c_lt v w"
| "cmp_value env LtEOp v w = c_le v w"
| "cmp_value env GtOp v w = c_lt w v"
| "cmp_value env GtEOp v w = c_le w v"
| "cmp_value env InOp v w = c_in v w"
| "cmp_value env NotInOp v w = map_option Not (c_in v w)"
| "cmp_value env IsOp v w = Some (same_object env v w)"
| "cmp_value env IsNotOp v w = Some (\<not> same_object env v w)"

fun unary_value :: "un_op \<Rightarrow> py \<Rightarrow> py option" where
  "unary_value NotOp v = Some (PyBool (\<not> py_truthy v))"
| "unary_value USub v = map_option (\<lambda>x. mk_num (is_float v) (- x)) (py_num v)"
| "unary_value UAdd v = map_option (mk_num (is_float v)) (py_num v)"
| "unary_value Invert v = None"

text \<open>\<open>_eval_node\<close>; the operands of a boolean operator are all evaluated first.\<close>

fun eval_node :: "cond_env \<Rightarrow> cexpr \<Rightarrow> py option"
  and eval_nodes :: "cond_env \<Rightarrow> cexpr list \<Rightarrow> py list option"
  and eval_chain :: "cond_env \<Rightarrow> py \<Rightarrow> (cmp_op \<times> cexpr) list \<Rightarrow> bool option" where
  "eval_node env (Constant v) = Some v"
| "eval_node env (Identifier n) = (if n = ''None'' then Some PyNone
     else if n = ''True'' then Some (PyBool True) else if n = ''False'' then Some (PyBool False) else None)"
| "eval_node env (AndExpr es) = map_option (\<lambda>vs. PyBool (list_all py_truthy vs)) (eval_nodes env es)"
| "eval_node env (OrExpr es) = map_option (\<lambda>vs. PyBool (list_ex py_truthy vs)) (eval_nodes env es)"
| "eval_node env (UnaryExpr u e) = Option.bind (eval_node env e) (unary_value u)"
| "eval_node env (BinExpr b e1 e2) = (if b = Other_bin then None else
     Option.bind (eval_node env e1) (\<lambda>v. Option.bind (eval_node env e2) (bin_value env b v)))"
| "eval_node env (CompareExpr e cs) = Option.bind (eval_node env e) (\<lambda>v. map_option PyBool (eval_chain env v cs))"
| "eval_node env (ListExpr es) = map_option PyList (eval_nodes env es)"
| "eval_node env (TupleExpr es) = map_option PyTuple (eval_nodes env es)"
| "eval_node env Unsupported = None"
| "eval_nodes env [] = Some []"
| "eval_nodes env (e # es) = Option.bind (eval_node env e) (\<lambda>v. map_option ((#) v) (eval_nodes env es))"
| "eval_chain env v [] = Some True"
| "eval_chain env v ((c, e) # cs) = Option.bind (eval_node env e) (\<lambda>w.
     Option.bind (cmp_value env c v w) (\<lambda>b. if b then eval_chain env w cs else Some False))"

section \<open>Placeholders\<close>

definition ident_start :: "char \<Rightarrow> bool" where
  "ident_start c = (is_word c \<and> \<not> is_digit c)"

text \<open>An identifier at the head of a text, and what follows it.\<close>

definition take_ident :: "string \<Rightarrow> (string \<times> string) option" where
  "take_ident s = (case s of [] \<Rightarrow> None
    | c # cs \<Rightarrow> if ident_start c then Some (takeWhile is_word s, dropWhile is_word s) else None)"

definition close_brace :: "string \<Rightarrow> string option" where
  "close_brace s = (case s of [] \<Rightarrow> None | c # cs \<Rightarrow> if c = CHR 0x7D then Some cs else None)"

text \<open>The optional field and the closing brace.\<close>

definition match_tail :: "string \<Rightarrow> (string option \<times> string) option" where
  "match_tail s = (case (if starts_with ''.'' s then take_ident (tl s) else None) of
      Some (f, r) \<Rightarrow> (case close_brace r of Some rest \<Rightarrow> Some (Some f, rest) | None \<Rightarrow> None)
    | None \<Rightarrow> (case close_brace s of Some rest \<Rightarrow> Some (None, rest) | None \<Rightarrow> None))"

text \<open>\<open>_RESULT_RE\<close> at the head of a text: reference, field and rest.\<close>

definition match_result :: "string \<Rightarrow> (string \<times> string option \<times> string) option" where
  "match_result s = (if \<not> starts_with ''${'' s then None else (case take_ident (drop 2 s) of
      None \<Rightarrow> None
    | Some (t, r) \<Rightarrow> (case (if starts_with ''.result'' r then match_tail (drop 7 r) else None) of
        Some (f, rest) \<Rightarrow> Some (t, f, rest)
      | None \<Rightarrow> (case match_tail r of Some (f, rest) \<Rightarrow> Some (t, f, rest) | None \<Rightarrow> None))))"

definition result_data :: "json dict \<Rightarrow> (string \<times> string) list \<Rightarrow> string \<Rightarrow> json" where
  "result_data acc aliases t = (case dict_get acc t JNull of
      JNull \<Rightarrow> (case map_of aliases t of
          Some phys \<Rightarrow> if phys \<noteq> [] \<and> CHR '','' \<notin> set phys then dict_get acc phys JNull else JNull
        | None \<Rightarrow> JNull)
    | v \<Rightarrow> v)"

text \<open>\<open>_lookup\<close>: \<open>None\<close> marks the reference as missing.\<close>

definition lookup_result :: "json dict \<Rightarrow> (string \<times> string) list \<Rightarrow> string \<Rightarrow> string option \<Rightarrow> json option" where
  "lookup_result acc aliases t field = (case result_data acc aliases t of
      JNull \<Rightarrow> None
    | v \<Rightarrow> (case field of None \<Rightarrow> Some v
       | Some f \<Rightarrow> Some (case v of
            JDict d \<Rightarrow> dict_get d f JNull
          | JList (JDict d # _) \<Rightarrow> dict_get d f JNull
          | _ \<Rightarrow> JNull)))"

definition literal_text :: "cond_env \<Rightarrow> json \<Rightarrow> string" where
  "literal_text env v = (case v of
      JNull \<Rightarrow> ''None''
    | JStr s \<Rightarrow> str_repr s
    | JBool b \<Rightarrow> if b then ''True'' else ''False''
    | JInt i \<Rightarrow> int_str i
    | JFloat r \<Rightarrow> ce_repr env r
    | _ \<Rightarrow> str_repr (py_str (ce_repr env) v))"

lemma match_result_shorter: "match_result s = Some (t, f, rest) \<Longrightarrow> length rest < length s"
proof -
  have ident: "take_ident s = Some (w, r) \<Longrightarrow> length r \<le> length s" for s w r
    by (auto simp: take_ident_def intro: le_SucI length_dropWhile_le split: list.splits if_splits)
  have brace: "close_brace s = Some r \<Longrightarrow> length r < length s" for s r
    by (auto simp: close_brace_def split: list.splits if_splits)
  have tail: "match_tail s = Some (f, r) \<Longrightarrow> length r < length s" for s f r
    by (auto simp: match_tail_def split: option.splits if_splits prod.splits dest!: ident brace)
  assume "match_result s = Some (t, f, rest)"
  then show ?thesis
    by (auto simp: match_result_def split: option.splits if_splits prod.splits dest!: ident tail)
qed

text \<open>The text with its placeholders replaced, and whether one of them was missing.\<close>

function resolve_condition :: "cond_env \<Rightarrow> json dict \<Rightarrow> (string \<times> string) list \<Rightarrow> string \<Rightarrow> string \<times> bool" where
  "resolve_condition env acc aliases [] = ([], False)"
| "resolve_condition env acc aliases (c # cs) = (case match_result (c # cs) of
      Some (t, f, rest) \<Rightarrow>
       (let v = lookup_result acc aliases t f; r = resolve_condition env acc aliases rest in
        (literal_text env (case v of None \<Rightarrow> JNull | Some x \<Rightarrow> x) @ fst r, v = None \<or> snd r))
    | None \<Rightarrow> (let r = resolve_condition env acc aliases cs in (c # fst r, snd r)))"
  by pat_completeness auto
termination by (relation "measure (\<lambda>(_, _, _, s). length s)") (auto dest: match_result_shorter)

definition evaluate_condition :: "cond_env \<Rightarrow> (string \<times> string) list \<Rightarrow> string \<Rightarrow> json dict \<Rightarrow> bool option" where
  "evaluate_condition env aliases cnd acc =
    (if py_strip cnd = [] then Some False
     else (let r = resolve_condition env acc aliases cnd in
       if snd r then Some False
       else (case ce_parse env (fst r) of None \<Rightarrow> None
         | Some e \<Rightarrow> map_option py_truthy (eval_node env e))))"

section \<open>Eager and lazy evaluation\<close>

text \<open>The reference: truth with operators that stop at the first deciding operand.\<close>

fun holds :: "cond_env \<Rightarrow> cexpr \<Rightarrow> bool option"
  and holds_all :: "cond_env \<Rightarrow> cexpr list \<Rightarrow> bool option"
  and holds_any :: "cond_env \<Rightarrow> cexpr list \<Rightarrow> bool option" where
  "holds env (AndExpr es) = holds_all env es"
| "holds env (OrExpr es) = holds_any env es"
| "holds env (UnaryExpr u e) = (if u = NotOp then map_option Not (holds env e)
     else map_option py_truthy (eval_node env (UnaryExpr u e)))"
| "holds env e = map_option py_truthy (eval_node env e)"
| "holds_all env [] = Some True"
| "holds_all env (e # es) = Option.bind (holds env e) (\<lambda>b. if b then holds_all env es else Some False)"
| "holds_any env [] = Some False"
| "holds_any env (e # es) = Option.bind (holds env e) (\<lambda>b. if b then Some True else holds_any env es)"

lemma holds_eval:
  "eval_node env e = Some v \<Longrightarrow> holds env e = Some (py_truthy v)"
  "eval_nodes env es = Some vs \<Longrightarrow> holds_all env es = Some (list_all py_truthy vs)"
  "eval_nodes env es = Some vs \<Longrightarrow> holds_any env es = Some (list_ex py_truthy vs)"
proof (induction e and es and es arbitrary: v and vs and vs rule: holds_holds_all_holds_any.induct)
  case (3 env u e)
  then show ?case by (cases u) (auto simp: bind_eq_Some_conv)
qed (auto simp: bind_eq_Some_conv)

text \<open>
  Whenever the evaluator returns a value, its truth is the one a reader expects of Python's
  short-circuiting operators.
\<close>

theorem eager_logic_agrees:
  assumes "eval_node env e = Some v"
  shows "holds env e = Some (py_truthy v)"
  using assms by (rule holds_eval)

definition plain_env :: cond_env where
  "plain_env = \<lparr>ce_pow = (\<lambda>x y. None), ce_format = (\<lambda>s v. None), ce_same = (\<lambda>v w. False), ce_parse = (\<lambda>s. None), ce_repr = (\<lambda>r. [])\<rparr>"

definition guarded_ratio :: "int \<Rightarrow> cexpr" where
  "guarded_ratio n = AndExpr [CompareExpr (Constant (PyInt n)) [(NotEqOp, Constant (PyInt 0))],
     CompareExpr (BinExpr Div (Constant (PyInt 10)) (Constant (PyInt n))) [(GtOp, Constant (PyInt 1))]]"

theorem eager_logic_agrees_witness:
  "holds plain_env (guarded_ratio 2) = Some (py_truthy (PyBool True))"
  by (rule eager_logic_agrees) (simp add: guarded_ratio_def num_op_def)

text \<open>
  It does not always return one: all operands are evaluated, so the usual guard
  \<open>n != 0 and 10 / n > 1\<close> raises for zero where short-circuit evaluation is false.
\<close>

theorem guard_does_not_protect:
  "eval_node env (guarded_ratio 0) = None \<and> holds env (guarded_ratio 0) = Some False"
  by (simp add: guarded_ratio_def num_op_def)

section \<open>Missing data\<close>

text \<open>
  A reference to a task without result makes the condition false, whatever else it says.
\<close>

theorem missing_task_is_false:
  assumes "snd (resolve_condition env acc aliases cnd)"
  shows "evaluate_condition env aliases cnd acc = Some False"
  using assms by (simp add: evaluate_condition_def Let_def)

theorem missing_task_is_false_witness:
  "evaluate_condition plain_env [] ''${t.result.n} > 5'' [] = Some False"
  by (rule missing_task_is_false)
    (simp add: match_result_def take_ident_def match_tail_def close_brace_def ident_start_def is_word_def is_digit_def
      starts_with_def lookup_result_def result_data_def dict_get_def Let_def)

text \<open>
  A missing field is not missing data: it is replaced by \<open>None\<close>, and comparing \<open>None\<close> with a
  number raises.
\<close>

theorem missing_field_raises:
  assumes "ce_parse env ''None > 5'' = Some (CompareExpr (Constant PyNone) [(GtOp, Constant (PyInt 5))])"
    and "map_of acc ''t'' = Some (JDict d)" and "map_of d ''n'' = None"
  shows "evaluate_condition env [] ''${t.result.n} > 5'' acc = None"
proof -
  have "resolve_condition env acc [] ''${t.result.n} > 5'' = (''None > 5'', False)"
    using assms(2,3)
    by (simp add: match_result_def take_ident_def match_tail_def close_brace_def ident_start_def is_word_def is_digit_def
      starts_with_def lookup_result_def result_data_def dict_get_def literal_text_def Let_def)
  moreover have "py_strip ''${t.result.n} > 5'' \<noteq> []" by (simp add: py_strip_def is_space_def)
  ultimately show ?thesis using assms(1) by (simp add: evaluate_condition_def)
qed

definition none_env :: cond_env where
  "none_env = plain_env\<lparr>ce_parse := (\<lambda>s. if s = ''None > 5''
     then Some (CompareExpr (Constant PyNone) [(GtOp, Constant (PyInt 5))]) else None)\<rparr>"

theorem missing_field_raises_witness:
  "evaluate_condition none_env [] ''${t.result.n} > 5'' [(''t'', JDict [(''m'', JInt 1)])] = None"
  by (rule missing_field_raises [where d = "[(''m'', JInt 1)]"]) (simp_all add: none_env_def)

section \<open>Gates of the executor\<close>

definition gate_conditions :: "cond_env \<Rightarrow> (string \<times> string) list \<Rightarrow> exec_env \<Rightarrow> exec_env" where
  "gate_conditions cenv aliases env = env\<lparr>en_cond := evaluate_condition cenv aliases\<rparr>"

lemma gate_false:
  assumes "et_kind task = ''conditional''" and "evaluate_condition cenv aliases (et_condition task) acc \<in> {None, Some False}"
  shows "prune_conditional_tasks (gate_conditions cenv aliases env) acc disabled [task] =
    (disabled @ filter (\<lambda>t. t \<notin> set (et_false task)) (et_true task), [])"
  using assms by (auto simp: prune_conditional_tasks_def prune_step_def gate_conditions_def Let_def filter_empty_conv
      split: option.splits)

text \<open>
  A gate over missing data takes its false branch, and so does one whose evaluation raises: the
  tasks of the true branch that are not on the false one too are disabled.
\<close>

theorem gate_without_data_takes_false_branch:
  assumes "et_kind task = ''conditional''" and "snd (resolve_condition cenv acc aliases (et_condition task))"
  shows "prune_conditional_tasks (gate_conditions cenv aliases env) acc disabled [task] =
    (disabled @ filter (\<lambda>t. t \<notin> set (et_false task)) (et_true task), [])"
proof -
  have "evaluate_condition cenv aliases (et_condition task) acc = Some False"
    using assms(2) by (simp add: evaluate_condition_def Let_def)
  with gate_false [OF assms(1)] show ?thesis by blast
qed

definition pending_gate :: exec_task where
  "pending_gate = (demo_task ''gate'' [])\<lparr>et_kind := ''conditional'', et_condition := ''${t.result.n} > 5'',
     et_true := [''yes''], et_false := [''no'']\<rparr>"

theorem gate_without_data_takes_false_branch_witness:
  "prune_conditional_tasks (gate_conditions plain_env [] demo_env) [] [] [pending_gate] = ([''yes''], [])"
proof -
  have "snd (resolve_condition plain_env [] [] (et_condition pending_gate))"
    by (simp add: pending_gate_def match_result_def take_ident_def match_tail_def close_brace_def ident_start_def is_word_def
        is_digit_def starts_with_def lookup_result_def result_data_def dict_get_def Let_def)
  then show ?thesis
    using gate_without_data_takes_false_branch [of pending_gate plain_env "[]" "[]" demo_env "[]"]
    by (simp add: pending_gate_def)
qed

end
