(* ===== verification/Workflow.thy ===== *)
theory Workflow
  imports Aggregation Conditions Tool_Request
begin

text \<open>
  \<open>agent/nodes/interactive_workflow_node.py\<close>: workflows that run over several turns.  A step is
  the record of the fields the node reads of its dictionary; the values collected so far are a
  dictionary by step id, the steps whose tool result was seen a list of ids.  What language models
  answer, the composed definition and the artifacts of the session are parameters of a turn.
  \<open>fs\<close> is the text of a float.  Steps without an id are not modelled.
\<close>

section \<open>Data\<close>

record wf_step =
  ws_id :: string
  ws_requires :: bool        \<comment> \<open>\<open>requires_input\<close>\<close>
  ws_inputs :: json
  ws_intent :: string        \<comment> \<open>\<open>intent\<close> or \<open>capability\<close>\<close>
  ws_dynamic :: bool
  ws_dynamic_intent :: string
  ws_question :: string

record wf_artifact =
  wa_capability :: string
  wa_tool :: string
  wa_execution :: string
  wa_data :: json

section \<open>Placeholders of step inputs\<close>

definition path_dot_char :: "char \<Rightarrow> bool" where
  "path_dot_char c = (is_word c \<or> c = CHR ''.'')"

text \<open>The matches of \<open>\$\{([^}]+)\}\<close>; the rest after an unclosed one has no match.\<close>

function wide_refs :: "string \<Rightarrow> string list" where
  "wide_refs [] = []"
| "wide_refs (c # cs) =
    (if starts_with ''${'' (c # cs)
     then (let w = takeWhile (\<lambda>x. x \<noteq> CHR 0x7D) (tl cs); r = dropWhile (\<lambda>x. x \<noteq> CHR 0x7D) (tl cs) in
       if w \<noteq> [] \<and> r \<noteq> [] then w # wide_refs (tl r) else wide_refs cs)
     else wide_refs cs)"
  by pat_completeness auto
termination
proof (relation "measure length"; simp)
  fix cs :: string
  have "length (dropWhile (\<lambda>x. x \<noteq> CHR 0x7D) (tl cs)) \<le> length (tl cs)" by (rule length_dropWhile_le)
  then show "length (dropWhile (\<lambda>x. x \<noteq> CHR 0x7D) (tl cs)) - Suc 0 < Suc (length cs)" by simp
qed

definition ref_root :: "string \<Rightarrow> string" where
  "ref_root path = hd (py_split CHR ''.'' path)"

definition has_unresolved_placeholders :: "json dict \<Rightarrow> json dict \<Rightarrow> bool" where
  "has_unresolved_placeholders inp collected =
    list_ex (\<lambda>p. case snd p of JStr t \<Rightarrow> list_ex (\<lambda>r. \<not> dict_has collected (ref_root r)) (wide_refs t) | _ \<Rightarrow> False) inp"

text \<open>The value of \<open>var.path\<close>.\<close>

definition workflow_value :: "json dict \<Rightarrow> string \<Rightarrow> json" where
  "workflow_value collected path = (case py_split CHR ''.'' path of
      [] \<Rightarrow> JNull
    | v # parts \<Rightarrow> (let x = dict_get collected v JNull; rest = py_join ''.'' parts in
        if rest = [] then x else deep_val x rest))"

text \<open>\<open>\$\{([a-zA-Z0-9_.]+)\}\<close> at the head of a text.\<close>

definition narrow_ref :: "string \<Rightarrow> (string \<times> string) option" where
  "narrow_ref s = (if \<not> starts_with ''${'' s then None
     else (let w = takeWhile path_dot_char (drop 2 s) in
       if w = [] then None else map_option (Pair w) (close_brace (dropWhile path_dot_char (drop 2 s)))))"

lemma narrow_ref_shorter: "narrow_ref s = Some (w, rest) \<Longrightarrow> length rest < length s"
proof -
  assume a: "narrow_ref s = Some (w, rest)"
  then have "close_brace (dropWhile path_dot_char (drop 2 s)) = Some rest"
    by (auto simp: narrow_ref_def Let_def split: if_splits)
  then have "Suc (length rest) = length (dropWhile path_dot_char (drop 2 s))"
    by (auto simp: close_brace_def split: list.splits if_splits)
  moreover have "length (dropWhile path_dot_char (drop 2 s)) \<le> length (drop 2 s)" by (rule length_dropWhile_le)
  ultimately show ?thesis by simp
qed

function substitute_text :: "(rat \<Rightarrow> string) \<Rightarrow> json dict \<Rightarrow> string \<Rightarrow> string" where
  "substitute_text fs collected [] = []"
| "substitute_text fs collected (c # cs) = (case narrow_ref (c # cs) of
      Some (w, rest) \<Rightarrow> (case workflow_value collected w of JNull \<Rightarrow> [] | v \<Rightarrow> py_str fs v) @ substitute_text fs collected rest
    | None \<Rightarrow> c # substitute_text fs collected cs)"
  by pat_completeness auto
termination by (relation "measure (\<lambda>(_, _, s). length s)") (auto dest: narrow_ref_shorter)

definition resolve_step_value :: "(rat \<Rightarrow> string) \<Rightarrow> json dict \<Rightarrow> json \<Rightarrow> json" where
  "resolve_step_value fs collected v = (case v of
      JStr t \<Rightarrow> (case narrow_ref (py_strip t) of
          Some (w, []) \<Rightarrow> workflow_value collected w
        | _ \<Rightarrow> JStr (substitute_text fs collected t))
    | _ \<Rightarrow> v)"

definition resolve_workflow_variables :: "(rat \<Rightarrow> string) \<Rightarrow> json dict \<Rightarrow> json dict \<Rightarrow> json dict" where
  "resolve_workflow_variables fs collected inp = map (\<lambda>(k, v). (k, resolve_step_value fs collected v)) inp"

section \<open>Answers of the user\<close>

definition is_quote :: "char \<Rightarrow> bool" where
  "is_quote c = (c = CHR 0x22 \<or> c = CHR 0x27)"

text \<open>The first text between two quote characters of either kind.\<close>

fun quoted_part :: "string \<Rightarrow> string option" where
  "quoted_part [] = None"
| "quoted_part (c # cs) = (let w = takeWhile (\<lambda>x. \<not> is_quote x) cs in
     if is_quote c \<and> w \<noteq> [] \<and> dropWhile (\<lambda>x. \<not> is_quote x) cs \<noteq> [] then Some w else quoted_part cs)"

definition name_char :: "char \<Rightarrow> bool" where
  "name_char c = (is_word c \<or> c = CHR ''-'')"

text \<open>Whether the first \<open>n\<close> characters of \<open>s\<close> form an identifier with an inner underscore that ends at a word boundary.\<close>

definition snake_prefix :: "string \<Rightarrow> nat \<Rightarrow> bool" where
  "snake_prefix s n = (list_ex (\<lambda>j. s ! j = CHR ''_'') [1..<n - 1] \<and>
     (word_char (s ! (n - 1)) \<noteq> (n < length s \<and> word_char (s ! n))))"

fun snake_part :: "bool \<Rightarrow> string \<Rightarrow> string option" where
  "snake_part after_word [] = None"
| "snake_part after_word (c # cs) = (let s = c # cs; run = length (takeWhile name_char s) in
     case (if is_alpha c \<and> \<not> after_word then find (snake_prefix s) (rev [1..<Suc run]) else None) of
       Some n \<Rightarrow> Some (take n s)
     | None \<Rightarrow> snake_part (word_char c) cs)"

definition structural_slot_extract :: "string \<Rightarrow> string option" where
  "structural_slot_extract msg = (let t = py_strip msg in
     if t = [] then None
     else (case quoted_part t of Some q \<Rightarrow> Some (py_strip q) | None \<Rightarrow> snake_part False t))"

text \<open>The reply of the model: \<open>None\<close> when the call failed or held no JSON object.\<close>

definition classify_user_intent :: "json dict option \<Rightarrow> string \<Rightarrow> string" where
  "classify_user_intent reply msg = (if msg = [] then ''answer'' else (case reply of
      None \<Rightarrow> ''answer''
    | Some d \<Rightarrow> (case dict_get d ''intent'' (JStr ''answer'') of
        JStr t \<Rightarrow> if py_lower t \<in> {''answer'', ''cancel'', ''off_topic''} then py_lower t else ''answer''
      | _ \<Rightarrow> ''answer'')))"

definition unquote :: "string \<Rightarrow> string" where
  "unquote v = (if (starts_with [CHR 0x22] v \<and> ends_with [CHR 0x22] v) \<or> (starts_with [CHR 0x27] v \<and> ends_with [CHR 0x27] v)
     then butlast (tl v) else v)"

text \<open>\<open>max(10, n * 0.5)\<close> as a bound on a length.\<close>

definition fragment_limit :: "nat \<Rightarrow> rat" where
  "fragment_limit n = max 10 (of_nat n / 2)"

definition extract_slot_value :: "string option \<Rightarrow> string \<Rightarrow> string option" where
  "extract_slot_value reply msg = (if msg = [] then None
     else (case structural_slot_extract msg of Some v \<Rightarrow> Some v
     | None \<Rightarrow> if length (py_strip msg) \<le> 25 then Some (py_strip msg)
       else (case reply of None \<Rightarrow> Some (py_strip msg)
       | Some answer \<Rightarrow> (let v = unquote (py_strip answer) in
           if v = [] \<or> py_lower v = ''none'' then None
           else if py_strip v = py_strip msg \<or> fragment_limit (length (py_strip msg)) \<le> of_nat (length (py_strip v)) then None
           else Some v))))"

text \<open>The values of the first message that pass the fragment guard.\<close>

definition fragment_ok :: "string \<Rightarrow> json \<Rightarrow> bool" where
  "fragment_ok msg v = (case v of
      JStr t \<Rightarrow> py_strip t \<noteq> [] \<and> py_strip t \<noteq> py_strip msg \<and>
        of_nat (length (py_strip t)) < fragment_limit (max 1 (length (py_strip msg)))
    | _ \<Rightarrow> False)"

text \<open>\<open>_pre_populate_slots_from_intent\<close>; \<open>tokens\<close> are the quoted or snake-case parts of the message.\<close>

definition prepopulate :: "json dict option \<Rightarrow> string list \<Rightarrow> string \<Rightarrow> wf_step list \<Rightarrow> json dict" where
  "prepopulate reply tokens msg steps = (let ids = map ws_id (filter ws_requires steps) in
     if msg = [] \<or> steps = [] \<or> ids = [] then []
     else (let found = (case reply of None \<Rightarrow> [] | Some d \<Rightarrow> filter (\<lambda>p. fragment_ok msg (snd p)) d) in
       if found \<noteq> [] then found else foldl (\<lambda>d p. AList.update (fst p) (JStr (snd p)) d) [] (zip ids tokens)))"

section \<open>Inputs that another capability can produce\<close>

type_synonym cap_index = "(string \<times> json dict) list"

text \<open>\<open>m.get(k) or []\<close>, a list of strings.\<close>

definition cap_strs :: "json dict \<Rightarrow> string \<Rightarrow> string list" where
  "cap_strs m k = get_strs (JDict m) k"

definition cap_props :: "json dict \<Rightarrow> json dict" where
  "cap_props m = get_dict (JDict (get_dict (JDict m) ''input_schema'')) ''properties''"

definition prop_aliases :: "json \<Rightarrow> string list" where
  "prop_aliases p = (case p of JDict d \<Rightarrow> get_strs (JDict d) ''x-aliases'' | _ \<Rightarrow> [])"

definition place_values :: "(string \<Rightarrow> rat option) \<Rightarrow> json dict \<Rightarrow> (string \<times> string) list" where
  "place_values pf inp = List.map_filter (\<lambda>p. case snd p of
      JStr t \<Rightarrow> if py_strip t \<noteq> [] \<and> pf (py_strip t) = None then Some (fst p, t) else None | _ \<Rightarrow> None) inp"

definition cap_overlap :: "string list \<Rightarrow> json dict \<Rightarrow> string list" where
  "cap_overlap consumes m = filter (\<lambda>a. a \<in> set consumes) (remdups (cap_strs m ''produces''))"

definition alias_score :: "string list \<Rightarrow> json dict \<Rightarrow> nat" where
  "alias_score keys m = sum_list (map (\<lambda>k. (if k \<in> set (cap_strs m ''consumes'') then 2 else 0)
     + length (filter (\<lambda>p. k \<in> set (prop_aliases (snd p))) (cap_props m))) keys)"

definition producers_for :: "cap_index \<Rightarrow> string \<Rightarrow> string list \<Rightarrow> cap_index" where
  "producers_for index intent consumes = filter (\<lambda>p. fst p \<noteq> intent \<and> cap_overlap consumes (snd p) \<noteq> []) index"

text \<open>Most overlap first, then the alias score; equal ones stay in the order of the index.\<close>

definition ranked_producers :: "string list \<Rightarrow> string list \<Rightarrow> cap_index \<Rightarrow> cap_index" where
  "ranked_producers consumes keys ps =
    sort_key (\<lambda>p. - int (length (cap_overlap consumes (snd p))))
      (sort_key (\<lambda>p. - int (alias_score keys (snd p))) ps)"

definition place_input :: "json dict \<Rightarrow> string \<Rightarrow> string \<Rightarrow> json dict" where
  "place_input props key v = (if props = [] then [] else
     [(if dict_has props key then key
       else (case filter (\<lambda>p. key \<in> set (prop_aliases (snd p))) props of p # _ \<Rightarrow> fst p | [] \<Rightarrow> fst (hd props)), JStr v)])"

definition field_for :: "json dict \<Rightarrow> string list \<Rightarrow> string \<Rightarrow> string" where
  "field_for props outputs artifact =
    (case filter (\<lambda>a. a \<in> set outputs) (artifact # prop_aliases (dict_get props artifact JNull)) of a # _ \<Rightarrow> a | [] \<Rightarrow> artifact)"

definition artifact_ref :: "string \<Rightarrow> string \<Rightarrow> string" where
  "artifact_ref ref field = ''${'' @ ref @ ''.result.'' @ field @ [CHR 0x7D]"

definition plain_node :: "string \<Rightarrow> string \<Rightarrow> json dict \<Rightarrow> string list \<Rightarrow> logical_node" where
  "plain_node op ref inp deps = \<lparr>l_op = op, l_ref = ref, l_inputs = inp, l_depends_on = deps, l_condition = None,
     l_branch_true = [], l_branch_false = [], l_iterate_over = None, l_domain = None, l_action = None\<rparr>"

definition pull_artifact :: "(string \<Rightarrow> string) \<Rightarrow> json dict \<Rightarrow> string \<Rightarrow> json dict" where
  "pull_artifact ref_of d a = (case map_of d a of Some (JStr _) \<Rightarrow> d | _ \<Rightarrow> AList.update a (JStr (ref_of a)) d)"

definition resolve_step_artifacts ::
  "(string \<Rightarrow> rat option) \<Rightarrow> cap_index \<Rightarrow> string \<Rightarrow> json dict \<Rightarrow> string \<Rightarrow> json dict \<times> logical_node list" where
  "resolve_step_artifacts pf index intent inp ref =
    (let meta = dict_get index intent []; consumes = cap_strs meta ''consumes''; places = place_values pf inp in
     if consumes = [] \<or> places = [] then (inp, [])
     else (case ranked_producers consumes (map fst places) (producers_for index intent consumes) of
        [] \<Rightarrow> (inp, [])
      | (name, m) # _ \<Rightarrow>
         (let pref = ref @ ''_coords'';
              node = plain_node name pref (place_input (cap_props m) (fst (hd places)) (snd (hd places))) [];
              kept = filter (\<lambda>p. fst p \<notin> fst ` set places) inp;
              ref_of = (\<lambda>a. artifact_ref pref (field_for (cap_props meta) (cap_strs m ''produces'') a)) in
          (foldl (pull_artifact ref_of) kept (sort (cap_overlap consumes m)), [node]))))"

section \<open>The turn\<close>

record wf_state =
  wf_collected :: "json dict"
  wf_captured :: "string list"
  wf_pending :: "string option"        \<comment> \<open>\<open>_workflow_dynamic_pending\<close>\<close>

definition step_done :: "wf_state \<Rightarrow> wf_step \<Rightarrow> bool" where
  "step_done st step = (if ws_requires step \<and> \<not> dict_has (wf_collected st) (ws_id step) then False
     else if truthy (ws_inputs step) then ws_id step \<in> set (wf_captured st) else True)"

text \<open>The results of a dynamic step: every artifact whose execution id is not among the captured step ids.\<close>

definition capture_dynamic :: "wf_artifact list \<Rightarrow> wf_state \<Rightarrow> wf_state" where
  "capture_dynamic arts st = (case wf_pending st of None \<Rightarrow> st
    | Some d \<Rightarrow> (let new = filter (\<lambda>a. wa_execution a \<notin> set (wf_captured st)) arts in
        if d = [] \<or> new = [] then st
        else st\<lparr>wf_collected := AList.update d (JList (map wa_data new)) (wf_collected st),
                wf_captured := List.insert d (wf_captured st), wf_pending := None\<rparr>))"

text \<open>One artifact is given to the first step with its capability or tool.\<close>

definition capture_step :: "wf_step list \<Rightarrow> wf_state \<Rightarrow> wf_artifact \<Rightarrow> wf_state" where
  "capture_step steps st a = (case filter (\<lambda>s. ws_intent s = wa_capability a \<or> ws_intent s = wa_tool a) steps of
      [] \<Rightarrow> st
    | s # _ \<Rightarrow> st\<lparr>wf_collected := (if dict_has (wf_collected st) (ws_id s) then wf_collected st
          else AList.update (ws_id s) (wa_data a) (wf_collected st)),
        wf_captured := List.insert (ws_id s) (wf_captured st)\<rparr>)"

definition capture_results :: "wf_step list \<Rightarrow> wf_artifact list \<Rightarrow> wf_state \<Rightarrow> wf_state" where
  "capture_results steps arts st = foldl (capture_step steps) st arts"

datatype wf_plan =
    Run "logical_node list"
  | Ask_for wf_step "logical_node list"
  | Dynamic wf_step
  | Not_registered string

text \<open>The planning loop; \<open>acc\<close> are the nodes planned so far.\<close>

fun plan_steps ::
  "(rat \<Rightarrow> string) \<Rightarrow> (string \<Rightarrow> rat option) \<Rightarrow> string list \<Rightarrow> cap_index \<Rightarrow> wf_state \<Rightarrow> logical_node list \<Rightarrow> wf_step list \<Rightarrow> wf_plan" where
  "plan_steps fs pf caps index st acc [] = Run acc"
| "plan_steps fs pf caps index st acc (s # ss) =
    (let inp = (case ws_inputs s of JDict d \<Rightarrow> d | _ \<Rightarrow> []) in
     if step_done st s then plan_steps fs pf caps index st acc ss
     else if ws_dynamic s then Dynamic s
     else if ws_requires s \<and> \<not> dict_has (wf_collected st) (ws_id s) then Ask_for s acc
     else if has_unresolved_placeholders inp (wf_collected st) then Run acc
     else if ws_intent s \<notin> set caps then Not_registered (ws_intent s)
     else (let r = resolve_step_artifacts pf index (ws_intent s) (resolve_workflow_variables fs (wf_collected st) inp) (ws_id s) in
       plan_steps fs pf caps index st (acc @ snd r @ [plain_node (ws_intent s) (ws_id s) (fst r) (map l_ref (snd r))]) ss))"

datatype wf_outcome =
    No_workflow
  | Cancelled
  | Off_topic
  | Question string
  | To_planner string string
  | Failed_capability string
  | Execute "logical_node list"
  | Complete "string list"
  | Stuck

definition decide_plan :: "wf_state \<Rightarrow> wf_step list \<Rightarrow> wf_plan \<Rightarrow> wf_outcome" where
  "decide_plan st steps plan = (let finish = (\<lambda>nodes missing.
       if nodes \<noteq> [] then Execute nodes
       else (case missing of Some s \<Rightarrow> Question (ws_question s)
         | None \<Rightarrow> (if list_all (step_done st) steps then Complete (map ws_id steps) else Stuck))) in
     case plan of
       Dynamic s \<Rightarrow> To_planner (ws_id s) (ws_dynamic_intent s)
     | Not_registered c \<Rightarrow> Failed_capability c
     | Run nodes \<Rightarrow> finish nodes None
     | Ask_for s nodes \<Rightarrow> finish nodes (Some s))"

record wf_turn =
  wt_steps :: "wf_step list"
  wt_message :: string
  wt_intent :: "json dict option"      \<comment> \<open>the reply to the classification\<close>
  wt_slot :: "string option"           \<comment> \<open>the reply to the extraction\<close>
  wt_artifacts :: "wf_artifact list"
  wt_caps :: "string list"
  wt_index :: cap_index

definition pending_input :: "wf_state \<Rightarrow> wf_step list \<Rightarrow> wf_step option" where
  "pending_input st steps = find (\<lambda>s. \<not> step_done st s \<and> ws_requires s \<and> \<not> dict_has (wf_collected st) (ws_id s)) steps"

text \<open>What is written back: the collections only when the workflow goes on after planning.\<close>

definition plan_turn ::
  "(rat \<Rightarrow> string) \<Rightarrow> (string \<Rightarrow> rat option) \<Rightarrow> wf_turn \<Rightarrow> wf_state \<Rightarrow> wf_state \<Rightarrow> wf_outcome \<times> wf_state" where
  "plan_turn fs pf t old st =
    (let out = decide_plan st (wt_steps t) (plan_steps fs pf (wt_caps t) (wt_index t) st [] (wt_steps t)) in
     (out, case out of
        Execute _ \<Rightarrow> st | Question _ \<Rightarrow> st
      | To_planner d _ \<Rightarrow> st\<lparr>wf_pending := Some d\<rparr>
      | _ \<Rightarrow> old\<lparr>wf_pending := wf_pending st\<rparr>))"

text \<open>A turn of a workflow that is under way.\<close>

definition continue_workflow ::
  "(rat \<Rightarrow> string) \<Rightarrow> (string \<Rightarrow> rat option) \<Rightarrow> wf_turn \<Rightarrow> wf_state \<Rightarrow> wf_outcome \<times> wf_state" where
  "continue_workflow fs pf t st0 =
    (let st = capture_results (wt_steps t) (wt_artifacts t) (capture_dynamic (wt_artifacts t) st0);
         old = st0\<lparr>wf_pending := wf_pending st\<rparr>;
         answer = classify_user_intent (wt_intent t) (wt_message t) in
     case pending_input st (wt_steps t) of
       Some s \<Rightarrow>
         (if answer = ''cancel'' then (Cancelled, old)
          else if answer = ''off_topic'' then (Off_topic, old)
          else (case extract_slot_value (wt_slot t) (wt_message t) of
              None \<Rightarrow> (Question (ws_question s), old)
            | Some v \<Rightarrow> plan_turn fs pf t st0 (st\<lparr>wf_collected := AList.update (ws_id s) (JStr v) (wf_collected st)\<rparr>)))
     | None \<Rightarrow>
         (if list_all (step_done st) (wt_steps t) then plan_turn fs pf t st0 st
          else if answer = ''cancel'' then (Cancelled, old)
          else if answer = ''off_topic'' then (Off_topic, old)
          else plan_turn fs pf t st0 st))"

text \<open>
  The first turn: the composed definition gives the steps, the text of the intent the values;
  what an earlier workflow left in the state is not used, but its pending marker stays.
\<close>

definition start_workflow ::
  "(rat \<Rightarrow> string) \<Rightarrow> (string \<Rightarrow> rat option) \<Rightarrow> json dict option \<Rightarrow> string list \<Rightarrow> string \<Rightarrow> wf_turn \<Rightarrow> wf_state
     \<Rightarrow> wf_outcome \<times> wf_state" where
  "start_workflow fs pf reply tokens intent t old =
    (if intent = [] \<or> wt_steps t = [] then (No_workflow, old)
     else plan_turn fs pf t old \<lparr>wf_collected = prepopulate reply tokens intent (wt_steps t), wf_captured = [], wf_pending = wf_pending old\<rparr>)"

section \<open>What is executed\<close>

text \<open>A node is planned for a step that waits for nothing.\<close>

definition ready_step :: "string list \<Rightarrow> wf_state \<Rightarrow> wf_step \<Rightarrow> bool" where
  "ready_step caps st s = (\<not> step_done st s \<and> (ws_requires s \<longrightarrow> dict_has (wf_collected st) (ws_id s))
     \<and> \<not> has_unresolved_placeholders (case ws_inputs s of JDict d \<Rightarrow> d | _ \<Rightarrow> []) (wf_collected st) \<and> ws_intent s \<in> set caps)"

text \<open>Every node belongs to a ready step, or is the producer put before it.\<close>

definition planned_for :: "string list \<Rightarrow> wf_state \<Rightarrow> wf_step list \<Rightarrow> logical_node \<Rightarrow> bool" where
  "planned_for caps st steps n = (\<exists>s \<in> set steps. ready_step caps st s \<and>
     (l_ref n = ws_id s \<and> l_op n = ws_intent s \<or> l_ref n = ws_id s @ ''_coords''))"

lemma producers_ref: "n \<in> set (snd (resolve_step_artifacts pf index intent inp ref)) \<Longrightarrow> l_ref n = ref @ ''_coords''"
  by (auto simp: resolve_step_artifacts_def plain_node_def Let_def split: list.splits if_splits)

lemma plan_steps_planned:
  assumes "list_all (planned_for caps st all) acc" and "set steps \<subseteq> set all"
  shows "case plan_steps fs pf caps index st acc steps of
      Run ns \<Rightarrow> list_all (planned_for caps st all) ns
    | Ask_for s ns \<Rightarrow> list_all (planned_for caps st all) ns \<and> s \<in> set all \<and> \<not> dict_has (wf_collected st) (ws_id s)
    | Dynamic s \<Rightarrow> s \<in> set all \<and> ws_dynamic s
    | Not_registered c \<Rightarrow> c \<notin> set caps"
  using assms
proof (induction steps arbitrary: acc)
  case (Cons s ss)
  let ?inp = "case ws_inputs s of JDict d \<Rightarrow> d | _ \<Rightarrow> []"
  let ?r = "resolve_step_artifacts pf index (ws_intent s) (resolve_workflow_variables fs (wf_collected st) ?inp) (ws_id s)"
  let ?new = "snd ?r @ [plain_node (ws_intent s) (ws_id s) (fst ?r) (map l_ref (snd ?r))]"
  have sub: "set ss \<subseteq> set all" "s \<in> set all" using Cons.prems by auto
  show ?case
  proof (cases "ready_step caps st s \<and> \<not> ws_dynamic s")
    case True
    have "list_all (planned_for caps st all) ?new"
      using True sub producers_ref by (fastforce simp: list_all_iff planned_for_def plain_node_def)
    with Cons.prems have "list_all (planned_for caps st all) (acc @ ?new)" by simp
    from Cons.IH [OF this sub(1)] True show ?thesis
      by (auto simp: ready_step_def Let_def split: wf_plan.splits)
  next
    case False
    with Cons sub show ?thesis
      by (auto simp: ready_step_def Let_def split: wf_plan.splits)
  qed
qed simp

text \<open>
  A turn executes only nodes of steps that are not done, whose own answer and whose referenced
  values are collected and whose capability is registered, and the producers put before them.
\<close>

theorem only_ready_steps_execute:
  assumes "plan_turn fs pf t old st = (Execute ns, st')"
  shows "ns \<noteq> [] \<and> list_all (planned_for (wt_caps t) st (wt_steps t)) ns"
proof -
  have "decide_plan st (wt_steps t) (plan_steps fs pf (wt_caps t) (wt_index t) st [] (wt_steps t)) = Execute ns"
    using assms by (auto simp: plan_turn_def Let_def)
  moreover have "case plan_steps fs pf (wt_caps t) (wt_index t) st [] (wt_steps t) of
      Run ns \<Rightarrow> list_all (planned_for (wt_caps t) st (wt_steps t)) ns
    | Ask_for s ns \<Rightarrow> list_all (planned_for (wt_caps t) st (wt_steps t)) ns \<and> s \<in> set (wt_steps t) \<and> \<not> dict_has (wf_collected st) (ws_id s)
    | Dynamic s \<Rightarrow> s \<in> set (wt_steps t) \<and> ws_dynamic s
    | Not_registered c \<Rightarrow> c \<notin> set (wt_caps t)"
    by (rule plan_steps_planned) simp_all
  ultimately show ?thesis
    by (auto simp: decide_plan_def Let_def split: wf_plan.splits option.splits if_splits)
qed

text \<open>A workflow is completed exactly when every step is done.\<close>

lemma plan_done: "list_all (step_done st) steps \<Longrightarrow> plan_steps fs pf caps index st acc steps = Run acc"
  by (induction steps) (simp_all add: Let_def)

theorem complete_iff_all_done:
  "fst (plan_turn fs pf t old st) = Complete (map ws_id (wt_steps t)) \<longleftrightarrow> list_all (step_done st) (wt_steps t)"
  by (auto simp: plan_turn_def decide_plan_def plan_done Let_def split: wf_plan.splits option.splits if_splits)

section \<open>Repeated capabilities\<close>

lemma capture_step_other:
  assumes "steps = xs @ s1 # ys @ s2 # zs" "ws_intent s1 = ws_intent s2" "distinct (map ws_id steps)"
    and "ws_id s2 \<notin> set (wf_captured st)"
  shows "ws_id s2 \<notin> set (wf_captured (capture_step steps st a))"
proof (cases "filter (\<lambda>s. ws_intent s = wa_capability a \<or> ws_intent s = wa_tool a) steps")
  case (Cons s rest)
  let ?P = "\<lambda>s. ws_intent s = wa_capability a \<or> ws_intent s = wa_tool a"
  have "s \<in> set (xs @ s1 # ys) \<or> s \<in> set zs"
  proof (cases "?P s2")
    case True
    with assms(2) have "?P s1" by simp
    then have "hd (filter ?P (xs @ [s1])) \<in> set (filter ?P (xs @ [s1]))" by (intro hd_in_set) simp
    moreover have "hd (filter ?P steps) = hd (filter ?P (xs @ [s1]))"
      using \<open>?P s1\<close> by (simp add: assms(1) hd_append)
    ultimately show ?thesis using Cons by auto
  next
    case False
    moreover have "s \<in> set (filter ?P steps)" using Cons by simp
    then have "s \<in> set steps" "?P s" by auto
    ultimately show ?thesis by (auto simp: assms(1))
  qed
  then have "ws_id s \<in> ws_id ` set (xs @ s1 # ys) \<or> ws_id s \<in> ws_id ` set zs" by blast
  moreover have "ws_id s2 \<notin> ws_id ` set (xs @ s1 # ys)" "ws_id s2 \<notin> ws_id ` set zs"
    using assms(3) by (auto simp: assms(1))
  ultimately have "ws_id s \<noteq> ws_id s2" by metis
  with assms(4) Cons show ?thesis by (simp add: capture_step_def)
qed (use assms(4) in \<open>simp add: capture_step_def\<close>)

text \<open>
  Of two steps with the same capability the second never counts as executed, whatever
  artifacts the session holds: a result is always given to the first.
\<close>

theorem repeated_capability_never_done:
  assumes "steps = xs @ s1 # ys @ s2 # zs" "ws_intent s1 = ws_intent s2" "distinct (map ws_id steps)"
    and "ws_id s2 \<notin> set (wf_captured st)" and "truthy (ws_inputs s2)"
  shows "\<not> step_done (capture_results steps arts st) s2"
proof -
  have "ws_id s2 \<notin> set (wf_captured (capture_results steps arts st))"
    unfolding capture_results_def using assms(4)
  proof (induction arts arbitrary: st)
    case (Cons a arts)
    from capture_step_other [OF assms(1-3) Cons.prems] Cons.IH show ?case by simp
  qed simp
  with assms(5) show ?thesis by (simp add: step_done_def)
qed

definition city_step :: "string \<Rightarrow> string \<Rightarrow> wf_step" where
  "city_step sid city = \<lparr>ws_id = sid, ws_requires = False, ws_inputs = JDict [(''city'', JStr city)], ws_intent = ''weather'',
     ws_dynamic = False, ws_dynamic_intent = [], ws_question = []\<rparr>"

theorem repeated_capability_never_done_witness:
  "\<not> step_done (capture_results [city_step ''a'' ''Oslo'', city_step ''b'' ''Rome'']
      [\<lparr>wa_capability = ''weather'', wa_tool = ''weather'', wa_execution = ''e1'', wa_data = JInt 1\<rparr>,
       \<lparr>wa_capability = ''weather'', wa_tool = ''weather'', wa_execution = ''e2'', wa_data = JInt 2\<rparr>]
      \<lparr>wf_collected = [], wf_captured = [], wf_pending = None\<rparr>) (city_step ''b'' ''Rome'')"
  by (rule repeated_capability_never_done [where xs = "[]" and ys = "[]" and zs = "[]" and ?s1.0 = "city_step ''a'' ''Oslo''"])
    (simp_all add: city_step_def)

definition city_turn :: wf_turn where
  "city_turn = \<lparr>wt_steps = [city_step ''a'' ''Oslo''], wt_message = ''go'', wt_intent = None, wt_slot = None, wt_artifacts = [],
     wt_caps = [''weather''], wt_index = []\<rparr>"

theorem only_ready_steps_execute_witness:
  "list_all (planned_for (wt_caps city_turn) \<lparr>wf_collected = [], wf_captured = [], wf_pending = None\<rparr> (wt_steps city_turn))
     [plain_node ''weather'' ''a'' [(''city'', JStr ''Oslo'')] []]"
proof -
  have sub: "substitute_text (\<lambda>r. []) [] ''Oslo'' = ''Oslo''" by (simp add: narrow_ref_def starts_with_def)
  have ref: "narrow_ref (py_strip ''Oslo'') = None" by (simp add: narrow_ref_def starts_with_def py_strip_def is_space_def)
  have "plan_turn (\<lambda>r. []) (\<lambda>t. None) city_turn \<lparr>wf_collected = [], wf_captured = [], wf_pending = None\<rparr>
      \<lparr>wf_collected = [], wf_captured = [], wf_pending = None\<rparr>
    = (Execute [plain_node ''weather'' ''a'' [(''city'', JStr ''Oslo'')] []], \<lparr>wf_collected = [], wf_captured = [], wf_pending = None\<rparr>)"
    by (simp add: plan_turn_def city_turn_def city_step_def step_done_def has_unresolved_placeholders_def starts_with_def
        resolve_workflow_variables_def resolve_step_value_def ref sub resolve_step_artifacts_def cap_strs_def get_strs_def get_list_def
        get_in_def dict_get_def decide_plan_def Let_def del: substitute_text.simps)
  from only_ready_steps_execute [OF this] show ?thesis by simp
qed

section \<open>Answers and texts\<close>

lemma split_at_first:
  "\<lbrakk>list_all (\<lambda>c. \<not> P c) w; P x\<rbrakk> \<Longrightarrow> takeWhile (\<lambda>c. \<not> P c) (w @ x # v) = w \<and> dropWhile (\<lambda>c. \<not> P c) (w @ x # v) = x # v"
  by (induction w) auto

lemma quoted_part_first:
  "\<lbrakk>list_all (\<lambda>c. \<not> is_quote c) u; is_quote q; list_all (\<lambda>c. \<not> is_quote c) w; w \<noteq> []; is_quote q'\<rbrakk>
    \<Longrightarrow> quoted_part (u @ q # w @ q' # v) = Some w"
proof (induction u)
  case Nil
  then have "takeWhile (\<lambda>x. \<not> is_quote x) (w @ q' # v) = w" "dropWhile (\<lambda>x. \<not> is_quote x) (w @ q' # v) = q' # v"
    using split_at_first [of is_quote w q' v] by auto
  with Nil show ?case by (simp add: Let_def)
qed (simp add: Let_def)

text \<open>
  Any two quote characters count as a pair, apostrophes and mixed ones included: an answer with
  two apostrophes is reduced to the text between them.
\<close>

theorem apostrophes_cut_answers:
  assumes "py_strip msg = u @ q # w @ q' # v" and "list_all (\<lambda>c. \<not> is_quote c) u" "list_all (\<lambda>c. \<not> is_quote c) w" "w \<noteq> []"
    and "is_quote q" "is_quote q'"
  shows "extract_slot_value reply msg = Some (py_strip w)"
proof -
  have "msg \<noteq> []" using assms(1) by (auto simp: py_strip_def)
  then show ?thesis
    using assms quoted_part_first [OF assms(2,5,3,4,6)] by (simp add: extract_slot_value_def structural_slot_extract_def Let_def)
qed

theorem apostrophes_cut_answers_witness:
  "extract_slot_value None ''It's Bob's'' = Some (py_strip ''s Bob'')"
  by (rule apostrophes_cut_answers [where u = "''It''" and q = "CHR 0x27" and q' = "CHR 0x27" and w = "''s Bob''" and v = "''s''"])
    (simp_all add: is_quote_def py_strip_def is_space_def)

text \<open>
  A value that the model extracts from a long message is a proper fragment of it: shorter than
  half of the message, or than ten characters.
\<close>

theorem extracted_value_is_fragment:
  assumes "extract_slot_value (Some reply) msg = Some v" "structural_slot_extract msg = None" "25 < length (py_strip msg)"
  shows "of_nat (length (py_strip v)) < fragment_limit (length (py_strip msg)) \<and> py_strip v \<noteq> py_strip msg"
  using assms by (auto simp: extract_slot_value_def Let_def split: if_splits)

theorem extracted_value_is_fragment_witness:
  "of_nat (length (py_strip ''Oslo'')) < fragment_limit (length (py_strip ''I think that the city is Oslo''))
    \<and> py_strip ''Oslo'' \<noteq> py_strip ''I think that the city is Oslo''"
proof (rule extracted_value_is_fragment)
  have strip: "py_strip ''I think that the city is Oslo'' = ''I think that the city is Oslo''" "py_strip ''Oslo'' = ''Oslo''"
    by (simp_all add: py_strip_def is_space_def)
  show none: "structural_slot_extract ''I think that the city is Oslo'' = None"
    by (simp add: structural_slot_extract_def strip is_quote_def name_char_def is_word_def is_alpha_def snake_prefix_def
        word_char_def upt_rec Let_def)
  have low: "py_lower ''Oslo'' \<noteq> ''none''" by (simp add: py_lower_def lower_char_def char_of_def bit_0 bit_Suc)
  show "extract_slot_value (Some ''Oslo'') ''I think that the city is Oslo'' = Some ''Oslo''"
    using low none by (simp add: extract_slot_value_def strip unquote_def starts_with_def fragment_limit_def Let_def)
  show "25 < length (py_strip ''I think that the city is Oslo'')" by (simp add: strip)
qed

text \<open>
  The test for unresolved references and the substitution read different patterns: a reference to
  a collected step whose id holds a hyphen counts as resolved and is sent as it stands.
\<close>

theorem hyphenated_reference_sent_literally:
  assumes "dict_has collected ''step-1''"
  shows "\<not> has_unresolved_placeholders [(k, JStr ''${step-1}'')] collected
    \<and> resolve_workflow_variables fs collected [(k, JStr ''${step-1}'')] = [(k, JStr ''${step-1}'')]"
  using assms by (simp add: has_unresolved_placeholders_def ref_root_def starts_with_def resolve_workflow_variables_def
      resolve_step_value_def narrow_ref_def path_dot_char_def is_word_def close_brace_def py_strip_def is_space_def Let_def)

theorem hyphenated_reference_sent_literally_witness:
  "\<not> has_unresolved_placeholders [(''q'', JStr ''${step-1}'')] [(''step-1'', JInt 1)]
    \<and> resolve_workflow_variables (\<lambda>r. []) [(''step-1'', JInt 1)] [(''q'', JStr ''${step-1}'')] = [(''q'', JStr ''${step-1}'')]"
  by (rule hyphenated_reference_sent_literally) (simp add: dict_has_def)

section \<open>Producers\<close>

lemma pull_artifact_other: "k \<notin> set as \<Longrightarrow> map_of (foldl (pull_artifact f) d as) k = map_of d k"
  by (induction as arbitrary: d) (auto simp: pull_artifact_def map_of_update split: option.splits json.splits)

text \<open>
  When a producer is put before a step, every text input of the step that is not a consumed
  artifact is dropped, not only the place.
\<close>

theorem text_inputs_dropped:
  assumes "snd (resolve_step_artifacts pf index intent inp ref) \<noteq> []"
    and "k \<in> fst ` set (place_values pf inp)" and "k \<notin> set (cap_strs (dict_get index intent []) ''consumes'')"
  shows "map_of (fst (resolve_step_artifacts pf index intent inp ref)) k = None"
proof -
  let ?consumes = "cap_strs (dict_get index intent []) ''consumes''"
  have over: "k \<notin> set (sort (cap_overlap ?consumes m))" for m using assms(3) by (simp add: cap_overlap_def)
  have "map_of (filter (\<lambda>p. fst p \<notin> fst ` set (place_values pf inp)) inp) k = None"
    using assms(2) by (force simp: map_of_eq_None_iff)
  with assms over show ?thesis
    by (auto simp: resolve_step_artifacts_def Let_def pull_artifact_other simp del: set_sort split: list.splits if_splits)
qed

lemma producer_found:
  assumes "cap_strs (dict_get index intent []) ''consumes'' \<noteq> []" "place_values pf inp \<noteq> []"
    and "producers_for index intent (cap_strs (dict_get index intent []) ''consumes'') \<noteq> []"
  shows "snd (resolve_step_artifacts pf index intent inp ref) \<noteq> []"
proof -
  have "ranked_producers cs ks ps \<noteq> []" if "ps \<noteq> []" for cs ks and ps :: cap_index
    using that by (metis length_0_conv length_sort ranked_producers_def)
  with assms show ?thesis by (simp add: resolve_step_artifacts_def Let_def split: list.splits)
qed

definition geo_index :: cap_index where
  "geo_index = [(''weather'', [(''consumes'', JList [JStr ''latitude''])]),
     (''geocode'', [(''produces'', JList [JStr ''latitude''])])]"

theorem text_inputs_dropped_witness:
  "map_of (fst (resolve_step_artifacts (\<lambda>t. None) geo_index ''weather''
     [(''city'', JStr ''Oslo''), (''units'', JStr ''metric'')] ''s'')) ''units'' = None"
proof (rule text_inputs_dropped)
  have consumes: "cap_strs (dict_get geo_index ''weather'' []) ''consumes'' = [''latitude'']"
    by (simp add: geo_index_def dict_get_def cap_strs_def get_strs_def get_list_def get_in_def)
  have places: "place_values (\<lambda>t. None) [(''city'', JStr ''Oslo''), (''units'', JStr ''metric'')] = [(''city'', ''Oslo''), (''units'', ''metric'')]"
    by (simp add: place_values_def py_strip_def is_space_def map_filter_simps)
  have "producers_for geo_index ''weather'' [''latitude''] \<noteq> []"
    by (simp add: producers_for_def geo_index_def cap_overlap_def cap_strs_def get_strs_def get_list_def get_in_def dict_get_def)
  then show "snd (resolve_step_artifacts (\<lambda>t. None) geo_index ''weather''
     [(''city'', JStr ''Oslo''), (''units'', JStr ''metric'')] ''s'') \<noteq> []"
    by (intro producer_found) (simp_all add: consumes places)
  show "''units'' \<in> fst ` set (place_values (\<lambda>t. None) [(''city'', JStr ''Oslo''), (''units'', JStr ''metric'')])"
    by (simp add: places)
  show "''units'' \<notin> set (cap_strs (dict_get geo_index ''weather'' []) ''consumes'')" by (simp add: consumes)
qed

section \<open>Losing a captured result\<close>

text \<open>
  When a dynamic step's result is captured in a turn that then asks its question again, the pending
  marker is cleared while the result is not written: the step has to be planned once more.
\<close>

theorem dynamic_result_lost:
  assumes "wf_pending st = Some d" "d \<noteq> []" "filter (\<lambda>a. wa_execution a \<notin> set (wf_captured st)) (wt_artifacts t) \<noteq> []"
    and "pending_input (capture_results (wt_steps t) (wt_artifacts t) (capture_dynamic (wt_artifacts t) st)) (wt_steps t) = Some s"
    and "wt_message t = []"
  shows "snd (continue_workflow fs pf t st) = st\<lparr>wf_pending := None\<rparr>"
proof -
  have "wf_pending (capture_results steps arts st') = wf_pending st'" for steps arts st'
    unfolding capture_results_def by (induction arts arbitrary: st') (auto simp: capture_step_def split: list.splits)
  moreover have "wf_pending (capture_dynamic (wt_artifacts t) st) = None"
    using assms(1-3) by (simp add: capture_dynamic_def Let_def)
  ultimately show ?thesis
    using assms(4,5) by (simp add: continue_workflow_def classify_user_intent_def extract_slot_value_def Let_def)
qed

definition ask_step :: wf_step where
  "ask_step = \<lparr>ws_id = ''q'', ws_requires = True, ws_inputs = JNull, ws_intent = [], ws_dynamic = False,
     ws_dynamic_intent = [], ws_question = ''Which city?''\<rparr>"

definition ask_turn :: wf_turn where
  "ask_turn = \<lparr>wt_steps = [ask_step], wt_message = [], wt_intent = None, wt_slot = None,
     wt_artifacts = [\<lparr>wa_capability = ''search'', wa_tool = ''search'', wa_execution = ''e1'', wa_data = JInt 1\<rparr>],
     wt_caps = [], wt_index = []\<rparr>"

theorem dynamic_result_lost_witness:
  "snd (continue_workflow (\<lambda>r. []) (\<lambda>t. None) ask_turn \<lparr>wf_collected = [], wf_captured = [], wf_pending = Some ''d''\<rparr>)
    = \<lparr>wf_collected = [], wf_captured = [], wf_pending = Some ''d''\<rparr>\<lparr>wf_pending := None\<rparr>"
  by (rule dynamic_result_lost [where d = "''d''" and s = ask_step])
    (simp_all add: ask_turn_def ask_step_def capture_results_def capture_step_def capture_dynamic_def pending_input_def
      step_done_def dict_has_def Let_def)

end
