(* ===== verification/Intents.thy ===== *)
theory Intents
  imports Workflow
begin

text \<open>
  The deterministic part of \<open>agent/planners/intent\_detector.py\<close>: the clauses of a message, the
  units made of them, and the capabilities a unit's words stand for; and the bridge from
  structured intents in \<open>agent/nodes/plan\_validator\_node.py\<close>.  Texts are 8-bit, so the two
  dashes the source turns into commas do not occur.  The split of anaphoric clauses, which uses a
  family of patterns, is not modelled.
\<close>

section \<open>Words\<close>

text \<open>The maximal runs of characters with a property: what \<open>re.findall("[...]+")\<close> returns.\<close>

function runs :: "(char \<Rightarrow> bool) \<Rightarrow> string \<Rightarrow> string list" where
  "runs P [] = []"
| "runs P (c # cs) = (if P c then takeWhile P (c # cs) # runs P (dropWhile P (c # cs)) else runs P cs)"
  by pat_completeness auto
termination
proof (relation "measure (\<lambda>(_, s). length s)"; simp)
  fix P and cs :: string
  show "length (dropWhile P cs) < Suc (length cs)" by (simp add: length_dropWhile_le less_Suc_eq_le)
qed

definition is_letter :: "char \<Rightarrow> bool" where
  "is_letter c = (let n = of_char c :: nat in (65 \<le> n \<and> n \<le> 90) \<or> (97 \<le> n \<and> n \<le> 122))"

definition word_tokens :: "string \<Rightarrow> string list" where
  "word_tokens s = runs is_letter (py_lower s)"

definition strip_chars :: "string \<Rightarrow> string \<Rightarrow> string" where
  "strip_chars cs s = rev (dropWhile (\<lambda>c. c \<in> set cs) (rev (dropWhile (\<lambda>c. c \<in> set cs) s)))"

text \<open>\<open>s.split(sep)\<close> for a separator of two characters.\<close>

fun split_pair :: "char \<Rightarrow> char \<Rightarrow> string \<Rightarrow> string list" where
  "split_pair a b (x # y # xs) = (if x = a \<and> y = b then [] # split_pair a b xs
     else (case split_pair a b (y # xs) of [] \<Rightarrow> [[x]] | w # ws \<Rightarrow> (x # w) # ws))"
| "split_pair a b xs = [xs]"

section \<open>Clauses\<close>

definition connectors :: "string list" where
  "connectors = [''and'', ''plus'', ''also'', ''then'', ''after'', ''before'', ''but'', ''while'', ''or'']"

text \<open>
  A match of \<open>,?\s*\b(connector)\b\s+\<close> at the head of a text: what follows it.  The flag tells
  whether the character before is a word character.
\<close>

definition connector_at :: "bool \<Rightarrow> string \<Rightarrow> string option" where
  "connector_at prev s = (let r = (if starts_with '','' s then tl s else s); r' = dropWhile is_space r in
     if length r' < length s \<or> \<not> prev then
       (case find (\<lambda>w. starts_with w (py_lower r') \<and> takeWhile is_space (drop (length w) r') \<noteq> []) connectors of
          None \<Rightarrow> None | Some w \<Rightarrow> Some (dropWhile is_space (drop (length w) r')))
     else None)"

lemma connector_at_shorter: "connector_at prev s = Some rest \<Longrightarrow> length rest < length s"
proof -
  assume a: "connector_at prev s = Some rest"
  define r where "r = dropWhile is_space (if starts_with '','' s then tl s else s)"
  from a obtain w where w: "find (\<lambda>w. starts_with w (py_lower r) \<and> takeWhile is_space (drop (length w) r) \<noteq> []) connectors = Some w"
    and rest: "rest = dropWhile is_space (drop (length w) r)"
    unfolding connector_at_def r_def by (auto simp: Let_def split: if_splits option.splits)
  from w have "takeWhile is_space (drop (length w) r) \<noteq> []" by (auto simp: find_Some_iff)
  then have "length rest < length (drop (length w) r)"
    unfolding rest by (metis length_append length_greater_0_conv less_add_same_cancel2 takeWhile_dropWhile_id)
  also have "length (drop (length w) r) \<le> length r" by simp
  also have "length r \<le> length (if starts_with '','' s then tl s else s)" unfolding r_def by (rule length_dropWhile_le)
  also have "\<dots> \<le> length s" by simp
  finally show ?thesis .
qed

function split_connectors :: "bool \<Rightarrow> string \<Rightarrow> string list" where
  "split_connectors prev [] = [[]]"
| "split_connectors prev (c # cs) = (case connector_at prev (c # cs) of
      Some rest \<Rightarrow> [] # split_connectors False rest
    | None \<Rightarrow> (case split_connectors (word_char c) cs of [] \<Rightarrow> [[c]] | w # ws \<Rightarrow> (c # w) # ws))"
  by pat_completeness auto
termination by (relation "measure (\<lambda>(_, s). length s)") (auto dest: connector_at_shorter)

text \<open>A match of \<open>\b(\d+)\s+and\s+(\d+)\b\<close> at the head of a text: the matched text.\<close>

definition number_list_at :: "bool \<Rightarrow> string \<Rightarrow> string option" where
  "number_list_at prev s = (let
     d1 = takeWhile is_digit s; r1 = dropWhile is_digit s;
     s1 = takeWhile is_space r1; r2 = dropWhile is_space r1;
     r3 = drop 3 r2; s2 = takeWhile is_space r3; r4 = dropWhile is_space r3;
     d2 = takeWhile is_digit r4; r5 = dropWhile is_digit r4 in
     if \<not> prev \<and> d1 \<noteq> [] \<and> s1 \<noteq> [] \<and> starts_with ''and'' (py_lower r2) \<and> s2 \<noteq> [] \<and> d2 \<noteq> []
        \<and> (r5 = [] \<or> \<not> word_char (hd r5))
     then Some (d1 @ s1 @ take 3 r2 @ s2 @ d2) else None)"

lemma number_list_at_nonempty: "number_list_at prev s = Some m \<Longrightarrow> m \<noteq> []"
  by (auto simp: number_list_at_def Let_def split: if_splits)

function number_lists :: "nat \<Rightarrow> bool \<Rightarrow> string \<Rightarrow> (nat \<times> string) list" where
  "number_lists i prev [] = []"
| "number_lists i prev (c # cs) = (case number_list_at prev (c # cs) of
      Some m \<Rightarrow> (i, m) # number_lists (i + length m) True (drop (length m) (c # cs))
    | None \<Rightarrow> number_lists (Suc i) (word_char c) cs)"
  by pat_completeness auto
termination by (relation "measure (\<lambda>(_, _, s). length s)") (auto dest: number_list_at_nonempty)

definition list_mark :: "nat \<Rightarrow> string" where
  "list_mark i = ''__list'' @ nat_str i @ ''__''"

definition protect_step :: "string \<Rightarrow> nat \<times> string \<Rightarrow> string" where
  "protect_step s p = py_replace (snd p) ('' '' @ list_mark (fst p) @ '' '') 0 s"

definition unprotect :: "(nat \<times> string) list \<Rightarrow> string \<Rightarrow> string" where
  "unprotect ls s = foldl (\<lambda>t p. py_replace (list_mark (fst p)) (snd p) 0 t) s ls"

definition normalize_clauses :: "string \<Rightarrow> string" where
  "normalize_clauses s = py_replace ''&'' '' and '' 0 (py_replace '':'' '', '' 0 (py_replace '';'' '','' 0 s))"

definition trimmed :: "string list \<Rightarrow> string list" where
  "trimmed ps = map (\<lambda>p. py_strip (strip_chars '' ,.'' p)) (filter (\<lambda>p. strip_chars '' ,.'' p \<noteq> []) ps)"

definition split_clauses :: "string \<Rightarrow> string list" where
  "split_clauses s = (let t = normalize_clauses s; ls = number_lists 0 False t;
     parts = map (unprotect ls) (trimmed (split_connectors False (foldl protect_step t ls)));
     expanded = concat (map (\<lambda>p. trimmed (split_pair CHR '','' CHR '' '' p)) parts) in
     if expanded = [] then [s] else expanded)"

section \<open>Units\<close>

record intent_unit =
  u_text :: string
  u_negated :: bool
  u_order :: int
  u_hint :: int
  u_comparison :: bool
  u_confidence :: rat

text \<open>\<open>_NEGATION_RE\<close> has no word boundaries; \<open>do not\<close> contains \<open>not\<close>.\<close>

definition negated_clause :: "string \<Rightarrow> bool" where
  "negated_clause s = list_ex (\<lambda>m. contains_str m (py_lower s))
     [''don'' @ [CHR 0x27] @ ''t'', ''dont'', ''do not'', ''not'', ''never'', ''without'']"

definition comparison_clause :: "string \<Rightarrow> bool" where
  "comparison_clause s = list_ex (\<lambda>m. contains_str m (py_lower s)) [''compare'', '' versus '', ''vs'', '' both '']"

text \<open>\<open>\b\d+\b\<close>: runs of word characters that are digits only.\<close>

definition clause_numbers :: "string \<Rightarrow> string list" where
  "clause_numbers s = filter (list_all is_digit) (runs word_char s)"

definition build_unit :: "string \<Rightarrow> int \<Rightarrow> intent_unit" where
  "build_unit s i = (let c = comparison_clause s; n = length (clause_numbers s);
     h = (if c then 2 else if 2 \<le> n then int n else 1) in
   \<lparr>u_text = s, u_negated = negated_clause s, u_order = i, u_hint = h, u_comparison = c,
    u_confidence = (if negated_clause s \<or> c \<or> 1 < h then 1 else 9 / 10)\<rparr>)"

definition detect :: "string \<Rightarrow> intent_unit list \<times> rat" where
  "detect message = (let t = py_strip message in
     if t = [] then ([], 1)
     else (let us = filter (\<lambda>u. u_text u \<noteq> []) (map (\<lambda>(i, s). build_unit s (int i)) (enumerate 0 (split_clauses t)));
               us' = (if us = [] then [build_unit t 0] else us) in
       (us', if 1 < length us' then 1 else if 14 < length (runs (\<lambda>c. \<not> is_space c) t) then 6 / 10 else 9 / 10)))"

text \<open>Structured intents; \<open>None\<close> for a conversion that raises.\<close>

definition intent_order :: "nat \<Rightarrow> json \<Rightarrow> int option" where
  "intent_order i v = (if \<not> truthy v then Some (int i) else (case v of
      JInt n \<Rightarrow> Some n | JBool b \<Rightarrow> Some 1 | JFloat r \<Rightarrow> Some (if 0 \<le> r then \<lfloor>r\<rfloor> else \<lceil>r\<rceil>)
    | JStr t \<Rightarrow> py_int t | _ \<Rightarrow> None))"

definition intent_confidence :: "(string \<Rightarrow> rat option) \<Rightarrow> json \<Rightarrow> rat option" where
  "intent_confidence pf v = (if \<not> truthy v then Some 1 else (case v of JStr t \<Rightarrow> pf t | _ \<Rightarrow> num_of v))"

definition structured_unit ::
  "(rat \<Rightarrow> string) \<Rightarrow> (string \<Rightarrow> rat option) \<Rightarrow> nat \<times> json \<Rightarrow> unit + intent_unit list" where
  "structured_unit fs pf p = (case snd p of
      JDict d \<Rightarrow> (let g = dict_get d ''goal'' JNull; goal = (if truthy g then py_strip (py_str fs g) else []) in
        if goal = [] then Inr []
        else (case (intent_order (fst p) (dict_get d ''sequence'' JNull), intent_confidence pf (dict_get d ''confidence'' (JInt 1))) of
            (Some n, Some c) \<Rightarrow> Inr [\<lparr>u_text = goal, u_negated = truthy (dict_get d ''negated'' (JBool False)),
              u_order = n, u_hint = 1, u_comparison = False, u_confidence = c\<rparr>]
          | _ \<Rightarrow> Inl ()))
    | _ \<Rightarrow> Inr [])"

definition structured_to_detected ::
  "(rat \<Rightarrow> string) \<Rightarrow> (string \<Rightarrow> rat option) \<Rightarrow> json \<Rightarrow> intent_unit list option" where
  "structured_to_detected fs pf raw = (case raw of
      JList xs \<Rightarrow> (case map_err (structured_unit fs pf) (enumerate 0 xs) of
          Inr us \<Rightarrow> if concat us = [] then None else Some (concat us) | Inl _ \<Rightarrow> None)
    | _ \<Rightarrow> None)"

section \<open>Capabilities of a unit\<close>

record intent_index =
  ii_keywords :: "string list dict"
  ii_aliases :: "string list dict"
  ii_index :: cap_index

definition meta_keywords :: "json dict \<Rightarrow> string list" where
  "meta_keywords m = map py_lower (cap_strs m ''keywords'')"

definition names_unit :: "string list \<Rightarrow> string \<times> json dict \<Rightarrow> bool" where
  "names_unit ts p = (list_ex (\<lambda>t. t \<in> set ts) (word_tokens (fst p)) \<or> list_ex (\<lambda>k. k \<in> set ts) (meta_keywords (snd p)))"

definition unit_candidates :: "intent_index \<Rightarrow> string \<Rightarrow> string list" where
  "unit_candidates ix s = (let ts = word_tokens s in if ts = [] then [] else remdups
     (concat (map (\<lambda>t. dict_get (ii_keywords ix) t []) ts)
      @ concat (map (\<lambda>t. dict_get (ii_aliases ix) t []) ts)
      @ map fst (filter (names_unit ts) (ii_index ix))))"

definition op_match_strength :: "intent_index \<Rightarrow> string \<Rightarrow> string \<Rightarrow> nat" where
  "op_match_strength ix s c = (let ts = remdups (word_tokens s) in
     length (filter (\<lambda>(k, caps). k \<in> set ts \<and> c \<in> set caps) (ii_keywords ix))
     + length (filter (\<lambda>t. c \<in> set (dict_get (ii_aliases ix) t [])) ts)
     + length (filter (\<lambda>t. t \<in> set ts) (remdups (word_tokens c))))"

definition stronger :: "intent_index \<Rightarrow> string \<Rightarrow> string \<Rightarrow> string \<Rightarrow> bool" where
  "stronger ix s a b = (op_match_strength ix s b < op_match_strength ix s a
     \<or> op_match_strength ix s b = op_match_strength ix s a \<and> b \<le> a)"

definition best_capability :: "intent_index \<Rightarrow> string \<Rightarrow> string list \<Rightarrow> string option" where
  "best_capability ix s ops = (case ops of [] \<Rightarrow> None
     | c # cs \<Rightarrow> Some (foldl (\<lambda>b a. if stronger ix s a b then a else b) c cs))"

section \<open>Properties\<close>

lemma unit_candidates_iff:
  "c \<in> set (unit_candidates ix s) \<longleftrightarrow> (\<exists>t \<in> set (word_tokens s).
     c \<in> set (dict_get (ii_keywords ix) t []) \<or> c \<in> set (dict_get (ii_aliases ix) t [])
     \<or> (\<exists>m. (c, m) \<in> set (ii_index ix) \<and> (t \<in> set (word_tokens c) \<or> t \<in> set (meta_keywords m))))"
  by (auto simp: unit_candidates_def Let_def names_unit_def list_ex_iff image_iff)

lemma stronger_refl: "stronger ix s a a" by (simp add: stronger_def)

lemma stronger_trans: "stronger ix s a b \<Longrightarrow> stronger ix s b c \<Longrightarrow> stronger ix s a c"
  by (auto simp: stronger_def)

lemma stronger_total: "\<not> stronger ix s a b \<Longrightarrow> stronger ix s b a"
  by (auto simp: stronger_def)

text \<open>The best capability is one of those given, and none of them matches the unit better.\<close>

lemma best_capability_best:
  assumes "best_capability ix s ops = Some b"
  shows "b \<in> set ops \<and> (\<forall>c \<in> set ops. stronger ix s b c)"
proof -
  define f where "f = (\<lambda>b a. if stronger ix s a b then a else b)"
  have *: "foldl f c cs \<in> insert c (set cs) \<and> stronger ix s (foldl f c cs) c \<and> (\<forall>d \<in> set cs. stronger ix s (foldl f c cs) d)" for c cs
  proof (induction cs arbitrary: c)
    case (Cons a cs)
    have "stronger ix s (f c a) c" "stronger ix s (f c a) a" "f c a \<in> {a, c}"
      by (auto simp: f_def stronger_refl dest: stronger_total)
    with Cons.IH [of "f c a"] show ?case by (auto intro: stronger_trans)
  qed (simp add: stronger_refl)
  from assms show ?thesis
    using * by (auto simp: best_capability_def f_def [symmetric] split: list.splits)
qed

lemma best_capability_Some: "ops \<noteq> [] \<Longrightarrow> \<exists>b. best_capability ix s ops = Some b"
  by (cases ops) (simp_all add: best_capability_def)

text \<open>Every message with a text has a unit, and every unit has a text.\<close>

theorem detect_total:
  assumes "py_strip message \<noteq> []"
  shows "fst (detect message) \<noteq> [] \<and> list_all (\<lambda>u. u_text u \<noteq> []) (fst (detect message))"
  using assms by (auto simp: detect_def Let_def list_all_iff build_unit_def)

theorem detect_total_witness: "fst (detect ''weather'') \<noteq> []"
  using detect_total [of "''weather''"] by code_simp

text \<open>
  Negation is found inside words: a clause that asks for a note, a notification or another
  result counts as an exclusion.
\<close>

lemma negation_inside_words:
  "contains_str ''not'' (py_lower s) \<Longrightarrow> u_negated (build_unit s i)"
  by (simp add: build_unit_def negated_clause_def Let_def)

end
