(* ===== verification/Plan_Validator.thy ===== *)
theory Plan_Validator
  imports Plan_Cycle Intents
begin

text \<open>
  \<open>agent/nodes/plan\_validator\_node.py\<close>: the checks of a logical plan before it is compiled, the
  dominant action of a report, and the node that refines, drops, asks, proceeds or gives up.  A
  violation keeps its code, severity, action and node, the texts of messages are left out.  The
  rankings of the resolution engine are a parameter by unit text; \<open>pe_fs\<close>, \<open>pe_fg\<close> and
  \<open>pe_pf\<close> are the text of a float, its \<open>:g\<close> format and \<open>float(text)\<close>.
\<close>

section \<open>Reports\<close>

datatype severity = CRITICAL | ERROR | WARNING

datatype plan_action = DROP_OP | REQUIRE_MORE_INFO | REFINE | APPROVAL | PROCEED | DROP_AND_PROCEED

record violation =
  v_code :: string
  v_severity :: severity
  v_action :: plan_action
  v_node :: string

record plan_report =
  r_valid :: bool
  r_violations :: "violation list"
  r_coverage :: rat

definition viol :: "string \<Rightarrow> severity \<Rightarrow> plan_action \<Rightarrow> string \<Rightarrow> violation" where
  "viol code sev act n = \<lparr>v_code = code, v_severity = sev, v_action = act, v_node = n\<rparr>"

definition of_severity :: "severity \<Rightarrow> plan_report \<Rightarrow> violation list" where
  "of_severity s rep = filter (\<lambda>v. v_severity v = s) (r_violations rep)"

definition report_action :: "plan_report \<Rightarrow> plan_action" where
  "report_action rep = (case of_severity CRITICAL rep of v # _ \<Rightarrow> v_action v
    | [] \<Rightarrow> (let es = of_severity ERROR rep in
        if es \<noteq> [] \<and> list_all (\<lambda>v. v_action v \<in> {DROP_AND_PROCEED, REFINE}) es
          \<and> list_ex (\<lambda>v. v_action v = DROP_AND_PROCEED) es then DROP_AND_PROCEED
        else (case filter (\<lambda>v. v_action v \<noteq> DROP_AND_PROCEED) es of v # _ \<Rightarrow> v_action v
          | [] \<Rightarrow> (case filter (\<lambda>v. v_action v \<noteq> PROCEED) (r_violations rep) of v # _ \<Rightarrow> v_action v | [] \<Rightarrow> PROCEED))))"

section \<open>What the node reads\<close>

record plan_env =
  pe_index :: intent_index
  pe_costs :: "rat list dict"
  pe_budget :: "rat option"
  pe_max_rounds :: int
  pe_fs :: "rat \<Rightarrow> string"
  pe_fg :: "rat \<Rightarrow> string"
  pe_pf :: "string \<Rightarrow> rat option"

type_synonym ranking = "(string \<times> rat) list"

record plan_request =
  pr_nodes :: "logical_node list"
  pr_prior :: "string list"
  pr_query :: string
  pr_collections :: "json dict"
  pr_engine :: "ranking dict"
  pr_alignment :: "ranking dict"
  pr_intents :: json            \<comment> \<open>the structured intents, if any\<close>
  pr_missing :: "json list"     \<comment> \<open>the binder's missing parameters\<close>

text \<open>The last message of the user that has a text, and the tools of the previous turn.\<close>

definition current_user_query :: "json list \<Rightarrow> string" where
  "current_user_query messages = (case List.map_filter (\<lambda>m. case m of
      JDict d \<Rightarrow> (case (dict_get d ''role'' JNull, dict_get d ''content'' JNull) of
        (JStr role, JStr t) \<Rightarrow> if role = ''user'' \<and> py_strip t \<noteq> [] then Some t else None | _ \<Rightarrow> None)
    | _ \<Rightarrow> None) (rev messages) of t # _ \<Rightarrow> t | [] \<Rightarrow> [])"

definition tool_entry :: "string \<times> json \<Rightarrow> (string \<times> string) option" where
  "tool_entry p = (case snd p of
      JDict d \<Rightarrow> (let t = get_str (JDict d) ''tool_name'' []; name = (if t \<noteq> [] then t else get_str (JDict d) ''capability'' []) in
        if name = [] then None else Some (fst p, name))
    | _ \<Rightarrow> None)"

definition prior_executed_chain :: "json dict \<Rightarrow> string list" where
  "prior_executed_chain graph = (let
     tools = List.map_filter tool_entry (get_dict (JDict graph) ''nodes'');
     ordered = concat (map (\<lambda>w. List.map_filter (map_of tools) (get_strs (JDict w) ''tasks''))
       (dict_items (get_list (JDict graph) ''waves''))) in
     if tools = [] then [] else if ordered = [] then map snd tools else ordered)"

definition op_meta :: "plan_env \<Rightarrow> string \<Rightarrow> json dict" where
  "op_meta e c = dict_get (ii_index (pe_index e)) c []"

definition op_strs :: "plan_env \<Rightarrow> string \<Rightarrow> string \<Rightarrow> string list" where
  "op_strs e c k = cap_strs (op_meta e c) k"

definition ops_of :: "plan_request \<Rightarrow> string list" where
  "ops_of r = map l_op (pr_nodes r)"

definition detected_units :: "plan_env \<Rightarrow> plan_request \<Rightarrow> intent_unit list" where
  "detected_units e r = (if truthy (pr_intents r)
     then (case structured_to_detected (pe_fs e) (pe_pf e) (pr_intents r) of None \<Rightarrow> [] | Some us \<Rightarrow> us)
     else if pr_query r \<noteq> [] then fst (detect (pr_query r)) else [])"

section \<open>Structural checks\<close>

definition undefined_ops :: "plan_env \<Rightarrow> plan_request \<Rightarrow> violation list" where
  "undefined_ops e r = (let valid = map fst (ii_index (pe_index e)) in
     map (viol ''undefined_op'' CRITICAL DROP_OP) (filter (\<lambda>c. c \<noteq> [] \<and> valid \<noteq> [] \<and> c \<notin> set valid) (ops_of r)))"

definition cycle_check :: "plan_request \<Rightarrow> violation list" where
  "cycle_check r = (case find_cycle (pr_nodes r) of [] \<Rightarrow> []
     | c \<Rightarrow> [viol ''cycle'' CRITICAL REFINE (py_join '' -> '' c)])"

definition iterate_check :: "plan_request \<Rightarrow> violation list" where
  "iterate_check r = map (\<lambda>nd. viol ''unresolved_iterate_over'' ERROR REFINE (l_op nd))
     (filter (\<lambda>nd. case l_iterate_over nd of None \<Rightarrow> False
        | Some k \<Rightarrow> k \<noteq> [] \<and> \<not> starts_with ''${'' k
            \<and> (case dict_get (pr_collections r) k JNull of JList xs \<Rightarrow> xs = [] | _ \<Rightarrow> True)) (pr_nodes r))"

definition blank :: "json \<Rightarrow> bool" where
  "blank v = (case v of JStr s \<Rightarrow> py_strip s = [] | _ \<Rightarrow> False)"

definition provided_inputs :: "logical_node \<Rightarrow> string list" where
  "provided_inputs nd = map fst (filter (\<lambda>p. \<not> blank (snd p)) (l_inputs nd))"

definition input_aliases :: "plan_env \<Rightarrow> string \<Rightarrow> string \<Rightarrow> string list" where
  "input_aliases e c p = get_strs (JDict (get_dict (JDict (op_meta e c)) ''input_aliases'')) p"

definition missing_inputs :: "plan_env \<Rightarrow> string \<Rightarrow> string list \<Rightarrow> string list" where
  "missing_inputs e c given = (if c = [] then [] else
     filter (\<lambda>p. p \<notin> set given \<and> \<not> list_ex (\<lambda>k. k \<in> set (input_aliases e c p)) given) (op_strs e c ''input_required''))"

text \<open>The parameters the binder found no source for.\<close>

definition unbound_params :: "plan_request \<Rightarrow> string list" where
  "unbound_params r = List.map_filter (\<lambda>m. case m of
      JDict d \<Rightarrow> if dict_get d ''clarification_required'' JNull = JBool True then Some (get_str (JDict d) ''parameter'' []) else None
    | _ \<Rightarrow> None) (pr_missing r)"

definition other_executable :: "logical_node list \<Rightarrow> nat \<Rightarrow> bool" where
  "other_executable nodes i = list_ex (\<lambda>(j, nd). j \<noteq> i \<and> py_strip (l_op nd) \<noteq> []) (enumerate 0 nodes)"

definition missing_check :: "plan_env \<Rightarrow> plan_request \<Rightarrow> violation list" where
  "missing_check e r = concat (map (\<lambda>(i, nd). let ms = missing_inputs e (l_op nd) (provided_inputs nd) in
     if ms = [] then []
     else if list_ex (\<lambda>p. p \<in> set (unbound_params r)) ms \<and> other_executable (pr_nodes r) i
       then [viol ''missing_input_unresolvable'' ERROR DROP_AND_PROCEED (l_op nd)]
     else [viol ''missing_input'' ERROR REFINE (l_op nd)]) (enumerate 0 (pr_nodes r)))"

section \<open>Values of the inputs\<close>

fun type_accepts :: "(string \<Rightarrow> rat option) \<Rightarrow> string \<Rightarrow> json \<Rightarrow> bool" where
  "type_accepts pf t (JStr s) =
     (contains_str ''${'' s \<or> is_chain_expression s
      \<or> (if t = ''boolean'' then py_lower (py_strip s) \<in> {''true'', ''false'', ''1'', ''0'', ''yes'', ''no''}
         else if t \<in> {''number'', ''integer''} then pf (py_strip s) \<noteq> None else True))"
| "type_accepts pf t (JBool b) = (t \<notin> {''number'', ''integer''})"
| "type_accepts pf t (JInt i) = (t \<noteq> ''boolean'')"
| "type_accepts pf t (JFloat x) = (t \<noteq> ''boolean'')"
| "type_accepts pf t v = (t \<notin> {''boolean'', ''number'', ''integer'', ''string''})"

definition bad_type :: "plan_env \<Rightarrow> string \<Rightarrow> string \<times> json \<Rightarrow> bool" where
  "bad_type e c p = (case dict_get (cap_props (op_meta e c)) (fst p) JNull of
      JDict prop \<Rightarrow> (case dict_get prop ''type'' JNull of JStr t \<Rightarrow> \<not> type_accepts (pe_pf e) t (snd p) | _ \<Rightarrow> False)
    | _ \<Rightarrow> False)"

definition type_check :: "plan_env \<Rightarrow> plan_request \<Rightarrow> violation list" where
  "type_check e r = map (\<lambda>nd. viol ''wrong_type'' ERROR DROP_OP (l_op nd))
     (filter (\<lambda>nd. l_op nd \<noteq> [] \<and> list_ex (bad_type e (l_op nd)) (l_inputs nd)) (pr_nodes r))"

definition declared_keys :: "plan_env \<Rightarrow> string \<Rightarrow> string list" where
  "declared_keys e c = map fst (cap_props (op_meta e c))
     @ concat (map (\<lambda>p. input_aliases e c (fst p)) (get_dict (JDict (op_meta e c)) ''input_aliases''))"

definition unknown_input_keys :: "plan_env \<Rightarrow> string \<Rightarrow> json dict \<Rightarrow> string list" where
  "unknown_input_keys e c inp = (if c = [] \<or> cap_props (op_meta e c) = [] then []
     else filter (\<lambda>k. k \<notin> set (declared_keys e c)) (map fst inp))"

definition key_check :: "plan_env \<Rightarrow> plan_request \<Rightarrow> violation list" where
  "key_check e r = map (\<lambda>nd. viol ''unknown_input_key'' ERROR REFINE (l_op nd))
     (filter (\<lambda>nd. unknown_input_keys e (l_op nd) (l_inputs nd) \<noteq> []) (pr_nodes r))"

definition value_in_message :: "plan_env \<Rightarrow> json \<Rightarrow> string \<Rightarrow> bool" where
  "value_in_message e v msg = list_ex (\<lambda>c. c \<noteq> [] \<and> contains_str c (py_lower msg))
     (py_strip (py_lower (py_str (pe_fs e) v)) # (case v of
        JInt i \<Rightarrow> [pe_fg e (of_int i)]
      | JFloat x \<Rightarrow> (if integral x then [int_str \<lfloor>x\<rfloor>] else []) @ [pe_fg e x]
      | _ \<Rightarrow> []))"

definition scalar :: "json \<Rightarrow> bool" where
  "scalar v = (case v of JStr _ \<Rightarrow> True | JInt _ \<Rightarrow> True | JFloat _ \<Rightarrow> True | JBool _ \<Rightarrow> True | _ \<Rightarrow> False)"

definition literal :: "json \<Rightarrow> bool" where
  "literal v = (scalar v \<and> \<not> blank v \<and> (case v of JStr s \<Rightarrow> \<not> starts_with ''${'' s | _ \<Rightarrow> True))"

definition guessed :: "plan_env \<Rightarrow> string \<Rightarrow> string \<Rightarrow> string \<times> json \<Rightarrow> bool" where
  "guessed e q c p = (fst p \<in> set (op_strs e c ''input_required'') \<and> literal (snd p)
     \<and> (case snd p of JStr s \<Rightarrow> \<not> is_chain_expression s | _ \<Rightarrow> True) \<and> \<not> value_in_message e (snd p) q)"

definition provenance_check :: "plan_env \<Rightarrow> plan_request \<Rightarrow> violation list" where
  "provenance_check e r = (if pr_query r = [] then [] else
     map (\<lambda>nd. viol ''parameter_provenance'' ERROR REFINE (l_op nd))
       (filter (\<lambda>nd. list_ex (guessed e (pr_query r) (l_op nd)) (l_inputs nd)) (pr_nodes r)))"

section \<open>Producers and consumers\<close>

definition shares :: "string list \<Rightarrow> string list \<Rightarrow> bool" where
  "shares xs ys = list_ex (\<lambda>x. x \<in> set ys) xs"

definition consumer_missing :: "plan_env \<Rightarrow> plan_request \<Rightarrow> string \<Rightarrow> bool" where
  "consumer_missing e r c = (c \<in> set (pr_prior r) \<and>
     (case find (\<lambda>l. shares (op_strs e c ''produces'') (op_strs e l ''consumes''))
        (tl (dropWhile (\<lambda>x. x \<noteq> c) (pr_prior r))) of None \<Rightarrow> False | Some l \<Rightarrow> l \<notin> set (ops_of r)))"

definition consumer_check :: "plan_env \<Rightarrow> plan_request \<Rightarrow> violation list" where
  "consumer_check e r = map (viol ''missing_consumer'' ERROR REFINE) (filter (consumer_missing e r) (ops_of r))"

definition producer_ops :: "plan_env \<Rightarrow> string \<Rightarrow> string list" where
  "producer_ops e a = map fst (filter (\<lambda>p. a \<in> set (cap_strs (snd p) ''produces'')) (ii_index (pe_index e)))"

definition chain_constructible :: "plan_env \<Rightarrow> string \<Rightarrow> string list \<Rightarrow> string list \<Rightarrow> bool" where
  "chain_constructible e p keys outs = (let req = op_strs e p ''input_required'' in
     req \<noteq> [] \<and> (list_all (\<lambda>k. k \<in> set keys) req \<or> list_all (\<lambda>k. k \<in> set outs) req))"

definition producer_missing :: "plan_env \<Rightarrow> plan_request \<Rightarrow> string \<Rightarrow> string \<times> json \<Rightarrow> bool" where
  "producer_missing e r c p = (fst p \<in> set (op_strs e c ''input_required'') \<and> literal (snd p) \<and>
     list_ex (\<lambda>q. q \<noteq> c \<and> q \<notin> set (ops_of r) \<and> chain_constructible e q
        (concat (map (\<lambda>nd. map fst (l_inputs nd)) (pr_nodes r)))
        (concat (map (\<lambda>o'. op_strs e o' ''produces'') (ops_of r)))) (producer_ops e (fst p)))"

definition producer_check :: "plan_env \<Rightarrow> plan_request \<Rightarrow> violation list" where
  "producer_check e r = map (\<lambda>nd. viol ''missing_producer'' ERROR REFINE (l_op nd))
     (filter (\<lambda>nd. l_op nd \<in> fst ` set (ii_index (pe_index e))
        \<and> list_ex (producer_missing e r (l_op nd)) (l_inputs nd)) (pr_nodes r))"

section \<open>Coverage of the intents\<close>

definition cands :: "plan_env \<Rightarrow> intent_unit \<Rightarrow> string list" where
  "cands e u = unit_candidates (pe_index e) (u_text u)"

definition unit_classifiable :: "plan_env \<Rightarrow> plan_request \<Rightarrow> intent_unit \<Rightarrow> bool" where
  "unit_classifiable e r u = (cands e u \<noteq> [] \<or> list_ex (\<lambda>p. 10 \<le> snd p) (dict_get (pr_engine r) (u_text u) []))"

definition executable_units :: "plan_env \<Rightarrow> plan_request \<Rightarrow> intent_unit list" where
  "executable_units e r = filter (\<lambda>u. \<not> u_negated u \<and> unit_classifiable e r u) (detected_units e r)"

definition forbidden_ops :: "plan_env \<Rightarrow> plan_request \<Rightarrow> string list" where
  "forbidden_ops e r = concat (map (cands e) (filter u_negated (detected_units e r)))"

definition unit_matches :: "plan_env \<Rightarrow> plan_request \<Rightarrow> intent_unit \<Rightarrow> string list" where
  "unit_matches e r u = remdups (filter (\<lambda>c. c \<in> set (ops_of r))
     (cands e u @ map fst (dict_get (pr_engine r) (u_text u) [])))"

definition unit_served :: "plan_env \<Rightarrow> plan_request \<Rightarrow> intent_unit \<Rightarrow> bool" where
  "unit_served e r u = (max 1 (u_hint u) \<le> int (length (unit_matches e r u))
     \<and> \<not> shares (unit_matches e r u) (forbidden_ops e r))"

definition engine_dominant :: "ranking \<Rightarrow> bool" where
  "engine_dominant xs = (case xs of [] \<Rightarrow> False | [p] \<Rightarrow> 5 \<le> snd p
     | p # q # _ \<Rightarrow> 10 \<le> snd p \<and> snd q * 2 \<le> snd p)"

datatype alignment = Aligned | Misaligned | Ambiguous | No_signal

definition alignment_verdict :: "string option \<Rightarrow> ranking \<Rightarrow> alignment" where
  "alignment_verdict chosen xs = (case (chosen, xs) of
      (Some c, p # _) \<Rightarrow> if c = [] then No_signal else if c = fst p then Aligned
        else if engine_dominant xs then Misaligned else Ambiguous
    | _ \<Rightarrow> No_signal)"

definition unit_misaligned :: "plan_env \<Rightarrow> plan_request \<Rightarrow> intent_unit \<Rightarrow> bool" where
  "unit_misaligned e r u = (let ms = unit_matches e r u; al = dict_get (pr_alignment r) (u_text u) [] in
     ms \<noteq> [] \<and> alignment_verdict (best_capability (pe_index e) (u_text u) ms)
       (if al \<noteq> [] then al else dict_get (pr_engine r) (u_text u) []) = Misaligned)"

definition untraceable :: "plan_env \<Rightarrow> plan_request \<Rightarrow> string \<Rightarrow> bool" where
  "untraceable e r c = (c \<in> set (forbidden_ops e r)
     \<or> \<not> list_ex (\<lambda>u. c \<in> set (cands e u)) (executable_units e r)
       \<and> \<not> shares (op_strs e c ''produces'') (concat (map (\<lambda>o'. op_strs e o' ''consumes'') (ops_of r))))"

definition extraneous_ops :: "plan_env \<Rightarrow> plan_request \<Rightarrow> string list" where
  "extraneous_ops e r = (if executable_units e r \<noteq> [] \<or> forbidden_ops e r \<noteq> []
     then filter (untraceable e r) (sort (remdups (ops_of r))) else [])"

definition intent_coverage :: "plan_env \<Rightarrow> plan_request \<Rightarrow> rat" where
  "intent_coverage e r = (let ex = executable_units e r in
     if ex = [] then 1 else round4 (of_nat (length (filter (unit_served e r) ex)) / of_nat (length ex) / 10) * 10)"

definition coverage_check :: "plan_env \<Rightarrow> plan_request \<Rightarrow> violation list" where
  "coverage_check e r =
    (if list_ex (unit_misaligned e r) (executable_units e r) then [viol ''capability_alignment'' ERROR REFINE ''plan''] else [])
    @ (if list_ex (\<lambda>u. \<not> unit_served e r u) (executable_units e r) then [viol ''intent_coverage'' ERROR REFINE ''plan''] else [])
    @ (if extraneous_ops e r = [] then []
       else (if forbidden_ops e r \<noteq> [] then [viol ''extraneous_operation'' ERROR DROP_OP ''plan''] else [])
         @ [viol ''extraneous_operation'' WARNING REFINE ''plan''])"

section \<open>The report\<close>

definition estimate_cost :: "plan_env \<Rightarrow> plan_request \<Rightarrow> rat" where
  "estimate_cost e r = sum_list (map (\<lambda>c. sum_list (dict_get (pe_costs e) c [])) (ops_of r))"

definition budget_check :: "plan_env \<Rightarrow> plan_request \<Rightarrow> violation list" where
  "budget_check e r = (case pe_budget e of None \<Rightarrow> []
     | Some cap \<Rightarrow> if cap < estimate_cost e r then [viol ''budget'' ERROR REFINE ''plan''] else [])"

definition requires_approval_op :: "plan_env \<Rightarrow> string \<Rightarrow> bool" where
  "requires_approval_op e c = (let m = op_meta e c in m \<noteq> [] \<and> (truthy (dict_get m ''requires_approval'' JNull)
     \<or> dict_get m ''risk_level'' JNull \<in> {JStr ''high'', JStr ''medium''}))"

definition approval_notes :: "plan_env \<Rightarrow> plan_request \<Rightarrow> violation list" where
  "approval_notes e r = map (viol ''approval_required'' WARNING APPROVAL) (filter (requires_approval_op e) (ops_of r))"

definition plan_violations :: "plan_env \<Rightarrow> plan_request \<Rightarrow> violation list" where
  "plan_violations e r = undefined_ops e r @ cycle_check r @ iterate_check r @ missing_check e r @ type_check e r
     @ key_check e r @ provenance_check e r @ consumer_check e r @ producer_check e r
     @ (if detected_units e r = [] then [] else coverage_check e r) @ budget_check e r @ approval_notes e r"

definition validate_plan :: "plan_env \<Rightarrow> plan_request \<Rightarrow> plan_report" where
  "validate_plan e r =
    (if pr_nodes r = [] then
       (if list_ex (\<lambda>u. \<not> u_negated u \<and> cands e u \<noteq> []) (detected_units e r)
        then \<lparr>r_valid = False, r_violations = [viol ''empty_plan'' ERROR REFINE ''plan''], r_coverage = 1\<rparr>
        else \<lparr>r_valid = True, r_violations = [], r_coverage = 1\<rparr>)
     else \<lparr>r_valid = list_all (\<lambda>v. v_severity v = WARNING) (plan_violations e r),
           r_violations = plan_violations e r, r_coverage = intent_coverage e r\<rparr>)"

definition semantic_cache_eligible :: "plan_report \<Rightarrow> bool" where
  "semantic_cache_eligible rep = (r_valid rep \<and> r_coverage rep = 1
     \<and> \<not> list_ex (\<lambda>v. v_code v = ''capability_alignment'') (r_violations rep))"

section \<open>The node\<close>

datatype plan_change = Keep_plan | Replace_nodes "logical_node list" | Clear_plan

record plan_patch =
  pp_action :: string
  pp_rounds :: "int option"
  pp_change :: plan_change
  pp_budget :: "reasoning_budget option"
  pp_uncached :: bool     \<comment> \<open>the cached plan is removed\<close>
  pp_errors :: bool       \<comment> \<open>the errors are returned to the user's state\<close>

definition drop_ops :: "plan_report \<Rightarrow> string list" where
  "drop_ops rep = map v_node (filter (\<lambda>v. v_action v = DROP_AND_PROCEED) (r_violations rep))"

definition surviving :: "plan_report \<Rightarrow> logical_node list \<Rightarrow> logical_node list" where
  "surviving rep nodes = filter (\<lambda>nd. l_op nd \<notin> set (drop_ops rep)) nodes"

definition has_code :: "string \<Rightarrow> plan_report \<Rightarrow> bool" where
  "has_code c rep = list_ex (\<lambda>v. v_code v = c) (r_violations rep)"

text \<open>After the bounded repair.\<close>

definition exhausted :: "plan_report \<Rightarrow> int \<Rightarrow> plan_patch" where
  "exhausted rep rounds = (let u = \<not> semantic_cache_eligible rep in
     if has_code ''empty_plan'' rep \<or> has_code ''missing_input'' rep
       then \<lparr>pp_action = ''require_more_info'', pp_rounds = Some rounds, pp_change = Keep_plan, pp_budget = None, pp_uncached = u, pp_errors = True\<rparr>
     else if has_code ''intent_coverage'' rep \<or> has_code ''extraneous_operation'' rep
       then \<lparr>pp_action = ''proceed'', pp_rounds = Some rounds, pp_change = Keep_plan, pp_budget = None, pp_uncached = u, pp_errors = False\<rparr>
     else \<lparr>pp_action = ''abort'', pp_rounds = None, pp_change = Clear_plan, pp_budget = None, pp_uncached = u, pp_errors = True\<rparr>)"

definition plan_validator_node ::
  "plan_env \<Rightarrow> plan_request \<Rightarrow> int \<Rightarrow> reasoning_budget \<Rightarrow> plan_patch" where
  "plan_validator_node e r rounds b = (let rep = validate_plan e r; u = \<not> semantic_cache_eligible rep in
     if r_valid rep
       then \<lparr>pp_action = ''proceed'', pp_rounds = Some rounds, pp_change = Keep_plan, pp_budget = None, pp_uncached = u, pp_errors = False\<rparr>
     else if report_action rep = REQUIRE_MORE_INFO
       then \<lparr>pp_action = ''require_more_info'', pp_rounds = Some rounds, pp_change = Keep_plan, pp_budget = None, pp_uncached = u, pp_errors = False\<rparr>
     else if report_action rep = DROP_AND_PROCEED
       then \<lparr>pp_action = ''proceed'', pp_rounds = Some rounds, pp_change = Replace_nodes (surviving rep (pr_nodes r)),
             pp_budget = None, pp_uncached = u, pp_errors = True\<rparr>
     else (let (b', ok) = consume ''replans'' 1 b in
       if pe_max_rounds e \<le> rounds \<or> \<not> ok then exhausted rep rounds
       else \<lparr>pp_action = ''refine'', pp_rounds = Some (rounds + 1), pp_change = Keep_plan, pp_budget = Some b', pp_uncached = u, pp_errors = False\<rparr>))"

text \<open>The rankings the node passes on: generic capabilities are left out for alignment.\<close>

definition semantic_filter :: "(string \<Rightarrow> bool) \<Rightarrow> bool \<Rightarrow> string \<times> ranking \<Rightarrow> ranking" where
  "semantic_filter generic loaded p = (let spec = filter (\<lambda>x. \<not> generic (fst x)) (snd p) in
     if length (snd p) < 2 \<or> \<not> loaded then snd p
     else if spec \<noteq> [] \<and> \<not> list_ex (\<lambda>t. t \<in> {''web'', ''internet'', ''online''}) (word_tokens (fst p))
       then filter (\<lambda>x. fst x \<in> fst ` set spec) (snd p)
     else snd p)"

section \<open>What the checks establish\<close>

lemma validate_empty [simp]: "pr_nodes r = [] \<Longrightarrow> r_valid (validate_plan e r) =
    (\<not> list_ex (\<lambda>u. \<not> u_negated u \<and> cands e u \<noteq> []) (detected_units e r))"
  by (simp add: validate_plan_def)

lemma validate_violations: "pr_nodes r \<noteq> [] \<Longrightarrow> r_violations (validate_plan e r) = plan_violations e r"
  by (simp add: validate_plan_def)

lemma viol_simps [simp]: "v_code (viol c s a n) = c" "v_severity (viol c s a n) = s"
  "v_action (viol c s a n) = a" "v_node (viol c s a n) = n"
  by (simp_all add: viol_def)

text \<open>Only warnings are compatible with a valid report.\<close>

lemma blocking_violation:
  assumes "v \<in> set (plan_violations e r)" and "v_severity v \<noteq> WARNING" and "pr_nodes r \<noteq> []"
  shows "\<not> r_valid (validate_plan e r)"
  using assms by (auto simp: validate_plan_def list_all_iff)

text \<open>The code, severity and action of the violations of each check.\<close>

definition kind_of :: "violation \<Rightarrow> string \<times> severity \<times> plan_action" where
  "kind_of v = (v_code v, v_severity v, v_action v)"

lemma kind_viol [simp]: "kind_of (viol c s a n) = (c, s, a)"
  by (simp add: kind_of_def viol_def)

named_theorems check_kinds

lemma undefined_kind [check_kinds]: "v \<in> set (undefined_ops e r) \<Longrightarrow> kind_of v = (''undefined_op'', CRITICAL, DROP_OP)"
  by (auto simp: undefined_ops_def Let_def)

lemma cycle_kind [check_kinds]: "v \<in> set (cycle_check r) \<Longrightarrow> kind_of v = (''cycle'', CRITICAL, REFINE)"
  by (auto simp: cycle_check_def split: list.splits)

lemma iterate_kind [check_kinds]: "v \<in> set (iterate_check r) \<Longrightarrow> kind_of v = (''unresolved_iterate_over'', ERROR, REFINE)"
  unfolding iterate_check_def set_map by (erule imageE) simp

lemma missing_kind [check_kinds]: "v \<in> set (missing_check e r) \<Longrightarrow>
    kind_of v = (''missing_input'', ERROR, REFINE) \<or> kind_of v = (''missing_input_unresolvable'', ERROR, DROP_AND_PROCEED)"
  by (auto simp: missing_check_def Let_def split: if_splits)

lemma type_kind [check_kinds]: "v \<in> set (type_check e r) \<Longrightarrow> kind_of v = (''wrong_type'', ERROR, DROP_OP)"
  by (auto simp: type_check_def)

lemma key_kind [check_kinds]: "v \<in> set (key_check e r) \<Longrightarrow> kind_of v = (''unknown_input_key'', ERROR, REFINE)"
  by (auto simp: key_check_def)

lemma provenance_kind [check_kinds]: "v \<in> set (provenance_check e r) \<Longrightarrow> kind_of v = (''parameter_provenance'', ERROR, REFINE)"
  by (auto simp: provenance_check_def split: if_splits)

lemma consumer_kind [check_kinds]: "v \<in> set (consumer_check e r) \<Longrightarrow> kind_of v = (''missing_consumer'', ERROR, REFINE)"
  by (auto simp: consumer_check_def)

lemma producer_kind [check_kinds]: "v \<in> set (producer_check e r) \<Longrightarrow> kind_of v = (''missing_producer'', ERROR, REFINE)"
  by (auto simp: producer_check_def)

lemma coverage_kind [check_kinds]: "v \<in> set (coverage_check e r) \<Longrightarrow> kind_of v \<in>
    {(''capability_alignment'', ERROR, REFINE), (''intent_coverage'', ERROR, REFINE),
     (''extraneous_operation'', ERROR, DROP_OP), (''extraneous_operation'', WARNING, REFINE)}"
  by (auto simp: coverage_check_def split: if_splits)

lemma budget_kind [check_kinds]: "v \<in> set (budget_check e r) \<Longrightarrow> kind_of v = (''budget'', ERROR, REFINE)"
  by (auto simp: budget_check_def split: option.splits if_splits)

lemma approval_kind [check_kinds]: "v \<in> set (approval_notes e r) \<Longrightarrow> kind_of v = (''approval_required'', WARNING, APPROVAL)"
  by (auto simp: approval_notes_def)

lemma violation_kinds:
  assumes "v \<in> set (plan_violations e r)"
  shows "v_code v \<noteq> ''empty_plan'' \<and> v_action v \<noteq> REQUIRE_MORE_INFO"
proof -
  have "fst k \<noteq> ''empty_plan'' \<and> snd (snd k) \<noteq> REQUIRE_MORE_INFO" if "kind_of v = k" for k
    using assms that unfolding plan_violations_def set_append Un_iff
    by (elim disjE) (auto split: if_splits dest!: check_kinds)
  from this [of "kind_of v"] show ?thesis by (simp add: kind_of_def)
qed

lemma severity_kind: "kind_of v = (c, s, a) \<Longrightarrow> v_severity v = s" by (simp add: kind_of_def)

lemma valid_checks:
  assumes "r_valid (validate_plan e r)" and "pr_nodes r \<noteq> []"
  shows "undefined_ops e r = []" "cycle_check r = []" "missing_check e r = []"
    "type_check e r = []" "key_check e r = []"
proof -
  have w: "v_severity v = WARNING" if "v \<in> set (plan_violations e r)" for v
    using assms that by (auto simp: validate_plan_def list_all_iff)
  have empty: "vs = []" if "set vs \<subseteq> set (plan_violations e r)" "\<And>v. v \<in> set vs \<Longrightarrow> v_severity v \<noteq> WARNING" for vs
    using that w by (cases vs) fastforce+
  have sub: "set (undefined_ops e r) \<subseteq> set (plan_violations e r)" "set (cycle_check r) \<subseteq> set (plan_violations e r)"
    "set (missing_check e r) \<subseteq> set (plan_violations e r)" "set (type_check e r) \<subseteq> set (plan_violations e r)"
    "set (key_check e r) \<subseteq> set (plan_violations e r)"
    unfolding plan_violations_def by auto
  show "undefined_ops e r = []" by (rule empty [OF sub(1)]) (drule undefined_kind [THEN severity_kind], simp)
  show "cycle_check r = []" by (rule empty [OF sub(2)]) (drule cycle_kind [THEN severity_kind], simp)
  show "missing_check e r = []" by (rule empty [OF sub(3)]) (auto dest!: missing_kind severity_kind)
  show "type_check e r = []" by (rule empty [OF sub(4)]) (drule type_kind [THEN severity_kind], simp)
  show "key_check e r = []" by (rule empty [OF sub(5)]) (drule key_kind [THEN severity_kind], simp)
qed

lemma ops_of_nonempty: "c \<in> set (ops_of r) \<Longrightarrow> pr_nodes r \<noteq> []"
  by (auto simp: ops_of_def)

lemma coverage_violation:
  "detected_units e r \<noteq> [] \<Longrightarrow> v \<in> set (coverage_check e r) \<Longrightarrow> v \<in> set (plan_violations e r)"
  by (simp add: plan_violations_def)

lemma extraneous_violation:
  assumes "c \<in> set (ops_of r)" and "untraceable e r c" and "forbidden_ops e r \<noteq> []"
  shows "viol ''extraneous_operation'' ERROR DROP_OP ''plan'' \<in> set (plan_violations e r)"
proof (rule coverage_violation)
  show "detected_units e r \<noteq> []" using assms(3) by (auto simp: forbidden_ops_def)
  have "c \<in> set (extraneous_ops e r)" using assms by (simp add: extraneous_ops_def)
  then have "extraneous_ops e r \<noteq> []" by auto
  with assms(3) show "viol ''extraneous_operation'' ERROR DROP_OP ''plan'' \<in> set (coverage_check e r)"
    by (simp add: coverage_check_def)
qed

lemma forbidden_violation:
  assumes "u \<in> set (detected_units e r)" and "u_negated u" and "c \<in> set (cands e u)" and "c \<in> set (ops_of r)"
  shows "viol ''extraneous_operation'' ERROR DROP_OP ''plan'' \<in> set (plan_violations e r)"
proof -
  have f: "c \<in> set (forbidden_ops e r)" using assms by (auto simp: forbidden_ops_def)
  show ?thesis
  proof (rule extraneous_violation [OF assms(4)])
    show "untraceable e r c" using f by (simp add: untraceable_def)
    show "forbidden_ops e r \<noteq> []" using f by auto
  qed
qed

text \<open>What a valid plan guarantees about a node.\<close>

definition node_ready :: "plan_env \<Rightarrow> logical_node \<Rightarrow> bool" where
  "node_ready e nd =
    ((l_op nd \<in> fst ` set (ii_index (pe_index e)) \<or> ii_index (pe_index e) = [])
     \<and> list_all (\<lambda>p. list_ex (\<lambda>q. \<not> blank (snd q) \<and> (fst q = p \<or> fst q \<in> set (input_aliases e (l_op nd) p))) (l_inputs nd))
         (op_strs e (l_op nd) ''input_required'')
     \<and> list_all (\<lambda>q. \<not> bad_type e (l_op nd) q) (l_inputs nd)
     \<and> list_all (\<lambda>q. cap_props (op_meta e (l_op nd)) = [] \<or> fst q \<in> set (declared_keys e (l_op nd))) (l_inputs nd))"

lemma missing_check_nil:
  assumes "missing_check e r = []" and "nd \<in> set (pr_nodes r)"
  shows "missing_inputs e (l_op nd) (provided_inputs nd) = []"
proof -
  from assms(2) obtain i where i: "i < length (pr_nodes r)" "pr_nodes r ! i = nd" by (auto simp: in_set_conv_nth)
  then have "(i, nd) \<in> set (enumerate 0 (pr_nodes r))" by (simp add: in_set_enumerate_eq)
  from bspec [OF assms(1) [unfolded missing_check_def concat_eq_Nil_conv set_map ball_simps] this]
  show ?thesis by (simp add: Let_def split: if_splits)
qed

text \<open>
  C22: A plan that passes has no dependency cycle, and every named operation in it is registered
  (unless the index of operations is empty), has a value for each of its required inputs, under its
  name or an alias, no input of a wrong type and, when its schema has properties, none undeclared.
\<close>

theorem valid_plan_is_safe:
  assumes "r_valid (validate_plan e r)"
  shows "acyclic {(a, b). b \<in> set (plan_adj (pr_nodes r) a)}
    \<and> list_all (\<lambda>nd. l_op nd = [] \<or> node_ready e nd) (pr_nodes r)"
proof (cases "pr_nodes r = []")
  case True
  then show ?thesis by (simp add: plan_adj_def acyclic_def)
next
  case False
  note c = valid_checks [OF assms False]
  have cyc: "find_cycle (pr_nodes r) = []"
    using c by (simp add: cycle_check_def split: list.splits)
  have ac: "acyclic {(a, b). b \<in> set (plan_adj (pr_nodes r) a)}"
    using cyc by (simp add: find_cycle_acyclic)
  have "node_ready e nd" if nd: "nd \<in> set (pr_nodes r)" "l_op nd \<noteq> []" for nd
  proof -
    have "l_op nd \<in> fst ` set (ii_index (pe_index e)) \<or> ii_index (pe_index e) = []"
      using c nd by (auto simp: undefined_ops_def Let_def filter_empty_conv ops_of_def)
    moreover have "missing_inputs e (l_op nd) (provided_inputs nd) = []"
      using c nd missing_check_nil by blast
    then have "list_all (\<lambda>p. list_ex (\<lambda>q. \<not> blank (snd q) \<and> (fst q = p \<or> fst q \<in> set (input_aliases e (l_op nd) p))) (l_inputs nd))
         (op_strs e (l_op nd) ''input_required'')"
      using nd(2) by (force simp: missing_inputs_def provided_inputs_def filter_empty_conv list_all_iff list_ex_iff)
    moreover have "list_all (\<lambda>q. \<not> bad_type e (l_op nd) q) (l_inputs nd)"
      using c nd by (auto simp: type_check_def filter_empty_conv list_all_iff list_ex_iff)
    moreover have "unknown_input_keys e (l_op nd) (l_inputs nd) = []"
      using c nd by (auto simp: key_check_def filter_empty_conv)
    then have "list_all (\<lambda>q. cap_props (op_meta e (l_op nd)) = [] \<or> fst q \<in> set (declared_keys e (l_op nd))) (l_inputs nd)"
      using nd(2) by (auto simp: unknown_input_keys_def filter_empty_conv list_all_iff split: if_splits)
    ultimately show ?thesis by (simp add: node_ready_def)
  qed
  with ac show ?thesis by (auto simp: list_all_iff)
qed

text \<open>An operation the user excluded is never part of a valid plan.\<close>

theorem excluded_operation_invalid:
  assumes "u \<in> set (detected_units e r)" and "u_negated u" and "c \<in> set (cands e u)" and "c \<in> set (ops_of r)"
  shows "\<not> r_valid (validate_plan e r)"
  by (rule blocking_violation [OF forbidden_violation [OF assms]]) (simp_all add: ops_of_nonempty [OF assms(4)])

text \<open>
  When anything is excluded, an operation that cannot be traced to a unit makes the plan invalid
  although it is not excluded; otherwise it is only noted.
\<close>

theorem exclusion_blocks_untraceable:
  assumes "forbidden_ops e r \<noteq> []" and "c \<in> set (ops_of r)" and "untraceable e r c"
  shows "\<not> r_valid (validate_plan e r)"
  by (rule blocking_violation [OF extraneous_violation [OF assms(2,3,1)]]) (simp_all add: ops_of_nonempty [OF assms(2)])

text \<open>
  A comparison, or a request with two numbers, needs two different capabilities: calling the only
  matching one twice is never accepted.
\<close>

theorem comparison_needs_two_capabilities:
  assumes "u \<in> set (detected_units e r)" and "\<not> u_negated u" and "2 \<le> u_hint u"
    and "set (cands e u) = {c}" and "fst ` set (dict_get (pr_engine r) (u_text u) []) \<subseteq> {c}"
    and "pr_nodes r \<noteq> []"
  shows "\<not> r_valid (validate_plan e r)"
proof (rule blocking_violation [OF _ _ assms(6)])
  have "set (unit_matches e r u) \<subseteq> {c}" using assms(4,5) by (auto simp: unit_matches_def)
  then have "card (set (unit_matches e r u)) \<le> card {c}" by (intro card_mono) auto
  then have "length (unit_matches e r u) \<le> 1"
    using distinct_card [of "unit_matches e r u"] by (simp add: unit_matches_def)
  then have "\<not> unit_served e r u" using assms(3) by (simp add: unit_served_def)
  moreover have "cands e u \<noteq> []" using assms(4) by force
  then have "u \<in> set (executable_units e r)"
    using assms(1,2) by (simp add: executable_units_def unit_classifiable_def)
  ultimately have "list_ex (\<lambda>u. \<not> unit_served e r u) (executable_units e r)" unfolding list_ex_iff by blast
  then have "viol ''intent_coverage'' ERROR REFINE ''plan'' \<in> set (coverage_check e r)"
    by (simp add: coverage_check_def)
  then show "viol ''intent_coverage'' ERROR REFINE ''plan'' \<in> set (plan_violations e r)"
    using assms(1) by (auto intro: coverage_violation)
qed simp

section \<open>What the node does\<close>

text \<open>No check asks for more information.\<close>

lemma report_action_mem:
  "report_action rep = a \<Longrightarrow> a \<noteq> PROCEED \<Longrightarrow> \<exists>v \<in> set (r_violations rep). v_action v = a"
  unfolding report_action_def of_severity_def Let_def
  by (auto split: list.splits if_splits simp: filter_eq_Cons_iff list_ex_iff)

text \<open>Nothing is dropped from a plan that has its inputs.\<close>

lemma nothing_missing:
  assumes "missing_check e r = []" and "pr_nodes r \<noteq> []"
  shows "\<not> has_code ''missing_input'' (validate_plan e r) \<and> report_action (validate_plan e r) \<noteq> DROP_AND_PROCEED"
proof -
  have *: "v_code v \<noteq> ''missing_input'' \<and> v_action v \<noteq> DROP_AND_PROCEED" if "v \<in> set (plan_violations e r)" for v
  proof -
    have "fst k \<noteq> ''missing_input'' \<and> snd (snd k) \<noteq> DROP_AND_PROCEED" if k: "kind_of v = k" for k
      using \<open>v \<in> set (plan_violations e r)\<close> k assms(1) unfolding plan_violations_def set_append Un_iff
      by (elim disjE) (auto split: if_splits dest!: check_kinds)
    from this [of "kind_of v"] show ?thesis by (simp add: kind_of_def)
  qed
  then show ?thesis
    using report_action_mem [of "validate_plan e r" DROP_AND_PROCEED]
    by (auto simp: has_code_def list_ex_iff validate_violations [OF assms(2)])
qed

lemma never_asks: "report_action (validate_plan e r) \<noteq> REQUIRE_MORE_INFO"
proof
  assume "report_action (validate_plan e r) = REQUIRE_MORE_INFO"
  then obtain v where v: "v \<in> set (r_violations (validate_plan e r))" "v_action v = REQUIRE_MORE_INFO"
    using report_action_mem by blast
  show False
  proof (cases "pr_nodes r = []")
    case True
    with v show False by (auto simp: validate_plan_def split: if_splits)
  next
    case False
    with v show False using violation_kinds by (auto simp: validate_violations)
  qed
qed

text \<open>
  A rejected plan goes on exactly when nodes are dropped from it, or when repair is used up and
  the report has a coverage or extraneous finding but no missing input and no empty plan.
\<close>

theorem rejected_plan_proceeds_iff:
  assumes "\<not> r_valid (validate_plan e r)"
  shows "pp_action (plan_validator_node e r rounds b) = ''proceed'' \<longleftrightarrow>
    report_action (validate_plan e r) = DROP_AND_PROCEED
    \<or> (pe_max_rounds e \<le> rounds \<or> \<not> snd (consume ''replans'' 1 b))
      \<and> \<not> has_code ''empty_plan'' (validate_plan e r) \<and> \<not> has_code ''missing_input'' (validate_plan e r)
      \<and> (has_code ''intent_coverage'' (validate_plan e r) \<or> has_code ''extraneous_operation'' (validate_plan e r))"
  using assms never_asks [of e r]
  by (simp add: plan_validator_node_def Let_def exhausted_def split: prod.split)

text \<open>
  An operation the user excluded is executed all the same once repair is used up: the plan goes
  on as it is, its errors are cleared from the state of the user.
\<close>

theorem excluded_operation_executes:
  assumes "u \<in> set (detected_units e r)" and "u_negated u" and "c \<in> set (cands e u)" and "c \<in> set (ops_of r)"
    and "pe_max_rounds e \<le> rounds"
    and "\<not> has_code ''missing_input'' (validate_plan e r)" and "report_action (validate_plan e r) \<noteq> DROP_AND_PROCEED"
  shows "pp_action (plan_validator_node e r rounds b) = ''proceed''
    \<and> pp_change (plan_validator_node e r rounds b) = Keep_plan \<and> \<not> pp_errors (plan_validator_node e r rounds b)"
proof -
  note m = forbidden_violation [OF assms(1-4)]
  note ne = ops_of_nonempty [OF assms(4)]
  have inv: "\<not> r_valid (validate_plan e r)"
    by (rule blocking_violation [OF m]) (simp_all add: ne)
  have x: "has_code ''extraneous_operation'' (validate_plan e r)"
    using m by (force simp: has_code_def validate_violations [OF ne] list_ex_iff)
  have n: "\<not> has_code ''empty_plan'' (validate_plan e r)"
    unfolding has_code_def validate_violations [OF ne] list_ex_iff using violation_kinds by blast
  show ?thesis
    using inv never_asks [of e r] assms(5-7) x n
    by (simp add: plan_validator_node_def Let_def exhausted_def split: prod.split)
qed

section \<open>Bounded repair\<close>

text \<open>The node called on one plan after another, as long as it asks for a refinement.\<close>

fun repair_run :: "plan_env \<Rightarrow> plan_request list \<Rightarrow> int \<Rightarrow> reasoning_budget \<Rightarrow> plan_patch list" where
  "repair_run e [] rounds b = []"
| "repair_run e (r # rs) rounds b = (let p = plan_validator_node e r rounds b in
     p # (case (pp_rounds p, pp_budget p) of (Some n, Some b') \<Rightarrow> repair_run e rs n b' | _ \<Rightarrow> []))"

definition refinements :: "plan_patch list \<Rightarrow> nat" where
  "refinements ps = length (filter (\<lambda>p. pp_action p = ''refine'') ps)"

lemma refine_iff: "pp_action (plan_validator_node e r rounds b) = ''refine'' \<longleftrightarrow>
    pp_budget (plan_validator_node e r rounds b) \<noteq> None"
  by (simp add: plan_validator_node_def exhausted_def Let_def split: prod.split)

lemma refine_step:
  assumes "pp_budget (plan_validator_node e r rounds b) = Some b'"
  shows "pp_rounds (plan_validator_node e r rounds b) = Some (rounds + 1) \<and> rounds < pe_max_rounds e
    \<and> b' = fst (consume ''replans'' 1 b) \<and> snd (consume ''replans'' 1 b)"
  using assms by (auto simp: plan_validator_node_def exhausted_def Let_def split: prod.splits if_splits)

lemma repair_run_bounds:
  "int (refinements (repair_run e rs rounds b)) \<le> max 0 (pe_max_rounds e - rounds)
   \<and> of_nat (refinements (repair_run e rs rounds b)) \<le> max 0 (of_int (max_replans b) - dict_get (consumed b) ''replans'' (0 :: rat))"
proof (induction rs arbitrary: rounds b)
  case (Cons r rs)
  show ?case
  proof (cases "pp_budget (plan_validator_node e r rounds b)")
    case None
    then show ?thesis using refine_iff [of e r rounds b]
      by (simp add: refinements_def Let_def split: option.split)
  next
    case (Some b')
    note s = refine_step [OF Some]
    have l: "budget_limit b ''replans'' = Some (of_int (max_replans b))" by (simp add: budget_limit_def)
    have used: "dict_get (consumed b') ''replans'' 0 = dict_get (consumed b) ''replans'' 0 + (1 :: rat)"
      using s consume_grant [OF l, of 1] by simp
    have fits: "dict_get (consumed b) ''replans'' 0 + (1 :: rat) \<le> of_int (max_replans b)"
      using s l by (auto simp: consume_def Let_def split: if_splits)
    have mr: "max_replans b' = max_replans b" using s by (auto simp: consume_def Let_def split: option.split)
    have "refinements (repair_run e (r # rs) rounds b) = Suc (refinements (repair_run e rs (rounds + 1) b'))"
      using s Some refine_iff [of e r rounds b] by (simp add: refinements_def Let_def)
    with Cons.IH [of "rounds + 1" b'] s fits show ?thesis
      unfolding used mr by (auto simp: max_def split: if_splits)
  qed
qed (simp add: refinements_def)

text \<open>
  However the planner answers, the node asks for a refinement at most as often as rounds are left,
  and at most as often as the invocation's budget of replans allows.
\<close>

theorem repairs_bounded:
  "int (refinements (repair_run e rs rounds b)) \<le> max 0 (pe_max_rounds e - rounds)
   \<and> of_nat (refinements (repair_run e rs rounds b)) \<le> max 0 (of_int (max_replans b) - dict_get (consumed b) ''replans'' (0 :: rat))"
  by (rule repair_run_bounds)

section \<open>Concrete plans\<close>

definition weather_meta :: "json dict" where
  "weather_meta = [(''input_required'', JList [JStr ''city'']), (''produces'', JList [JStr ''forecast'']),
     (''input_schema'', JDict [(''properties'', JDict [(''city'', JDict [(''type'', JStr ''string'')])])])]"

definition pv_env :: plan_env where
  "pv_env = \<lparr>pe_index = \<lparr>ii_keywords = [], ii_aliases = [], ii_index = [(''weather'', weather_meta), (''report'', [])]\<rparr>,
     pe_costs = [], pe_budget = None, pe_max_rounds = 2, pe_fs = (\<lambda>_. []), pe_fg = (\<lambda>_. []), pe_pf = (\<lambda>_. None)\<rparr>"

definition ask_plan :: "string \<Rightarrow> logical_node list \<Rightarrow> json list \<Rightarrow> plan_request" where
  "ask_plan q nodes missing = \<lparr>pr_nodes = nodes, pr_prior = [], pr_query = q, pr_collections = [], pr_engine = [],
     pr_alignment = [], pr_intents = JNull, pr_missing = missing\<rparr>"

definition pv_budget :: reasoning_budget where
  "pv_budget = \<lparr>max_wall_time_ms = 1000, max_graph_steps = 10, max_replans = 3, max_recovery_attempts = 3,
     max_llm_calls = 10, max_tool_calls = 10, max_cost_usd = 1, budget_started_at = 0, consumed = []\<rparr>"

abbreviation lahore :: logical_node where
  "lahore \<equiv> step_on ''weather'' ''w1'' [(''city'', JStr ''lahore'')] []"

abbreviation refusing :: plan_request where
  "refusing \<equiv> ask_plan ''report but never weather in lahore'' [lahore] []"

theorem valid_plan_is_safe_witness: "node_ready pv_env lahore"
proof -
  have "r_valid (validate_plan pv_env (ask_plan [] [lahore] []))" by code_simp
  from valid_plan_is_safe [OF this] show ?thesis by (simp add: ask_plan_def step_on_def)
qed

definition refusal :: intent_unit where
  "refusal = build_unit ''never weather in lahore'' 1"

lemma refusal_facts: "refusal \<in> set (detected_units pv_env refusing)" "u_negated refusal"
  "''weather'' \<in> set (cands pv_env refusal)" "''weather'' \<in> set (ops_of refusing)"
  by code_simp+

theorem excluded_operation_invalid_witness: "\<not> r_valid (validate_plan pv_env refusing)"
  by (rule excluded_operation_invalid [OF refusal_facts])

lemma refusing_missing: "missing_check pv_env refusing = []"
  by code_simp

theorem excluded_operation_executes_witness:
  "pp_action (plan_validator_node pv_env refusing 2 pv_budget) = ''proceed''"
proof -
  have h: "pe_max_rounds pv_env \<le> 2" "\<not> has_code ''missing_input'' (validate_plan pv_env refusing)"
    "report_action (validate_plan pv_env refusing) \<noteq> DROP_AND_PROCEED"
    using nothing_missing [OF refusing_missing] by (simp_all add: pv_env_def ask_plan_def)
  from excluded_operation_executes [OF refusal_facts h] show ?thesis by blast
qed

text \<open>The exclusion of the weather makes an unrelated report invalid.\<close>

theorem exclusion_blocks_untraceable_witness:
  "\<not> r_valid (validate_plan pv_env (ask_plan ''never weather'' [step_on ''report'' [] [] []] []))"
  by (rule exclusion_blocks_untraceable [where c = "''report''"]) code_simp+

definition comparing :: intent_unit where
  "comparing = build_unit ''compare weather'' 0"

definition comparing_request :: plan_request where
  "comparing_request = ask_plan ''compare weather''
     [lahore, step_on ''weather'' ''w2'' [(''city'', JStr ''weather'')] []] []"

theorem comparison_needs_two_capabilities_witness: "\<not> r_valid (validate_plan pv_env comparing_request)"
proof -
  have h: "comparing \<in> set (detected_units pv_env comparing_request)" "\<not> u_negated comparing" "2 \<le> u_hint comparing"
    by code_simp+
  have "cands pv_env comparing = [''weather'']" by code_simp
  then have c: "set (cands pv_env comparing) = {''weather''}" by simp
  have x: "fst ` set (dict_get (pr_engine comparing_request) (u_text comparing) []) \<subseteq> {''weather''}"
    "pr_nodes comparing_request \<noteq> []"
    by (simp_all add: comparing_request_def ask_plan_def dict_get_def)
  show ?thesis by (rule comparison_needs_two_capabilities [OF h c x])
qed

theorem rejected_plan_proceeds_iff_witness:
  "pp_action (plan_validator_node pv_env refusing 0 pv_budget) \<noteq> ''proceed''"
proof -
  have v: "\<not> r_valid (validate_plan pv_env refusing)"
    by (rule blocking_violation [OF forbidden_violation [OF refusal_facts]]) (simp_all add: ask_plan_def)
  have h: "report_action (validate_plan pv_env refusing) \<noteq> DROP_AND_PROCEED" "\<not> pe_max_rounds pv_env \<le> 0"
    "snd (consume ''replans'' 1 pv_budget)"
    using nothing_missing [OF refusing_missing]
    by (simp_all add: ask_plan_def pv_env_def consume_def pv_budget_def budget_limit_def dict_get_def)
  from rejected_plan_proceeds_iff [OF v] h show ?thesis by simp
qed

text \<open>
  Nodes are dropped by operation: of two calls of the weather, the complete one is dropped with
  the incomplete one, and the report that reads its result stays and is not checked again.
\<close>

definition twin_plan :: "logical_node list" where
  "twin_plan = [lahore, step_on ''weather'' ''w2'' [] [], step_on ''report'' ''r'' [(''text'', JStr ''${w1.result.forecast}'')] [''w1'']]"

definition twin_request :: plan_request where
  "twin_request = ask_plan [] twin_plan [JDict [(''parameter'', JStr ''city''), (''clarification_required'', JBool True)]]"

lemma twin_report: "validate_plan pv_env twin_request =
   \<lparr>r_valid = False, r_violations = [viol ''missing_input_unresolvable'' ERROR DROP_AND_PROCEED ''weather''], r_coverage = 1\<rparr>"
proof -
  have c: "undefined_ops pv_env twin_request = []" "cycle_check twin_request = []" "iterate_check twin_request = []"
    "missing_check pv_env twin_request = [viol ''missing_input_unresolvable'' ERROR DROP_AND_PROCEED ''weather'']"
    "type_check pv_env twin_request = []" "key_check pv_env twin_request = []" "provenance_check pv_env twin_request = []"
    "consumer_check pv_env twin_request = []" "producer_check pv_env twin_request = []"
    "detected_units pv_env twin_request = []" "budget_check pv_env twin_request = []" "approval_notes pv_env twin_request = []"
    by code_simp+
  have "pr_nodes twin_request \<noteq> []" by (simp add: twin_request_def ask_plan_def twin_plan_def)
  then show ?thesis
    by (simp add: validate_plan_def plan_violations_def c intent_coverage_def executable_units_def)
qed

theorem complete_twin_dropped:
  "pp_action (plan_validator_node pv_env twin_request 0 pv_budget) = ''proceed''
   \<and> pp_change (plan_validator_node pv_env twin_request 0 pv_budget)
     = Replace_nodes [step_on ''report'' ''r'' [(''text'', JStr ''${w1.result.forecast}'')] [''w1'']]"
  unfolding plan_validator_node_def twin_report
  by (simp add: report_action_def of_severity_def surviving_def drop_ops_def twin_request_def ask_plan_def twin_plan_def step_on_def)

text \<open>A request to be notified excludes the operation it asks for.\<close>

theorem notification_excluded:
  "u_negated (build_unit ''send a notification'' 0)
   \<and> ''notification_sender'' \<in> set (unit_candidates \<lparr>ii_keywords = [], ii_aliases = [],
        ii_index = [(''notification_sender'', [])]\<rparr> ''send a notification'')"
  by code_simp

end
