(* ===== verification/Binder.thy ===== *)
theory Binder
  imports Plan_Validator
begin

text \<open>
  \<open>compiler/binder.py\<close>: where each required input of a plan comes from.  The nodes are changed in
  place, so the state of the loop holds the list of nodes and positions stand for object identity.
  The answer of the language model (layer 5) is a parameter.  Schema types are single strings.
\<close>

section \<open>Metadata\<close>

definition produced_artifact_names :: "plan_env \<Rightarrow> string \<Rightarrow> string \<Rightarrow> string list" where
  "produced_artifact_names e producer param =
    filter (\<lambda>p. py_lower p \<in> set (py_lower param # map py_lower (input_aliases e producer param))) (op_strs e producer ''produces'')"

definition schema_types :: "json dict \<Rightarrow> string list" where
  "schema_types m = List.map_filter (\<lambda>p. case snd p of JDict d \<Rightarrow> Some (get_str (JDict d) ''type'' []) | _ \<Rightarrow> None)
     (get_dict (JDict (get_dict (JDict m) ''output_schema'')) ''properties'')"

definition param_type :: "plan_env \<Rightarrow> string \<Rightarrow> string \<Rightarrow> string" where
  "param_type e c p = get_str (dict_get (cap_props (op_meta e c)) p (JDict [])) ''type'' []"

definition type_compatible :: "plan_env \<Rightarrow> string \<Rightarrow> string \<Rightarrow> string \<Rightarrow> bool" where
  "type_compatible e c p producer = (let t = param_type e c p; ts = schema_types (op_meta e producer) in
     t \<notin> {''string'', ''number'', ''integer'', ''boolean''} \<or> ts = []
     \<or> t = ''integer'' \<and> ''number'' \<in> set ts \<or> t \<in> set ts)"

section \<open>Entities\<close>

definition is_upper :: "char \<Rightarrow> bool" where
  "is_upper c = (let n = of_char c :: nat in 65 \<le> n \<and> n \<le> 90)"

definition is_lower_digit :: "char \<Rightarrow> bool" where
  "is_lower_digit c = (let n = of_char c :: nat in (97 \<le> n \<and> n \<le> 122) \<or> (48 \<le> n \<and> n \<le> 57))"

lemma dropWhile_shorter: "takeWhile P cs \<noteq> [] \<Longrightarrow> length (dropWhile P cs) < length cs"
  by (metis add_0 add_less_cancel_right length_append length_greater_0_conv takeWhile_dropWhile_id)

text \<open>\<open>_CAMEL_RE.findall\<close> on letters and digits.\<close>

function camel_words :: "string \<Rightarrow> string list" where
  "camel_words [] = []"
| "camel_words (c # cs) =
    (if is_upper c then (let r = takeWhile is_upper (c # cs); rest = dropWhile is_upper (c # cs) in
       if rest = [] then [r]
       else if 2 \<le> length r then butlast r # camel_words (last r # rest)
       else (c # takeWhile is_lower_digit cs) # camel_words (dropWhile is_lower_digit cs))
     else if is_lower_digit c then takeWhile is_lower_digit (c # cs) # camel_words (dropWhile is_lower_digit cs)
     else camel_words cs)"
  by pat_completeness auto
termination
  by (relation "measure length") (auto simp: length_dropWhile_le less_Suc_eq_le Suc_le_eq intro: dropWhile_shorter)

definition is_alnum :: "char \<Rightarrow> bool" where
  "is_alnum c = (is_upper c \<or> is_lower_digit c)"

definition ref_words :: "string \<Rightarrow> string list" where
  "ref_words ref = map py_lower (filter (\<lambda>w. 2 \<le> length w) (concat (map camel_words (runs is_alnum ref))))"

definition entity_char :: "char \<Rightarrow> bool" where
  "entity_char c = (is_alnum c \<or> c \<in> set ''._/-'')"

text \<open>\<open>[a-zA-Z][a-zA-Z0-9._/-]{2,}\<close>.\<close>

function entity_words :: "string \<Rightarrow> string list" where
  "entity_words [] = []"
| "entity_words (c # cs) = (if is_letter c \<and> 2 \<le> length (takeWhile entity_char cs)
     then (c # takeWhile entity_char cs) # entity_words (dropWhile entity_char cs) else entity_words cs)"
  by pat_completeness auto
termination by (relation "measure length") (auto simp: length_dropWhile_le less_Suc_eq_le)

definition value_tokens :: "(rat \<Rightarrow> string) \<Rightarrow> json \<Rightarrow> string list" where
  "value_tokens fs v = (case v of
      JStr t \<Rightarrow> entity_words (py_lower t)
    | JInt i \<Rightarrow> [py_str fs v] | JFloat x \<Rightarrow> [py_str fs v] | JBool b \<Rightarrow> [py_str fs v] | _ \<Rightarrow> [])"

definition node_tokens :: "(rat \<Rightarrow> string) \<Rightarrow> logical_node \<Rightarrow> string list" where
  "node_tokens fs nd = concat (map (\<lambda>p. value_tokens fs (snd p)) (l_inputs nd)) @ ref_words (l_ref nd)"

definition entity_overlap :: "(rat \<Rightarrow> string) \<Rightarrow> logical_node \<Rightarrow> logical_node \<Rightarrow> nat" where
  "entity_overlap fs a b = length (filter (\<lambda>t. t \<in> set (node_tokens fs b)) (remdups (node_tokens fs a)))"

section \<open>Producers\<close>

text \<open>The producer as its position in the plan; \<open>None\<close> is the ambiguous case.\<close>

definition pick_producer ::
  "(rat \<Rightarrow> string) \<Rightarrow> logical_node list \<Rightarrow> nat \<Rightarrow> nat list \<Rightarrow> nat \<Rightarrow> bool \<Rightarrow> nat option" where
  "pick_producer fs nodes i cs pos reuse = (let
     score = (\<lambda>j. entity_overlap fs (nodes ! i) (nodes ! j));
     scored = sort_key (\<lambda>j. - int (score j)) cs in
     case scored of
       [] \<Rightarrow> None
     | [j] \<Rightarrow> if 0 < pos \<and> score j = 0 \<and> \<not> reuse then None else Some j
     | j # k # _ \<Rightarrow> if 0 < score j \<and> score k < score j then Some j
         else if length scored \<le> pos \<and> \<not> reuse then None
         else Some (scored ! (pos mod length scored)))"

definition producer_candidates :: "plan_env \<Rightarrow> logical_node list \<Rightarrow> nat \<Rightarrow> string \<Rightarrow> nat list" where
  "producer_candidates e nodes i p = filter (\<lambda>j. j \<noteq> i \<and> l_op (nodes ! j) \<noteq> []
     \<and> type_compatible e (l_op (nodes ! i)) p (l_op (nodes ! j))
     \<and> produced_artifact_names e (l_op (nodes ! j)) p \<noteq> []) [0..<length nodes]"

text \<open>All entities of the candidates that the request names are one.\<close>

definition reuse_allowed :: "string \<Rightarrow> logical_node list \<Rightarrow> nat list \<Rightarrow> bool" where
  "reuse_allowed q nodes cs = (length (remdups (concat (map (\<lambda>j. List.map_filter (\<lambda>p. case snd p of
      JStr t \<Rightarrow> if py_strip t \<noteq> [] \<and> contains_str (py_lower t) (py_lower q) then Some (py_lower t) else None
    | _ \<Rightarrow> None) (l_inputs (nodes ! j))) cs))) = 1)"

section \<open>The report\<close>

record param_binding =
  b_target :: string
  b_param :: string
  b_type :: string
  b_source :: "(string \<times> string) option"   \<comment> \<open>node and artifact\<close>

record missing_param =
  m_node :: string
  m_param :: string
  m_state :: string
  m_candidates :: "string list"

record bind_state =
  bs_nodes :: "logical_node list"
  bs_positional :: "nat dict"
  bs_bindings :: "param_binding list"
  bs_missing :: "missing_param list"
  bs_open :: "(string \<times> string) list"    \<comment> \<open>reference and parameter, for the model\<close>

definition shown_name :: "logical_node \<Rightarrow> string" where
  "shown_name nd = (if plan_node_name nd = [] then ''?'' else plan_node_name nd)"

definition artifact_place :: "string \<Rightarrow> string \<Rightarrow> string" where
  "artifact_place ref a = ''${'' @ ref @ ''.result.'' @ a @ ''}''"

definition bind_from_producer :: "logical_node \<Rightarrow> logical_node \<Rightarrow> string \<Rightarrow> string \<Rightarrow> logical_node \<times> param_binding" where
  "bind_from_producer nd producer p a = (let r = shown_name producer in
     (nd\<lparr>l_inputs := AList.update p (JStr (artifact_place r a)) (l_inputs nd),
         l_depends_on := (if r \<in> set (l_depends_on nd) then l_depends_on nd else l_depends_on nd @ [r])\<rparr>,
      \<lparr>b_target = shown_name nd, b_param = p, b_type = ''node_output'', b_source = Some (r, a)\<rparr>))"

definition unplanned_producers :: "plan_env \<Rightarrow> string \<Rightarrow> string list" where
  "unplanned_producers e p = producer_ops e p"

definition bind_param ::
  "plan_env \<Rightarrow> string \<Rightarrow> bool \<Rightarrow> nat \<Rightarrow> bind_state \<times> string list \<Rightarrow> string \<Rightarrow> bind_state \<times> string list" where
  "bind_param e q llm i s p = (let st = fst s; nodes = bs_nodes st; nd = nodes ! i; cs = producer_candidates e nodes i p in
     if p \<in> set (snd s) then s
     else if cs \<noteq> [] then
       (let pos = dict_get (bs_positional st) p 0; st' = st\<lparr>bs_positional := AList.update p (Suc pos) (bs_positional st)\<rparr> in
        case pick_producer (pe_fs e) nodes i cs pos (reuse_allowed q nodes cs) of
          None \<Rightarrow> (st'\<lparr>bs_missing := bs_missing st @ [\<lparr>m_node = plan_node_name nd, m_param = p, m_state = ''AMBIGUOUS'',
              m_candidates = map (\<lambda>j. l_op (nodes ! j)) cs\<rparr>]\<rparr>, snd s)
        | Some j \<Rightarrow> (let b = bind_from_producer nd (nodes ! j) p (hd (produced_artifact_names e (l_op (nodes ! j)) p)) in
            (st'\<lparr>bs_nodes := nodes[i := fst b], bs_bindings := bs_bindings st @ [snd b]\<rparr>, p # snd s)))
     else if llm then (st\<lparr>bs_open := bs_open st @ [(plan_node_name nd, p)]\<rparr>, snd s)
     else (st\<lparr>bs_missing := bs_missing st @ [\<lparr>m_node = plan_node_name nd, m_param = p, m_state = ''MISSING'',
             m_candidates = unplanned_producers e p\<rparr>]\<rparr>, snd s))"

text \<open>Values given for optional inputs that declare a default are dropped.\<close>

definition drop_defaulted :: "plan_env \<Rightarrow> logical_node \<Rightarrow> logical_node" where
  "drop_defaulted e nd = nd\<lparr>l_inputs := filter (\<lambda>p. fst p \<in> set (op_strs e (l_op nd) ''input_required'')
     \<or> (case dict_get (cap_props (op_meta e (l_op nd))) (fst p) JNull of
          JDict prop \<Rightarrow> dict_get prop ''default'' JNull = JNull | _ \<Rightarrow> True)) (l_inputs nd)\<rparr>"

definition bind_node :: "plan_env \<Rightarrow> string \<Rightarrow> bool \<Rightarrow> bind_state \<Rightarrow> nat \<Rightarrow> bind_state" where
  "bind_node e q llm st i = (let nd = bs_nodes st ! i in
     if l_op nd = [] then st
     else (let nd' = drop_defaulted e nd in
       fst (foldl (bind_param e q llm i) (st\<lparr>bs_nodes := (bs_nodes st)[i := nd']\<rparr>, provided_inputs nd')
         (op_strs e (l_op nd) ''input_required''))))"

definition bind_plan :: "plan_env \<Rightarrow> string \<Rightarrow> bool \<Rightarrow> logical_node list \<Rightarrow> bind_state" where
  "bind_plan e q llm nodes = foldl (bind_node e q llm)
     \<lparr>bs_nodes = nodes, bs_positional = [], bs_bindings = [], bs_missing = [], bs_open = []\<rparr> [0..<length nodes]"

section \<open>Extraction by the model\<close>

text \<open>Only values that occur in the request are accepted.\<close>

definition accepted_value :: "(rat \<Rightarrow> string) \<Rightarrow> string \<Rightarrow> json \<Rightarrow> bool" where
  "accepted_value fs q v = ((case v of JStr _ \<Rightarrow> True | JInt _ \<Rightarrow> True | JFloat _ \<Rightarrow> True | _ \<Rightarrow> False)
     \<and> (contains_str (py_lower (py_str fs v)) (py_lower q) \<or> contains_str (py_str fs v) (py_lower q)))"

definition llm_extract_missing ::
  "(rat \<Rightarrow> string) \<Rightarrow> string \<Rightarrow> json dict option \<Rightarrow> reasoning_budget option \<Rightarrow> json dict \<times> reasoning_budget option" where
  "llm_extract_missing fs q answer b = (case b of
      None \<Rightarrow> (case answer of None \<Rightarrow> [] | Some d \<Rightarrow> filter (\<lambda>p. accepted_value fs q (snd p)) d, None)
    | Some b0 \<Rightarrow> (let (b', ok) = consume ''llm_calls'' 1 b0 in
        (if ok then (case answer of None \<Rightarrow> [] | Some d \<Rightarrow> filter (\<lambda>p. accepted_value fs q (snd p)) d) else [], Some b')))"

text \<open>\<open>by_ref\<close>: the last node with a reference; nodes without one are not found.\<close>

definition node_by_ref :: "logical_node list \<Rightarrow> string \<Rightarrow> nat option" where
  "node_by_ref nodes r = (if r = [] then None else find (\<lambda>i. l_ref (nodes ! i) = r) (rev [0..<length nodes]))"

definition extracted_value :: "json dict \<Rightarrow> string \<times> string \<Rightarrow> json" where
  "extracted_value values m = (case dict_get values (fst m @ '':'' @ snd m) JNull of
     JNull \<Rightarrow> dict_get values (snd m) JNull | v \<Rightarrow> v)"

definition bind_extracted :: "json dict \<Rightarrow> bind_state \<Rightarrow> string \<times> string \<Rightarrow> bind_state" where
  "bind_extracted values st m = (let v = extracted_value values m; nodes = bs_nodes st in
     if v = JNull then st\<lparr>bs_missing := bs_missing st @ [\<lparr>m_node = fst m, m_param = snd m, m_state = ''MISSING'', m_candidates = []\<rparr>]\<rparr>
     else (case node_by_ref nodes (fst m) of
         None \<Rightarrow> st
       | Some i \<Rightarrow> st\<lparr>bs_nodes := nodes[i := (nodes ! i)\<lparr>l_inputs := AList.update (snd m) v (l_inputs (nodes ! i))\<rparr>],
           bs_bindings := bs_bindings st @ [\<lparr>b_target = fst m, b_param = snd m, b_type = ''llm'', b_source = None\<rparr>]\<rparr>))"

definition bind_parameters ::
  "plan_env \<Rightarrow> string \<Rightarrow> bool \<Rightarrow> json dict option \<Rightarrow> reasoning_budget option \<Rightarrow> logical_node list
     \<Rightarrow> bind_state \<times> reasoning_budget option" where
  "bind_parameters e q llm answer b nodes = (let st = bind_plan e q llm nodes in
     if bs_open st = [] then (st, b)
     else (let (values, b') = llm_extract_missing (pe_fs e) q answer b in
       (foldl (bind_extracted values) st (bs_open st), b')))"

section \<open>What the loop keeps\<close>

lemma py_strip_nil: "py_strip s = [] \<Longrightarrow> list_all is_space s"
proof -
  assume "py_strip s = []"
  then have d: "list_all is_space (dropWhile is_space s)" by (simp add: py_strip_def list_all_iff)
  then have "dropWhile is_space s = []"
    by (cases "dropWhile is_space s") (auto simp: dropWhile_eq_Cons_conv)
  then show ?thesis by (simp add: list_all_iff)
qed

lemma place_not_blank: "\<not> blank (JStr (artifact_place r a))"
proof
  assume "blank (JStr (artifact_place r a))"
  then have "list_all is_space (artifact_place r a)" by (simp add: blank_def py_strip_nil)
  then show False by (simp add: artifact_place_def is_space_def)
qed

lemma provided_update:
  "\<not> blank v \<Longrightarrow> insert p (set (provided_inputs nd)) \<subseteq> set (provided_inputs (nd\<lparr>l_inputs := AList.update p v (l_inputs nd)\<rparr>))"
proof -
  assume "\<not> blank v"
  then have "insert p (fst ` {x \<in> set d. \<not> blank (snd x)}) \<subseteq> fst ` {x \<in> set (AList.update p v d). \<not> blank (snd x)}" for d
    by (induction d) (auto simp: image_iff)
  then show ?thesis by (simp add: provided_inputs_def)
qed

definition shape :: "logical_node list \<Rightarrow> (string \<times> string) list" where
  "shape nodes = map (\<lambda>n. (l_op n, l_ref n)) nodes"

lemma shape_nth: "shape ns = shape ms \<Longrightarrow> i < length ns \<Longrightarrow> l_op (ns ! i) = l_op (ms ! i) \<and> l_ref (ns ! i) = l_ref (ms ! i)"
  by (metis (no_types, lifting) length_map nth_map prod.inject shape_def)

lemma shape_name: "shape ns = shape ms \<Longrightarrow> i < length ns \<Longrightarrow> plan_node_name (ns ! i) = plan_node_name (ms ! i)"
  using shape_nth by (simp add: plan_node_name_def)

lemma shape_length: "shape ns = shape ms \<Longrightarrow> length ns = length ms"
  by (metis length_map shape_def)

lemma shape_update: "i < length ns \<Longrightarrow> l_op x = l_op (ns ! i) \<Longrightarrow> l_ref x = l_ref (ns ! i) \<Longrightarrow> shape (ns[i := x]) = shape ns"
  by (simp add: shape_def map_update list_update_same_conv)

lemma pick_producer_mem: "pick_producer fs nodes i cs pos reuse = Some j \<Longrightarrow> j \<in> set cs"
proof -
  assume a: "pick_producer fs nodes i cs pos reuse = Some j"
  let ?sc = "sort_key (\<lambda>j. - int (entity_overlap fs (nodes ! i) (nodes ! j))) cs"
  have "j \<in> set ?sc"
  proof (cases ?sc)
    case (Cons x xs)
    then have "cs \<noteq> []" by auto
    then have "?sc ! (pos mod length ?sc) \<in> set ?sc" by (intro nth_mem mod_less_divisor) simp
    with a Cons show ?thesis
      by (auto simp: pick_producer_def Let_def split: list.splits if_splits)
  qed (use a in \<open>simp add: pick_producer_def\<close>)
  then show ?thesis by simp
qed

definition bound_node :: "plan_env \<Rightarrow> logical_node list \<Rightarrow> nat \<Rightarrow> nat \<Rightarrow> string \<Rightarrow> logical_node \<times> param_binding" where
  "bound_node e nodes i j p = bind_from_producer (nodes ! i) (nodes ! j) p (hd (produced_artifact_names e (l_op (nodes ! j)) p))"

text \<open>The four outcomes for a parameter: given, reported, bound, or left to the model.\<close>

lemma bind_param_cases:
  obtains (given) "p \<in> set (snd s)" "bind_param e q llm i s p = s"
  | (reported) m pos where "bind_param e q llm i s p = ((fst s)\<lparr>bs_positional := pos, bs_missing := bs_missing (fst s) @ [m]\<rparr>, snd s)"
      "m_node m = plan_node_name (bs_nodes (fst s) ! i)" "m_param m = p"
  | (bound) j pos where "j \<in> set (producer_candidates e (bs_nodes (fst s)) i p)"
      "bind_param e q llm i s p = ((fst s)\<lparr>bs_positional := pos,
         bs_nodes := (bs_nodes (fst s))[i := fst (bound_node e (bs_nodes (fst s)) i j p)],
         bs_bindings := bs_bindings (fst s) @ [snd (bound_node e (bs_nodes (fst s)) i j p)]\<rparr>, p # snd s)"
  | (model) "llm" "bind_param e q llm i s p = ((fst s)\<lparr>bs_open := bs_open (fst s) @ [(plan_node_name (bs_nodes (fst s) ! i), p)]\<rparr>, snd s)"
proof -
  define st where "st = fst s"
  define cs where "cs = producer_candidates e (bs_nodes st) i p"
  define pos where "pos = AList.update p (Suc (dict_get (bs_positional st) p 0)) (bs_positional st)"
  define pick where "pick = pick_producer (pe_fs e) (bs_nodes st) i cs (dict_get (bs_positional st) p 0) (reuse_allowed q (bs_nodes st) cs)"
  consider (a) "p \<in> set (snd s)" | (b) "p \<notin> set (snd s)" "cs \<noteq> []" "pick = None"
    | (c) j where "p \<notin> set (snd s)" "cs \<noteq> []" "pick = Some j"
    | (d) "p \<notin> set (snd s)" "cs = []" "llm" | (e) "p \<notin> set (snd s)" "cs = []" "\<not> llm"
    by (cases pick) auto
  then show thesis
  proof cases
    case a
    then show thesis by (intro given) (simp_all add: bind_param_def)
  next
    case b
    then show thesis
      by (intro reported [where pos = pos and m = "\<lparr>m_node = plan_node_name (bs_nodes st ! i), m_param = p,
          m_state = ''AMBIGUOUS'', m_candidates = map (\<lambda>j. l_op (bs_nodes st ! j)) cs\<rparr>"]) (simp_all add: bind_param_def Let_def st_def cs_def pos_def pick_def)
  next
    case c
    have "j \<in> set cs" using c(3) pick_producer_mem unfolding pick_def by blast
    with c show thesis
      by (intro bound [of j pos]) (simp_all add: bind_param_def Let_def st_def cs_def pos_def pick_def bound_node_def)
  next
    case d
    then show thesis by (intro model) (simp_all add: bind_param_def Let_def st_def cs_def)
  next
    case e
    then show thesis
      by (intro reported [where pos = "bs_positional st" and m = "\<lparr>m_node = plan_node_name (bs_nodes st ! i), m_param = p,
          m_state = ''MISSING'', m_candidates = unplanned_producers e p\<rparr>"]) (simp_all add: bind_param_def Let_def st_def cs_def)
  qed
qed

lemma bound_node_frame [simp]:
  "l_op (fst (bound_node e nodes i j p)) = l_op (nodes ! i)" "l_ref (fst (bound_node e nodes i j p)) = l_ref (nodes ! i)"
  "fst ` set (l_inputs (fst (bound_node e nodes i j p))) = insert p (fst ` set (l_inputs (nodes ! i)))"
  by (simp_all add: bound_node_def bind_from_producer_def Let_def keys_update)

lemma bound_node_provides:
  "insert p (set (provided_inputs (nodes ! i))) \<subseteq> set (provided_inputs (fst (bound_node e nodes i j p)))"
  using provided_update [OF place_not_blank, of p "nodes ! i"]
  by (simp add: bound_node_def bind_from_producer_def Let_def provided_inputs_def)

text \<open>The properties of the state a parameter keeps.\<close>

definition frame :: "nat \<Rightarrow> string set \<Rightarrow> bind_state \<Rightarrow> bind_state \<Rightarrow> bool" where
  "frame i P st st' = (shape (bs_nodes st') = shape (bs_nodes st) \<and> (\<forall>j. j \<noteq> i \<longrightarrow> bs_nodes st' ! j = bs_nodes st ! j)
     \<and> fst ` set (l_inputs (bs_nodes st' ! i)) \<subseteq> P \<union> fst ` set (l_inputs (bs_nodes st ! i))
     \<and> set (bs_missing st) \<subseteq> set (bs_missing st')
     \<and> set (provided_inputs (bs_nodes st ! i)) \<subseteq> set (provided_inputs (bs_nodes st' ! i)))"

lemma frame_refl: "frame i P st st" by (simp add: frame_def)

lemma frame_trans: "frame i P a b \<Longrightarrow> frame i P b c \<Longrightarrow> frame i P a c"
  by (simp add: frame_def) blast

lemma bind_param_frame:
  assumes "i < length (bs_nodes (fst s))" and "p \<in> P"
  shows "frame i P (fst s) (fst (bind_param e q llm i s p))"
proof (cases rule: bind_param_cases [of p s e q llm i])
  case (bound j pos)
  with assms bound_node_provides [of p "bs_nodes (fst s)" i e j] show ?thesis
    by (auto simp: frame_def shape_update)
qed (auto simp: frame_def)

definition accounted :: "nat \<Rightarrow> bind_state \<Rightarrow> string \<Rightarrow> bool" where
  "accounted i st p = (p \<in> set (provided_inputs (bs_nodes st ! i))
     \<or> list_ex (\<lambda>m. m_node m = plan_node_name (bs_nodes st ! i) \<and> m_param m = p) (bs_missing st))"

lemma accounted_frame:
  assumes "accounted i st p" and "frame i P st st'" and "i < length (bs_nodes st)"
  shows "accounted i st' p"
  using assms shape_name [of "bs_nodes st'" "bs_nodes st" i] shape_length [of "bs_nodes st'" "bs_nodes st"]
  by (auto simp: accounted_def frame_def list_ex_iff)

lemma bind_param_accounts:
  assumes "i < length (bs_nodes (fst s))" and "set (snd s) \<subseteq> set (provided_inputs (bs_nodes (fst s) ! i))"
  shows "set (snd (bind_param e q False i s p)) \<subseteq> set (provided_inputs (bs_nodes (fst (bind_param e q False i s p)) ! i))
    \<and> accounted i (fst (bind_param e q False i s p)) p"
proof (cases rule: bind_param_cases [of p s e q False i])
  case (bound j pos)
  with assms bound_node_provides [of p "bs_nodes (fst s)" i e j] show ?thesis
    by (auto simp: accounted_def)
qed (use assms in \<open>auto simp: accounted_def\<close>)

lemma bind_params_fold:
  assumes "i < length (bs_nodes (fst s))" and "set (snd s) \<subseteq> set (provided_inputs (bs_nodes (fst s) ! i))"
    and "set ps \<subseteq> P"
  shows "frame i P (fst s) (fst (foldl (bind_param e q False i) s ps))
    \<and> (\<forall>p \<in> set ps. accounted i (fst (foldl (bind_param e q False i) s ps)) p)"
  using assms
proof (induction ps arbitrary: s)
  case (Cons p ps)
  let ?t = "bind_param e q False i s p"
  have f: "frame i P (fst s) (fst ?t)" by (rule bind_param_frame [OF Cons.prems(1)]) (use Cons.prems(3) in simp)
  then have "shape (bs_nodes (fst ?t)) = shape (bs_nodes (fst s))" unfolding frame_def by (rule conjunct1)
  then have "length (bs_nodes (fst ?t)) = length (bs_nodes (fst s))" by (rule shape_length)
  with Cons.prems(1) have l: "i < length (bs_nodes (fst ?t))" by simp
  have ps: "set ps \<subseteq> P" using Cons.prems(3) by simp
  note a = bind_param_accounts [OF Cons.prems(1,2), of e q p]
  have ih: "frame i P (fst ?t) (fst (foldl (bind_param e q False i) ?t ps))
    \<and> (\<forall>p \<in> set ps. accounted i (fst (foldl (bind_param e q False i) ?t ps)) p)"
    by (rule Cons.IH [OF l conjunct1 [OF a] ps])
  moreover have "accounted i (fst (foldl (bind_param e q False i) ?t ps)) p"
    by (rule accounted_frame [OF conjunct2 [OF a] conjunct1 [OF ih] l])
  ultimately show ?case using frame_trans [OF f] by simp
qed (simp add: frame_refl)

definition bind_step :: "plan_env \<Rightarrow> nat \<Rightarrow> bind_state \<Rightarrow> bind_state \<Rightarrow> bool" where
  "bind_step e i st st' = (shape (bs_nodes st') = shape (bs_nodes st) \<and> (\<forall>j. j \<noteq> i \<longrightarrow> bs_nodes st' ! j = bs_nodes st ! j)
     \<and> set (bs_missing st) \<subseteq> set (bs_missing st')
     \<and> (l_op (bs_nodes st ! i) \<noteq> [] \<longrightarrow>
          (\<forall>p \<in> set (op_strs e (l_op (bs_nodes st ! i)) ''input_required''). accounted i st' p)
          \<and> fst ` set (l_inputs (bs_nodes st' ! i)) \<subseteq> set (op_strs e (l_op (bs_nodes st ! i)) ''input_required'')
              \<union> fst ` set (l_inputs (drop_defaulted e (bs_nodes st ! i)))))"

lemma bind_node_step:
  assumes "i < length (bs_nodes st)"
  shows "bind_step e i st (bind_node e q False st i)"
proof (cases "l_op (bs_nodes st ! i) = []")
  case False
  define nd where "nd = drop_defaulted e (bs_nodes st ! i)"
  define st1 where "st1 = st\<lparr>bs_nodes := (bs_nodes st)[i := nd]\<rparr>"
  define req where "req = op_strs e (l_op (bs_nodes st ! i)) ''input_required''"
  define st' where "st' = fst (foldl (bind_param e q False i) (st1, provided_inputs nd) req)"
  have n: "bind_node e q False st i = st'"
    using False by (simp add: bind_node_def Let_def st'_def st1_def nd_def req_def)
  have at_i: "bs_nodes st1 ! i = nd" using assms by (simp add: st1_def)
  have sh: "shape (bs_nodes st1) = shape (bs_nodes st)"
    using assms by (simp add: st1_def nd_def drop_defaulted_def shape_update)
  have l: "i < length (bs_nodes st1)" using assms by (simp add: st1_def)
  have f: "frame i (set req) st1 st' \<and> (\<forall>p \<in> set req. accounted i st' p)"
    using bind_params_fold [of i "(st1, provided_inputs nd)" req "set req" e q] l at_i by (simp add: st'_def)
  have others: "bs_nodes st' ! j = bs_nodes st ! j" if "j \<noteq> i" for j
    using f that by (simp add: frame_def st1_def)
  have m: "set (bs_missing st) \<subseteq> set (bs_missing st')" using f by (simp add: frame_def st1_def)
  have inp: "fst ` set (l_inputs (bs_nodes st' ! i)) \<subseteq> set req \<union> fst ` set (l_inputs nd)"
    using f at_i by (simp add: frame_def)
  have s': "shape (bs_nodes st') = shape (bs_nodes st)" using f sh by (simp add: frame_def)
  show ?thesis unfolding n bind_step_def
    using s' others m f inp by (simp add: req_def nd_def)
qed (simp add: bind_node_def bind_step_def Let_def)

lemma bind_plan_steps:
  assumes "m \<le> length nodes"
  defines "st0 \<equiv> \<lparr>bs_nodes = nodes, bs_positional = [], bs_bindings = [], bs_missing = [], bs_open = []\<rparr>"
  shows "shape (bs_nodes (foldl (bind_node e q False) st0 [0..<m])) = shape nodes
    \<and> (\<forall>j \<ge> m. bs_nodes (foldl (bind_node e q False) st0 [0..<m]) ! j = nodes ! j)
    \<and> (\<forall>i < m. l_op (nodes ! i) \<noteq> [] \<longrightarrow>
         (\<forall>p \<in> set (op_strs e (l_op (nodes ! i)) ''input_required'').
            accounted i (foldl (bind_node e q False) st0 [0..<m]) p)
         \<and> fst ` set (l_inputs (bs_nodes (foldl (bind_node e q False) st0 [0..<m]) ! i))
             \<subseteq> set (op_strs e (l_op (nodes ! i)) ''input_required'') \<union> fst ` set (l_inputs (drop_defaulted e (nodes ! i))))"
  using assms(1)
proof (induction m)
  case (Suc m)
  define a where "a = foldl (bind_node e q False) st0 [0..<m]"
  define b where "b = bind_node e q False a m"
  have ab: "foldl (bind_node e q False) st0 [0..<Suc m] = b" by (simp add: a_def b_def)
  have ih: "shape (bs_nodes a) = shape nodes" "\<And>j. m \<le> j \<Longrightarrow> bs_nodes a ! j = nodes ! j"
    "\<And>i p. i < m \<Longrightarrow> l_op (nodes ! i) \<noteq> [] \<Longrightarrow> p \<in> set (op_strs e (l_op (nodes ! i)) ''input_required'') \<Longrightarrow> accounted i a p"
    "\<And>i. i < m \<Longrightarrow> l_op (nodes ! i) \<noteq> [] \<Longrightarrow> fst ` set (l_inputs (bs_nodes a ! i))
        \<subseteq> set (op_strs e (l_op (nodes ! i)) ''input_required'') \<union> fst ` set (l_inputs (drop_defaulted e (nodes ! i)))"
    using Suc unfolding a_def by auto
  have la: "length (bs_nodes a) = length nodes" using shape_length [OF ih(1)] .
  have st: "bind_step e m a b" unfolding b_def by (rule bind_node_step) (use la Suc.prems in simp)
  have am: "bs_nodes a ! m = nodes ! m" using ih(2) by simp
  have sh: "shape (bs_nodes b) = shape nodes" using st ih(1) by (simp add: bind_step_def)
  have "accounted i b p" if i: "i < m" "l_op (nodes ! i) \<noteq> []" "p \<in> set (op_strs e (l_op (nodes ! i)) ''input_required'')" for i p
  proof -
    have "bs_nodes b ! i = bs_nodes a ! i" "set (bs_missing a) \<subseteq> set (bs_missing b)"
      using st i(1) by (auto simp: bind_step_def)
    then show ?thesis using ih(3) [OF i] by (auto simp: accounted_def list_ex_iff)
  qed
  moreover have "bs_nodes b ! i = bs_nodes a ! i" if "i \<noteq> m" for i using st that by (simp add: bind_step_def)
  ultimately show ?case unfolding ab
    using sh st am ih(2,4) unfolding bind_step_def by (auto simp: less_Suc_eq)
qed (simp add: st0_def)

lemma bind_plan_facts:
  assumes "i < length nodes"
  shows "plan_node_name (bs_nodes (bind_plan e q False nodes) ! i) = plan_node_name (nodes ! i)"
    and "l_op (bs_nodes (bind_plan e q False nodes) ! i) = l_op (nodes ! i)"
    and "l_op (nodes ! i) \<noteq> [] \<Longrightarrow> p \<in> set (op_strs e (l_op (nodes ! i)) ''input_required'')
      \<Longrightarrow> accounted i (bind_plan e q False nodes) p"
    and "l_op (nodes ! i) \<noteq> [] \<Longrightarrow> fst ` set (l_inputs (bs_nodes (bind_plan e q False nodes) ! i))
             \<subseteq> set (op_strs e (l_op (nodes ! i)) ''input_required'') \<union> fst ` set (l_inputs (drop_defaulted e (nodes ! i)))"
proof -
  note f = bind_plan_steps [of "length nodes" nodes e q, folded bind_plan_def]
  have sh: "shape (bs_nodes (bind_plan e q False nodes)) = shape nodes" using f by blast
  have l: "i < length (bs_nodes (bind_plan e q False nodes))" using assms shape_length [OF sh] by simp
  show "plan_node_name (bs_nodes (bind_plan e q False nodes) ! i) = plan_node_name (nodes ! i)" by (rule shape_name [OF sh l])
  show "l_op (bs_nodes (bind_plan e q False nodes) ! i) = l_op (nodes ! i)" using shape_nth [OF sh l] by simp
  show "l_op (nodes ! i) \<noteq> [] \<Longrightarrow> p \<in> set (op_strs e (l_op (nodes ! i)) ''input_required'')
      \<Longrightarrow> accounted i (bind_plan e q False nodes) p" using f assms by blast
  show "l_op (nodes ! i) \<noteq> [] \<Longrightarrow> fst ` set (l_inputs (bs_nodes (bind_plan e q False nodes) ! i))
             \<subseteq> set (op_strs e (l_op (nodes ! i)) ''input_required'') \<union> fst ` set (l_inputs (drop_defaulted e (nodes ! i)))"
    using f assms by blast
qed

section \<open>Properties\<close>

text \<open>
  Without the model, every required input of every operation is provided in the end or reported
  as missing: nothing is left out silently.
\<close>

theorem every_required_accounted:
  assumes "i < length nodes" and "l_op (nodes ! i) \<noteq> []"
    and "p \<in> set (op_strs e (l_op (nodes ! i)) ''input_required'')"
  shows "p \<in> set (provided_inputs (bs_nodes (bind_plan e q False nodes) ! i))
    \<or> list_ex (\<lambda>m. m_node m = plan_node_name (nodes ! i) \<and> m_param m = p) (bs_missing (bind_plan e q False nodes))"
  using bind_plan_facts(3) [OF assms] bind_plan_facts(1) [OF assms(1)] by (simp add: accounted_def)

text \<open>
  A plan for which the binder reports nothing missing has no missing input for the validator
  either.
\<close>

theorem bound_plan_has_inputs:
  assumes "bs_missing (bind_plan e q False nodes) = []"
    and "pr_nodes r = bs_nodes (bind_plan e q False nodes)"
  shows "missing_check e r = []"
proof -
  let ?st = "bind_plan e q False nodes"
  have len: "length (bs_nodes ?st) = length nodes"
    using bind_plan_steps [of "length nodes" nodes e q, folded bind_plan_def] shape_length by blast
  have "missing_inputs e (l_op (bs_nodes ?st ! i)) (provided_inputs (bs_nodes ?st ! i)) = []"
    if i: "i < length nodes" for i
  proof (cases "l_op (nodes ! i) = []")
    case False
    have "p \<in> set (provided_inputs (bs_nodes ?st ! i))" if "p \<in> set (op_strs e (l_op (nodes ! i)) ''input_required'')" for p
      using bind_plan_facts(3) [OF i False that, where q = q] assms(1) by (simp add: accounted_def)
    then show ?thesis by (auto simp: missing_inputs_def filter_empty_conv bind_plan_facts(2) [OF i])
  qed (simp add: missing_inputs_def bind_plan_facts(2) [OF i])
  then show ?thesis
    by (auto simp: missing_check_def assms(2) in_set_enumerate_eq len)
qed

text \<open>
  A value given for an optional input that declares a default never survives, also when the user
  gave it.
\<close>

theorem optional_value_dropped:
  assumes "i < length nodes" and "l_op (nodes ! i) \<noteq> []"
    and "k \<notin> set (op_strs e (l_op (nodes ! i)) ''input_required'')"
    and "dict_get (cap_props (op_meta e (l_op (nodes ! i)))) k JNull = JDict pd" and "dict_get pd ''default'' JNull \<noteq> JNull"
  shows "k \<notin> fst ` set (l_inputs (bs_nodes (bind_plan e q False nodes) ! i))"
proof -
  have "k \<notin> fst ` set (l_inputs (drop_defaulted e (nodes ! i)))"
    using assms(3-5) by (auto simp: drop_defaulted_def)
  with bind_plan_facts(4) [OF assms(1,2)] assms(3) show ?thesis by blast
qed

text \<open>What a recorded binding says of the plan.\<close>

definition sound_binding :: "plan_env \<Rightarrow> logical_node list \<Rightarrow> param_binding \<Rightarrow> bool" where
  "sound_binding e nodes b = (\<exists>i j a. i < length nodes \<and> j < length nodes \<and> i \<noteq> j
     \<and> b_target b = shown_name (nodes ! i) \<and> b_source b = Some (shown_name (nodes ! j), a)
     \<and> b_param b \<in> set (op_strs e (l_op (nodes ! i)) ''input_required'')
     \<and> a \<in> set (op_strs e (l_op (nodes ! j)) ''produces'')
     \<and> type_compatible e (l_op (nodes ! i)) (b_param b) (l_op (nodes ! j)))"

definition sound_state :: "plan_env \<Rightarrow> logical_node list \<Rightarrow> bind_state \<Rightarrow> bool" where
  "sound_state e nodes st = (shape (bs_nodes st) = shape nodes \<and> (\<forall>b \<in> set (bs_bindings st). sound_binding e nodes b))"

lemma shape_shown: "shape ns = shape ms \<Longrightarrow> i < length ns \<Longrightarrow> shown_name (ns ! i) = shown_name (ms ! i)"
  by (simp add: shown_name_def shape_name [of ns ms])

lemma bind_param_sound:
  assumes "sound_state e nodes (fst s)" and "i < length nodes"
    and "p \<in> set (op_strs e (l_op (nodes ! i)) ''input_required'')"
  shows "sound_state e nodes (fst (bind_param e q llm i s p))"
proof (cases rule: bind_param_cases [of p s e q llm i])
  case (bound j pos)
  define ns where "ns = bs_nodes (fst s)"
  have sh: "shape ns = shape nodes" using assms(1) by (simp add: sound_state_def ns_def)
  have len: "length ns = length nodes" using shape_length [OF sh] .
  from bound(1) have j: "j \<noteq> i" "j < length nodes" "type_compatible e (l_op (ns ! i)) p (l_op (ns ! j))"
    "produced_artifact_names e (l_op (ns ! j)) p \<noteq> []"
    by (auto simp: producer_candidates_def ns_def [symmetric] len)
  have op: "l_op (ns ! i) = l_op (nodes ! i)" "l_op (ns ! j) = l_op (nodes ! j)"
    using shape_nth [OF sh] assms(2) j(2) len by simp_all
  have "hd (produced_artifact_names e (l_op (ns ! j)) p) \<in> set (produced_artifact_names e (l_op (ns ! j)) p)"
    using j(4) by simp
  then have a: "hd (produced_artifact_names e (l_op (ns ! j)) p) \<in> set (op_strs e (l_op (nodes ! j)) ''produces'')"
    by (simp add: produced_artifact_names_def op)
  have "sound_binding e nodes (snd (bound_node e ns i j p))"
    unfolding sound_binding_def
    using assms(2,3) j op a shape_shown [OF sh] len
    by (intro exI [of _ i] exI [of _ j] exI [of _ "hd (produced_artifact_names e (l_op (ns ! j)) p)"])
      (simp add: bound_node_def bind_from_producer_def Let_def)
  then show ?thesis
    using assms bound(2) sh len unfolding sound_state_def ns_def
    by (simp add: shape_update)
qed (use assms in \<open>simp_all add: sound_state_def\<close>)

lemma bind_node_sound:
  assumes "sound_state e nodes st" and "i < length nodes"
  shows "sound_state e nodes (bind_node e q llm st i)"
proof (cases "l_op (bs_nodes st ! i) = []")
  case False
  have sh: "shape (bs_nodes st) = shape nodes" using assms(1) by (simp add: sound_state_def)
  have len: "length (bs_nodes st) = length nodes" using shape_length [OF sh] .
  have op: "l_op (bs_nodes st ! i) = l_op (nodes ! i)" using shape_nth [OF sh] assms(2) len by simp
  have fold: "sound_state e nodes (fst (foldl (bind_param e q llm i) s ps))"
    if "sound_state e nodes (fst s)" "set ps \<subseteq> set (op_strs e (l_op (nodes ! i)) ''input_required'')" for s ps
    using that by (induction ps arbitrary: s) (simp_all add: bind_param_sound assms(2))
  have "sound_state e nodes (st\<lparr>bs_nodes := (bs_nodes st)[i := drop_defaulted e (bs_nodes st ! i)]\<rparr>)"
    using assms sh len by (simp add: sound_state_def shape_update drop_defaulted_def)
  then show ?thesis
    using False by (simp add: bind_node_def Let_def op fold)
qed (simp add: bind_node_def Let_def assms(1))

text \<open>
  Every binding the binder records joins two different nodes of the plan, for a required input of
  the one and an artifact the other is registered to produce, of a compatible type.
\<close>

theorem bindings_sound:
  "list_all (sound_binding e nodes) (bs_bindings (bind_plan e q llm nodes))"
proof -
  have "sound_state e nodes (foldl (bind_node e q llm) st is)"
    if "sound_state e nodes st" "set is \<subseteq> {..<length nodes}" for st "is"
    using that by (induction "is" arbitrary: st) (simp_all add: bind_node_sound)
  moreover have "sound_state e nodes \<lparr>bs_nodes = nodes, bs_positional = [], bs_bindings = [], bs_missing = [], bs_open = []\<rparr>"
    by (simp add: sound_state_def)
  moreover have "set [0..<length nodes] \<subseteq> {..<length nodes}" by auto
  ultimately have "sound_state e nodes (bind_plan e q llm nodes)" unfolding bind_plan_def by blast
  then show ?thesis by (simp add: sound_state_def list_all_iff)
qed

section \<open>Concrete plans\<close>

definition cap_entry :: "string list \<Rightarrow> string list \<Rightarrow> (string \<times> json) list \<Rightarrow> json dict" where
  "cap_entry req outs props = [(''input_required'', JList (map JStr req)), (''produces'', JList (map JStr outs)),
     (''input_schema'', JDict [(''properties'', JDict props)])]"

definition bind_env :: "(string \<times> json dict) list \<Rightarrow> plan_env" where
  "bind_env ix = pv_env\<lparr>pe_index := \<lparr>ii_keywords = [], ii_aliases = [], ii_index = ix\<rparr>\<rparr>"

definition geo_env :: plan_env where
  "geo_env = bind_env [(''geocode'', cap_entry [''place''] [''latitude''] []), (''weather'', cap_entry [''latitude''] [''place''] []),
     (''tags'', cap_entry [''repo''] [] [(''namespace'', JDict [(''default'', JStr ''library'')])])]"

text \<open>Two operations that each produce the input of the other are bound to each other.\<close>

theorem binder_creates_cycle:
  "find_cycle [step_on ''geocode'' ''g'' [] [], step_on ''weather'' ''w'' [] []] = []
   \<and> find_cycle (bs_nodes (bind_plan geo_env [] False [step_on ''geocode'' ''g'' [] [], step_on ''weather'' ''w'' [] []]))
       = [''g'', ''w'', ''g'']"
  by code_simp

text \<open>
  Of two consumers, the first takes the second producer because it shares an entity with it, and the
  other, which shares none, takes the same one by position; the first producer is not used at all.
\<close>

definition pair_plan :: "logical_node list" where
  "pair_plan = [step_on ''geocode'' ''a'' [(''place'', JInt 1)] [], step_on ''geocode'' ''b'' [(''place'', JInt 2)] [],
     step_on ''weather'' ''c'' [(''zone'', JInt 2)] [], step_on ''weather'' ''d'' [] []]"

theorem positional_pairing_reuses_producer:
  "map (\<lambda>b. (b_target b, b_source b)) (bs_bindings (bind_plan geo_env [] False pair_plan))
     = [(''c'', Some (''b'', ''latitude'')), (''d'', Some (''b'', ''latitude''))]
   \<and> bs_missing (bind_plan geo_env [] False pair_plan) = []"
  by code_simp

text \<open>
  A value the model extracts for a node without reference is lost: the input is neither bound nor
  reported as missing.
\<close>

theorem extracted_value_lost:
  "let st = fst (bind_parameters geo_env ''weather at 33'' True (Some [(''weather:latitude'', JInt 33)]) None
       [step_on ''weather'' [] [] []])
   in bs_bindings st = [] \<and> bs_missing st = [] \<and> map l_inputs (bs_nodes st) = [[]]"
  by code_simp

text \<open>An empty text occurs in every request, so it is bound as an extracted value.\<close>

lemma starts_with_nil [simp]: "starts_with [] s"
  by (simp add: starts_with_def)

lemma contains_nil [simp]: "contains_str [] s"
  by (cases s) simp_all

theorem blank_value_accepted: "accepted_value fs q (JStr [])"
  by (simp add: accepted_value_def py_str_def py_lower_def)

text \<open>The aliases are read from the producer: those the consumer declares are not used.\<close>

definition alias_env :: plan_env where
  "alias_env = bind_env [(''geocode'', cap_entry [] [''lat''] []),
     (''weather'', cap_entry [''latitude''] [] [] @ [(''input_aliases'', JDict [(''latitude'', JList [JStr ''lat''])])])]"

theorem consumer_aliases_unused:
  "map m_state (bs_missing (bind_plan alias_env [] False [step_on ''geocode'' ''g'' [] [], step_on ''weather'' ''w'' [] []]))
     = [''MISSING'']"
  by code_simp

theorem every_required_accounted_witness:
  "''latitude'' \<in> set (provided_inputs (bs_nodes (bind_plan geo_env [] False pair_plan) ! 3))"
proof -
  have h: "3 < length pair_plan" "l_op (pair_plan ! 3) \<noteq> []"
    "''latitude'' \<in> set (op_strs geo_env (l_op (pair_plan ! 3)) ''input_required'')" by code_simp+
  have "bs_missing (bind_plan geo_env [] False pair_plan) = []" by code_simp
  with every_required_accounted [OF h, where q = "[]"] show ?thesis by simp
qed

theorem bound_plan_has_inputs_witness:
  "missing_check geo_env (ask_plan [] (bs_nodes (bind_plan geo_env [] False pair_plan)) []) = []"
proof (rule bound_plan_has_inputs [where q = "[]" and nodes = pair_plan])
  show "bs_missing (bind_plan geo_env [] False pair_plan) = []" by code_simp
qed (simp add: ask_plan_def)

definition tags_plan :: "logical_node list" where
  "tags_plan = [step_on ''tags'' ''t'' [(''repo'', JStr ''app''), (''namespace'', JStr ''mine'')] []]"

theorem optional_value_dropped_witness:
  "''namespace'' \<notin> fst ` set (l_inputs (bs_nodes (bind_plan geo_env ''tags of app in namespace mine'' False tags_plan) ! 0))"
  by (rule optional_value_dropped [where pd = "[(''default'', JStr ''library'')]"]) code_simp+

end
