(* ===== verification/Task_Queue.thy ===== *)
theory Task_Queue
  imports Tasks
begin

text \<open>
  The Redis Streams queue (\<open>providers/queue/redis_streams.py\<close>) and the system it forms with
  the worker of \<open>Tasks\<close>.  The server is its documented commands: \<open>XADD\<close> appends
  an entry, \<open>XREADGROUP\<close> hands the consumer group its next new entry and lists it as pending,
  \<open>XACK\<close> removes it from the pending list, \<open>XCLAIM\<close> hands a pending entry over once it
  has been idle long enough.  Entry number \<open>n\<close> has the id \<open>ids n\<close> given by the
  server; \<open>loads\<close> is the JSON parser.  Times are milliseconds for the queue.
\<close>

section \<open>The stream and its consumer group\<close>

type_synonym entry_fields = "(string \<times> string) list"

text \<open>The group: how many entries were handed out, and the pending ones (number, consumer, time).\<close>

record stream_group =
  g_next :: nat
  g_pending :: "(nat \<times> string \<times> int) list"

record redis_stream =
  s_entries :: "entry_fields list"
  s_group :: "stream_group option"

definition empty_stream :: redis_stream where
  "empty_stream = \<lparr>s_entries = [], s_group = None\<rparr>"

definition xadd :: "entry_fields \<Rightarrow> redis_stream \<Rightarrow> redis_stream" where
  "xadd fs s = s\<lparr>s_entries := s_entries s @ [fs]\<rparr>"

definition xack :: "(nat \<Rightarrow> string) \<Rightarrow> string \<Rightarrow> redis_stream \<Rightarrow> redis_stream" where
  "xack ids e s = s\<lparr>s_group := map_option
     (\<lambda>g. g\<lparr>g_pending := filter (\<lambda>p. ids (fst p) \<noteq> e) (g_pending g)\<rparr>) (s_group s)\<rparr>"

definition xclaim :: "int \<Rightarrow> string \<Rightarrow> int \<Rightarrow> nat \<Rightarrow> stream_group \<Rightarrow> stream_group \<times> bool" where
  "xclaim now consumer min_idle n g =
    (case map_of (g_pending g) n of
       None \<Rightarrow> (g, False)
     | Some (c, t) \<Rightarrow> if now - t < min_idle then (g, False)
         else (g\<lparr>g_pending := AList.update n (consumer, now) (g_pending g)\<rparr>, True))"

definition xreadgroup :: "int \<Rightarrow> string \<Rightarrow> entry_fields list \<Rightarrow> stream_group \<Rightarrow> stream_group \<times> nat option" where
  "xreadgroup now consumer es g =
    (if g_next g < length es
     then (\<lparr>g_next = Suc (g_next g), g_pending = g_pending g @ [(g_next g, consumer, now)]\<rparr>, Some (g_next g))
     else (g, None))"

section \<open>The queue\<close>

text \<open>
  An element of the client's answer to \<open>XCLAIM\<close>: the client documents pairs of an id and
  the fields; the code reads the element as the fields.
\<close>

datatype claim_item = Pair_item string entry_fields | Fields_item entry_fields

definition decode :: "(string \<Rightarrow> json option) \<Rightarrow> string \<Rightarrow> entry_fields \<Rightarrow> (string \<times> string \<times> json) option" where
  "decode loads e fs = (let tid = dict_get fs ''task_id'' [] in
     if tid = [] then None
     else Some (tid, e, case loads (dict_get fs ''payload'' ''{}'') of None \<Rightarrow> JDict [] | Some v \<Rightarrow> v))"

text \<open>A pair has no \<open>get\<close>: decoding it raises, and \<open>claim\<close> then returns \<open>None\<close>.\<close>

definition decode_item ::
  "(string \<Rightarrow> json option) \<Rightarrow> string \<Rightarrow> claim_item \<Rightarrow> (string \<times> string \<times> json) option" where
  "decode_item loads e item = (case item of Pair_item _ _ \<Rightarrow> None | Fields_item fs \<Rightarrow> decode loads e fs)"

definition queue_enqueue :: "bool \<Rightarrow> string \<Rightarrow> string \<Rightarrow> redis_stream \<Rightarrow> redis_stream" where
  "queue_enqueue up tid text_payload s =
    (if up then xadd [(''task_id'', tid), (''payload'', text_payload)] s else s)"

definition ensure_group :: "bool \<Rightarrow> redis_stream \<Rightarrow> redis_stream" where
  "ensure_group up s = (if up \<and> s_group s = None
     then s\<lparr>s_group := Some \<lparr>g_next = 0, g_pending = []\<rparr>\<rparr> else s)"

text \<open>Which of the commands of one \<open>claim\<close> the server answers; one that fails has no effect.\<close>

record redis_up =
  up_group :: bool
  up_pending :: bool
  up_claim :: bool
  up_read :: bool

definition read_new ::
  "(nat \<Rightarrow> string) \<Rightarrow> (string \<Rightarrow> json option) \<Rightarrow> bool \<Rightarrow> int \<Rightarrow> string \<Rightarrow> redis_stream \<Rightarrow> stream_group
     \<Rightarrow> redis_stream \<times> (string \<times> string \<times> json) option" where
  "read_new ids loads up now consumer s g =
    (if \<not> up then (s, None)
     else case xreadgroup now consumer (s_entries s) g of
       (g', None) \<Rightarrow> (s\<lparr>s_group := Some g'\<rparr>, None)
     | (g', Some n) \<Rightarrow> (s\<lparr>s_group := Some g'\<rparr>, decode loads (ids n) (s_entries s ! n)))"

definition claim_in_group ::
  "(nat \<Rightarrow> string) \<Rightarrow> (string \<Rightarrow> entry_fields \<Rightarrow> claim_item) \<Rightarrow> (string \<Rightarrow> json option) \<Rightarrow> redis_up \<Rightarrow> int \<Rightarrow> string
     \<Rightarrow> redis_stream \<Rightarrow> stream_group \<Rightarrow> redis_stream \<times> (string \<times> string \<times> json) option" where
  "claim_in_group ids item loads up now consumer s g =
    (case g_pending g of
       [] \<Rightarrow> read_new ids loads (up_read up) now consumer s g
     | (n, _) # _ \<Rightarrow>
        if \<not> up_claim up then (s, None)
        else (case xclaim now consumer 30000 n g of
            (g', True) \<Rightarrow> (s\<lparr>s_group := Some g'\<rparr>, decode_item loads (ids n) (item (ids n) (s_entries s ! n)))
          | (g', False) \<Rightarrow> read_new ids loads (up_read up) now consumer s g))"

definition queue_claim ::
  "(nat \<Rightarrow> string) \<Rightarrow> (string \<Rightarrow> entry_fields \<Rightarrow> claim_item) \<Rightarrow> (string \<Rightarrow> json option) \<Rightarrow> redis_up \<Rightarrow> int \<Rightarrow> string
     \<Rightarrow> redis_stream \<Rightarrow> redis_stream \<times> (string \<times> string \<times> json) option" where
  "queue_claim ids item loads up now consumer s0 = (let s = ensure_group (up_group up) s0 in
    case s_group s of
      None \<Rightarrow> (s, None)
    | Some g \<Rightarrow> if up_pending up then claim_in_group ids item loads up now consumer s g else (s, None))"

definition queue_ack :: "(nat \<Rightarrow> string) \<Rightarrow> bool \<Rightarrow> string \<Rightarrow> redis_stream \<Rightarrow> redis_stream" where
  "queue_ack ids up e s = (if up then xack ids e s else s)"

text \<open>\<open>nack\<close> acknowledges the entry and adds a copy of it; nothing in the repository calls it.\<close>

definition queue_nack :: "(nat \<Rightarrow> string) \<Rightarrow> string \<Rightarrow> redis_stream \<Rightarrow> redis_stream" where
  "queue_nack ids e s = (let s1 = xack ids e s in
     case filter (\<lambda>n. ids n = e) [0..<length (s_entries s1)] of
       [] \<Rightarrow> s1
     | n # _ \<Rightarrow> xadd (s_entries s1 ! n) s1)"

section \<open>Queue, workers and table together\<close>

record task_system =
  y_stream :: redis_stream
  y_table :: task_table

text \<open>One turn of a worker: who, when, what answers, and what its executor would do.\<close>

record worker_turn =
  u_worker :: string
  u_executors :: "string list"
  u_now :: int
  u_later :: int
  u_redis :: redis_up
  u_ack_up :: bool
  u_db :: "bool \<times> bool"
  u_during :: "task_table \<Rightarrow> task_table"
  u_outcome :: exec_outcome

text \<open>\<open>Worker.run_once\<close> on the queue: the entry claimed is handed to the run, its acknowledgements go to the stream.\<close>

definition worker_turn_step ::
  "(nat \<Rightarrow> string) \<Rightarrow> (string \<Rightarrow> entry_fields \<Rightarrow> claim_item) \<Rightarrow> (string \<Rightarrow> json option) \<Rightarrow> int \<Rightarrow> worker_turn
     \<Rightarrow> task_system \<Rightarrow> task_system \<times> string list" where
  "worker_turn_step ids item loads l u y =
    (let c = queue_claim ids item loads (u_redis u) (1000 * u_now u) (u_worker u) (y_stream y);
         r = run_once (u_db u) (u_worker u) l (u_executors u) (u_now u) (u_later u) (u_during u) (u_outcome u)
               (map_option (\<lambda>(tid, e, _). (tid, e)) (snd c)) \<lparr>w_tasks = y_table y, w_acked = []\<rparr>
     in (\<lparr>y_stream = fold (queue_ack ids (u_ack_up u)) (w_acked (fst r)) (fst c), y_table = w_tasks (fst r)\<rparr>,
         case (snd c, snd r) of (Some (tid, _), Executed _) \<Rightarrow> [tid] | _ \<Rightarrow> []))"

datatype system_op = SEnqueue bool string string | STable task_op | STurn worker_turn

text \<open>One operation, and the task whose executor it ran.\<close>

fun system_step ::
  "(nat \<Rightarrow> string) \<Rightarrow> (string \<Rightarrow> entry_fields \<Rightarrow> claim_item) \<Rightarrow> (string \<Rightarrow> json option) \<Rightarrow> int \<Rightarrow> system_op
     \<Rightarrow> task_system \<Rightarrow> task_system \<times> string list" where
  "system_step ids item loads l (SEnqueue up tid p) y = (y\<lparr>y_stream := queue_enqueue up tid p (y_stream y)\<rparr>, [])"
| "system_step ids item loads l (STable op) y = (y\<lparr>y_table := fst (task_step l op (y_table y))\<rparr>, [])"
| "system_step ids item loads l (STurn u) y = worker_turn_step ids item loads l u y"

fun system_run ::
  "(nat \<Rightarrow> string) \<Rightarrow> (string \<Rightarrow> entry_fields \<Rightarrow> claim_item) \<Rightarrow> (string \<Rightarrow> json option) \<Rightarrow> int \<Rightarrow> system_op list
     \<Rightarrow> task_system \<Rightarrow> task_system \<times> string list" where
  "system_run ids item loads l [] y = (y, [])"
| "system_run ids item loads l (op # ops) y =
    (let r = system_step ids item loads l op y; rs = system_run ids item loads l ops (fst r)
     in (fst rs, snd r @ snd rs))"

fun enqueued_task :: "system_op \<Rightarrow> string list" where
  "enqueued_task (SEnqueue up tid p) = (if up then [tid] else [])"
| "enqueued_task _ = []"

section \<open>What is handed out\<close>

text \<open>The tasks named by the entries handed to the group so far.\<close>

definition entry_task :: "entry_fields \<Rightarrow> string" where
  "entry_task fs = dict_get fs ''task_id'' []"

definition handed_out :: "redis_stream \<Rightarrow> string list" where
  "handed_out s = (case s_group s of None \<Rightarrow> [] | Some g \<Rightarrow> map entry_task (take (g_next g) (s_entries s)))"

definition stream_ok :: "redis_stream \<Rightarrow> bool" where
  "stream_ok s = (case s_group s of None \<Rightarrow> True | Some g \<Rightarrow> g_next g \<le> length (s_entries s))"

lemma xclaim_next [simp]: "g_next (fst (xclaim now c m n g)) = g_next g"
  by (simp add: xclaim_def split: option.split prod.split)

lemma handed_out_ensure [simp]: "handed_out (ensure_group up s) = handed_out s"
  by (simp add: handed_out_def ensure_group_def)

lemma stream_ok_ensure [simp]: "stream_ok (ensure_group up s) = stream_ok s"
  by (simp add: stream_ok_def ensure_group_def)

lemma entries_ensure [simp]: "s_entries (ensure_group up s) = s_entries s"
  by (simp add: ensure_group_def)

lemma decode_task: "decode loads e fs = Some (tid, e', v) \<Longrightarrow> tid = entry_task fs \<and> e' = e"
  by (auto simp: decode_def entry_task_def Let_def split: if_splits)

text \<open>What one command may do: hand out at most the entry whose task it returns.\<close>

definition hands_out :: "redis_stream \<Rightarrow> redis_stream \<Rightarrow> string list \<Rightarrow> bool" where
  "hands_out s s' xs \<longleftrightarrow> s_entries s' = s_entries s \<and> (stream_ok s \<longrightarrow> stream_ok s')
     \<and> (\<exists>ts. handed_out s' = handed_out s @ ts \<and> xs \<in> {[], ts})"

definition claimed_task :: "(string \<times> string \<times> json) option \<Rightarrow> string list" where
  "claimed_task r = (case r of None \<Rightarrow> [] | Some (tid, _) \<Rightarrow> [tid])"

lemma hands_out_same:
  assumes "s_entries s' = s_entries s" and "s_group s' = s_group s"
  shows "hands_out s s' []"
  using assms by (cases "s_group s") (auto simp: hands_out_def stream_ok_def handed_out_def)

lemma hands_out_pending:
  assumes "s_group s = Some g" and "g_next g' = g_next g"
  shows "hands_out s (s\<lparr>s_group := Some g'\<rparr>) []"
  using assms by (simp add: hands_out_def stream_ok_def handed_out_def)

lemma read_new_hands_out:
  assumes "s_group s = Some g"
  shows "hands_out s (fst (read_new ids loads up now c s g)) (claimed_task (snd (read_new ids loads up now c s g)))"
proof (cases "up \<and> g_next g < length (s_entries s)")
  case True
  let ?n = "g_next g"
  let ?r = "decode loads (ids ?n) (s_entries s ! ?n)"
  let ?s = "s\<lparr>s_group := Some \<lparr>g_next = Suc ?n, g_pending = g_pending g @ [(?n, c, now)]\<rparr>\<rparr>"
  have "read_new ids loads up now c s g = (?s, ?r)" using True by (simp add: read_new_def xreadgroup_def)
  moreover have "handed_out ?s = handed_out s @ [entry_task (s_entries s ! ?n)]"
    using True assms by (simp add: handed_out_def take_Suc_conv_app_nth)
  moreover have "claimed_task ?r \<in> {[], [entry_task (s_entries s ! ?n)]}"
    using decode_task [of loads "ids ?n" "s_entries s ! ?n"] by (cases ?r) (auto simp: claimed_task_def)
  ultimately show ?thesis using True by (simp add: hands_out_def stream_ok_def)
next
  case False
  then have "read_new ids loads up now c s g = (s, None) \<or> read_new ids loads up now c s g = (s\<lparr>s_group := Some g\<rparr>, None)"
    by (auto simp: read_new_def xreadgroup_def)
  then show ?thesis using hands_out_same [of s s] hands_out_pending [OF assms, of g] by (auto simp: claimed_task_def)
qed

text \<open>With the documented answer of \<open>XCLAIM\<close>, a claim returns new entries only.\<close>

lemma claim_in_group_hands_out:
  assumes "s_group s = Some g"
  shows "hands_out s (fst (claim_in_group ids Pair_item loads up now c s g))
     (claimed_task (snd (claim_in_group ids Pair_item loads up now c s g)))"
proof (cases "g_pending g")
  case Nil
  then show ?thesis using read_new_hands_out [OF assms] by (simp add: claim_in_group_def)
next
  case (Cons p ps)
  obtain n q where p: "p = (n, q)" by (cases p)
  obtain g' b where x: "xclaim now c 30000 n g = (g', b)" by (cases "xclaim now c 30000 n g")
  have g': "g_next g' = g_next g" using xclaim_next [of now c 30000 n g] by (simp add: x)
  show ?thesis
  proof (cases "up_claim up")
    case False
    then have "claim_in_group ids Pair_item loads up now c s g = (s, None)" by (simp add: claim_in_group_def Cons p)
    then show ?thesis by (simp add: hands_out_same claimed_task_def)
  next
    case up: True
    show ?thesis
    proof (cases b)
      case True
      with up have "claim_in_group ids Pair_item loads up now c s g = (s\<lparr>s_group := Some g'\<rparr>, None)"
        by (simp add: claim_in_group_def Cons p x decode_item_def)
      then show ?thesis using hands_out_pending [OF assms g'] by (simp add: claimed_task_def)
    next
      case False
      with up have "claim_in_group ids Pair_item loads up now c s g = read_new ids loads (up_read up) now c s g"
        by (simp add: claim_in_group_def Cons p x)
      then show ?thesis using read_new_hands_out [OF assms] by simp
    qed
  qed
qed

lemma claim_hands_out:
  "hands_out s (fst (queue_claim ids Pair_item loads up now c s)) (claimed_task (snd (queue_claim ids Pair_item loads up now c s)))"
proof -
  let ?s = "ensure_group (up_group up) s"
  have "hands_out ?s (fst (queue_claim ids Pair_item loads up now c s))
      (claimed_task (snd (queue_claim ids Pair_item loads up now c s)))"
  proof (cases "s_group ?s")
    case None
    then show ?thesis by (simp add: queue_claim_def claimed_task_def hands_out_same)
  next
    case (Some g)
    then show ?thesis using claim_in_group_hands_out [OF Some]
      by (simp add: queue_claim_def Let_def claimed_task_def [of None] hands_out_same)
  qed
  then show ?thesis by (simp add: hands_out_def)
qed

lemma ack_frame [simp]:
  "s_entries (queue_ack ids up e s) = s_entries s" "handed_out (queue_ack ids up e s) = handed_out s"
  "stream_ok (queue_ack ids up e s) = stream_ok s"
  by (auto simp: queue_ack_def xack_def handed_out_def stream_ok_def split: option.split)

lemma acks_frame [simp]:
  "s_entries (fold (queue_ack ids up) es s) = s_entries s" "handed_out (fold (queue_ack ids up) es s) = handed_out s"
  "stream_ok (fold (queue_ack ids up) es s) = stream_ok s"
  by (induction es arbitrary: s) simp_all

lemma worker_turn_hands_out:
  "hands_out (y_stream y) (y_stream (fst (worker_turn_step ids Pair_item loads l u y)))
     (snd (worker_turn_step ids Pair_item loads l u y))"
proof -
  let ?c = "queue_claim ids Pair_item loads (u_redis u) (1000 * u_now u) (u_worker u) (y_stream y)"
  let ?w = "worker_turn_step ids Pair_item loads l u y"
  have h: "hands_out (y_stream y) (fst ?c) (claimed_task (snd ?c))" by (rule claim_hands_out)
  obtain es where es: "y_stream (fst ?w) = fold (queue_ack ids (u_ack_up u)) es (fst ?c)"
    by (simp add: worker_turn_step_def Let_def)
  have "snd ?w \<in> {[], claimed_task (snd ?c)}"
    by (simp add: worker_turn_step_def Let_def claimed_task_def split: option.split run_report.split)
  with h show ?thesis unfolding es hands_out_def by auto
qed

text \<open>One operation adds to the entries what it enqueued, and executes only what it hands out.\<close>

lemma system_step_hands_out:
  assumes "stream_ok (y_stream y)" and "system_step ids Pair_item loads l op y = (y', xs)"
  shows "stream_ok (y_stream y')"
    and "map entry_task (s_entries (y_stream y')) = map entry_task (s_entries (y_stream y)) @ enqueued_task op"
    and "\<exists>ts. handed_out (y_stream y') = handed_out (y_stream y) @ ts \<and> xs \<in> {[], ts}"
proof -
  have "stream_ok (y_stream y') \<and> map entry_task (s_entries (y_stream y')) = map entry_task (s_entries (y_stream y)) @ enqueued_task op
     \<and> (\<exists>ts. handed_out (y_stream y') = handed_out (y_stream y) @ ts \<and> xs \<in> {[], ts})"
  proof (cases op)
    case (SEnqueue up tid p)
    with assms show ?thesis
      by (auto simp: queue_enqueue_def xadd_def stream_ok_def handed_out_def entry_task_def dict_get_def split: option.splits)
  next
    case (STable top)
    with assms show ?thesis by auto
  next
    case (STurn u)
    with assms worker_turn_hands_out [of y ids loads l u] show ?thesis by (simp add: hands_out_def)
  qed
  then show "stream_ok (y_stream y')"
    and "map entry_task (s_entries (y_stream y')) = map entry_task (s_entries (y_stream y)) @ enqueued_task op"
    and "\<exists>ts. handed_out (y_stream y') = handed_out (y_stream y) @ ts \<and> xs \<in> {[], ts}" by blast+
qed

lemma system_run_count:
  assumes "stream_ok (y_stream y)" and "system_run ids Pair_item loads l ops y = (y', xs)"
  shows "stream_ok (y_stream y')
     \<and> map entry_task (s_entries (y_stream y')) = map entry_task (s_entries (y_stream y)) @ concat (map enqueued_task ops)
     \<and> count_list (handed_out (y_stream y)) tid + count_list xs tid \<le> count_list (handed_out (y_stream y')) tid"
  using assms
proof (induction ops arbitrary: y xs)
  case (Cons op ops)
  obtain y1 x1 where s: "system_step ids Pair_item loads l op y = (y1, x1)" by (cases "system_step ids Pair_item loads l op y")
  obtain x2 where r: "system_run ids Pair_item loads l ops y1 = (y', x2)" and xs: "xs = x1 @ x2"
    using Cons.prems(2) s by (cases "system_run ids Pair_item loads l ops y1") (simp add: Let_def)
  note st = system_step_hands_out [OF Cons.prems(1) s]
  from st(3) have "count_list (handed_out (y_stream y)) tid + count_list x1 tid \<le> count_list (handed_out (y_stream y1)) tid"
    by auto
  with Cons.IH [OF st(1) r] st(2) show ?case by (simp add: xs)
qed simp

lemma handed_out_of_entries:
  "count_list (handed_out s) tid \<le> count_list (map entry_task (s_entries s)) tid"
proof (cases "s_group s")
  case (Some g)
  have "count_list (map entry_task (take (g_next g) (s_entries s))) tid
      \<le> count_list (map entry_task (take (g_next g) (s_entries s)) @ map entry_task (drop (g_next g) (s_entries s))) tid" by simp
  then show ?thesis using Some by (simp add: handed_out_def flip: map_append del: count_list_append)
qed (simp add: handed_out_def)

lemma filter_eq_upt: "n < m \<Longrightarrow> filter (\<lambda>k. k = n) [0..<m] = [n]" for n m :: nat
  by (induction m) (auto simp: less_Suc_eq filter_empty_conv)

section \<open>Properties of the queue\<close>

text \<open>
  C36: A task's executor runs at most as often as the task was put on the queue, over any
  interleaving of workers' turns, enqueues and other operations on the task table, from an
  empty queue: an entry that was handed out once is never handed out again, whether its run
  failed with attempts left, its worker died, or its acknowledgement was lost.
\<close>

theorem executions_at_most_enqueues:
  "count_list (snd (system_run ids Pair_item loads l ops \<lparr>y_stream = empty_stream, y_table = tbl\<rparr>)) tid
     \<le> count_list (concat (map enqueued_task ops)) tid"
proof -
  let ?y = "\<lparr>y_stream = empty_stream, y_table = tbl\<rparr>"
  obtain y' xs where r: "system_run ids Pair_item loads l ops ?y = (y', xs)" by (cases "system_run ids Pair_item loads l ops ?y")
  have "stream_ok (y_stream ?y)" by (simp add: stream_ok_def empty_stream_def)
  from system_run_count [OF this r, of tid] handed_out_of_entries [of "y_stream y'" tid] r
  show ?thesis by (simp add: handed_out_def empty_stream_def)
qed

text \<open>
  The retry that never comes: a task with three attempts is enqueued and its first run fails;
  the run leaves it RUNNING with one attempt counted, no lease, and its entry pending.  A
  second worker that polls more than thirty seconds later, and a third poll after that, get
  nothing, although the entry is idle for long enough.
\<close>

definition example_ids :: "nat \<Rightarrow> string" where
  "example_ids n = replicate n (CHR ''i'')"

lemma inj_example_ids: "inj example_ids"
proof (rule injI)
  fix m n assume "example_ids m = example_ids n"
  then have "length (example_ids m) = length (example_ids n)" by simp
  then show "m = n" by (simp add: example_ids_def)
qed

definition all_up :: redis_up where
  "all_up = \<lparr>up_group = True, up_pending = True, up_claim = True, up_read = True\<rparr>"

definition failing_turn :: "string \<Rightarrow> int \<Rightarrow> worker_turn" where
  "failing_turn worker t = \<lparr>u_worker = worker, u_executors = [''report''], u_now = t, u_later = t + 1, u_redis = all_up,
     u_ack_up = True, u_db = (True, True), u_during = (\<lambda>x. x), u_outcome = ExecRaises ''timeout''\<rparr>"

definition retry_story :: "system_op list" where
  "retry_story = [SEnqueue True ''t'' ''{}'', STurn (failing_turn ''A'' 0), STurn (failing_turn ''B'' 100),
     STurn (failing_turn ''B'' 200)]"

definition retry_system :: task_system where
  "retry_system = \<lparr>y_stream = empty_stream, y_table = [(''t'', example_task)]\<rparr>"

theorem failed_task_is_stranded:
  "snd (system_run example_ids Pair_item (\<lambda>_. None) 60 retry_story retry_system) = [''t'']
   \<and> map_option (\<lambda>r. (task_state r, attempts r, max_attempts r, lease_expires_at r))
       (map_of (y_table (fst (system_run example_ids Pair_item (\<lambda>_. None) 60 retry_story retry_system))) ''t'')
     = Some (RUNNING, 1, 3, None)"
  by code_simp

text \<open>Had the client answered the bare fields, the three attempts would be made and the task end FAILED.\<close>

theorem bare_answer_retries:
  "snd (system_run example_ids (\<lambda>_. Fields_item) (\<lambda>_. None) 60 retry_story retry_system) = [''t'', ''t'', ''t'']
   \<and> map_option task_state
       (map_of (y_table (fst (system_run example_ids (\<lambda>_. Fields_item) (\<lambda>_. None) 60 retry_story retry_system))) ''t'')
     = Some FAILED"
  by code_simp

text \<open>
  \<open>nack\<close>, which no caller uses, does requeue: the acknowledged entry leaves the pending
  list and its fields are appended as a new entry, handed out after all others.
\<close>

theorem nack_requeues:
  assumes "inj ids" and "n < length (s_entries s)"
  shows "s_entries (queue_nack ids (ids n) s) = s_entries s @ [s_entries s ! n]
     \<and> (\<forall>g. s_group (queue_nack ids (ids n) s) = Some g \<longrightarrow> n \<notin> fst ` set (g_pending g))"
proof -
  have f: "filter (\<lambda>k. ids k = ids n) [0..<length (s_entries s)] = [n]"
  proof -
    have "filter (\<lambda>k. ids k = ids n) [0..<length (s_entries s)] = filter (\<lambda>k. k = n) [0..<length (s_entries s)]"
      using assms(1) by (simp add: inj_eq)
    also have "\<dots> = [n]"
      using assms(2) by (rule filter_eq_upt)
    finally show ?thesis .
  qed
  then show ?thesis
    by (auto simp: queue_nack_def xack_def xadd_def Let_def)
qed

theorem nack_requeues_witness:
  "s_entries (queue_nack example_ids (example_ids 1) \<lparr>s_entries = [[(''task_id'', ''a'')], [(''task_id'', ''b'')]], s_group = None\<rparr>)
     = [[(''task_id'', ''a'')], [(''task_id'', ''b'')], [(''task_id'', ''b'')]]"
  using nack_requeues [THEN conjunct1, of example_ids 1
      "\<lparr>s_entries = [[(''task_id'', ''a'')], [(''task_id'', ''b'')]], s_group = None\<rparr>"]
  by (simp add: inj_example_ids)

end
