(* ===== verification/Plan_Cache.thy ===== *)
theory Plan_Cache
  imports Plan_Validator
begin

text \<open>
  \<open>compiler/cache.py\<close>: the cache of parsed plans and the cache of compiled graphs.  Both keep
  their entries in Redis, and in memory when Redis refuses a write.  Values are the JSON texts the
  caches store.  The digest, the JSON printer, the fingerprints of code, registry and prompt, and
  which calls of Redis fail are parameters; a call that fails has no effect.  Times are integers.
\<close>

section \<open>State and stores\<close>

record cache_state =
  c_redis :: "(string \<times> int \<times> string) list"
  c_memory :: "(string \<times> int \<times> string) list"
  c_hits :: nat
  c_misses :: nat

definition cache_ns :: string where
  "cache_ns = ''nexus:cache:''"

text \<open>What Redis answers: an expired key is gone.\<close>

definition redis_value :: "int \<Rightarrow> (string \<times> int \<times> string) list \<Rightarrow> string \<Rightarrow> string option" where
  "redis_value now store k = (case map_of store k of
     None \<Rightarrow> None | Some (e, v) \<Rightarrow> if now < e then Some v else None)"

definition cache_ttl :: "int \<Rightarrow> int \<Rightarrow> int" where
  "cache_ttl configured default_ttl = (if 0 < configured then configured else default_ttl)"

text \<open>A hit extends the life of the entry; when the extension fails the hit is lost.\<close>

definition get_from_redis :: "bool \<times> bool \<Rightarrow> int \<Rightarrow> int \<Rightarrow> string \<Rightarrow> cache_state \<Rightarrow> cache_state \<times> string option" where
  "get_from_redis up now ttl k c =
    (if \<not> fst up then (c, None)
     else case redis_value now (c_redis c) k of
       None \<Rightarrow> (c, None)
     | Some v \<Rightarrow> if v = [] \<or> \<not> snd up then (c, None)
         else (c\<lparr>c_redis := AList.update k (now + ttl, v) (c_redis c)\<rparr>, Some v))"

definition get_from_memory :: "int \<Rightarrow> string \<Rightarrow> cache_state \<Rightarrow> string option" where
  "get_from_memory now k c = (case map_of (c_memory c) k of
     None \<Rightarrow> None | Some (e, v) \<Rightarrow> if now < e then Some v else None)"

definition store_in_redis :: "bool \<Rightarrow> int \<Rightarrow> int \<Rightarrow> string \<Rightarrow> string \<Rightarrow> cache_state \<Rightarrow> cache_state \<times> bool" where
  "store_in_redis up now ttl k v c =
    (if up then (c\<lparr>c_redis := AList.update k (now + ttl, v) (c_redis c)\<rparr>, True) else (c, False))"

text \<open>At most \<open>cap\<close> entries stay in memory (1000 in the code): expired ones go first, then the oldest.\<close>

definition evict :: "nat \<Rightarrow> int \<Rightarrow> (string \<times> int \<times> string) list \<Rightarrow> (string \<times> int \<times> string) list" where
  "evict cap now m =
    (if length m \<le> cap then m
     else (let m1 = filter (\<lambda>p. now < fst (snd p)) m in drop (length m1 - cap) m1))"

definition store_in_memory :: "nat \<Rightarrow> int \<Rightarrow> int \<Rightarrow> string \<Rightarrow> string \<Rightarrow> cache_state \<Rightarrow> cache_state" where
  "store_in_memory cap now ttl k v c =
     c\<lparr>c_memory := evict cap now (AList.update k (now + ttl, v) (c_memory c))\<rparr>"

section \<open>The operations of both caches\<close>

definition cache_lookup :: "bool \<times> bool \<Rightarrow> int \<Rightarrow> int \<Rightarrow> string \<Rightarrow> cache_state \<Rightarrow> cache_state \<times> string option" where
  "cache_lookup up now ttl k c =
    (case get_from_redis up now ttl k c of
       (c1, Some v) \<Rightarrow> (c1\<lparr>c_hits := Suc (c_hits c1)\<rparr>, Some v)
     | (c1, None) \<Rightarrow> (case get_from_memory now k c1 of
           Some v \<Rightarrow> (c1\<lparr>c_hits := Suc (c_hits c1)\<rparr>, Some v)
         | None \<Rightarrow> (c1\<lparr>c_misses := Suc (c_misses c1)\<rparr>, None)))"

definition cache_store :: "bool \<Rightarrow> nat \<Rightarrow> int \<Rightarrow> int \<Rightarrow> string \<Rightarrow> string \<Rightarrow> cache_state \<Rightarrow> cache_state" where
  "cache_store up cap now ttl k v c =
    (case store_in_redis up now ttl k v c of (c1, True) \<Rightarrow> c1 | (c1, False) \<Rightarrow> store_in_memory cap now ttl k v c1)"

definition cache_remove :: "bool \<Rightarrow> string \<Rightarrow> cache_state \<Rightarrow> cache_state" where
  "cache_remove up k c = (let c1 = (if up then c\<lparr>c_redis := filter (\<lambda>p. fst p \<noteq> k) (c_redis c)\<rparr> else c) in
     c1\<lparr>c_memory := filter (\<lambda>p. fst p \<noteq> k) (c_memory c1)\<rparr>)"

definition clear_all :: "bool \<Rightarrow> cache_state \<Rightarrow> cache_state" where
  "clear_all up c = (let c1 = c\<lparr>c_memory := []\<rparr> in
     if up then c1\<lparr>c_redis := filter (\<lambda>p. \<not> starts_with cache_ns (fst p)) (c_redis c1)\<rparr> else c1)"

definition hit_rate :: "cache_state \<Rightarrow> rat" where
  "hit_rate c = (let total = c_hits c + c_misses c in
     if 0 < total then round4 (of_nat (c_hits c) / of_nat total) else 0)"

section \<open>Keys\<close>

definition make_key :: "(string \<Rightarrow> string) \<Rightarrow> string list \<Rightarrow> string" where
  "make_key digest parts = cache_ns @ take 32 (digest (py_join ''|'' parts))"

text \<open>Registry checksum, or the time of compilation, and the marker of the tool table.\<close>

definition registry_fingerprint :: "(string \<times> string) option \<Rightarrow> string \<Rightarrow> string" where
  "registry_fingerprint graph marker = py_join ''|''
     ((case graph of None \<Rightarrow> [] | Some (checksum, compiled_at) \<Rightarrow>
         [if checksum \<noteq> [] then ''reg:'' @ take 16 checksum else compiled_at])
      @ (if marker = [] then [] else [marker]))"

text \<open>The tools as pairs of name and version text.\<close>

definition query_fingerprint :: "(json \<Rightarrow> string) \<Rightarrow> string \<Rightarrow> (string \<times> string) list \<Rightarrow> string \<Rightarrow> string" where
  "query_fingerprint dumps q tools reg = dumps (JDict
     ([(''q'', JStr (py_lower (py_strip q))),
       (''tools'', JList (map JStr (sort (map (\<lambda>t. fst t @ '':'' @ snd t) (filter (\<lambda>t. fst t \<noteq> []) tools)))))]
      @ (if reg = [] then [] else [(''reg'', JStr reg)])))"

record fingerprints =
  f_arch :: string
  f_registry :: string
  f_prompt :: string

definition parse_key ::
  "(string \<Rightarrow> string) \<Rightarrow> (json \<Rightarrow> string) \<Rightarrow> fingerprints \<Rightarrow> string \<Rightarrow> (string \<times> string) list \<Rightarrow> string \<Rightarrow> string \<Rightarrow> string" where
  "parse_key digest dumps f q tools model context =
     make_key digest [''parse'', query_fingerprint dumps q tools (f_registry f), model, context, f_arch f, f_prompt f]"

text \<open>Empty plans are not cached.\<close>

definition cacheable :: "json \<Rightarrow> bool" where
  "cacheable v = (case v of JDict d \<Rightarrow> truthy (dict_get d ''nodes'' (JList [])) | JList xs \<Rightarrow> xs \<noteq> [] | _ \<Rightarrow> True)"

definition parse_set :: "(json \<Rightarrow> string) \<Rightarrow> bool \<Rightarrow> nat \<Rightarrow> int \<Rightarrow> int \<Rightarrow> string \<Rightarrow> json \<Rightarrow> cache_state \<Rightarrow> cache_state" where
  "parse_set dumps up cap now ttl k v c = (if cacheable v then cache_store up cap now ttl k (dumps v) c else c)"

text \<open>\<open>str(x or "")\<close>.\<close>

definition or_empty :: "(rat \<Rightarrow> string) \<Rightarrow> json \<Rightarrow> string" where
  "or_empty fs v = (if truthy v then py_str fs v else [])"

definition keyed_node :: "(rat \<Rightarrow> string) \<Rightarrow> json dict \<Rightarrow> json" where
  "keyed_node fs n = JDict
     [(''op'', JStr (or_empty fs (dict_get n ''op'' JNull))),
      (''inputs'', JDict (map (\<lambda>p. (fst p, JStr (py_str fs (snd p)))) (get_dict (JDict n) ''inputs''))),
      (''depends_on'', JList (map (\<lambda>d. JStr (py_str fs d)) (get_list (JDict n) ''depends_on''))),
      (''iterate_over'', JStr (or_empty fs (dict_get n ''iterate_over'' JNull))),
      (''ref'', JStr (or_empty fs (dict_get n ''ref'' JNull))),
      (''condition'', JStr (or_empty fs (dict_get n ''condition'' JNull))),
      (''branch_true'', JStr (or_empty fs (dict_get n ''branch_true'' JNull))),
      (''branch_false'', JStr (or_empty fs (dict_get n ''branch_false'' JNull)))]"

definition workflow_text :: "(rat \<Rightarrow> string) \<Rightarrow> (json \<Rightarrow> string) \<Rightarrow> json dict \<Rightarrow> string" where
  "workflow_text fs dumps lw =
     dumps (JList (map (keyed_node fs) (dict_items (get_list (JDict lw) ''nodes''))))
     @ (let cols = dict_get lw ''collections'' JNull in
        if truthy cols then ''|cols:'' @ take 4000 (dumps cols) else [])"

definition workflow_key ::
  "(rat \<Rightarrow> string) \<Rightarrow> (string \<Rightarrow> string) \<Rightarrow> (json \<Rightarrow> string) \<Rightarrow> fingerprints \<Rightarrow> json dict \<Rightarrow> string" where
  "workflow_key fs digest dumps f lw =
     make_key digest [''plan'', workflow_text fs dumps lw, f_arch f, f_registry f, f_prompt f]"

section \<open>Lemmas\<close>

lemma length_evict: "length (evict cap now m) \<le> cap"
  by (auto simp: evict_def Let_def)

lemma update_new: "k \<notin> fst ` set d \<Longrightarrow> AList.update k v d = d @ [(k, v)]"
  by (induction d) auto

lemma map_of_filter_neq: "map_of (filter (\<lambda>p. fst p \<noteq> k) d) j = (if j = k then None else map_of d j)"
  using map_of_filter_key [of "\<lambda>x. x \<noteq> k" d j] by (simp add: case_prod_unfold)

text \<open>The newest entry survives eviction while it lives and there is room for one.\<close>

lemma evict_keeps_last:
  assumes "distinct (map fst m)" and "m \<noteq> []" and "now < fst (snd (last m))" and "0 < cap"
  shows "last m \<in> set (evict cap now m)"
proof (cases "length m \<le> cap")
  case False
  let ?m = "filter (\<lambda>p. now < fst (snd p)) m"
  have m: "m = butlast m @ [last m]" using assms(2) by simp
  have f: "?m = filter (\<lambda>p. now < fst (snd p)) (butlast m) @ [last m]"
    using assms(3) by (subst m) simp
  have "last (drop (length ?m - cap) ?m) = last ?m" using assms(4) f by (intro last_drop) simp
  moreover have "drop (length ?m - cap) ?m \<noteq> []" using assms(4) f by simp
  ultimately have "last ?m \<in> set (drop (length ?m - cap) ?m)" by (metis last_in_set)
  moreover have "last ?m = last m" by (subst f) simp
  ultimately show ?thesis using False by (simp add: evict_def Let_def)
qed (use assms in \<open>simp add: evict_def\<close>)

section \<open>Runs of operations\<close>

datatype cache_op =
    Look "bool \<times> bool" int string
  | Put bool int string string
  | Drop bool string
  | Clear bool

fun cache_step :: "nat \<Rightarrow> int \<Rightarrow> cache_op \<Rightarrow> cache_state \<Rightarrow> cache_state \<times> string option" where
  "cache_step cap ttl (Look up now k) c = cache_lookup up now ttl k c"
| "cache_step cap ttl (Put up now k v) c = (cache_store up cap now ttl k v c, None)"
| "cache_step cap ttl (Drop up k) c = (cache_remove up k c, None)"
| "cache_step cap ttl (Clear up) c = (clear_all up c, None)"

fun cache_run :: "nat \<Rightarrow> int \<Rightarrow> cache_op list \<Rightarrow> cache_state \<Rightarrow> cache_state" where
  "cache_run cap ttl [] c = c"
| "cache_run cap ttl (op # ops) c = cache_run cap ttl ops (fst (cache_step cap ttl op c))"

definition empty_cache :: cache_state where
  "empty_cache = \<lparr>c_redis = [], c_memory = [], c_hits = 0, c_misses = 0\<rparr>"

text \<open>The value last stored under a key and not removed since.\<close>

fun latest :: "string \<Rightarrow> string option \<Rightarrow> cache_op list \<Rightarrow> string option" where
  "latest k r [] = r"
| "latest k r (Look up now j # ops) = latest k r ops"
| "latest k r (Put up now j v # ops) = latest k (if j = k then Some v else r) ops"
| "latest k r (Drop up j # ops) = latest k (if j = k then None else r) ops"
| "latest k r (Clear up # ops) = latest k (if starts_with cache_ns k then None else r) ops"

fun answered :: "cache_op \<Rightarrow> bool" where
  "answered (Look up now k) = (fst up \<and> snd up)"
| "answered (Put up now k v) = up"
| "answered (Drop up k) = up"
| "answered (Clear up) = up"

definition agrees :: "(string \<Rightarrow> string option) \<Rightarrow> cache_state \<Rightarrow> bool" where
  "agrees f c \<longleftrightarrow> c_memory c = [] \<and> (\<forall>k e v. map_of (c_redis c) k = Some (e, v) \<longrightarrow> f k = Some v)"

lemma look_agrees: "agrees f c \<Longrightarrow> agrees f (fst (cache_lookup (True, True) now ttl k c))"
  by (auto simp: agrees_def cache_lookup_def get_from_redis_def get_from_memory_def redis_value_def map_of_update
      split: option.split if_splits)

lemma step_agrees:
  assumes "answered op" and "agrees f c"
  shows "agrees (\<lambda>k. latest k (f k) [op]) (fst (cache_step cap ttl op c))"
proof (cases op)
  case (Look up now k)
  with assms look_agrees [OF assms(2)] show ?thesis by (cases up) simp
next
  case (Put up now k v)
  with assms show ?thesis by (auto simp: agrees_def cache_store_def store_in_redis_def map_of_update)
next
  case (Drop up k)
  with assms show ?thesis by (auto simp: agrees_def cache_remove_def Let_def map_of_filter_neq split: if_splits)
next
  case (Clear up)
  have "map_of (filter (\<lambda>p. \<not> starts_with cache_ns (fst p)) d) k = (if starts_with cache_ns k then None else map_of d k)"
    for d :: "(string \<times> int \<times> string) list" and k
    using map_of_filter_key [of "\<lambda>x. \<not> starts_with cache_ns x" d k] by (simp add: case_prod_unfold)
  with Clear assms show ?thesis by (auto simp: agrees_def clear_all_def Let_def split: if_splits)
qed

lemma latest_Cons: "latest k r (op # ops) = latest k (latest k r [op]) ops"
  by (cases op) simp_all

lemma run_agrees:
  "list_all answered ops \<Longrightarrow> agrees f c \<Longrightarrow> agrees (\<lambda>k. latest k (f k) ops) (cache_run cap ttl ops c)"
proof (induction ops arbitrary: f c)
  case (Cons op ops)
  from step_agrees [of op f c cap ttl] Cons.prems
  have "agrees (\<lambda>k. latest k (f k) [op]) (fst (cache_step cap ttl op c))" by simp
  from Cons.IH [OF _ this] Cons.prems(1) show ?case by (simp add: latest_Cons [of _ _ op ops])
qed simp

section \<open>Properties\<close>

text \<open>
  While Redis answers, a hit returns the value last stored under its key: never one that was
  overwritten, removed, or cleared.
\<close>

theorem hit_is_latest:
  assumes "list_all answered ops" and "snd (cache_lookup up now ttl k (cache_run cap ttl ops empty_cache)) = Some v"
  shows "latest k None ops = Some v"
proof -
  have "agrees (\<lambda>k. None) empty_cache" by (simp add: agrees_def empty_cache_def)
  from run_agrees [OF assms(1) this, of cap ttl] assms(2) show ?thesis
    by (auto simp: agrees_def cache_lookup_def get_from_redis_def get_from_memory_def redis_value_def
        split: option.splits if_splits)
qed

theorem hit_is_latest_witness:
  "latest ''k'' None [Put True 0 ''k'' ''old'', Put True 5 ''k'' ''new''] = Some ''new''"
  by (rule hit_is_latest [where up = "(True, True)" and now = 6 and ttl = 300 and cap = 1000]) (simp, code_simp)

text \<open>
  After an outage the memory still holds what was stored then: a plan stored while Redis was down
  is served in the next outage in place of the newer one.
\<close>

theorem outage_serves_stale_plan:
  "snd (cache_lookup (False, True) 20 300 ''k''
      (cache_run 1000 300 [Put False 0 ''k'' ''old'', Put True 10 ''k'' ''new''] empty_cache)) = Some ''old''
   \<and> latest ''k'' None [Put False 0 ''k'' ''old'', Put True 10 ''k'' ''new''] = Some ''new''"
  by code_simp

text \<open>The time to live is counted from the last hit: an entry read in time never expires.\<close>

fun steady :: "int \<Rightarrow> int \<Rightarrow> int list \<Rightarrow> bool" where
  "steady ttl t [] = True"
| "steady ttl t (u # us) = (u < t + ttl \<and> steady ttl u us)"

fun looks :: "int \<Rightarrow> string \<Rightarrow> int list \<Rightarrow> cache_state \<Rightarrow> string option list" where
  "looks ttl k [] c = []"
| "looks ttl k (t # ts) c = (let r = cache_lookup (True, True) t ttl k c in snd r # looks ttl k ts (fst r))"

lemma looks_steady:
  "map_of (c_redis c) k = Some (t + ttl, v) \<Longrightarrow> v \<noteq> [] \<Longrightarrow> steady ttl t ts \<Longrightarrow>
     looks ttl k ts c = replicate (length ts) (Some v)"
proof (induction ts arbitrary: t c)
  case (Cons u us)
  have r: "cache_lookup (True, True) u ttl k c
      = (c\<lparr>c_redis := AList.update k (u + ttl, v) (c_redis c), c_hits := Suc (c_hits c)\<rparr>, Some v)"
    using Cons.prems by (simp add: cache_lookup_def get_from_redis_def redis_value_def)
  have "looks ttl k us (fst (cache_lookup (True, True) u ttl k c)) = replicate (length us) (Some v)"
    by (rule Cons.IH [of _ u]) (use Cons.prems in \<open>simp_all add: r map_of_update\<close>)
  then show ?case by (simp add: r Let_def)
qed simp

theorem used_entry_never_expires:
  assumes "steady ttl now ts" and "v \<noteq> []"
  shows "looks ttl k ts (cache_store True cap now ttl k v c) = replicate (length ts) (Some v)"
  by (rule looks_steady [OF _ assms(2,1)]) (simp add: cache_store_def store_in_redis_def map_of_update)

theorem used_entry_never_expires_witness:
  "looks 300 ''k'' [299, 598, 897] (cache_store True 1000 0 300 ''k'' ''plan'' empty_cache) = replicate 3 (Some ''plan'')"
  using used_entry_never_expires [of 300 0 "[299, 598, 897]" "''plan''" "''k''" 1000 empty_cache]
  by (simp add: numeral_3_eq_3 del: looks.simps)

text \<open>
  What is stored in memory is found until it expires, however full the memory was, and the memory
  never holds more than its cap.
\<close>

theorem memory_store_found:
  assumes "distinct (map fst (c_memory c))" and "length (c_memory c) \<le> cap" and "0 < cap" and "0 < ttl"
  shows "get_from_memory t k (store_in_memory cap now ttl k v c) = (if t < now + ttl then Some v else None)
     \<and> length (c_memory (store_in_memory cap now ttl k v c)) \<le> cap"
proof
  let ?m = "AList.update k (now + ttl, v) (c_memory c)"
  have d: "distinct (map fst ?m)" using assms(1) by (rule distinct_update)
  have "map_of (evict cap now ?m) k = Some (now + ttl, v)"
  proof (cases "length ?m \<le> cap")
    case False
    have "k \<notin> fst ` set (c_memory c)"
    proof
      assume "k \<in> fst ` set (c_memory c)"
      then have "map fst ?m = map fst (c_memory c)" by (simp add: map_fst_update)
      then have "length ?m = length (c_memory c)" by (metis length_map)
      with False assms(2) show False by simp
    qed
    then have m: "?m = c_memory c @ [(k, now + ttl, v)]" by (rule update_new)
    have "(k, now + ttl, v) \<in> set (evict cap now ?m)"
      using evict_keeps_last [OF d _ _ assms(3), of now] assms(4) by (simp add: m)
    moreover have "distinct (map fst (evict cap now ?m))"
      using d by (simp add: evict_def Let_def distinct_map_fst_filter drop_map [symmetric] distinct_drop)
    ultimately show ?thesis by (rule map_of_is_SomeI [rotated])
  qed (simp add: evict_def map_of_update)
  then show "get_from_memory t k (store_in_memory cap now ttl k v c) = (if t < now + ttl then Some v else None)"
    by (simp add: get_from_memory_def store_in_memory_def)
  show "length (c_memory (store_in_memory cap now ttl k v c)) \<le> cap"
    by (simp add: store_in_memory_def length_evict)
qed

theorem memory_store_found_witness:
  "get_from_memory 5 ''b'' (store_in_memory 1 0 10 ''b'' ''y'' (store_in_memory 1 0 10 ''a'' ''x'' empty_cache)) = Some ''y''"
proof -
  have "store_in_memory 1 0 10 ''a'' ''x'' empty_cache = empty_cache\<lparr>c_memory := [(''a'', 10, ''x'')]\<rparr>"
    by (simp add: store_in_memory_def empty_cache_def evict_def)
  then show ?thesis
    using memory_store_found [of "store_in_memory 1 0 10 ''a'' ''x'' empty_cache" 1 10 5 "''b''" 0 "''y''"] by simp
qed

text \<open>Clearing removes every entry of both caches and nothing of another service.\<close>

theorem clear_all_exact:
  "c_memory (clear_all True c) = []
   \<and> redis_value now (c_redis (clear_all True c)) k
       = (if starts_with cache_ns k then None else redis_value now (c_redis c) k)"
  using map_of_filter_key [of "\<lambda>x. \<not> starts_with cache_ns x" "c_redis c" k]
  by (simp add: clear_all_def redis_value_def Let_def case_prod_unfold)

text \<open>A query finds its plan whatever its case and margins and whatever the order of the tools.\<close>

theorem parse_key_normalised:
  assumes "py_lower (py_strip q) = py_lower (py_strip q')" and "mset tools = mset tools'"
  shows "parse_key digest dumps f q tools model context = parse_key digest dumps f q' tools' model context"
proof -
  let ?f = "\<lambda>ts. sort (map (\<lambda>t. fst t @ '':'' @ snd t) (filter (\<lambda>t. fst t \<noteq> []) ts))"
  have "mset (map (\<lambda>t. fst t @ '':'' @ snd t) (filter (\<lambda>t. fst t \<noteq> []) tools))
      = mset (map (\<lambda>t. fst t @ '':'' @ snd t) (filter (\<lambda>t. fst t \<noteq> []) tools'))"
    using assms(2) by simp
  then have "?f tools = ?f tools'" by (simp add: properties_for_sort)
  then show ?thesis using assms(1) by (simp add: parse_key_def query_fingerprint_def)
qed

definition example_prints :: fingerprints where
  "example_prints = \<lparr>f_arch = ''arch'', f_registry = ''reg'', f_prompt = ''prompt''\<rparr>"

theorem parse_key_normalised_witness:
  "parse_key (\<lambda>s. s) (py_repr (\<lambda>_. [])) example_prints ''Weather '' [(''a'', ''1''), (''b'', ''2'')] ''m'' []
     = parse_key (\<lambda>s. s) (py_repr (\<lambda>_. [])) example_prints ''weather'' [(''b'', ''2''), (''a'', ''1'')] ''m'' []"
  by (rule parse_key_normalised) (code_simp, simp add: add_mset_commute)

text \<open>
  Inputs enter the key as text: a plan with the number 1 and one with the text \<open>1\<close> share
  the compiled graph.
\<close>

theorem workflow_key_conflates:
  "workflow_key fs digest dumps f [(''nodes'', JList [JDict [(''op'', JStr o'), (''inputs'', JDict [(x, JInt i)])]])]
     = workflow_key fs digest dumps f [(''nodes'', JList [JDict [(''op'', JStr o'), (''inputs'', JDict [(x, JStr (int_str i))])]])]"
  by (simp add: workflow_key_def workflow_text_def keyed_node_def get_list_def get_dict_def get_in_def dict_get_def
      dict_items_def py_str_def)

text \<open>Collections that differ only beyond the first 4000 characters of their text share a graph.\<close>

theorem long_collections_share_key:
  assumes "take 4000 (dumps (JDict c)) = take 4000 (dumps (JDict c'))" and "c \<noteq> []" and "c' \<noteq> []"
  shows "workflow_key fs digest dumps f [(''nodes'', ns), (''collections'', JDict c)]
    = workflow_key fs digest dumps f [(''nodes'', ns), (''collections'', JDict c')]"
  using assms by (simp add: workflow_key_def workflow_text_def get_list_def get_in_def dict_get_def)

theorem long_collections_share_key_witness:
  "workflow_key (\<lambda>_. []) (\<lambda>s. s) (\<lambda>v. replicate 4000 (CHR ''x'') @ py_repr (\<lambda>_. []) v) example_prints [(''nodes'', JList []), (''collections'', JDict [(''a'', JNull)])]
    = workflow_key (\<lambda>_. []) (\<lambda>s. s) (\<lambda>v. replicate 4000 (CHR ''x'') @ py_repr (\<lambda>_. []) v) example_prints [(''nodes'', JList []), (''collections'', JDict [(''b'', JNull)])]"
  by (rule long_collections_share_key) simp_all

end
