(* ===== verification/Outbox.thy ===== *)
theory Outbox
  imports Prelude
begin

text \<open>
  \<open>events/service.py\<close>: the relay of the event outbox and the versions of capabilities.  Rows
  are in the order of their creation.  Whether a publication, the update of a row and the commit of
  a batch succeed are parameters; what Redis was sent stays sent.
\<close>

section \<open>The outbox\<close>

record outbox_row =
  o_id :: string
  o_event :: string
  o_aggregate :: string
  o_aggregate_id :: "string option"
  o_payload :: "json dict"
  o_published :: "int option"

text \<open>\<open>o_published\<close> is the time of publication; a row without one is pending.\<close>

record outbox =
  ob_rows :: "outbox_row list"
  ob_sent :: "outbox_row list"

definition enqueue_outbox :: "string \<Rightarrow> string \<Rightarrow> string \<Rightarrow> string option \<Rightarrow> json dict \<Rightarrow> outbox \<Rightarrow> outbox" where
  "enqueue_outbox i ev ag aid pl s = s\<lparr>ob_rows := ob_rows s @
     [\<lparr>o_id = i, o_event = ev, o_aggregate = ag, o_aggregate_id = aid, o_payload = pl, o_published = None\<rparr>]\<rparr>"

definition channel :: "outbox_row \<Rightarrow> string" where
  "channel r = ''outbox:'' @ (if o_aggregate r = [] then ''event'' else o_aggregate r)"

definition message :: "outbox_row \<Rightarrow> json dict" where
  "message r = [(''event_type'', JStr (o_event r)),
     (''aggregate_id'', case o_aggregate_id r of None \<Rightarrow> JNull | Some i \<Rightarrow> JStr i), (''payload'', JDict (o_payload r))]"

definition batch :: "nat \<Rightarrow> outbox_row list \<Rightarrow> outbox_row list" where
  "batch n rows = take n (filter (\<lambda>r. o_published r = None) rows)"

record relay_world =
  rw_publish :: "outbox_row \<Rightarrow> bool"
  rw_update :: "outbox_row \<Rightarrow> bool"
  rw_commit :: bool

definition mark_published :: "int \<Rightarrow> string \<Rightarrow> outbox_row list \<Rightarrow> outbox_row list" where
  "mark_published now i rows = map (\<lambda>r. if o_id r = i then r\<lparr>o_published := Some now\<rparr> else r) rows"

text \<open>One row: the rows as the transaction sees them, what was sent, and the count.\<close>

definition relay_row ::
  "relay_world \<Rightarrow> int \<Rightarrow> outbox_row list \<times> outbox_row list \<times> nat \<Rightarrow> outbox_row
     \<Rightarrow> outbox_row list \<times> outbox_row list \<times> nat" where
  "relay_row w now s r = (case s of (rows, sent, k) \<Rightarrow>
     if \<not> rw_publish w r then s
     else if \<not> rw_update w r then (rows, sent @ [r], k)
     else (mark_published now (o_id r) rows, sent @ [r], Suc k))"

definition process_outbox :: "relay_world \<Rightarrow> nat \<Rightarrow> int \<Rightarrow> outbox \<Rightarrow> outbox \<times> nat" where
  "process_outbox w n now s =
    (case foldl (relay_row w now) (ob_rows s, ob_sent s, 0) (batch n (ob_rows s)) of
       (rows, sent, k) \<Rightarrow> (\<lparr>ob_rows = (if rw_commit w then rows else ob_rows s), ob_sent = sent\<rparr>, k))"

section \<open>Versions\<close>

record version_row =
  v_capability :: string
  v_version :: nat
  v_snapshot :: "json dict"
  v_active :: bool

text \<open>The highest version of a capability is read first; the row is written afterwards.\<close>

definition latest_version :: "string \<Rightarrow> version_row list \<Rightarrow> nat" where
  "latest_version c rows = fold max (map v_version (filter (\<lambda>r. v_capability r = c) rows)) 0"

definition write_version :: "string \<Rightarrow> nat \<Rightarrow> json dict \<Rightarrow> version_row list \<Rightarrow> version_row list" where
  "write_version c v snap rows = map (\<lambda>r. if v_capability r = c then r\<lparr>v_active := False\<rparr> else r) rows
     @ [\<lparr>v_capability = c, v_version = v, v_snapshot = snap, v_active = True\<rparr>]"

definition snapshot_capability_version :: "string \<Rightarrow> json dict \<Rightarrow> version_row list \<Rightarrow> version_row list \<times> nat" where
  "snapshot_capability_version c snap rows =
    (let v = Suc (latest_version c rows) in (write_version c v snap rows, v))"

section \<open>The relay\<close>

lemma relay_sent:
  "snd (foldl (relay_row w now) (rows, sent, k) rs) = (sent @ filter (rw_publish w) rs,
     k + length (filter (\<lambda>r. rw_publish w r \<and> rw_update w r) rs))"
  by (induction rs arbitrary: rows sent k) (auto simp: relay_row_def)

lemma mark_comp: "map o_id (mark_published now i rows) = map o_id rows"
  by (simp add: mark_published_def)

lemma relay_rows:
  "fst (foldl (relay_row w now) (rows, sent, k) rs)
    = map (\<lambda>r. if o_id r \<in> o_id ` set (filter (\<lambda>r. rw_publish w r \<and> rw_update w r) rs)
         then r\<lparr>o_published := Some now\<rparr> else r) rows"
proof (induction rs arbitrary: rows sent k)
  case (Cons x rs)
  show ?case
  proof (cases "rw_publish w x \<and> rw_update w x")
    case True
    then have "foldl (relay_row w now) (rows, sent, k) (x # rs)
        = foldl (relay_row w now) (mark_published now (o_id x) rows, sent @ [x], Suc k) rs"
      by (simp add: relay_row_def)
    with True Cons.IH show ?thesis by (auto simp: mark_published_def)
  next
    case False
    then have "fst (foldl (relay_row w now) (rows, sent, k) (x # rs)) = fst (foldl (relay_row w now) (rows,
        (if rw_publish w x then sent @ [x] else sent), k) rs)"
      by (auto simp: relay_row_def)
    with False Cons.IH show ?thesis by auto
  qed
qed simp

text \<open>
  One call of the relay: the oldest pending rows, as many as the batch holds, are sent in order, as
  far as their publication succeeds, and after the commit exactly the rows that were sent and
  updated are no longer pending.
\<close>

theorem relay_exact:
  assumes "process_outbox w n now s = (s', k)"
  shows "ob_sent s' = ob_sent s @ filter (rw_publish w) (batch n (ob_rows s))
    \<and> ob_rows s' = (if rw_commit w then map (\<lambda>r.
         if o_id r \<in> o_id ` set (filter (\<lambda>r. rw_publish w r \<and> rw_update w r) (batch n (ob_rows s)))
         then r\<lparr>o_published := Some now\<rparr> else r) (ob_rows s) else ob_rows s)"
proof -
  let ?f = "foldl (relay_row w now) (ob_rows s, ob_sent s, 0) (batch n (ob_rows s))"
  have f: "?f = (fst ?f, snd ?f)" by simp
  show ?thesis
    using assms relay_sent [of w now "ob_rows s" "ob_sent s" 0 "batch n (ob_rows s)"]
      relay_rows [of w now "ob_rows s" "ob_sent s" 0 "batch n (ob_rows s)"]
    by (auto simp: process_outbox_def split: prod.splits)
qed

definition demo_row :: "string \<Rightarrow> outbox_row" where
  "demo_row i = \<lparr>o_id = i, o_event = ''task.created'', o_aggregate = ''task'', o_aggregate_id = Some i, o_payload = [],
     o_published = None\<rparr>"

definition fine_world :: relay_world where
  "fine_world = \<lparr>rw_publish = (\<lambda>_. True), rw_update = (\<lambda>_. True), rw_commit = True\<rparr>"

theorem relay_exact_witness:
  "ob_sent (fst (process_outbox fine_world 50 7 \<lparr>ob_rows = [demo_row ''a'', demo_row ''b''], ob_sent = []\<rparr>))
     = [demo_row ''a'', demo_row ''b'']"
proof -
  let ?s = "\<lparr>ob_rows = [demo_row ''a'', demo_row ''b''], ob_sent = []\<rparr>"
  have "process_outbox fine_world 50 7 ?s = (fst (process_outbox fine_world 50 7 ?s), snd (process_outbox fine_world 50 7 ?s))"
    by simp
  from relay_exact [OF this] show ?thesis by (simp add: fine_world_def batch_def demo_row_def)
qed

text \<open>Nothing is marked published that was not sent.\<close>

fun relay_runs :: "(relay_world \<times> int) list \<Rightarrow> nat \<Rightarrow> outbox \<Rightarrow> outbox" where
  "relay_runs [] n s = s"
| "relay_runs ((w, now) # ws) n s = relay_runs ws n (fst (process_outbox w n now s))"

definition published_sent :: "outbox \<Rightarrow> bool" where
  "published_sent s \<longleftrightarrow> (\<forall>r \<in> set (ob_rows s). o_published r \<noteq> None \<longrightarrow> o_id r \<in> o_id ` set (ob_sent s))"

lemma process_published_sent:
  assumes "published_sent s"
  shows "published_sent (fst (process_outbox w n now s))"
proof -
  obtain s' k where p: "process_outbox w n now s = (s', k)" by (cases "process_outbox w n now s")
  from relay_exact [OF p] have sent: "o_id ` set (ob_sent s') = o_id ` set (ob_sent s)
      \<union> o_id ` {r \<in> set (batch n (ob_rows s)). rw_publish w r}"
    and rows: "ob_rows s' = ob_rows s \<or> ob_rows s' = map (\<lambda>r.
         if o_id r \<in> o_id ` {r \<in> set (batch n (ob_rows s)). rw_publish w r \<and> rw_update w r}
         then r\<lparr>o_published := Some now\<rparr> else r) (ob_rows s)"
    by (auto simp: image_Un)
  have "o_id r \<in> o_id ` set (ob_sent s')" if r: "r \<in> set (ob_rows s')" "o_published r \<noteq> None" for r
  proof (cases "r \<in> set (ob_rows s)")
    case True
    with assms r(2) show ?thesis unfolding sent by (auto simp: published_sent_def)
  next
    case False
    with rows r(1) obtain q where q: "q \<in> set (ob_rows s)" "o_id r = o_id q"
      "o_id q \<in> o_id ` {r \<in> set (batch n (ob_rows s)). rw_publish w r \<and> rw_update w r}"
      by (auto split: if_splits)
    then show ?thesis unfolding sent by auto
  qed
  then show ?thesis by (simp add: published_sent_def p)
qed

theorem published_rows_were_sent:
  assumes "\<forall>r \<in> set (ob_rows s). o_published r = None"
  shows "\<forall>r \<in> set (ob_rows (relay_runs ws n s)). o_published r \<noteq> None \<longrightarrow> o_id r \<in> o_id ` set (ob_sent (relay_runs ws n s))"
proof -
  have "published_sent s \<Longrightarrow> published_sent (relay_runs ws n s)" for s
    by (induction ws n s rule: relay_runs.induct) (simp_all add: process_published_sent)
  moreover have "published_sent s" using assms by (simp add: published_sent_def)
  ultimately show ?thesis by (simp add: published_sent_def)
qed

theorem published_rows_were_sent_witness:
  "\<forall>r \<in> set (ob_rows (relay_runs [(fine_world, 7)] 50 \<lparr>ob_rows = [demo_row ''a''], ob_sent = []\<rparr>)).
     o_published r \<noteq> None \<longrightarrow> o_id r \<in> o_id ` set (ob_sent (relay_runs [(fine_world, 7)] 50 \<lparr>ob_rows = [demo_row ''a''], ob_sent = []\<rparr>))"
  by (rule published_rows_were_sent) (simp add: demo_row_def)

text \<open>
  Delivery is at least once: a batch that is sent but not committed is sent again.
\<close>

theorem lost_commit_sends_again:
  "map o_id (ob_sent (relay_runs [(fine_world\<lparr>rw_commit := False\<rparr>, 7), (fine_world, 8)] 50
     \<lparr>ob_rows = [demo_row ''a''], ob_sent = []\<rparr>)) = [''a'', ''a'']"
  by code_simp

text \<open>
  Attempts are not counted: as many rows as a batch holds that can never be published keep
  everything behind them from being sent, for ever.
\<close>

lemma blocked_process:
  assumes "\<forall>r \<in> set (batch n (ob_rows s)). \<not> rw_publish w r"
  shows "fst (process_outbox w n now s) = s"
proof -
  obtain s' k where p: "process_outbox w n now s = (s', k)" by (cases "process_outbox w n now s")
  have "filter (rw_publish w) (batch n (ob_rows s)) = []"
    "filter (\<lambda>r. rw_publish w r \<and> rw_update w r) (batch n (ob_rows s)) = []"
    using assms by (auto simp: filter_empty_conv)
  with relay_exact [OF p] have "ob_sent s' = ob_sent s" "ob_rows s' = ob_rows s" by simp_all
  then show ?thesis by (simp add: p)
qed

theorem poisoned_batch_blocks:
  assumes "\<forall>r \<in> set (batch n (ob_rows s)). \<forall>w \<in> set (map fst ws). \<not> rw_publish w r"
  shows "relay_runs ws n s = s"
  using assms
proof (induction ws)
  case (Cons x ws)
  then show ?case using blocked_process [of n s "fst x" "snd x"] by (cases x) simp
qed simp

theorem poisoned_batch_blocks_witness:
  "relay_runs (replicate 3 (\<lparr>rw_publish = (\<lambda>r. o_id r = ''c''), rw_update = (\<lambda>_. True), rw_commit = True\<rparr>, 0)) 2
     \<lparr>ob_rows = [demo_row ''a'', demo_row ''b'', demo_row ''c''], ob_sent = []\<rparr>
   = \<lparr>ob_rows = [demo_row ''a'', demo_row ''b'', demo_row ''c''], ob_sent = []\<rparr>"
  by (rule poisoned_batch_blocks) (simp add: batch_def demo_row_def)

section \<open>Version numbers\<close>

fun snapshots :: "string \<Rightarrow> json dict list \<Rightarrow> version_row list \<Rightarrow> version_row list" where
  "snapshots c [] rows = rows"
| "snapshots c (x # xs) rows = snapshots c xs (fst (snapshot_capability_version c x rows))"

definition history_of :: "string \<Rightarrow> version_row list \<Rightarrow> (nat \<times> json dict \<times> bool) list" where
  "history_of c rows = map (\<lambda>r. (v_version r, v_snapshot r, v_active r)) (filter (\<lambda>r. v_capability r = c) rows)"

lemma latest_history: "latest_version c rows = fold max (map fst (history_of c rows)) 0"
  by (simp add: latest_version_def history_of_def comp_def)

lemma fold_max_upt: "fold max [1..<Suc n] 0 = n"
  by (induction n) simp_all

lemma history_write:
  "history_of c (write_version d v x rows) = (if c = d
     then map (\<lambda>(n, y, b). (n, y, False)) (history_of c rows) @ [(v, x, True)] else history_of c rows)"
proof -
  have "history_of c (map (\<lambda>r. if v_capability r = d then r\<lparr>v_active := False\<rparr> else r) rows)
      = (if c = d then map (\<lambda>(n, y, b). (n, y, False)) (history_of c rows) else history_of c rows)"
    by (induction rows) (auto simp: history_of_def)
  then show ?thesis by (auto simp: history_of_def write_version_def)
qed

lemma snapshots_snoc: "snapshots c (xs @ [x]) rows = fst (snapshot_capability_version c x (snapshots c xs rows))"
  by (induction xs arbitrary: rows) simp_all

text \<open>
  Snapshots taken one after the other number the versions of a capability without gaps, keep them
  all, have only the last one active, and leave other capabilities alone.
\<close>

theorem versions_consecutive:
  assumes "history_of c rows = []"
  shows "map fst (history_of c (snapshots c xs rows)) = [1..<Suc (length xs)]
    \<and> map (fst \<circ> snd) (history_of c (snapshots c xs rows)) = xs
    \<and> list_all (\<lambda>(v, x, act). act \<longleftrightarrow> v = length xs) (history_of c (snapshots c xs rows))
    \<and> (d \<noteq> c \<longrightarrow> history_of d (snapshots c xs rows) = history_of d rows)"
proof (induction xs rule: rev_induct)
  case (snoc x xs)
  let ?r = "snapshots c xs rows"
  from snoc have h: "map fst (history_of c ?r) = [1..<Suc (length xs)]" "map (fst \<circ> snd) (history_of c ?r) = xs"
    "d \<noteq> c \<Longrightarrow> history_of d ?r = history_of d rows" by blast+
  have lv: "latest_version c ?r = length xs" by (simp only: latest_history h(1) fold_max_upt)
  let ?h = "map (\<lambda>(n, y, b). (n, y, False)) (history_of c ?r)"
  have hh: "history_of c (snapshots c (xs @ [x]) rows) = ?h @ [(Suc (length xs), x, True)]"
    "d \<noteq> c \<Longrightarrow> history_of d (snapshots c (xs @ [x]) rows) = history_of d ?r"
    by (simp_all add: snapshots_snoc snapshot_capability_version_def Let_def lv history_write)
  have f: "map fst ?h = map fst (history_of c ?r)" "map (fst \<circ> snd) ?h = map (fst \<circ> snd) (history_of c ?r)"
    by (simp_all add: comp_def case_prod_unfold)
  have "n < Suc (length xs)" if "(n, y, b) \<in> set (history_of c ?r)" for n y b
  proof -
    have "n \<in> set (map fst (history_of c ?r))" using that by force
    then show ?thesis unfolding h(1) by auto
  qed
  then have l: "list_all (\<lambda>(v, x, act). act \<longleftrightarrow> v = Suc (length xs)) ?h" by (fastforce simp: list_all_iff)
  show ?case
  proof (intro conjI impI)
    show "map fst (history_of c (snapshots c (xs @ [x]) rows)) = [1..<Suc (length (xs @ [x]))]"
      unfolding hh(1) map_append f(1) h(1) by simp
    show "map (fst \<circ> snd) (history_of c (snapshots c (xs @ [x]) rows)) = xs @ [x]"
      unfolding hh(1) map_append f(2) h(2) by simp
    show "list_all (\<lambda>(v, y, act). act \<longleftrightarrow> v = length (xs @ [x])) (history_of c (snapshots c (xs @ [x]) rows))"
      unfolding hh(1) list_all_append using l by simp
    show "d \<noteq> c \<Longrightarrow> history_of d (snapshots c (xs @ [x]) rows) = history_of d rows" using hh(2) h(3) by simp
  qed
qed (use assms in simp)

theorem versions_consecutive_witness:
  "map fst (history_of ''c'' (snapshots ''c'' [[], [(''x'', JNull)]] [])) = [1, 2]"
  using versions_consecutive [of "''c''" "[]" "[[], [(''x'', JNull)]]"] by (simp add: history_of_def numeral_2_eq_2)

text \<open>Two snapshots that both read before either writes get the same number.\<close>

theorem racing_snapshots_share_number:
  "(let v = Suc (latest_version ''c'' []) in
     map fst (history_of ''c'' (write_version ''c'' v [] (write_version ''c'' v [] []))) = [1, 1])"
  by code_simp

end
