(* ===== verification/Artifact_Graph.thy ===== *)
theory Artifact_Graph
  imports Prelude
begin

text \<open>
  \<open>artifacts/graph.py\<close>: the artifacts of a turn by id, with an index by type and one by
  execution, and one such graph per session.  An artifact is its id, type, execution and payload;
  a looked-up graph that does not exist yet is created by the lookup.
\<close>

section \<open>One graph\<close>

record artifact =
  a_id :: string
  a_type :: string
  a_execution :: string
  a_payload :: "json dict"

record artifact_graph =
  ag_all :: "(string \<times> artifact) list"
  ag_by_type :: "(string \<times> string list) list"
  ag_by_execution :: "(string \<times> string list) list"

definition empty_graph :: artifact_graph where
  "empty_graph = \<lparr>ag_all = [], ag_by_type = [], ag_by_execution = []\<rparr>"

text \<open>\<open>index.setdefault(key, []).append(i)\<close>.\<close>

definition index_add :: "string \<Rightarrow> string \<Rightarrow> (string \<times> string list) list \<Rightarrow> (string \<times> string list) list" where
  "index_add key i ix = AList.update key (dict_get ix key [] @ [i]) ix"

definition register :: "artifact \<Rightarrow> artifact_graph \<Rightarrow> artifact_graph" where
  "register a g = \<lparr>ag_all = AList.update (a_id a) a (ag_all g),
     ag_by_type = index_add (a_type a) (a_id a) (ag_by_type g),
     ag_by_execution = (if a_execution a = [] then ag_by_execution g
       else index_add (a_execution a) (a_id a) (ag_by_execution g))\<rparr>"

definition get_artifact :: "string \<Rightarrow> artifact_graph \<Rightarrow> artifact option" where
  "get_artifact i g = map_of (ag_all g) i"

definition found :: "artifact_graph \<Rightarrow> string list \<Rightarrow> artifact list" where
  "found g ids = List.map_filter (\<lambda>i. map_of (ag_all g) i) ids"

definition get_by_type :: "string \<Rightarrow> artifact_graph \<Rightarrow> artifact list" where
  "get_by_type t g = found g (dict_get (ag_by_type g) t [])"

definition get_by_execution :: "string \<Rightarrow> artifact_graph \<Rightarrow> artifact list" where
  "get_by_execution x g = found g (dict_get (ag_by_execution g) x [])"

definition all_artifacts :: "artifact_graph \<Rightarrow> artifact list" where
  "all_artifacts g = map snd (ag_all g)"

section \<open>A graph per session\<close>

type_synonym graphs = "(string \<times> artifact_graph) list"

definition graph_key :: "string \<Rightarrow> string" where
  "graph_key s = (if s = [] then ''_default'' else s)"

definition get_artifact_graph :: "string \<Rightarrow> graphs \<Rightarrow> graphs \<times> artifact_graph" where
  "get_artifact_graph s gs = (case map_of gs (graph_key s) of
     Some g \<Rightarrow> (gs, g) | None \<Rightarrow> (AList.update (graph_key s) empty_graph gs, empty_graph))"

definition register_in :: "string \<Rightarrow> artifact \<Rightarrow> graphs \<Rightarrow> graphs" where
  "register_in s a gs = (let (gs', g) = get_artifact_graph s gs in AList.update (graph_key s) (register a g) gs')"

definition reset_artifact_graph :: "string \<Rightarrow> graphs \<Rightarrow> graphs" where
  "reset_artifact_graph s gs = filter (\<lambda>p. fst p \<noteq> graph_key s) gs"

definition reset_all_artifact_graphs :: "graphs \<Rightarrow> graphs" where
  "reset_all_artifact_graphs gs = []"

section \<open>The indexes\<close>

text \<open>Registrations into an empty graph.\<close>

definition registered :: "artifact list \<Rightarrow> artifact_graph" where
  "registered as = foldl (\<lambda>g a. register a g) empty_graph as"

lemma registered_snoc: "registered (as @ [a]) = register a (registered as)"
  by (simp add: registered_def)

lemma registered_nil [simp]:
  "ag_all (registered []) = []" "ag_by_type (registered []) = []" "ag_by_execution (registered []) = []"
  by (simp_all add: registered_def empty_graph_def)

lemma dict_get_index [simp]:
  "dict_get (index_add key i ix) k [] = dict_get ix k [] @ (if k = key then [i] else [])"
  by (simp add: index_add_def dict_get_update)

lemma registered_ids:
  "dict_get (ag_by_type (registered as)) t [] = map a_id (filter (\<lambda>a. a_type a = t) as)"
  "x \<noteq> [] \<Longrightarrow> dict_get (ag_by_execution (registered as)) x [] = map a_id (filter (\<lambda>a. a_execution a = x) as)"
  by (induction as rule: rev_induct) (auto simp: registered_snoc register_def dict_get_None)

lemma registered_keys: "fst ` set (ag_all (registered as)) = a_id ` set as"
  by (induction as rule: rev_induct) (auto simp: registered_snoc register_def keys_update)

lemma registered_all: "distinct (map a_id as) \<Longrightarrow> ag_all (registered as) = map (\<lambda>a. (a_id a, a)) as"
proof (induction as rule: rev_induct)
  case (snoc a as)
  then have "a_id a \<notin> fst ` set (map (\<lambda>a. (a_id a, a)) as)" by auto
  then have "AList.update (a_id a) a (map (\<lambda>a. (a_id a, a)) as) = map (\<lambda>a. (a_id a, a)) as @ [(a_id a, a)]"
    by (induction as) auto
  with snoc show ?case by (simp add: registered_snoc register_def)
qed simp

lemma found_registered:
  assumes "distinct (map a_id as)" and "set bs \<subseteq> set as"
  shows "found (registered as) (map a_id bs) = bs"
  using assms(2)
proof (induction bs)
  case (Cons b bs)
  have "distinct (map fst (map (\<lambda>a. (a_id a, a)) as))" using assms(1) by (simp add: comp_def)
  moreover have "(a_id b, b) \<in> set (map (\<lambda>a. (a_id a, a)) as)" using Cons.prems by auto
  ultimately have "map_of (map (\<lambda>a. (a_id a, a)) as) (a_id b) = Some b" by simp
  with Cons show ?case by (simp add: found_def registered_all [OF assms(1)] List.map_filter_simps)
qed (simp add: found_def List.map_filter_simps)

text \<open>
  When ids are not reused, the indexes answer what a search through all artifacts would, in the
  order of registration.
\<close>

theorem indexes_exact:
  assumes "distinct (map a_id as)"
  shows "all_artifacts (registered as) = as
    \<and> get_by_type t (registered as) = filter (\<lambda>a. a_type a = t) as
    \<and> (x \<noteq> [] \<longrightarrow> get_by_execution x (registered as) = filter (\<lambda>a. a_execution a = x) as)
    \<and> (a \<in> set as \<longrightarrow> get_artifact (a_id a) (registered as) = Some a)"
proof (intro conjI impI)
  show "all_artifacts (registered as) = as" by (simp add: all_artifacts_def registered_all [OF assms] comp_def)
  show "get_by_type t (registered as) = filter (\<lambda>a. a_type a = t) as"
    unfolding get_by_type_def registered_ids by (rule found_registered [OF assms]) auto
  show "get_by_execution x (registered as) = filter (\<lambda>a. a_execution a = x) as" if "x \<noteq> []"
    unfolding get_by_execution_def registered_ids(2) [OF that] by (rule found_registered [OF assms]) auto
  show "get_artifact (a_id a) (registered as) = Some a" if "a \<in> set as"
    using found_registered [OF assms, of "[a]"] that
    by (simp add: found_def get_artifact_def List.map_filter_simps split: option.splits)
qed

definition demo_artifact :: "string \<Rightarrow> string \<Rightarrow> artifact" where
  "demo_artifact i t = \<lparr>a_id = i, a_type = t, a_execution = ''e'', a_payload = []\<rparr>"

theorem indexes_exact_witness:
  "get_by_type ''weather'' (registered [demo_artifact ''1'' ''weather'', demo_artifact ''2'' ''news'', demo_artifact ''3'' ''weather''])
     = [demo_artifact ''1'' ''weather'', demo_artifact ''3'' ''weather'']"
  using indexes_exact [of "[demo_artifact ''1'' ''weather'', demo_artifact ''2'' ''news'', demo_artifact ''3'' ''weather'']" "''weather''"]
  by (simp add: demo_artifact_def)

text \<open>Registering an artifact again lists it twice, and keeps it under a type it no longer has.\<close>

theorem registered_again_listed_twice:
  "get_by_type ''weather'' (registered [demo_artifact ''1'' ''weather'', demo_artifact ''1'' ''weather''])
     = [demo_artifact ''1'' ''weather'', demo_artifact ''1'' ''weather'']
   \<and> get_by_type ''weather'' (registered [demo_artifact ''1'' ''weather'', demo_artifact ''1'' ''news'']) = [demo_artifact ''1'' ''news'']"
  by code_simp

section \<open>Sessions\<close>

lemma lookup_register_in:
  "map_of (register_in s a gs) k = (if k = graph_key s
     then Some (register a (snd (get_artifact_graph s gs))) else map_of gs k)"
  by (simp add: register_in_def get_artifact_graph_def map_of_update split: option.split)

text \<open>
  Sessions are isolated: what one session registers or resets is not seen by another, unless one of
  them has no id and the other is called \<open>_default\<close>.
\<close>

theorem sessions_isolated:
  assumes "graph_key s \<noteq> graph_key s'"
  shows "snd (get_artifact_graph s' (register_in s a gs)) = snd (get_artifact_graph s' gs)
    \<and> snd (get_artifact_graph s' (reset_artifact_graph s gs)) = snd (get_artifact_graph s' gs)
    \<and> snd (get_artifact_graph s (reset_artifact_graph s gs)) = empty_graph"
proof -
  have "map_of (filter (\<lambda>p. fst p \<noteq> graph_key s) gs) k = (if k = graph_key s then None else map_of gs k)" for k
    using map_of_filter_key [of "\<lambda>x. x \<noteq> graph_key s" gs k] by (simp add: case_prod_unfold)
  with assms show ?thesis
    by (auto simp: get_artifact_graph_def lookup_register_in reset_artifact_graph_def split: option.split)
qed

theorem sessions_isolated_witness:
  "snd (get_artifact_graph ''bob'' (register_in ''alice'' (demo_artifact ''1'' ''weather'') [])) = empty_graph"
proof -
  have "graph_key ''alice'' \<noteq> graph_key ''bob''" by (simp add: graph_key_def)
  from sessions_isolated [OF this, of "demo_artifact ''1'' ''weather''" "[]"] show ?thesis
    by (simp add: get_artifact_graph_def)
qed

end
