(* ===== verification/Context_Window.thy ===== *)
theory Context_Window
  imports Prelude "HOL-Library.Sublist"
begin

text \<open>
  \<open>sessions/context_window.py\<close>: which messages of a session the model is shown.  The token count
  of a text and the summary the model writes are parameters.  The content of a message is a
  dictionary (\<open>None\<close> is an empty one) and its tool calls are a list (\<open>None\<close> is an empty one).
\<close>

section \<open>Messages\<close>

record chat_message =
  cm_id :: string
  cm_role :: string
  cm_content :: "json dict"
  cm_calls :: "json dict list"

definition text_of :: "(rat \<Rightarrow> string) \<Rightarrow> json \<Rightarrow> string" where
  "text_of fs v = (if truthy v then py_str fs v else [])"

definition call_name :: "(rat \<Rightarrow> string) \<Rightarrow> json dict \<Rightarrow> string" where
  "call_name fs c = (case dict_get c ''function'' (JDict []) of
     JDict f \<Rightarrow> py_str fs (dict_get f ''name'' (JStr ''?'')) | _ \<Rightarrow> ''?'')"

definition message_to_text :: "(rat \<Rightarrow> string) \<Rightarrow> chat_message \<Rightarrow> string" where
  "message_to_text fs m = (let t = dict_get (cm_content m) ''text'' JNull;
       shown = (if truthy t then t else dict_get (cm_content m) ''content'' JNull) in
     cm_role m @ '': '' @ text_of fs shown
     @ (if cm_calls m = [] then [] else '' [tool_calls: '' @ py_join '', '' (map (call_name fs) (cm_calls m)) @ '']''))"

definition messages_token_count :: "(rat \<Rightarrow> string) \<Rightarrow> (string \<Rightarrow> nat) \<Rightarrow> chat_message list \<Rightarrow> nat" where
  "messages_token_count fs tokens ms = sum_list (map (\<lambda>m. tokens (message_to_text fs m)) ms)"

text \<open>The entry for the model; a tool message without the id of its call and without calls raises.\<close>

definition message_to_openai :: "chat_message \<Rightarrow> (string \<times> json) list option" where
  "message_to_openai m = (let base = [(''role'', JStr (cm_role m)), (''content'', dict_get (cm_content m) ''text'' JNull)]
       @ (if cm_calls m = [] then [] else [(''tool_calls'', JList (map JDict (cm_calls m)))]) in
     if cm_role m \<noteq> ''tool'' then Some base
     else (let i = dict_get (cm_content m) ''tool_call_id'' JNull in
       if truthy i then Some (base @ [(''tool_call_id'', i)])
       else (case cm_calls m of [] \<Rightarrow> None | c # _ \<Rightarrow>
         (case map_of c ''id'' of None \<Rightarrow> None | Some v \<Rightarrow> Some (base @ [(''tool_call_id'', v)])))))"

fun all_some :: "'a option list \<Rightarrow> 'a list option" where
  "all_some [] = Some []"
| "all_some (None # xs) = None"
| "all_some (Some x # xs) = map_option ((#) x) (all_some xs)"

section \<open>Selection\<close>

definition message_refs :: "json dict list \<Rightarrow> string list" where
  "message_refs plan = concat (map (\<lambda>s. case dict_get s ''inputs'' JNull of
     JDict d \<Rightarrow> concat (map (\<lambda>p. case snd p of JStr t \<Rightarrow> if starts_with ''msg:'' t then [drop 4 t] else [] | _ \<Rightarrow> []) d)
   | _ \<Rightarrow> []) plan)"

definition identify_preserved :: "nat \<Rightarrow> chat_message list \<Rightarrow> json dict list \<Rightarrow> nat \<Rightarrow> bool" where
  "identify_preserved last_n ms plan i = (let m = ms ! i in
     cm_role m = ''system'' \<and> dict_get (cm_content m) ''kind'' JNull \<noteq> JStr ''summary''
     \<or> length ms - last_n \<le> i
     \<or> cm_calls m \<noteq> []
     \<or> cm_id m \<in> set (message_refs plan))"

definition split_messages :: "nat \<Rightarrow> chat_message list \<Rightarrow> json dict list \<Rightarrow> chat_message list \<times> chat_message list" where
  "split_messages last_n ms plan =
    (let keep = filter (identify_preserved last_n ms plan) [0..<length ms];
         rest = filter (\<lambda>i. \<not> identify_preserved last_n ms plan i) [0..<length ms] in
     (map ((!) ms) keep, map ((!) ms) rest))"

definition summary_message :: "string \<Rightarrow> chat_message" where
  "summary_message s = \<lparr>cm_id = [], cm_role = ''system'', cm_content = [(''text'', JStr s), (''kind'', JStr ''summary'')],
     cm_calls = []\<rparr>"

text \<open>The text that is summarised.\<close>

definition full_text :: "(rat \<Rightarrow> string) \<Rightarrow> chat_message list \<Rightarrow> string" where
  "full_text fs ms = py_join [CHR 0x0A] (map (message_to_text fs) ms)"

definition chosen ::
  "(rat \<Rightarrow> string) \<Rightarrow> (string \<Rightarrow> nat) \<Rightarrow> (string \<Rightarrow> string) \<Rightarrow> nat \<Rightarrow> nat \<Rightarrow> chat_message list \<Rightarrow> json dict list
     \<Rightarrow> chat_message list" where
  "chosen fs tokens summarize threshold last_n ms plan =
    (if messages_token_count fs tokens ms \<le> threshold then ms
     else (let (keep, rest) = split_messages last_n ms plan in
       if rest = [] then ms else summary_message (summarize (full_text fs rest)) # keep))"

definition assemble ::
  "(rat \<Rightarrow> string) \<Rightarrow> (string \<Rightarrow> nat) \<Rightarrow> (string \<Rightarrow> string) \<Rightarrow> nat \<Rightarrow> nat \<Rightarrow> chat_message list \<Rightarrow> json dict list
     \<Rightarrow> (string \<times> json) list list option" where
  "assemble fs tokens summarize threshold last_n ms plan =
     all_some (map message_to_openai (chosen fs tokens summarize threshold last_n ms plan))"

section \<open>Lemmas\<close>

lemma mset_split: "mset (map f (filter P xs)) + mset (map f (filter (\<lambda>x. \<not> P x) xs)) = mset (map f xs)"
  by (induction xs) auto

lemma split_mset: "split_messages n ms plan = (keep, rest) \<Longrightarrow> mset keep + mset rest = mset ms"
  using mset_split [of "(!) ms" "identify_preserved n ms plan" "[0..<length ms]"]
  by (simp only: split_messages_def Let_def prod.inject map_nth)

lemma upt_filter_tail:
  assumes "m \<le> n" and "\<And>i. m \<le> i \<Longrightarrow> P i"
  shows "filter P [0..<n] = filter P [0..<m] @ [m..<n]"
proof -
  have "[0..<n] = [0..<m] @ [m..<n]" using upt_add_eq_append [of 0 m "n - m"] assms(1) by simp
  moreover have "filter P [m..<n] = [m..<n]" using assms(2) by (auto simp: filter_id_conv)
  ultimately show ?thesis by simp
qed

section \<open>Properties\<close>

text \<open>
  No message is lost: each is shown as it is or is part of the text that is summarised, and those
  shown keep their order.
\<close>

theorem messages_shown_or_summarised:
  assumes "threshold < messages_token_count fs tokens ms" and "split_messages n ms plan = (keep, rest)"
  shows "mset keep + mset rest = mset ms \<and> subseq keep ms
    \<and> chosen fs tokens summarize threshold n ms plan
        = (if rest = [] then ms else summary_message (summarize (full_text fs rest)) # keep)"
proof (intro conjI)
  show "mset keep + mset rest = mset ms" by (rule split_mset [OF assms(2)])
  have "subseq keep (map ((!) ms) [0..<length ms])"
    using assms(2) by (auto simp: split_messages_def Let_def intro: subseq_map subseq_filter_left)
  then show "subseq keep ms" by (simp add: map_nth)
  show "chosen fs tokens summarize threshold n ms plan
      = (if rest = [] then ms else summary_message (summarize (full_text fs rest)) # keep)"
    using assms by (simp add: chosen_def)
qed

text \<open>The last messages are shown verbatim, at the end, in order.\<close>

theorem recent_messages_verbatim:
  assumes "n \<le> length ms"
  shows "\<exists>front. chosen fs tokens summarize threshold n ms plan = front @ drop (length ms - n) ms"
proof -
  obtain keep rest where s: "split_messages n ms plan = (keep, rest)" by (cases "split_messages n ms plan")
  let ?P = "identify_preserved n ms plan"
  let ?m = "length ms - n"
  have "filter ?P [0..<length ms] = filter ?P [0..<?m] @ [?m..<length ms]"
    by (rule upt_filter_tail) (auto simp: identify_preserved_def Let_def)
  moreover have "map ((!) ms) [?m..<length ms] = drop ?m ms"
    by (rule nth_equalityI) simp_all
  ultimately have "keep = map ((!) ms) (filter ?P [0..<?m]) @ drop ?m ms"
    using s by (auto simp: split_messages_def Let_def)
  then have "chosen fs tokens summarize threshold n ms plan \<in> {take ?m ms @ drop ?m ms,
      (summary_message (summarize (full_text fs rest)) # map ((!) ms) (filter ?P [0..<?m])) @ drop ?m ms}"
    using s by (simp add: chosen_def)
  then show ?thesis by blast
qed

definition calling :: chat_message where
  "calling = \<lparr>cm_id = ''1'', cm_role = ''assistant'', cm_content = [(''text'', JStr ''looking'')],
     cm_calls = [[(''id'', JStr ''c1''), (''function'', JDict [(''name'', JStr ''weather'')])]]\<rparr>"

definition answering :: chat_message where
  "answering = \<lparr>cm_id = ''2'', cm_role = ''tool'', cm_content = [(''text'', JStr ''sunny''), (''tool_call_id'', JStr ''c1'')],
     cm_calls = []\<rparr>"

definition said :: "string \<Rightarrow> chat_message" where
  "said t = \<lparr>cm_id = t, cm_role = ''user'', cm_content = [(''text'', JStr t)], cm_calls = []\<rparr>"

text \<open>
  Old messages with tool calls are kept while the answers to the calls are summarised away: the
  model is shown a call without its result.
\<close>

theorem call_shown_without_answer:
  "chosen (\<lambda>_. []) length (\<lambda>_. ''s'') 10 1 [calling, answering, said ''thanks''] []
     = [summary_message ''s'', calling, said ''thanks'']"
  by code_simp

text \<open>
  Nothing checks the result: when the recent messages alone exceed the threshold, the messages
  shown exceed it too.
\<close>

theorem summary_may_not_help:
  "10 < messages_token_count (\<lambda>_. []) length
     (chosen (\<lambda>_. []) length (\<lambda>_. ''s'') 10 1 [said ''hi'', said ''a long question''] [])"
  by code_simp

text \<open>Text stored under \<open>content\<close> is counted and summarised, but shown as nothing.\<close>

theorem content_key_not_shown:
  "message_to_text (\<lambda>_. []) (said ''x''\<lparr>cm_content := [(''content'', JStr ''hello'')]\<rparr>) = ''user: hello''
   \<and> message_to_openai (said ''x''\<lparr>cm_content := [(''content'', JStr ''hello'')]\<rparr>) = Some [(''role'', JStr ''user''), (''content'', JNull)]"
  by code_simp

text \<open>A tool message without the id of its call and without calls makes the whole window fail.\<close>

lemma all_some_None: "None \<in> set xs \<Longrightarrow> all_some xs = None"
  by (induction xs rule: all_some.induct) auto

theorem nameless_tool_message_raises:
  assumes "m \<in> set ms" and "cm_role m = ''tool''" and "cm_calls m = []"
    and "\<not> truthy (dict_get (cm_content m) ''tool_call_id'' JNull)" and "messages_token_count fs tokens ms \<le> threshold"
  shows "assemble fs tokens summarize threshold n ms plan = None"
proof -
  have "message_to_openai m = None" using assms(2-4) by (simp add: message_to_openai_def Let_def)
  then have "None \<in> set (map message_to_openai ms)" using assms(1) by force
  then show ?thesis using assms(5) by (simp add: assemble_def chosen_def all_some_None)
qed

theorem nameless_tool_message_raises_witness:
  "assemble (\<lambda>_. []) length (\<lambda>_. ''s'') 1000 20 [said ''x'', answering\<lparr>cm_content := []\<rparr>] [] = None"
  by (rule nameless_tool_message_raises [of "answering\<lparr>cm_content := []\<rparr>"]) (simp_all, code_simp+)

theorem messages_shown_or_summarised_witness:
  "chosen (\<lambda>_. []) length (\<lambda>_. ''s'') 10 1 [said ''hi'', said ''a long question''] []
     = [summary_message ''s'', said ''a long question'']"
proof -
  have "10 < messages_token_count (\<lambda>_. []) length [said ''hi'', said ''a long question'']"
    "split_messages 1 [said ''hi'', said ''a long question''] [] = ([said ''a long question''], [said ''hi''])" by code_simp+
  from messages_shown_or_summarised [OF this, of "\<lambda>_. ''s''"] show ?thesis by simp
qed

theorem recent_messages_verbatim_witness:
  "\<exists>front. chosen (\<lambda>_. []) length (\<lambda>_. ''s'') 10 1 [calling, said ''thanks''] [] = front @ drop (2 - 1) [calling, said ''thanks'']"
  using recent_messages_verbatim [of 1 "[calling, said ''thanks'']" "\<lambda>_. []" length "\<lambda>_. ''s''" 10 "[]"] by simp

end
