(* ===== verification/Spec2Isabelle.thy ===== *)
theory Spec2Isabelle
  imports Pass_Manager Codegen Ledger Circuit_Breaker Tasks Recovery Rate_Limit Artifacts Placeholders Executor Approval Executor_Node Background Aggregation Tool_Executor Binder Task_Queue Plan_Cache Outbox Artifact_Graph Context_Window
begin

text \<open>
  A model of the execution core of Nexus Agent (\<open>src/nexus-agent/src/nexus\<close>), a Python
  service that turns a chat message into a plan of tool calls, compiles it, and executes it.

  The parts and how they work together.  A turn starts in \<open>agent/runner.py\<close>, which merges the
  initial state into the checkpoint of the session and enters the agent graph of
  \<open>agent/graph.py\<close>.  A planner (a language model, not modelled) writes a logical workflow, and the
  plan validator checks it against the registry and the intents of the query, asking for repairs
  within bounds.  The code generator \<open>compiler/codegen.py\<close> turns it into a graph of physical nodes with waves, asking
  the capability resolver for endpoints; the passes under \<open>compiler/passes\<close> rewrite the graph
  until nothing changes.  The estimator computes cost and latency, the validation node and the
  approval gate decide whether the plan may run, and the executor node hands the tasks to
  \<open>agent/executors/concurrent_executor.py\<close>, which resolves placeholders, consults cache and
  ledger, calls the tools under circuit breakers and registers artifacts; \<open>tools/executor.py\<close>
  makes one call of one tool behind its gates.  Failures go through the
  recovery manager to a retry of a sub-graph (reflection), a new plan, or the end of the turn.
  Slow plans go to the task table and are run by a worker.

  Theories, in the order of the code they model:

    \<open>Prelude\<close>: Python values as JSON trees, dictionaries as association lists in insertion
      order, text operations, folds with errors, and the lemmas and collections all components use.
    \<open>IR\<close>, \<open>Waves\<close>: the node records of \<open>compiler/ir_models.py\<close>, execution keys, and
      both forms of Kahn's algorithm with soundness, completeness and minimality.
    \<open>Global_Context\<close>, \<open>Resolver\<close>, \<open>Codegen\<close>: the capability index, the scoring of
      endpoints, and compilation; every compiled graph is well-formed and scheduled soundly.
    \<open>Pass_Enrichment\<close>, \<open>Pass_Ordering\<close>, \<open>Pass_Dedup\<close>, \<open>Pass_Elimination\<close>,
      \<open>Pass_Fusion\<close>, \<open>Pass_Manager\<close>: one theory per optimiser pass, what it preserves
      and when it does not, and the fixpoint loop.
    \<open>Routing\<close>: the routing functions of the agent graph and the goals (\<open>agent/goals.py\<close>),
      a step relation over nodes and states with reachability by rule induction.
    \<open>Agent_Context\<close>: the versioned context, patches, and the node wrapper.
    \<open>Turn\<close>: the start of a turn, the message reducer, the run lock.
    \<open>Approval\<close>: the approval gate and the node that interprets the reply.
    \<open>Executor_Node\<close>, \<open>Background\<close>: which graph is executed, the fan-out of map nodes,
      the estimator, and the hand-over of slow plans to the worker.
    \<open>Aggregation\<close>: the reductions over results, and the node that runs them.
    \<open>Placeholders\<close>, \<open>Artifacts\<close>, \<open>Executor\<close>: references between tasks, the
      normalisation of results, and the life of one task and of a whole plan.
    \<open>Reflection\<close>, \<open>Recovery\<close>: validation before execution, the retry sub-graph,
      compensation, the budget and the classification of failures.
    \<open>Ledger\<close>, \<open>Tasks\<close>, \<open>Task_Queue\<close>, \<open>Circuit_Breaker\<close>, \<open>Rate_Limit\<close>: the
      shared services, each as a state with its atomic operations and their interleavings;
      \<open>Task_Queue\<close> composes the Redis queue with the worker and the task table.
    \<open>Tool_Inputs\<close>, \<open>Tool_Sandbox\<close>, \<open>Tool_Request\<close>, \<open>Tool_Executor\<close>:
      \<open>tools/executor.py\<close> and \<open>tools/sandbox.py\<close>, from the inputs of a call to its
      requests, redirects, retries and result; the network is a parameter.
    \<open>Conditions\<close>, \<open>Workflow\<close>: the condition evaluator and the turns of an interactive
      workflow (\<open>agent/nodes/interactive_workflow_node.py\<close>).
    \<open>Plan_Cycle\<close>, \<open>Intents\<close>, \<open>Plan_Validator\<close>: the cycle search, the
      intent detector and \<open>agent/nodes/plan_validator_node.py\<close> with its repair loop.
    \<open>Binder\<close>: \<open>compiler/binder.py\<close>, which connects the required inputs of a plan to the
      outputs of its other nodes before validation.
    \<open>Plan_Cache\<close>: the caches of plans and compiled graphs (\<open>compiler/cache.py\<close>).
    \<open>Artifact_Graph\<close>, \<open>Context_Window\<close>, \<open>Outbox\<close>: the artifacts of a session
      (\<open>artifacts/graph.py\<close>), the messages a model is shown
      (\<open>sessions/context_window.py\<close>), and the relay of events (\<open>events/service.py\<close>).
    This theory: properties that span the compiler and the executor.

  How the code is represented.  A class or row is a record, an enumeration a datatype, a Python
  exception a value of a sum or option type, a dictionary an association list.  The state of a turn
  is a dictionary of JSON values, and a node is a function from the state to the entries it
  updates.  Python integers are unbounded \<open>int\<close>; floating-point numbers are rationals, so
  rounding is not modelled; strings are lists of 8-bit characters.  Redis scripts and SQL
  statements are functions on the state of their key or table, and concurrent clients are sequences
  of such steps.  The tasks of a wave run one after the other, in an order that is a parameter;
  true interleaving is modelled at the ledger, the task table, the run lock and the limiters,
  where the tasks meet.

  Locales state the contracts between components (a schedule of a graph, a pass that keeps a
  property, a store of execution keys), and are interpreted on the model's own definitions.

  Parameters, standing for what is outside the source or cannot be computed here: digests and their
  canonical texts, the iteration order of sets, clocks, fresh ids and tokens, the answers of
  language models, tools and databases, the text of a float, JSONPath, and the wording of messages
  to the user.  Fuel occurs in the fixpoint loop of the pass manager, where it is the iteration
  limit of the settings and the theorems state what happens when it is used up, and in the
  depth-first search of \<open>Plan_Cycle\<close>, where the number of nodes is shown to be enough.

  What the groups of lemmas show.  Type and invariant properties: well-formedness of compiled and
  optimised graphs, routing inside the declared edges, uniqueness of outcomes, counters and budgets
  within their limits.  Safety: single execution under the ledger, leases and locks that exclude,
  approval before execution, isolation of cached results.  Refinement and equivalence: the sliding
  window against a full log, replays against the first result, the cycle
  search against acyclicity, compiler references against executor references.  Termination: waves, fixpoint,
  reflection and replanning.  Several theorems state behaviour that contradicts a comment or the
  evident purpose of the code; they are listed as findings with the development.

  Not modelled, and why.  Prompts, model calls and the parsing of model output (the planner, the
  semantic parser, the router's classification, response synthesis, memory consolidation) depend on
  text a model returns; where a modelled node consumes their result it is a parameter.  The HTTP
  API, authentication, session storage and repositories, the channels of the event bus, metrics, tracing and logging are
  input and output around the core.  The network and the MCP client are parameters of
  \<open>Tool_Executor\<close>, whose calls are the provider outcomes of \<open>Executor\<close>.  Registry compilation,
  retrieval by embeddings and the caches of compiled prompts rank text with vectors that the
  source obtains from elsewhere.  The settings are the parameters of the definitions that read them.
\<close>

section \<open>Compiler and executor agree on references\<close>

lemma wordy_takeWhile: "list_all is_word w \<Longrightarrow> takeWhile is_word (w @ ''.result'' @ t) = w"
  "list_all is_word w \<Longrightarrow> dropWhile is_word (w @ ''.result'' @ t) = ''.result'' @ t"
  by (induction w) (simp_all add: is_word_def)

lemma dollar_free: "list_all is_word w \<Longrightarrow> CHR ''$'' \<notin> set w"
  by (induction w) (auto simp: is_word_def)

lemma executor_reference_found:
  assumes "search_placeholder s = Some ph" and "list_all is_word (ph_ref ph)"
  shows "ph_ref ph \<in> set (find_refs s)"
  using assms
proof (induction s rule: find_refs.induct)
  case (2 c cs)
  let ?w = "takeWhile is_word (tl cs)"
  let ?rest = "dropWhile is_word (tl cs)"
  show ?case
  proof (cases "match_placeholder (c # cs)")
    case (Some m)
    with 2(4) have ph: "ph = m" by simp
    from Some have dollar: "starts_with ''${'' (c # cs)" by (auto simp: match_placeholder_def split: if_splits)
    then obtain cs' where cs: "c = CHR ''$''" "cs = CHR 0x7B # cs'" by (auto simp: starts_with_iff)
    from Some dollar ph obtain i f rest where "match_ref [] cs' = Some (ph_ref ph, i, f, rest)"
      by (auto simp: match_placeholder_def cs split: option.splits)
    from match_ref_split [OF this] obtain t where t: "ph_ref ph \<noteq> []" "cs' = ph_ref ph @ ''.result'' @ t" by auto
    from wordy_takeWhile [OF 2(5), of t] have "?w = ph_ref ph" "?rest = ''.result'' @ t"
      unfolding cs(2) t(2) by simp_all
    with t(1) dollar show ?thesis by (simp add: starts_with_def Let_def)
  next
    case None
    with 2(4) have rest: "search_placeholder cs = Some ph" by simp
    show ?thesis
    proof (cases "starts_with ''${'' (c # cs) \<and> ?w \<noteq> [] \<and> starts_with ''.result'' ?rest")
      case True
      then obtain cs' where cs: "cs = CHR 0x7B # cs'" by (auto simp: starts_with_iff)
      have w: "list_all is_word ?w" using set_takeWhileD by (fastforce simp: list_all_iff)
      obtain t where t: "?rest = ''.result'' @ t" using True by (auto simp: starts_with_iff)
      have "tl cs = ?w @ ''.result'' @ t"
        using takeWhile_dropWhile_id [of is_word "tl cs"] unfolding t by (rule sym)
      then have "cs = (CHR 0x7B # ?w @ ''.result'') @ t" using cs by (cases cs) simp_all
      moreover have "CHR ''$'' \<notin> set (CHR 0x7B # ?w @ ''.result'')" using dollar_free [OF w] by simp
      ultimately have "search_placeholder cs = search_placeholder t" by (metis search_skip)
      with rest have "search_placeholder t = Some ph" by simp
      moreover have "drop 7 ?rest = t" by (simp add: t)
      ultimately have "ph_ref ph \<in> set (find_refs (drop 7 ?rest))" using 2 True by metis
      with True show ?thesis by (simp add: Let_def)
    next
      case False
      then show ?thesis using 2 rest by (auto simp: Let_def)
    qed
  qed
qed simp

lemma leaf_references: "s \<in> set (string_leaves v) \<Longrightarrow> set (find_refs s) \<subseteq> set (scan_placeholders v)"
  by (induction v rule: scan_placeholders.induct) auto

text \<open>
  C8: Every reference of word characters that the executor looks up in a string anywhere in a node's
  inputs is wired by the compiler: if the reference names a node of the plan, the id of that node
  becomes a dependency.  The order in which the set of references is visited is the parameter
  \<open>ord\<close>.
\<close>

theorem executor_references_are_wired:
  assumes "s \<in> set (string_leaves (JDict ins))" and "search_placeholder s = Some ph" and "list_all is_word (ph_ref ph)"
    and "map_of r2i (ph_ref ph) = Some i" and "\<forall>xs. set (ord xs) = set xs"
  shows "i \<in> set (wire_deps ord r2i ins deps)"
proof -
  have "ph_ref ph \<in> set (scan_placeholders (JDict ins))"
    using executor_reference_found [OF assms(2,3)] leaf_references [OF assms(1)] by blast
  with assms(4,5) show ?thesis by (auto simp: set_wire_deps simp del: scan_placeholders.simps)
qed

theorem executor_references_are_wired_witness:
  "''task_1'' \<in> set (wire_deps (\<lambda>xs. xs) [(''geo'', ''task_1'')] [(''at'', JList [JStr ''x ${geo.result.lat} y''])] [])"
proof -
  have "search_placeholder ''x ${geo.result.lat} y''
      = Some \<lparr>ph_text = ''${geo.result.lat}'', ph_ref = ''geo'', ph_index = None, ph_field = Some ''lat''\<rparr>"
    by (simp add: match_placeholder_def starts_with_def after_result_def field_tail_def)
  from executor_references_are_wired [OF _ this, where ins = "[(''at'', JList [JStr ''x ${geo.result.lat} y''])]"
      and r2i = "[(''geo'', ''task_1'')]" and ord = "\<lambda>xs. xs"]
  show ?thesis by (simp add: is_word_def)
qed

text \<open>
  A reference with another character, a hyphen for instance, is looked up by the executor but not
  wired by the compiler: nothing makes its node run first.
\<close>

theorem hyphenated_reference_not_wired:
  "map_option ph_ref (search_placeholder ''${get-geo.result.lat}'') = Some ''get-geo''
   \<and> wire_deps (\<lambda>xs. xs) [(''get-geo'', ''task_1'')] [(''at'', JStr ''${get-geo.result.lat}'')] [] = []"
proof
  show "map_option ph_ref (search_placeholder ''${get-geo.result.lat}'') = Some ''get-geo''"
    by (simp add: match_placeholder_def starts_with_def after_result_def field_tail_def)
  show "wire_deps (\<lambda>xs. xs) [(''get-geo'', ''task_1'')] [(''at'', JStr ''${get-geo.result.lat}'')] [] = []"
    by code_simp
qed

end
